(* ===== verification/Prelude.thy ===== *)
theory Prelude
  imports Main "HOL-Library.Word" "HOL-Library.Sublist"
begin

text \<open>
  Shared vocabulary of the development: Go's byte strings and the functions of the packages
  \<^verbatim>\<open>strings\<close>, \<^verbatim>\<open>strconv\<close>, \<^verbatim>\<open>unicode/utf8\<close> and \<^verbatim>\<open>bufio\<close> that the sources call, Go's
  64-bit integers, string maps, and the generic facts about them that the component
  theories share.

  A Go \<^verbatim>\<open>string\<close> is a byte sequence, so it is modelled by \<^typ>\<open>string\<close> (a list of 8-bit
  characters). Case conversion (\<^verbatim>\<open>strings.ToLower\<close>, \<^verbatim>\<open>ToUpper\<close>) is modelled on ASCII; bytes
  from 128 on are left alone. Everything else here works on arbitrary bytes.

  A Go \<^verbatim>\<open>map[string]string\<close> is a map \<open>string \<rightharpoonup> string\<close>; the loop that copies one map into
  another is \<open>++\<close>.
\<close>

named_theorems strings_simps \<open>rewriting of the string library\<close>
named_theorems bounds_intros \<open>bounds on 64-bit quantities\<close>

type_synonym env_map = "string \<rightharpoonup> string"

abbreviation NL :: char where "NL \<equiv> CHR 0x0A"
abbreviation CR :: char where "CR \<equiv> CHR 0x0D"
abbreviation TAB :: char where "TAB \<equiv> CHR 0x09"

text \<open>Reading a map of strings the way Go does: a missing key reads as the empty string.\<close>

definition map_get :: "env_map \<Rightarrow> string \<Rightarrow> string" where
  "map_get m k = (case m k of None \<Rightarrow> [] | Some v \<Rightarrow> v)"

lemma find_SomeD: "find P xs = Some x \<Longrightarrow> x \<in> set xs \<and> P x"
  by (auto simp: find_Some_iff)

lemma find_NoneD: "find P xs = None \<Longrightarrow> x \<in> set xs \<Longrightarrow> \<not> P x"
  by (auto simp: find_None_iff)

lemma find_append: "find P (xs @ ys) = (case find P xs of None \<Rightarrow> find P ys | Some x \<Rightarrow> Some x)"
  by (induction xs) auto

section \<open>Go integers and durations\<close>

text \<open>\<open>int64\<close> reduces a mathematical integer to the signed 64-bit value Go's arithmetic yields.\<close>

definition int64 :: "int \<Rightarrow> int" where
  "int64 x = signed_take_bit 63 x"

lemma int64_id [simp]: "- (2 ^ 63) \<le> x \<Longrightarrow> x < 2 ^ 63 \<Longrightarrow> int64 x = x"
  by (simp add: int64_def signed_take_bit_int_eq_self)

lemma int64_range: "- (2 ^ 63) \<le> int64 x \<and> int64 x < 2 ^ 63"
  using signed_take_bit_int_greater_eq_minus_exp [of 63 x] signed_take_bit_int_less_exp [of 63 x]
  by (simp add: int64_def)

text \<open>Durations are nanoseconds.\<close>

abbreviation Millisecond :: int where "Millisecond \<equiv> 1000000"
abbreviation Second :: int where "Second \<equiv> 1000000000"
abbreviation Minute :: int where "Minute \<equiv> 60000000000"
abbreviation Hour :: int where "Hour \<equiv> 3600000000000"

section \<open>Package strings\<close>

definition HasPrefix :: "string \<Rightarrow> string \<Rightarrow> bool" where
  "HasPrefix s p = prefix p s"

definition HasSuffix :: "string \<Rightarrow> string \<Rightarrow> bool" where
  "HasSuffix s p = suffix p s"

definition Contains :: "string \<Rightarrow> string \<Rightarrow> bool" where
  "Contains s p = sublist p s"

definition TrimPrefix :: "string \<Rightarrow> string \<Rightarrow> string" where
  "TrimPrefix s p = (if HasPrefix s p then drop (length p) s else s)"

definition TrimSuffix :: "string \<Rightarrow> string \<Rightarrow> string" where
  "TrimSuffix s p = (if HasSuffix s p then take (length s - length p) s else s)"

fun Index :: "string \<Rightarrow> string \<Rightarrow> int" where
  "Index [] p = (if p = [] then 0 else - 1)"
| "Index (c # s) p =
     (if prefix p (c # s) then 0 else let i = Index s p in if i < 0 then - 1 else i + 1)"

lemma Index_absent: "(\<forall>c \<in> set s. c \<noteq> d) \<Longrightarrow> Index s (d # p) < 0"
  by (induction s) (auto simp: Let_def)

lemma Index_nonneg: "Index s p \<ge> - 1"
  by (induction s p rule: Index.induct) (auto simp: Let_def)

lemma Index_first: "d \<notin> set k \<Longrightarrow> prefix (d # p) r \<Longrightarrow> Index (k @ r) (d # p) = int (length k)"
proof (induction k)
  case Nil
  then show ?case by (cases r) auto
next
  case (Cons c k)
  then show ?case by (auto simp: Let_def)
qed

lemma Index_after: "c \<noteq> d \<Longrightarrow> d \<notin> set k \<Longrightarrow>
    Index (k @ c # r) (d # p) < 0 \<or> Index (k @ c # r) (d # p) > int (length k)"
proof (induction k)
  case Nil
  then show ?case using Index_nonneg [of r "d # p"] by (auto simp: Let_def)
next
  case (Cons c' k)
  then show ?case using Index_nonneg [of "k @ c # r" "d # p"] by (auto simp: Let_def)
qed

lemma Index_overlap: "\<not> sublist (d # p) k \<Longrightarrow> d \<notin> set p \<Longrightarrow> Index (k @ d # p @ r) (d # p) = int (length k)"
proof (induction k)
  case (Cons c k)
  have "\<not> prefix (d # p) (c # k @ d # p @ r)"
  proof
    assume "prefix (d # p) (c # k @ d # p @ r)"
    then have "c = d" "prefix p (k @ d # p @ r)" by auto
    then have "prefix p k \<or> (\<exists>us. p = k @ us \<and> prefix us (d # p @ r))"
      by (simp add: prefix_append)
    then show False
    proof
      assume "prefix p k"
      with \<open>c = d\<close> have "sublist (d # p) (c # k)" by (simp add: prefix_imp_sublist)
      with Cons.prems show False by simp
    next
      assume "\<exists>us. p = k @ us \<and> prefix us (d # p @ r)"
      then obtain us where us: "p = k @ us" "prefix us (d # p @ r)" by blast
      then have "us = []" using Cons.prems(2) by (cases us) auto
      with us \<open>c = d\<close> Cons.prems(1) show False by simp
    qed
  qed
  moreover have "\<not> sublist (d # p) k" using Cons.prems(1) by (auto simp: sublist_Cons_right)
  ultimately show ?case using Cons by (simp add: Let_def)
qed simp

lemma Index_missing: "\<not> sublist p s \<Longrightarrow> Index s p = - 1"
  by (induction s) (auto simp: Let_def sublist_Cons_right)

text \<open>\<open>Cut c s\<close>: the text before and after the first \<open>c\<close>, if there is one.\<close>

fun Cut :: "char \<Rightarrow> string \<Rightarrow> (string \<times> string) option" where
  "Cut c [] = None"
| "Cut c (x # xs) =
     (if x = c then Some ([], xs) else map_option (\<lambda>(a, b). (x # a, b)) (Cut c xs))"

lemma Cut_Some_iff: "Cut c s = Some (a, b) \<longleftrightarrow> s = a @ c # b \<and> c \<notin> set a"
proof (induction s arbitrary: a)
  case (Cons x xs)
  then show ?case by (cases a) (auto split: if_splits)
qed simp

lemma Cut_None_iff: "Cut c s = None \<longleftrightarrow> c \<notin> set s"
  by (induction s) auto

lemma Cut_append: "c \<notin> set a \<Longrightarrow> Cut c (a @ c # b) = Some (a, b)"
  by (simp add: Cut_Some_iff)

lemma Cut_length: "Cut c s = Some (a, b) \<Longrightarrow> length b < length s"
  by (auto simp: Cut_Some_iff)

fun Split :: "char \<Rightarrow> string \<Rightarrow> string list" where
  "Split c [] = [[]]"
| "Split c (x # xs) =
     (if x = c then [] # Split c xs
      else (case Split c xs of [] \<Rightarrow> [[x]] | y # ys \<Rightarrow> (x # y) # ys))"

fun SplitN :: "nat \<Rightarrow> char \<Rightarrow> string \<Rightarrow> string list" where
  "SplitN 0 c s = []"
| "SplitN (Suc 0) c s = [s]"
| "SplitN (Suc (Suc n)) c s =
     (case Cut c s of None \<Rightarrow> [s] | Some (a, b) \<Rightarrow> a # SplitN (Suc n) c b)"

fun Join :: "string \<Rightarrow> string list \<Rightarrow> string" where
  "Join sep [] = []"
| "Join sep [x] = x"
| "Join sep (x # y # ys) = x @ sep @ Join sep (y # ys)"

lemma Split_nonempty [simp]: "Split c s \<noteq> []"
  by (induction s) (auto split: list.splits)

lemma Split_no_sep: "p \<in> set (Split c s) \<Longrightarrow> c \<notin> set p"
  by (induction s arbitrary: p) (auto split: list.splits if_splits)

lemma Join_Cons: "ys \<noteq> [] \<Longrightarrow> Join sep (x # ys) = x @ sep @ Join sep ys"
  by (cases ys) auto

lemma Join_Split [strings_simps]: "Join [c] (Split c s) = s"
proof (induction s)
  case (Cons x xs)
  show ?case
  proof (cases "Split c xs")
    case (Cons y ys)
    with Cons.IH show ?thesis by (cases ys) auto
  qed (use Split_nonempty in blast)
qed simp

lemma Split_append: "c \<notin> set a \<Longrightarrow> Split c (a @ c # b) = a # Split c b"
  by (induction a) auto

lemma Split_single: "c \<notin> set a \<Longrightarrow> Split c a = [a]"
  by (induction a) auto

lemma Split_Join:
  "(\<And>p. p \<in> set ps \<Longrightarrow> c \<notin> set p) \<Longrightarrow> ps \<noteq> [] \<Longrightarrow> Split c (Join [c] ps) = ps"
  by (induction "[c]" ps rule: Join.induct) (auto simp: Split_single Split_append)

lemma Split_append_gen:
  "Split c (a @ b) = butlast (Split c a) @ (last (Split c a) @ hd (Split c b)) # tl (Split c b)"
proof (induction a)
  case Nil
  then show ?case by (cases "Split c b") auto
next
  case (Cons x a)
  then show ?case by (cases "Split c a") (auto split: list.splits simp: Cons_eq_append_conv)
qed

lemma last_Split_no_sep: "c \<notin> set (last (Split c s))"
  using Split_no_sep [OF last_in_set [OF Split_nonempty]] .

lemma set_Split: "p \<in> set (Split c s) \<Longrightarrow> set p \<subseteq> set s"
  by (induction s arbitrary: p) (fastforce split: list.splits if_splits)+

lemma SplitN_nonempty [simp]: "n > 0 \<Longrightarrow> SplitN n c s \<noteq> []"
  by (cases n; cases "n - 1") (auto split: option.splits)

lemma Join_SplitN [strings_simps]: "n > 0 \<Longrightarrow> Join [c] (SplitN n c s) = s"
  by (induction n c s rule: SplitN.induct) (auto split: option.splits simp: Join_Cons Cut_Some_iff)

lemma length_SplitN: "length (SplitN n c s) \<le> n"
  by (induction n c s rule: SplitN.induct) (auto split: option.splits)

subsection \<open>Trimming\<close>

definition char_in :: "nat \<Rightarrow> nat \<Rightarrow> char \<Rightarrow> bool" where
  "char_in lo hi c = (lo \<le> of_char c \<and> of_char c \<le> hi)"

text \<open>
  \<^verbatim>\<open>unicode.IsSpace\<close>, by UTF-8 encoding: a string starts (ends) with a white-space rune exactly
  when one of these byte sequences is a prefix (suffix) of it.
\<close>

definition space_encodings :: "string list" where
  "space_encodings =
     map (\<lambda>n. [char_of (n :: nat)]) [9, 10, 11, 12, 13, 32] @
     map (map char_of) [[0xC2, 0x85], [0xC2, 0xA0], [0xE1, 0x9A, 0x80 :: nat]] @
     map (\<lambda>n. [char_of (0xE2 :: nat), char_of (0x80 :: nat), char_of (n :: nat)])
       [0x80, 0x81, 0x82, 0x83, 0x84, 0x85, 0x86, 0x87, 0x88, 0x89, 0x8A, 0xA8, 0xA9, 0xAF] @
     map (map char_of) [[0xE2, 0x81, 0x9F], [0xE3, 0x80, 0x80 :: nat]]"

lemma space_encodings_nonempty: "[] \<notin> set space_encodings"
  by (simp add: space_encodings_def)

function trim_left_space :: "string \<Rightarrow> string" where
  "trim_left_space s =
     (case find (\<lambda>w. prefix w s) space_encodings of
        None \<Rightarrow> s
      | Some w \<Rightarrow> trim_left_space (drop (length w) s))"
  by pat_completeness auto
termination
proof (relation "measure length")
  fix s w
  assume "find (\<lambda>w. prefix w s) space_encodings = Some w"
  then have "w \<in> set space_encodings" "prefix w s"
    by (auto simp: find_Some_iff)
  then have "w \<noteq> []" using space_encodings_nonempty by auto
  with \<open>prefix w s\<close> have "length (drop (length w) s) < length s"
    by (auto simp: prefix_def)
  then show "(drop (length w) s, s) \<in> measure length" by simp
qed simp

function trim_right_space :: "string \<Rightarrow> string" where
  "trim_right_space s =
     (case find (\<lambda>w. suffix w s) space_encodings of
        None \<Rightarrow> s
      | Some w \<Rightarrow> trim_right_space (take (length s - length w) s))"
  by pat_completeness auto
termination
proof (relation "measure length")
  fix s w
  assume "find (\<lambda>w. suffix w s) space_encodings = Some w"
  then have "w \<in> set space_encodings" "suffix w s"
    by (auto simp: find_Some_iff)
  then have "w \<noteq> []" using space_encodings_nonempty by auto
  with \<open>suffix w s\<close> have "length (take (length s - length w) s) < length s"
    by (auto simp: suffix_def)
  then show "(take (length s - length w) s, s) \<in> measure length" by simp
qed simp

declare trim_left_space.simps [simp del] trim_right_space.simps [simp del]

definition TrimSpace :: "string \<Rightarrow> string" where
  "TrimSpace s = trim_right_space (trim_left_space s)"

lemma space_not_graphic:
  "w \<in> set space_encodings \<Longrightarrow> \<not> char_in 33 126 (hd w) \<and> \<not> char_in 33 126 (last w)"
  by (auto simp: space_encodings_def char_in_def)

lemma trim_left_graphic: "s \<noteq> [] \<Longrightarrow> char_in 33 126 (hd s) \<Longrightarrow> trim_left_space s = s"
proof -
  assume s: "s \<noteq> []" "char_in 33 126 (hd s)"
  have "find (\<lambda>w. prefix w s) space_encodings = None"
    unfolding find_None_iff
  proof
    assume "\<exists>w. w \<in> set space_encodings \<and> prefix w s"
    then obtain w where w: "w \<in> set space_encodings" "prefix w s" by blast
    then have "w \<noteq> []" using space_encodings_nonempty by auto
    then have "hd w = hd s" using w(2) by (auto simp: prefix_def)
    with space_not_graphic [OF w(1)] s show False by simp
  qed
  then show ?thesis by (subst trim_left_space.simps) simp
qed

lemma trim_right_graphic: "s \<noteq> [] \<Longrightarrow> char_in 33 126 (last s) \<Longrightarrow> trim_right_space s = s"
proof -
  assume s: "s \<noteq> []" "char_in 33 126 (last s)"
  have "find (\<lambda>w. suffix w s) space_encodings = None"
    unfolding find_None_iff
  proof
    assume "\<exists>w. w \<in> set space_encodings \<and> suffix w s"
    then obtain w where w: "w \<in> set space_encodings" "suffix w s" by blast
    then have "w \<noteq> []" using space_encodings_nonempty by auto
    then have "last w = last s" using w(2) by (auto simp: suffix_def)
    with space_not_graphic [OF w(1)] s show False by simp
  qed
  then show ?thesis by (subst trim_right_space.simps) simp
qed

lemma TrimSpace_graphic [strings_simps]:
  "s \<noteq> [] \<Longrightarrow> char_in 33 126 (hd s) \<Longrightarrow> char_in 33 126 (last s) \<Longrightarrow> TrimSpace s = s"
  by (simp add: TrimSpace_def trim_left_graphic trim_right_graphic)

text \<open>\<^verbatim>\<open>strings.TrimRight\<close> and \<^verbatim>\<open>strings.Trim\<close> with an ASCII cutset.\<close>

definition TrimRight :: "string \<Rightarrow> string \<Rightarrow> string" where
  "TrimRight s cs = rev (dropWhile (\<lambda>c. c \<in> set cs) (rev s))"

definition TrimLeft :: "string \<Rightarrow> string \<Rightarrow> string" where
  "TrimLeft s cs = dropWhile (\<lambda>c. c \<in> set cs) s"

definition Trim :: "string \<Rightarrow> string \<Rightarrow> string" where
  "Trim s cs = TrimRight (TrimLeft s cs) cs"

lemma TrimRight_prefix: "prefix (TrimRight s cs) s"
  unfolding TrimRight_def
  by (metis prefix_def rev_append rev_rev_ident takeWhile_dropWhile_id)

subsection \<open>Case conversion and replacement\<close>

definition lower_char :: "char \<Rightarrow> char" where
  "lower_char c = (if char_in 65 90 c then char_of (of_char c + 32 :: nat) else c)"

definition upper_char :: "char \<Rightarrow> char" where
  "upper_char c = (if char_in 97 122 c then char_of (of_char c - 32 :: nat) else c)"

definition ToLower :: "string \<Rightarrow> string" where
  "ToLower = map lower_char"

definition ToUpper :: "string \<Rightarrow> string" where
  "ToUpper = map upper_char"

definition ReplaceAll :: "string \<Rightarrow> char \<Rightarrow> string \<Rightarrow> string" where
  "ReplaceAll s c new = concat (map (\<lambda>x. if x = c then new else [x]) s)"

text \<open>
  \<^verbatim>\<open>strings.NewReplacer(oldnew...).Replace\<close>: scan the text from the left; where old strings
  match, the first one in argument order is replaced and the scan goes on behind it. The
  sources build replacers from non-empty old strings only.
\<close>

function Replace :: "(string \<times> string) list \<Rightarrow> string \<Rightarrow> string" where
  "Replace ps [] = []"
| "Replace ps (c # s) =
     (case find (\<lambda>p. fst p \<noteq> [] \<and> prefix (fst p) (c # s)) ps of
        None \<Rightarrow> c # Replace ps s
      | Some p \<Rightarrow> snd p @ Replace ps (drop (length (fst p)) (c # s)))"
  by pat_completeness auto
termination
  by (relation "measure (\<lambda>(ps, s). length s)") (auto simp: find_Some_iff)

section \<open>Package strconv and fmt\<close>

fun dec_nat :: "nat \<Rightarrow> string" where
  "dec_nat n = (if n < 10 then [char_of (48 + n)] else dec_nat (n div 10) @ [char_of (48 + n mod 10)])"

declare dec_nat.simps [simp del]

definition Itoa :: "int \<Rightarrow> string" where
  "Itoa i = (if i < 0 then CHR ''-'' # dec_nat (nat (- i)) else dec_nat (nat i))"

definition is_digit :: "char \<Rightarrow> bool" where
  "is_digit c = char_in 48 57 c"

definition digit_val :: "char \<Rightarrow> nat" where
  "digit_val c = of_char c - 48"

definition parse_digits :: "string \<Rightarrow> nat" where
  "parse_digits s = foldl (\<lambda>a c. 10 * a + digit_val c) 0 s"

lemma digit_char: "n < 10 \<Longrightarrow> is_digit (char_of (48 + n))" "n < 10 \<Longrightarrow> digit_val (char_of (48 + n)) = n"
  by (simp_all add: is_digit_def char_in_def digit_val_def)

lemma dec_nat_digits: "list_all is_digit (dec_nat n)" and dec_nat_nonempty: "dec_nat n \<noteq> []"
  by (induction n rule: dec_nat.induct; subst dec_nat.simps; simp add: digit_char)+

lemma parse_dec_nat: "parse_digits (dec_nat n) = n"
proof (induction n rule: dec_nat.induct)
  case (1 n)
  show ?case
  proof (cases "n < 10")
    case True
    then show ?thesis by (subst dec_nat.simps) (simp add: parse_digits_def digit_char)
  next
    case False
    with 1 show ?thesis by (subst dec_nat.simps) (simp add: parse_digits_def digit_char)
  qed
qed

text \<open>\<^verbatim>\<open>strconv.ParseInt(s, 10, bits)\<close>; \<open>None\<close> is its syntax or range error.\<close>

definition ParseInt :: "nat \<Rightarrow> string \<Rightarrow> int option" where
  "ParseInt bits s =
     (let neg = (s \<noteq> [] \<and> hd s = CHR ''-'');
          ds = (if s \<noteq> [] \<and> (hd s = CHR ''-'' \<or> hd s = CHR ''+'') then tl s else s);
          v = (if neg then - int (parse_digits ds) else int (parse_digits ds))
      in if ds = [] \<or> \<not> list_all is_digit ds then None
         else if v < - (2 ^ (bits - 1)) \<or> v \<ge> 2 ^ (bits - 1) then None
         else Some v)"

lemma dec_nat_hd: "hd (dec_nat n) \<noteq> CHR ''-'' \<and> hd (dec_nat n) \<noteq> CHR ''+''"
  using dec_nat_digits [of n] dec_nat_nonempty [of n]
  by (cases "dec_nat n") (auto simp: is_digit_def char_in_def)

lemma ParseInt_dec: "n < 2 ^ 63 \<Longrightarrow> ParseInt 64 (dec_nat n) = Some (int n)"
  using dec_nat_digits [of n] dec_nat_nonempty [of n] dec_nat_hd [of n]
  by (simp add: ParseInt_def parse_dec_nat)

lemma ParseInt_Itoa: "0 \<le> i \<Longrightarrow> i < 2 ^ 63 \<Longrightarrow> ParseInt 64 (Itoa i) = Some i"
  using ParseInt_dec [of "nat i"] by (simp add: Itoa_def)

lemma dec_nat_no: "\<not> is_digit c \<Longrightarrow> c \<notin> set (dec_nat n)"
  using dec_nat_digits [of n] by (auto simp: list_all_iff)

definition hex_digit :: "nat \<Rightarrow> char" where
  "hex_digit n = (if n < 10 then char_of (48 + n) else char_of (87 + n))"

text \<open>\<open>hex_pad w n\<close> is \<^verbatim>\<open>fmt.Sprintf("%0<w>x", n)\<close> for a number of at most \<open>w\<close> digits.\<close>

fun hex_pad :: "nat \<Rightarrow> nat \<Rightarrow> string" where
  "hex_pad 0 n = []"
| "hex_pad (Suc w) n = hex_pad w (n div 16) @ [hex_digit (n mod 16)]"

lemma length_hex_pad [simp]: "length (hex_pad w n) = w"
  by (induction w arbitrary: n) auto

section \<open>Runes\<close>

text \<open>
  \<open>rune_size s\<close>: the number of bytes \<^verbatim>\<open>utf8.DecodeRuneInString\<close> consumes from a non-empty
  string; an invalid encoding consumes one byte (and yields \<^verbatim>\<open>RuneError\<close>).
\<close>

definition cont_in :: "nat \<Rightarrow> nat \<Rightarrow> string \<Rightarrow> nat \<Rightarrow> bool" where
  "cont_in lo hi s i = (i < length s \<and> lo \<le> of_char (s ! i) \<and> of_char (s ! i) \<le> hi)"

definition rune_size :: "string \<Rightarrow> nat" where
  "rune_size s =
     (let b = (of_char (hd s) :: nat) in
      if b < 0xC2 then 1
      else if b \<le> 0xDF then (if cont_in 0x80 0xBF s 1 then 2 else 1)
      else if b \<le> 0xEF then
        (let lo = (if b = 0xE0 then 0xA0 else 0x80); hi = (if b = 0xED then 0x9F else 0xBF)
         in if cont_in lo hi s 1 \<and> cont_in 0x80 0xBF s 2 then 3 else 1)
      else if b \<le> 0xF4 then
        (let lo = (if b = 0xF0 then 0x90 else 0x80); hi = (if b = 0xF4 then 0x8F else 0xBF)
         in if cont_in lo hi s 1 \<and> cont_in 0x80 0xBF s 2 \<and> cont_in 0x80 0xBF s 3 then 4 else 1)
      else 1)"

lemma rune_size_pos [simp]: "0 < rune_size s"
  by (simp add: rune_size_def Let_def)

lemma rune_size_decreases: "Suc n - rune_size s < Suc n"
  using rune_size_pos [of s] by linarith

text \<open>The runes of a string, each as its bytes.\<close>

function runes :: "string \<Rightarrow> string list" where
  "runes [] = []"
| "runes (c # s) = take (rune_size (c # s)) (c # s) # runes (drop (rune_size (c # s)) (c # s))"
  by pat_completeness auto
termination
  by (relation "measure length") (simp_all add: rune_size_decreases)

lemma concat_runes [strings_simps]: "concat (runes s) = s"
  by (induction s rule: runes.induct) (auto simp del: drop_Suc_Cons take_Suc_Cons)

end
