(* ===== verification/Labels.thy ===== *)
theory Labels
  imports Prelude
begin

text \<open>
  Runner labels, from \<^verbatim>\<open>src/pkg/labels/labels.go\<close>: parsing \<open>name:schema:arg\<close>, printing, and
  picking the image of a job from its \<open>runs-on\<close> list.
\<close>

definition SchemeHost :: string where "SchemeHost = ''host''"
definition SchemeDocker :: string where "SchemeDocker = ''docker''"
definition ArgDocker :: string where "ArgDocker = ''//node:24-trixie''"
definition SchemeLXC :: string where "SchemeLXC = ''lxc''"
definition ArgLXC :: string where "ArgLXC = ''//debian:bookworm''"

lemmas scheme_defs = SchemeHost_def SchemeDocker_def ArgDocker_def SchemeLXC_def ArgLXC_def

record Label =
  lName :: string
  lSchema :: string
  lArg :: string

datatype label_error =
    SpaceAround string
  | UnsupportedSchema string
  | NoArguments string

text \<open>The default argument of a schema (the final \<^verbatim>\<open>switch\<close> of \<^verbatim>\<open>Parse\<close>).\<close>

definition default_arg :: "string \<Rightarrow> string \<Rightarrow> string" where
  "default_arg schema arg =
     (if arg = [] then
        if schema = SchemeDocker then ArgDocker
        else if schema = SchemeLXC then ArgLXC else arg
      else arg)"

definition Parse :: "string \<Rightarrow> label_error + Label" where
  "Parse str =
     (let splits = SplitN 3 CHR '':'' str;
          name = splits ! 0;
          schema = (if length splits \<ge> 2 then splits ! 1 else SchemeDocker)
      in if TrimSpace name \<noteq> name then Inl (SpaceAround name)
         else if length splits \<ge> 2 \<and> schema \<noteq> SchemeHost \<and> schema \<noteq> SchemeDocker \<and> schema \<noteq> SchemeLXC
           then Inl (UnsupportedSchema schema)
         else if length splits \<ge> 3 \<and> schema = SchemeHost then Inl (NoArguments schema)
         else
           let arg = (if length splits \<ge> 3 then splits ! 2 else [])
           in Inr \<lparr>lName = name, lSchema = schema, lArg = default_arg schema arg\<rparr>)"

definition String :: "Label \<Rightarrow> string" where
  "String l =
     lName l @
     (if lSchema l \<noteq> [] then
        '':'' @ lSchema l @ (if lArg l \<noteq> [] then '':'' @ lArg l else [])
      else [])"

definition RequireDocker :: "Label list \<Rightarrow> bool" where
  "RequireDocker ls = list_ex (\<lambda>l. lSchema l = SchemeDocker) ls"

text \<open>The value one label contributes to the platforms map; \<open>None\<close> is the \<^verbatim>\<open>continue\<close> of the default case.\<close>

definition platform_of :: "Label \<Rightarrow> string option" where
  "platform_of l =
     (if lSchema l = SchemeDocker then Some (TrimPrefix (lArg l) ''//'')
      else if lSchema l = SchemeHost then Some ''-self-hosted''
      else if lSchema l = SchemeLXC then Some (''lxc:'' @ TrimPrefix (lArg l) ''//'')
      else None)"

fun platforms :: "Label list \<Rightarrow> env_map \<Rightarrow> env_map" where
  "platforms [] m = m"
| "platforms (l # ls) m =
     platforms ls (case platform_of l of None \<Rightarrow> m | Some v \<Rightarrow> m(lName l \<mapsto> v))"

fun first_platform :: "env_map \<Rightarrow> string list \<Rightarrow> string" where
  "first_platform m [] = TrimPrefix ArgDocker ''//''"
| "first_platform m (v # vs) = (case m v of Some p \<Rightarrow> p | None \<Rightarrow> first_platform m vs)"

definition PickPlatform :: "Label list \<Rightarrow> string list \<Rightarrow> string" where
  "PickPlatform ls runsOn = first_platform (platforms ls Map.empty) runsOn"

definition Names :: "Label list \<Rightarrow> string list" where
  "Names ls = map lName ls"

definition Strings :: "Label list \<Rightarrow> string list" where
  "Strings ls = map String ls"

text \<open>\<^verbatim>\<open>parseLabels\<close> of \<^verbatim>\<open>src/cmd/controller/main.go\<close>: the first label that does not parse is the error.\<close>

fun parseLabels :: "string list \<Rightarrow> label_error + Label list" where
  "parseLabels [] = Inr []"
| "parseLabels (l # ls) =
     (case Parse l of
        Inl e \<Rightarrow> Inl e
      | Inr label \<Rightarrow> (case parseLabels ls of Inl e \<Rightarrow> Inl e | Inr rest \<Rightarrow> Inr (label # rest)))"

section \<open>Shape of parsed labels\<close>

definition wf_label :: "Label \<Rightarrow> bool" where
  "wf_label l \<longleftrightarrow>
     CHR '':'' \<notin> set (lName l) \<and> TrimSpace (lName l) = lName l \<and>
     lSchema l \<in> {SchemeHost, SchemeDocker, SchemeLXC} \<and>
     (lSchema l = SchemeHost \<longleftrightarrow> lArg l = [])"

lemma SplitN3_cases:
  "SplitN 3 c s =
     (case Cut c s of None \<Rightarrow> [s]
      | Some (a, b) \<Rightarrow> (case Cut c b of None \<Rightarrow> [a, b] | Some (b', d) \<Rightarrow> [a, b', d]))"
  by (auto simp: numeral_3_eq_3 split: option.splits)

lemma default_arg_nonempty:
  "schema \<in> {SchemeDocker, SchemeLXC} \<Longrightarrow> default_arg schema arg \<noteq> []"
  by (auto simp: default_arg_def scheme_defs)

lemma default_arg_iff:
  "schema \<in> {SchemeHost, SchemeDocker, SchemeLXC} \<Longrightarrow> schema = SchemeHost \<longrightarrow> arg = [] \<Longrightarrow>
   schema = SchemeHost \<longleftrightarrow> default_arg schema arg = []"
  by (elim insertE) (simp_all add: default_arg_def scheme_defs)

lemma Parse_wf:
  assumes "Parse s = Inr l" shows "wf_label l"
proof -
  let ?sp = "SplitN 3 CHR '':'' s"
  let ?schema = "if length ?sp \<ge> 2 then ?sp ! 1 else SchemeDocker"
  let ?arg = "if length ?sp \<ge> 3 then ?sp ! 2 else []"
  have l: "l = \<lparr>lName = ?sp ! 0, lSchema = ?schema, lArg = default_arg ?schema ?arg\<rparr>"
    and name: "TrimSpace (?sp ! 0) = ?sp ! 0"
    and schema: "length ?sp \<ge> 2 \<longrightarrow> ?schema \<in> {SchemeHost, SchemeDocker, SchemeLXC}"
    and host: "\<not> (length ?sp \<ge> 3 \<and> ?schema = SchemeHost)"
    using assms unfolding Parse_def Let_def by (simp_all split: if_splits)
  have "CHR '':'' \<notin> set (?sp ! 0)"
    by (auto simp: SplitN3_cases Cut_Some_iff Cut_None_iff split: option.splits)
  moreover from schema have "?schema \<in> {SchemeHost, SchemeDocker, SchemeLXC}" by auto
  ultimately show ?thesis
    using l name host default_arg_iff [of ?schema ?arg] by (simp add: wf_label_def)
qed

lemma Parse_String: "wf_label l \<Longrightarrow> Parse (String l) = Inr l"
proof -
  assume wf: "wf_label l"
  obtain n s a where l: "l = \<lparr>lName = n, lSchema = s, lArg = a\<rparr>" by (cases l)
  from wf l have n: "CHR '':'' \<notin> set n" "TrimSpace n = n" by (auto simp: wf_label_def)
  from wf l consider "s = SchemeHost" "a = []" | "s \<in> {SchemeDocker, SchemeLXC}" "a \<noteq> []"
    by (auto simp: wf_label_def scheme_defs)
  then show ?thesis
  proof cases
    case 1
    then have "String l = n @ CHR '':'' # SchemeHost" by (simp add: l String_def scheme_defs)
    moreover have "Cut CHR '':'' SchemeHost = None" by (simp add: scheme_defs)
    ultimately show ?thesis using n 1
      by (simp add: Parse_def SplitN3_cases Cut_append l default_arg_def) (simp add: scheme_defs)
  next
    case 2
    then have "String l = n @ CHR '':'' # s @ CHR '':'' # a" by (auto simp: l String_def scheme_defs)
    moreover have "CHR '':'' \<notin> set s" using 2 by (auto simp: scheme_defs)
    ultimately show ?thesis using n 2
      by (simp add: Parse_def SplitN3_cases Cut_append l default_arg_def) (auto simp: scheme_defs default_arg_def)
  qed
qed

section \<open>Picking a platform\<close>

lemma platforms_append: "platforms (ls @ ls') m = platforms ls' (platforms ls m)"
  by (induction ls arbitrary: m) auto

lemma platforms_other: "name \<notin> lName ` set ls \<Longrightarrow> platforms ls m name = m name"
  by (induction ls arbitrary: m) (auto split: option.splits)

lemma platforms_last:
  assumes "platform_of l = Some v" "lName l \<notin> lName ` set post"
  shows "platforms (pre @ l # post) m (lName l) = Some v"
  using assms by (simp add: platforms_append platforms_other)

lemma first_platform_skip:
  "(\<And>v. v \<in> set vs \<Longrightarrow> m v = None) \<Longrightarrow> first_platform m (vs @ ws) = first_platform m ws"
  by (induction vs) auto

lemma platform_of_wf: "wf_label l \<Longrightarrow> \<exists>v. platform_of l = Some v"
  by (auto simp: wf_label_def platform_of_def)

lemma parseLabels_wf: "parseLabels ss = Inr ls \<Longrightarrow> l \<in> set ls \<Longrightarrow> wf_label l"
  by (induction ss arbitrary: ls) (auto split: sum.splits dest: Parse_wf)

lemma platforms_dom_wf:
  "(\<And>l. l \<in> set ls \<Longrightarrow> wf_label l) \<Longrightarrow> dom (platforms ls m) = dom m \<union> lName ` set ls"
proof (induction ls arbitrary: m)
  case (Cons l ls)
  from Cons.prems obtain v where "platform_of l = Some v" using platform_of_wf by force
  with Cons show ?case by auto
qed simp

section \<open>Properties\<close>

text \<open>
  Printing is a right inverse of parsing: whatever \<^verbatim>\<open>Parse\<close> accepts, printing the label
  and parsing it again yields the same label (defaults included).
\<close>

theorem label_roundtrip: "Parse s = Inr l \<Longrightarrow> Parse (String l) = Inr l"
  by (rule Parse_String) (rule Parse_wf)

theorem label_roundtrip_witness:
  "Parse (String \<lparr>lName = ''ubuntu'', lSchema = ''docker'', lArg = ''//node:24-trixie''\<rparr>)
     = Inr \<lparr>lName = ''ubuntu'', lSchema = ''docker'', lArg = ''//node:24-trixie''\<rparr>"
  by (rule label_roundtrip [of "''ubuntu''"])
     (simp add: Parse_def numeral_3_eq_3 strings_simps char_in_def default_arg_def scheme_defs)

text \<open>
  The platform a job runs on: with labels that parsed, the first \<open>runs-on\<close> entry that names
  a label decides, and among labels of one name the last one does; with no such entry it is
  the default image.
\<close>

theorem PickPlatform_spec:
  assumes "parseLabels ss = Inr (pre @ l # post)"
    and "lName l \<notin> lName ` set post"
    and "set misses \<inter> lName ` set (pre @ l # post) = {}"
  shows "PickPlatform (pre @ l # post) (misses @ lName l # later) = the (platform_of l)
      \<and> PickPlatform (pre @ l # post) misses = ''node:24-trixie''"
proof -
  let ?ls = "pre @ l # post"
  let ?m = "platforms ?ls Map.empty"
  have wf: "\<And>x. x \<in> set ?ls \<Longrightarrow> wf_label x" using assms(1) by (rule parseLabels_wf)
  have "dom ?m = dom (Map.empty :: env_map) \<union> lName ` set ?ls" by (rule platforms_dom_wf) (rule wf)
  then have "dom ?m = lName ` set ?ls" by simp
  then have miss: "\<And>v. v \<in> set misses \<Longrightarrow> ?m v = None" using assms(3) by blast
  obtain v where v: "platform_of l = Some v" using wf platform_of_wf by force
  have "first_platform ?m (misses @ lName l # later) = first_platform ?m (lName l # later)"
    by (rule first_platform_skip) (rule miss)
  then have "PickPlatform ?ls (misses @ lName l # later) = the (platform_of l)"
    unfolding PickPlatform_def using platforms_last [OF v assms(2), of pre Map.empty] v by simp
  moreover have "first_platform ?m (misses @ []) = first_platform ?m []"
    by (rule first_platform_skip) (rule miss)
  then have "PickPlatform ?ls misses = ''node:24-trixie''"
    by (simp add: PickPlatform_def TrimPrefix_def HasPrefix_def ArgDocker_def)
  ultimately show ?thesis by simp
qed

theorem PickPlatform_spec_witness:
  "PickPlatform ([] @ \<lparr>lName = ''k8s'', lSchema = ''host'', lArg = []\<rparr> # [])
     (['' x''] @ ''k8s'' # [''y'']) = ''-self-hosted''"
proof -
  let ?l = "\<lparr>lName = ''k8s'', lSchema = ''host'', lArg = []\<rparr>"
  have p: "parseLabels [''k8s:host''] = Inr ([] @ ?l # [])"
    by (simp add: Parse_def numeral_3_eq_3 strings_simps char_in_def default_arg_def scheme_defs)
  show ?thesis using PickPlatform_spec [OF p, of "['' x'']" "[''y'']"]
    by (simp add: platform_of_def scheme_defs)
qed

end
