(* ===== verification/Systems.thy ===== *)
theory Systems
  imports Prelude
begin

text \<open>
  Transition systems. The concurrent parts of the program (the poll loop with its handler
  goroutines, the reporter with its flush daemon, the cache server with its clients) are
  step relations; their safety properties are invariants of the reachable states. The locale
  states once what a component has to prove.
\<close>

inductive reach :: "('s \<Rightarrow> bool) \<Rightarrow> ('s \<Rightarrow> 's \<Rightarrow> bool) \<Rightarrow> 's \<Rightarrow> bool"
  for init :: "'s \<Rightarrow> bool" and step :: "'s \<Rightarrow> 's \<Rightarrow> bool" where
  reach_init: "init s \<Longrightarrow> reach init step s"
| reach_step: "reach init step s \<Longrightarrow> step s t \<Longrightarrow> reach init step t"

locale invariant_system =
  fixes init :: "'s \<Rightarrow> bool"
    and step :: "'s \<Rightarrow> 's \<Rightarrow> bool"
    and inv :: "'s \<Rightarrow> bool"
  assumes inv_init: "init s \<Longrightarrow> inv s"
    and inv_step: "inv s \<Longrightarrow> step s t \<Longrightarrow> inv t"
begin

lemma reach_inv: "reach init step s \<Longrightarrow> inv s"
  by (induction rule: reach.induct) (auto intro: inv_init inv_step)

lemma path_inv: "step\<^sup>*\<^sup>* s t \<Longrightarrow> inv s \<Longrightarrow> inv t"
  by (induction rule: rtranclp_induct) (auto intro: inv_step)

end

lemma reach_trans: "step\<^sup>*\<^sup>* s t \<Longrightarrow> reach init step s \<Longrightarrow> reach init step t"
  by (induction rule: rtranclp_induct) (auto intro: reach_step)

lemma reach_from: "reach init step s \<Longrightarrow> (\<And>s. init s \<Longrightarrow> init' s) \<Longrightarrow> reach init' step s"
  by (induction rule: reach.induct) (auto intro: reach.intros)

text \<open>
  A system that is observed through a function: when every step it makes looks like steps of another
  system, every state it reaches looks like a reachable one, and the invariants of the other carry over.
\<close>

locale system_refinement =
  fixes init :: "'s \<Rightarrow> bool" and step :: "'s \<Rightarrow> 's \<Rightarrow> bool"
    and ainit :: "'a \<Rightarrow> bool" and astep :: "'a \<Rightarrow> 'a \<Rightarrow> bool"
    and abs_state :: "'s \<Rightarrow> 'a"
  assumes init_abs: "init s \<Longrightarrow> ainit (abs_state s)"
    and step_abs: "step s t \<Longrightarrow> astep\<^sup>*\<^sup>* (abs_state s) (abs_state t)"
begin

lemma reach_abs: "reach init step s \<Longrightarrow> reach ainit astep (abs_state s)"
  by (induction rule: reach.induct) (auto intro: reach.reach_init init_abs reach_trans dest: step_abs)

end

text \<open>
  The other shape of component is an object whose methods are called one after the other. Its
  invariant is kept by every call, hence by every sequence of calls.
\<close>

fun run_calls :: "('s \<Rightarrow> 'c \<Rightarrow> 's) \<Rightarrow> 's \<Rightarrow> 'c list \<Rightarrow> 's" where
  "run_calls call s [] = s"
| "run_calls call s (c # cs) = run_calls call (call s c) cs"

lemma run_calls_append: "run_calls call s (xs @ ys) = run_calls call (run_calls call s xs) ys"
  by (induction xs arbitrary: s) auto

text \<open>Every call of a sequence is allowed in the state it is made in.\<close>

fun calls_ok :: "('s \<Rightarrow> 'c \<Rightarrow> bool) \<Rightarrow> ('s \<Rightarrow> 'c \<Rightarrow> 's) \<Rightarrow> 's \<Rightarrow> 'c list \<Rightarrow> bool" where
  "calls_ok ok call s [] = True"
| "calls_ok ok call s (c # cs) = (ok s c \<and> calls_ok ok call (call s c) cs)"

lemma calls_ok_append:
  "calls_ok ok call s (xs @ ys) \<longleftrightarrow> calls_ok ok call s xs \<and> calls_ok ok call (run_calls call s xs) ys"
  by (induction xs arbitrary: s) auto

lemma calls_ok_True [simp]: "calls_ok (\<lambda>_ _. True) call s cs"
  by (induction cs arbitrary: s) auto

locale object_invariant =
  fixes call :: "'s \<Rightarrow> 'c \<Rightarrow> 's"
    and ok :: "'s \<Rightarrow> 'c \<Rightarrow> bool"
    and inv :: "'s \<Rightarrow> bool"
  assumes inv_call: "inv s \<Longrightarrow> ok s c \<Longrightarrow> inv (call s c)"
begin

lemma run_calls_inv: "inv s \<Longrightarrow> calls_ok ok call s cs \<Longrightarrow> inv (run_calls call s cs)"
  by (induction cs arbitrary: s) (auto intro: inv_call)

end

end
