(* ===== verification/Reporter.thy ===== *)
theory Reporter
  imports Systems
begin

text \<open>
  The task reporter, from \<^verbatim>\<open>src/pkg/reporter/reporter.go\<close>: log masking, the buffer of log rows
  and its acknowledgement protocol, per-step state, interim flushes and the final report.

  The runner protocol client (Gitea or Forgejo behind a network) is not part of the sources.
  Its answers are parameters: \<open>Inl\<close> is a failed call. What an operation sends is returned as
  the list of its requests. \<open>now\<close> is the value of the clock. The mutex makes each operation on
  the state atomic; a flush, which releases it around the call, is two atomic parts.
\<close>

section \<open>Protocol data\<close>

datatype Result =
    RESULT_UNSPECIFIED
  | RESULT_SUCCESS
  | RESULT_FAILURE
  | RESULT_CANCELLED
  | RESULT_SKIPPED

record LogRow =
  rowTime :: int
  rowContent :: string

record StepState =
  ssId :: int
  ssResult :: Result
  ssStartedAt :: "int option"
  ssStoppedAt :: "int option"
  ssLogIndex :: int
  ssLogLength :: int

record TaskState =
  tsId :: int
  tsResult :: Result
  tsStartedAt :: "int option"
  tsStoppedAt :: "int option"
  tsSteps :: "StepState list"

datatype Request =
    UpdateLog int int "LogRow list" bool  \<comment> \<open>task, index, rows, no more\<close>
  | UpdateTask TaskState

section \<open>The log masker\<close>

record logMasker =
  mPairs :: "(string \<times> string) list"
  mReplacer :: "(string \<times> string) list option"

definition newLogMasker :: "string list \<Rightarrow> logMasker" where
  "newLogMasker secrets =
     (let pairs = map (\<lambda>s. (s, ''***'')) (filter (\<lambda>s. length s > 3) secrets)
      in if pairs = [] then \<lparr>mPairs = [], mReplacer = None\<rparr>
         else \<lparr>mPairs = pairs, mReplacer = Some pairs\<rparr>)"

definition masker_add :: "logMasker \<Rightarrow> string \<Rightarrow> logMasker" where
  "masker_add m value =
     (let pairs = mPairs m @ [(value, ''***'')] in \<lparr>mPairs = pairs, mReplacer = Some pairs\<rparr>)"

definition mask :: "logMasker option \<Rightarrow> string \<Rightarrow> string" where
  "mask m content =
     (case m of
        None \<Rightarrow> content
      | Some m \<Rightarrow> (case mReplacer m of None \<Rightarrow> content | Some ps \<Rightarrow> Replace ps content))"

section \<open>The reporter\<close>

text \<open>\<open>rCancel\<close> is the daemon's cancel function: \<open>None\<close> before \<^verbatim>\<open>RunDaemon\<close>, then whether it was called.\<close>

record Reporter =
  rTaskID :: int
  rState :: TaskState
  rLogRows :: "LogRow list"
  rLogOffset :: int
  rCurrentStep :: int
  rMasker :: "logMasker option"
  rCancel :: "bool option"

definition New :: "int \<Rightarrow> nat \<Rightarrow> Reporter" where
  "New taskID numSteps =
     \<lparr>rTaskID = taskID,
      rState = \<lparr>tsId = taskID, tsResult = RESULT_UNSPECIFIED, tsStartedAt = None, tsStoppedAt = None,
        tsSteps = map (\<lambda>i. \<lparr>ssId = int i, ssResult = RESULT_UNSPECIFIED, ssStartedAt = None,
          ssStoppedAt = None, ssLogIndex = 0, ssLogLength = 0\<rparr>) [0..<numSteps]\<rparr>,
      rLogRows = [], rLogOffset = 0, rCurrentStep = - 1, rMasker = None, rCancel = None\<rparr>"

definition SetSecrets :: "Reporter \<Rightarrow> string list \<Rightarrow> Reporter" where
  "SetSecrets r secrets = r\<lparr>rMasker := Some (newLogMasker secrets)\<rparr>"

definition AddMask :: "Reporter \<Rightarrow> string \<Rightarrow> Reporter" where
  "AddMask r value =
     (if length value \<le> 3 then r
      else r\<lparr>rMasker := Some (masker_add
        (case rMasker r of None \<Rightarrow> \<lparr>mPairs = [], mReplacer = None\<rparr> | Some m \<Rightarrow> m) value)\<rparr>)"

definition steps_upd :: "(StepState \<Rightarrow> StepState) \<Rightarrow> int \<Rightarrow> StepState list \<Rightarrow> StepState list" where
  "steps_upd f i ss = (if 0 \<le> i \<and> i < int (length ss) then ss[nat i := f (ss ! nat i)] else ss)"

definition AddLog :: "int \<Rightarrow> Reporter \<Rightarrow> string \<Rightarrow> Reporter" where
  "AddLog now r content =
     (let row = \<lparr>rowTime = now, rowContent = mask (rMasker r) content\<rparr>;
          rows = rLogRows r @ [row];
          track = (\<lambda>step.
            (if ssLogLength step = 0
             then step\<lparr>ssLogIndex := rLogOffset r + int (length rows) - 1, ssLogLength := ssLogLength step + 1\<rparr>
             else step\<lparr>ssLogLength := ssLogLength step + 1\<rparr>))
      in r\<lparr>rLogRows := rows,
           rState := (rState r)\<lparr>tsSteps := steps_upd track (rCurrentStep r) (tsSteps (rState r))\<rparr>\<rparr>)"

definition StartStep :: "int \<Rightarrow> Reporter \<Rightarrow> int \<Rightarrow> Reporter" where
  "StartStep now r i =
     (if i < 0 \<or> i \<ge> int (length (tsSteps (rState r))) then r
      else
        let st = rState r;
            steps = steps_upd (\<lambda>s. s\<lparr>ssStartedAt := Some now\<rparr>) i (tsSteps st)
        in r\<lparr>rCurrentStep := i,
             rState := st\<lparr>tsSteps := steps,
               tsStartedAt := (case tsStartedAt st of None \<Rightarrow> Some now | Some t \<Rightarrow> Some t)\<rparr>\<rparr>)"

definition FinishStep :: "int \<Rightarrow> Reporter \<Rightarrow> int \<Rightarrow> Result \<Rightarrow> Reporter" where
  "FinishStep now r i result =
     (if i < 0 \<or> i \<ge> int (length (tsSteps (rState r))) then r
      else r\<lparr>rState := (rState r)\<lparr>tsSteps :=
        steps_upd (\<lambda>s. s\<lparr>ssResult := result, ssStoppedAt := Some now\<rparr>) i (tsSteps (rState r))\<rparr>\<rparr>)"

subsection \<open>Flushing\<close>

text \<open>First part of \<^verbatim>\<open>flushLogs\<close>: copy the rows and the offset under the lock; \<open>None\<close> is the early return.\<close>

definition flushLogs_request :: "Reporter \<Rightarrow> bool \<Rightarrow> (int \<times> LogRow list) option" where
  "flushLogs_request r noMore =
     (if rLogRows r = [] \<and> \<not> noMore then None else Some (rLogOffset r, rLogRows r))"

text \<open>Second part: trim what the server acknowledged, under the lock again.\<close>

definition flushLogs_ack :: "Reporter \<Rightarrow> int \<Rightarrow> Reporter" where
  "flushLogs_ack r ack =
     (if ack \<ge> rLogOffset r then
        let trimmed = ack - rLogOffset r;
            trimmed' = (if trimmed > int (length (rLogRows r)) then int (length (rLogRows r)) else trimmed)
        in r\<lparr>rLogRows := drop (nat trimmed') (rLogRows r), rLogOffset := ack\<rparr>
      else r)"

type_synonym 'e log_reply = "'e + int"
type_synonym 'e task_reply = "'e + Result option"

text \<open>A whole \<^verbatim>\<open>flushLogs\<close> with no other operation in between: new state, requests, error.\<close>

definition flushLogs :: "'e log_reply \<Rightarrow> Reporter \<Rightarrow> bool \<Rightarrow> Reporter \<times> Request list \<times> 'e option" where
  "flushLogs reply r noMore =
     (case flushLogs_request r noMore of
        None \<Rightarrow> (r, [], None)
      | Some (offset, rows) \<Rightarrow>
          let req = UpdateLog (rTaskID r) offset rows noMore
          in case reply of
               Inl e \<Rightarrow> (r, [req], Some e)
             | Inr ack \<Rightarrow> (flushLogs_ack r ack, [req], None))"

text \<open>
  \<^verbatim>\<open>flushState\<close>: the payload clamps the job result unless the flush is final; a cancelled answer
  calls the cancel function. The response is \<open>Inr (Some res)\<close> when it carries a state.
\<close>

definition flushState_payload :: "Reporter \<Rightarrow> bool \<Rightarrow> TaskState" where
  "flushState_payload r final =
     (if final then rState r else (rState r)\<lparr>tsResult := RESULT_UNSPECIFIED\<rparr>)"

definition call_cancel :: "Reporter \<Rightarrow> Reporter" where
  "call_cancel r = r\<lparr>rCancel := map_option (\<lambda>_. True) (rCancel r)\<rparr>"

definition flushState :: "'e task_reply \<Rightarrow> Reporter \<Rightarrow> bool \<Rightarrow> Reporter \<times> Request list \<times> 'e option" where
  "flushState reply r final =
     (let req = UpdateTask (flushState_payload r final) in
      case reply of
        Inl e \<Rightarrow> (r, [req], Some e)
      | Inr res \<Rightarrow>
          ((if res = Some RESULT_CANCELLED then call_cancel r else r), [req], None))"

datatype 'e flush_error = FlushingLogs 'e | FlushingState 'e

definition Flush ::
  "'e log_reply \<Rightarrow> 'e task_reply \<Rightarrow> Reporter \<Rightarrow> Reporter \<times> Request list \<times> 'e flush_error option" where
  "Flush logReply taskReply r =
     (case flushLogs logReply r False of
        (r1, q1, Some e) \<Rightarrow> (r1, q1, Some (FlushingLogs e))
      | (r1, q1, None) \<Rightarrow>
          (case flushState taskReply r1 False of
             (r2, q2, Some e) \<Rightarrow> (r2, q1 @ q2, Some (FlushingState e))
           | (r2, q2, None) \<Rightarrow> (r2, q1 @ q2, None)))"

text \<open>\<^verbatim>\<open>RunDaemon\<close> installs the cancel function; its goroutine calls \<^verbatim>\<open>Flush\<close> until cancelled.\<close>

definition RunDaemon :: "Reporter \<Rightarrow> Reporter" where
  "RunDaemon r = r\<lparr>rCancel := Some False\<rparr>"

definition daemon_tick ::
  "'e log_reply \<Rightarrow> 'e task_reply \<Rightarrow> Reporter \<Rightarrow> Reporter \<times> Request list" where
  "daemon_tick logReply taskReply r =
     (if rCancel r = Some False
      then (case Flush logReply taskReply r of (r', q, _) \<Rightarrow> (r', q))
      else (r, []))"

subsection \<open>Closing\<close>

definition close_step :: "Result \<Rightarrow> StepState \<Rightarrow> StepState" where
  "close_step jobResult step =
     (if ssResult step = RESULT_UNSPECIFIED then
        step\<lparr>ssResult := (if jobResult = RESULT_SKIPPED then RESULT_SKIPPED else RESULT_CANCELLED)\<rparr>
      else step)"

definition Close_begin :: "int \<Rightarrow> Reporter \<Rightarrow> Result \<Rightarrow> Reporter" where
  "Close_begin now r jobResult =
     (let r' = call_cancel r; st = rState r'
      in r'\<lparr>rState := st\<lparr>tsResult := jobResult, tsStoppedAt := Some now,
             tsSteps := map (close_step jobResult) (tsSteps st)\<rparr>\<rparr>)"

text \<open>What the outside world answers during one attempt of \<^verbatim>\<open>Close\<close>; \<open>aWait\<close> is whether the back-off
  timer fired before the context was cancelled.\<close>

record 'e attempt =
  aLog :: "'e log_reply"
  aTask :: "'e task_reply"
  aWait :: bool

datatype 'e close_result =
    Closed
  | CloseInterrupted
  | CloseFailed "'e option"

text \<open>The read-back probe's answer is only logged, so only its request appears.\<close>

definition readbackProbe :: "Reporter \<Rightarrow> Request" where
  "readbackProbe r =
     UpdateTask \<lparr>tsId = rTaskID r, tsResult = RESULT_UNSPECIFIED, tsStartedAt = None,
       tsStoppedAt = None, tsSteps = []\<rparr>"

text \<open>The retry loop: \<open>n\<close> attempts left; also returns the back-off waits that were entered.\<close>

fun close_loop ::
  "(nat \<Rightarrow> 'e attempt) \<Rightarrow> nat \<Rightarrow> nat \<Rightarrow> int \<Rightarrow> 'e option \<Rightarrow> Reporter
    \<Rightarrow> Reporter \<times> Request list \<times> int list \<times> 'e close_result" where
  "close_loop w k 0 backoff lastErr r = (r, [], [], CloseFailed lastErr)"
| "close_loop w k (Suc n) backoff lastErr r =
     (let a = w k;
          retry = (\<lambda>r q e.
            if aWait a then
              (case close_loop w (Suc k) n (backoff * 2) (Some e) r of
                 (r', q', ws, res) \<Rightarrow> (r', q @ q', backoff # ws, res))
            else (r, q, [backoff], CloseInterrupted))
      in case flushLogs (aLog a) r True of
           (r1, q1, Some e) \<Rightarrow> retry r1 q1 e
         | (r1, q1, None) \<Rightarrow>
             (case flushState (aTask a) r1 True of
                (r2, q2, Some e) \<Rightarrow> retry r2 (q1 @ q2) e
              | (r2, q2, None) \<Rightarrow> (r2, q1 @ q2 @ [readbackProbe r2], [], Closed)))"

definition Close ::
  "(nat \<Rightarrow> 'e attempt) \<Rightarrow> int \<Rightarrow> Reporter \<Rightarrow> Result
    \<Rightarrow> Reporter \<times> Request list \<times> int list \<times> 'e close_result" where
  "Close w now r jobResult = close_loop w 0 10 (100 * Millisecond) None (Close_begin now r jobResult)"

end
