(* ===== verification/Reporter_Mask.thy ===== *)
theory Reporter_Mask
  imports Reporter
begin

text \<open>
  Masking of secrets in the reporter's log: no registered value ever reaches a log row, in any
  sequence of reporter calls.
\<close>

section \<open>The replacer\<close>

lemma Replace_prefix:
  assumes "\<And>p. p \<in> set ps \<Longrightarrow> snd p = ''***''" "CHR ''*'' \<notin> set s" "prefix s (Replace ps t)"
  shows "prefix s t"
  using assms
proof (induction ps t arbitrary: s rule: Replace.induct)
  case (2 ps c t)
  show ?case
  proof (cases "find (\<lambda>p. fst p \<noteq> [] \<and> prefix (fst p) (c # t)) ps")
    case None
    with "2.prems"(3) have "prefix s (c # Replace ps t)" by simp
    with "2.IH"(1) [OF None] "2.prems"(1,2) show ?thesis by (cases s) auto
  next
    case (Some p)
    then have "snd p = ''***''" using "2.prems"(1) find_SomeD by metis
    with Some "2.prems" have "prefix s (CHR ''*'' # ''**'' @ Replace ps (drop (length (fst p)) (c # t)))"
      by simp
    with "2.prems"(2) show ?thesis by (cases s) auto
  qed
qed auto

lemma sublist_skip: "x \<notin> set s \<Longrightarrow> sublist s (x # ys) \<Longrightarrow> s = [] \<or> sublist s ys"
  by (cases s) (auto simp: sublist_Cons_right)

lemma Replace_masks:
  assumes "\<And>p. p \<in> set ps \<Longrightarrow> snd p = ''***''" "s \<in> fst ` set ps" "s \<noteq> []" "CHR ''*'' \<notin> set s"
  shows "\<not> sublist s (Replace ps t)"
  using assms
proof (induction ps t rule: Replace.induct)
  case (2 ps c t)
  show ?case
  proof (cases "find (\<lambda>p. fst p \<noteq> [] \<and> prefix (fst p) (c # t)) ps")
    case None
    then have "\<not> prefix s (c # t)" using "2.prems"(2,3) by (fastforce simp: find_None_iff)
    then have "\<not> prefix s (Replace ps (c # t))"
      using Replace_prefix [OF "2.prems"(1) "2.prems"(4)] by blast
    with None "2.IH"(1) [OF None "2.prems"(1)] "2.prems"(2-4) show ?thesis
      by (auto simp: sublist_Cons_right)
  next
    case (Some p)
    then have "snd p = ''***''" using "2.prems"(1) find_SomeD by metis
    moreover have "\<not> sublist s (Replace ps (drop (length (fst p)) (c # t)))"
      using "2.IH"(2) [OF Some "2.prems"(1)] "2.prems"(2-4) by blast
    ultimately show ?thesis
      using Some "2.prems"(3,4) by (auto dest!: sublist_skip [rotated])
  qed
qed auto

section \<open>Registered values\<close>

definition masker_ok :: "logMasker \<Rightarrow> bool" where
  "masker_ok m \<longleftrightarrow>
     (\<forall>p \<in> set (mPairs m). snd p = ''***'' \<and> length (fst p) > 3) \<and>
     mReplacer m = (if mPairs m = [] then None else Some (mPairs m))"

definition registered :: "Reporter \<Rightarrow> string \<Rightarrow> bool" where
  "registered r s \<longleftrightarrow> (\<exists>m. rMasker r = Some m \<and> masker_ok m \<and> s \<in> fst ` set (mPairs m))"

lemma masker_ok_new [simp]: "masker_ok (newLogMasker ss)"
  by (auto simp: masker_ok_def newLogMasker_def Let_def)

lemma masker_ok_add: "masker_ok m \<Longrightarrow> length v > 3 \<Longrightarrow> masker_ok (masker_add m v)"
  by (auto simp: masker_ok_def masker_add_def Let_def)

lemma mask_registered:
  assumes "registered r s" "CHR ''*'' \<notin> set s"
  shows "\<not> sublist s (mask (rMasker r) content)"
proof -
  from assms(1) obtain m where m: "rMasker r = Some m" "masker_ok m" "s \<in> fst ` set (mPairs m)"
    by (auto simp: registered_def)
  then have rep: "mReplacer m = Some (mPairs m)" and "s \<noteq> []"
    by (auto simp: masker_ok_def)
  have "\<not> sublist s (Replace (mPairs m) content)"
    by (rule Replace_masks) (use m assms(2) \<open>s \<noteq> []\<close> in \<open>auto simp: masker_ok_def\<close>)
  with m(1) rep show ?thesis by (simp add: mask_def)
qed

lemma new_values [simp]: "fst ` set (mPairs (newLogMasker ss)) = {s \<in> set ss. length s > 3}"
  by (force simp: newLogMasker_def Let_def filter_empty_conv)

lemma add_values [simp]: "fst ` set (mPairs (masker_add m v)) = insert v (fst ` set (mPairs m))"
  by (simp add: masker_add_def Let_def)

lemma registered_SetSecrets: "s \<in> set ss \<Longrightarrow> length s > 3 \<Longrightarrow> registered (SetSecrets r ss) s"
  by (simp add: registered_def SetSecrets_def)

lemma registered_AddMask: "registered r s \<Longrightarrow> registered (AddMask r v) s"
  by (auto simp: registered_def AddMask_def masker_ok_add)

section \<open>Reporter calls\<close>

datatype rep_call =
    CAddMask string
  | CAddLog int string
  | CStartStep int int
  | CFinishStep int int Result
  | CAck int
  | CRunDaemon

fun rep_do :: "Reporter \<Rightarrow> rep_call \<Rightarrow> Reporter" where
  "rep_do r (CAddMask v) = AddMask r v"
| "rep_do r (CAddLog now c) = AddLog now r c"
| "rep_do r (CStartStep now i) = StartStep now r i"
| "rep_do r (CFinishStep now i res) = FinishStep now r i res"
| "rep_do r (CAck k) = flushLogs_ack r k"
| "rep_do r CRunDaemon = RunDaemon r"

lemma rMasker_simps [simp]:
  "rMasker (AddLog now r c) = rMasker r" "rMasker (StartStep now r i) = rMasker r"
  "rMasker (FinishStep now r i res) = rMasker r" "rMasker (flushLogs_ack r k) = rMasker r"
  "rMasker (RunDaemon r) = rMasker r"
  by (simp_all add: AddLog_def StartStep_def FinishStep_def flushLogs_ack_def RunDaemon_def Let_def)

lemma rLogRows_simps [simp]:
  "rLogRows (AddLog now r c) = rLogRows r @ [\<lparr>rowTime = now, rowContent = mask (rMasker r) c\<rparr>]"
  "rLogRows (StartStep now r i) = rLogRows r" "rLogRows (FinishStep now r i res) = rLogRows r"
  "rLogRows (AddMask r v) = rLogRows r" "rLogRows (RunDaemon r) = rLogRows r"
  by (simp_all add: AddLog_def StartStep_def FinishStep_def AddMask_def RunDaemon_def Let_def)

lemma rLogRows_ack: "set (rLogRows (flushLogs_ack r k)) \<subseteq> set (rLogRows r)"
  by (auto simp: flushLogs_ack_def Let_def dest: in_set_dropD)

definition hides :: "string \<Rightarrow> Reporter \<Rightarrow> bool" where
  "hides s r \<longleftrightarrow> registered r s \<and> (\<forall>row \<in> set (rLogRows r). \<not> sublist s (rowContent row))"

lemma hides_rep_do:
  assumes "hides s r" "CHR ''*'' \<notin> set s"
  shows "hides s (rep_do r c)"
proof (cases c)
  case (CAddLog now content)
  then show ?thesis
    using assms mask_registered [of r s content] by (auto simp: hides_def registered_def)
next
  case (CAck k)
  then show ?thesis
    using assms rLogRows_ack [of r k] by (auto simp: hides_def registered_def)
next
  case (CAddMask v)
  then show ?thesis using assms registered_AddMask by (simp add: hides_def)
qed (use assms in \<open>auto simp: hides_def registered_def\<close>)

text \<open>The invariant, for a value without asterisks.\<close>

definition hides_plain :: "string \<Rightarrow> Reporter \<Rightarrow> bool" where
  "hides_plain s r \<longleftrightarrow> CHR ''*'' \<notin> set s \<and> hides s r"

interpretation masked: object_invariant rep_do "\<lambda>_ _. True" "hides_plain s" for s
  by unfold_locales (simp add: hides_plain_def hides_rep_do)

lemma hides_run: "hides s r \<Longrightarrow> CHR ''*'' \<notin> set s \<Longrightarrow> hides s (run_calls rep_do r cs)"
  using masked.run_calls_inv [of s r cs] by (simp add: hides_plain_def)

lemma hides_request: "hides s r \<Longrightarrow> flushLogs_request r noMore = Some (off, rows) \<Longrightarrow>
  \<forall>row \<in> set rows. \<not> sublist s (rowContent row)"
  by (auto simp: flushLogs_request_def hides_def split: if_splits)

section \<open>Property\<close>

text \<open>
  C3: Secrets without a \<open>*\<close> do not reach the forge through the reporter of their task: once a secret of more than three characters
  and without a \<open>*\<close> is given to a reporter, every row of every log upload of that reporter, after any sequence of
  its calls (masks, logs, step changes, acknowledgements), is free of it as a substring. Shorter
  secrets are not masked at all, secrets with a \<open>*\<close> can be completed by the mask of another one (below), and the
  report of a task that failed before its job ran comes from a reporter that is given no secrets.
\<close>

theorem secrets_never_uploaded:
  assumes "s \<in> set secrets" "length s > 3" "CHR ''*'' \<notin> set s"
    and "flushLogs_request (run_calls rep_do (SetSecrets (New taskID n) secrets) cs) noMore
           = Some (off, rows)"
    and "row \<in> set rows"
  shows "\<not> sublist s (rowContent row)"
proof -
  have "hides s (SetSecrets (New taskID n) secrets)"
    using registered_SetSecrets [OF assms(1,2)] by (simp add: hides_def) (simp add: SetSecrets_def New_def)
  then have "hides s (run_calls rep_do (SetSecrets (New taskID n) secrets) cs)"
    using assms(3) by (rule hides_run)
  from hides_request [OF this assms(4)] assms(5) show ?thesis by blast
qed

theorem secrets_never_uploaded_witness:
  "\<not> sublist ''hunter2'' (rowContent \<lparr>rowTime = 5, rowContent = ''pw=***!''\<rparr>)"
  by (rule secrets_never_uploaded
      [where secrets = "[''hunter2'']" and cs = "[CAddLog 5 ''pw=hunter2!'']" and n = 0
         and taskID = 1 and noMore = False and off = 0
         and rows = "[\<lparr>rowTime = 5, rowContent = ''pw=***!''\<rparr>]"])
     (code_simp | simp)+

text \<open>
  A secret with \<open>*\<close> in it can leak: the mask of another secret completes it, and as a replacer
  makes one pass over the line, the text it produced is not looked at again.
\<close>

theorem starred_secret_uploaded:
  "map_option (map rowContent \<circ> snd)
     (flushLogs_request (run_calls rep_do (SetSecrets (New 1 0) [''abcd'', ''***ef'']) [CAddLog 5 ''abcdef'']) False)
   = Some [''***ef'']"
  by code_simp

end
