(* ===== verification/Commands.thy ===== *)
theory Commands
  imports Reporter_Mask
begin

text \<open>
  Workflow commands in log lines, from \<^verbatim>\<open>src/pkg/reporter/commands.go\<close>.

  The regular expression \<^verbatim>\<open>^::([^ :]+)( .*)?::(.*)$\<close> is matched by hand: the first group is the
  maximal run without space and colon; behind it either \<open>::\<close> follows at once and the value is
  the rest, or a space follows and, the second group being greedy, the value is what comes
  after the last \<open>::\<close>. The dot does not match a newline.
\<close>

fun after_last_colons :: "string \<Rightarrow> string option" where
  "after_last_colons [] = None"
| "after_last_colons (c # s) =
     (case after_last_colons s of
        Some v \<Rightarrow> Some v
      | None \<Rightarrow> if prefix ''::'' (c # s) then Some (drop 2 (c # s)) else None)"

definition cmd_char :: "char \<Rightarrow> bool" where
  "cmd_char c = (c \<noteq> CHR '' '' \<and> c \<noteq> CHR '':'')"

text \<open>The first and third group of a match.\<close>

definition cmdRegex :: "string \<Rightarrow> (string \<times> string) option" where
  "cmdRegex line =
     (if \<not> prefix ''::'' line then None
      else
        let name = takeWhile cmd_char (drop 2 line); rest = dropWhile cmd_char (drop 2 line)
        in if name = [] \<or> NL \<in> set rest then None
           else if prefix ''::'' rest then Some (name, drop 2 rest)
           else if rest \<noteq> [] \<and> hd rest = CHR '' ''
             then map_option (Pair name) (after_last_colons (tl rest))
           else None)"

record CommandProcessor =
  cpStopToken :: string
  cpDebugEnabled :: bool

definition NewCommandProcessor :: "bool \<Rightarrow> CommandProcessor" where
  "NewCommandProcessor debug = \<lparr>cpStopToken = [], cpDebugEnabled = debug\<rparr>"

text \<open>\<open>None\<close> in the last component is a dropped line.\<close>

definition ProcessLine ::
  "CommandProcessor \<Rightarrow> Reporter \<Rightarrow> string \<Rightarrow> CommandProcessor \<times> Reporter \<times> string option" where
  "ProcessLine p rep line =
     (if cpStopToken p \<noteq> [] then
        if line = ''::'' @ cpStopToken p @ ''::'' then (p\<lparr>cpStopToken := []\<rparr>, rep, None)
        else (p, rep, Some line)
      else
        case cmdRegex line of
          None \<Rightarrow> (p, rep, Some line)
        | Some (name, value) \<Rightarrow>
            let command = ToLower name in
            if command = ''add-mask'' then (p, AddMask rep value, None)
            else if command = ''debug'' then (p, rep, if cpDebugEnabled p then Some line else None)
            else if command = ''stop-commands'' then
              ((if value \<noteq> [] then p\<lparr>cpStopToken := value\<rparr> else p), rep, None)
            else (p, rep, Some line))"

text \<open>Processing a sequence of lines, with the lines that are emitted.\<close>

fun process_lines ::
  "CommandProcessor \<Rightarrow> Reporter \<Rightarrow> string list \<Rightarrow> CommandProcessor \<times> Reporter \<times> string list" where
  "process_lines p rep [] = (p, rep, [])"
| "process_lines p rep (l # ls) =
     (case ProcessLine p rep l of
        (p1, rep1, out) \<Rightarrow>
          (case process_lines p1 rep1 ls of
             (p2, rep2, outs) \<Rightarrow> (p2, rep2, (case out of None \<Rightarrow> outs | Some x \<Rightarrow> x # outs))))"

section \<open>Facts\<close>

lemma process_lines_append:
  "process_lines p rep (xs @ ys) =
     (case process_lines p rep xs of
        (p1, rep1, o1) \<Rightarrow> (case process_lines p1 rep1 ys of (p2, rep2, o2) \<Rightarrow> (p2, rep2, o1 @ o2)))"
  by (induction xs arbitrary: p rep) (auto split: prod.splits option.splits)

lemma stopped_lines:
  "cpStopToken p = tok \<Longrightarrow> tok \<noteq> [] \<Longrightarrow> ''::'' @ tok @ ''::'' \<notin> set ls \<Longrightarrow>
   process_lines p rep ls = (p, rep, ls)"
  by (induction ls) (auto simp: ProcessLine_def)

lemma cmdRegex_direct:
  "name \<noteq> [] \<Longrightarrow> list_all cmd_char name \<Longrightarrow> NL \<notin> set value \<Longrightarrow>
   cmdRegex (''::'' @ name @ ''::'' @ value) = Some (name, value)"
  by (simp add: cmdRegex_def list_all_iff takeWhile_append dropWhile_append cmd_char_def)

lemma ProcessLine_masker:
  "ProcessLine p rep line = (p', rep', out) \<Longrightarrow>
   rep' = rep \<or> (\<exists>v. rep' = AddMask rep v \<and> out = None)"
  by (auto simp: ProcessLine_def Let_def split: if_splits option.splits)

section \<open>Properties\<close>

text \<open>
  \<^verbatim>\<open>stop-commands\<close> shields output from being interpreted: from the line that stops commands
  with a token until the line \<open>::token::\<close>, every line is passed on verbatim and the reporter is
  not touched, whatever the lines say; the two marker lines are dropped, and afterwards the
  processor is as it was before.
\<close>

theorem stop_commands_shield:
  assumes "cpStopToken p = []" "tok \<noteq> []" "NL \<notin> set tok"
    and "''::'' @ tok @ ''::'' \<notin> set body"
  shows "process_lines p rep ((''::stop-commands::'' @ tok) # body @ [''::'' @ tok @ ''::''])
           = (p, rep, body)"
proof -
  have "cmdRegex (''::'' @ ''stop-commands'' @ ''::'' @ tok) = Some (''stop-commands'', tok)"
    by (rule cmdRegex_direct) (use assms(3) in \<open>simp_all add: cmd_char_def\<close>)
  then have first: "ProcessLine p rep (''::stop-commands::'' @ tok) = (p\<lparr>cpStopToken := tok\<rparr>, rep, None)"
    using assms(1,2) by (simp add: ProcessLine_def ToLower_def lower_char_def char_in_def)
  have mid: "process_lines (p\<lparr>cpStopToken := tok\<rparr>) rep body = (p\<lparr>cpStopToken := tok\<rparr>, rep, body)"
    using assms by (intro stopped_lines) auto
  have "ProcessLine (p\<lparr>cpStopToken := tok\<rparr>) rep (''::'' @ tok @ ''::'') = (p, rep, None)"
    using assms(1,2) by (simp add: ProcessLine_def)
  with first mid show ?thesis by (simp add: process_lines_append)
qed

theorem stop_commands_shield_witness:
  "process_lines (NewCommandProcessor False) (New 1 1)
     ((''::stop-commands::'' @ ''t0k'') # [''::add-mask::x'', ''::debug::y''] @ [''::'' @ ''t0k'' @ ''::''])
     = (NewCommandProcessor False, New 1 1, [''::add-mask::x'', ''::debug::y''])"
  by (rule stop_commands_shield) (simp_all add: NewCommandProcessor_def)

text \<open>
  A value masked with \<open>::add-mask::\<close> is gone from the log from then on: the command line
  itself is not logged, and no row written later, after any further reporter calls, contains
  the value (more than three characters, no asterisk, no newline).
\<close>

theorem add_mask_hides:
  assumes "cpStopToken p = []" "length v > 3" "CHR ''*'' \<notin> set v" "NL \<notin> set v"
    and "rep = SetSecrets (New taskID n) secrets"
    and "ProcessLine p rep (''::add-mask::'' @ v) = (p', rep', out)"
    and "row \<in> set (rLogRows (run_calls rep_do rep' cs))"
  shows "out = None \<and> \<not> sublist v (rowContent row)"
proof -
  have "cmdRegex (''::'' @ ''add-mask'' @ ''::'' @ v) = Some (''add-mask'', v)"
    by (rule cmdRegex_direct) (use assms(4) in \<open>simp_all add: cmd_char_def\<close>)
  then have r: "out = None" "rep' = AddMask rep v"
    using assms(1,6) by (auto simp: ProcessLine_def ToLower_def lower_char_def char_in_def)
  have "registered rep' v"
    using assms(2,5) r(2) masker_ok_add [OF masker_ok_new, of v secrets]
    by (simp add: registered_def AddMask_def SetSecrets_def)
  moreover have "rLogRows rep' = []" using r(2) assms(5) by (simp add: SetSecrets_def New_def)
  ultimately have "hides v rep'" by (simp add: hides_def)
  then have "hides v (run_calls rep_do rep' cs)" using assms(3) by (rule hides_run)
  with assms(7) r(1) show ?thesis by (auto simp: hides_def)
qed

theorem add_mask_hides_witness:
  "\<not> sublist ''tok12'' (rowContent \<lparr>rowTime = 3, rowContent = ''a ***''\<rparr>)"
proof -
  let ?rep = "SetSecrets (New 1 1) []"
  have p: "ProcessLine (NewCommandProcessor False) ?rep (''::add-mask::'' @ ''tok12'')
      = (NewCommandProcessor False, AddMask ?rep ''tok12'', None)" by code_simp
  have row: "\<lparr>rowTime = 3, rowContent = ''a ***''\<rparr>
      \<in> set (rLogRows (run_calls rep_do (AddMask ?rep ''tok12'') [CAddLog 3 ''a tok12'']))" by code_simp
  show ?thesis
    using add_mask_hides [OF _ _ _ _ refl p row] by (simp add: NewCommandProcessor_def)
qed

end
