(* ===== verification/Reporter_Log.thy ===== *)
theory Reporter_Log
  imports Reporter_Mask
begin

text \<open>
  The log upload protocol between the reporter and the forge, with everything that can be
  concurrent: rows are added while flushes are in flight, the daemon's flush may overlap the
  final one, requests and answers are lost, answers arrive in any order.

  The forge's \<^verbatim>\<open>UpdateLog\<close> is not in the sources. It is the parameter \<open>forge\<close>, from its stored
  rows, the request's index and rows to the new stored rows and the acknowledged index; what
  the reporter relies on is \<open>forge_contract\<close>.
\<close>

definition forge_contract :: "(LogRow list \<Rightarrow> int \<Rightarrow> LogRow list \<Rightarrow> LogRow list \<times> int) \<Rightarrow> bool" where
  "forge_contract forge \<longleftrightarrow>
     (\<forall>stored idx rows stored' ack. forge stored idx rows = (stored', ack) \<longrightarrow>
        ack = int (length stored') \<and>
        (stored' = stored \<or>
         0 \<le> idx \<and> idx \<le> int (length stored) \<and>
         stored' = stored @ drop (length stored - nat idx) rows))"

text \<open>A forge that accepts every request that leaves no gap.\<close>

definition forge_stores :: "(LogRow list \<Rightarrow> int \<Rightarrow> LogRow list \<Rightarrow> LogRow list \<times> int) \<Rightarrow> bool" where
  "forge_stores forge \<longleftrightarrow>
     (\<forall>stored idx rows. 0 \<le> idx \<longrightarrow> idx \<le> int (length stored) \<longrightarrow>
        forge stored idx rows =
          (stored @ drop (length stored - nat idx) rows,
           int (length (stored @ drop (length stored - nat idx) rows))))"

text \<open>\<open>gHist\<close> is a ghost: every row \<^verbatim>\<open>AddLog\<close> ever appended.\<close>

record log_sys =
  gRep :: Reporter
  gSrv :: "LogRow list"
  gHist :: "LogRow list"
  gReqs :: "(int \<times> LogRow list) list"
  gAcks :: "int list"

definition log_init :: "log_sys \<Rightarrow> bool" where
  "log_init s \<longleftrightarrow>
     (\<exists>taskID n secrets. gRep s = RunDaemon (SetSecrets (New taskID n) secrets)) \<and>
     gSrv s = [] \<and> gHist s = [] \<and> gReqs s = [] \<and> gAcks s = []"

inductive log_step ::
  "(LogRow list \<Rightarrow> int \<Rightarrow> LogRow list \<Rightarrow> LogRow list \<times> int) \<Rightarrow> log_sys \<Rightarrow> log_sys \<Rightarrow> bool"
  for forge where
  step_log: "r' = AddLog now (gRep s) c \<Longrightarrow>
    log_step forge s (s\<lparr>gRep := r', gHist := gHist s @ [last (rLogRows r')]\<rparr>)"
| step_mask: "log_step forge s (s\<lparr>gRep := AddMask (gRep s) v\<rparr>)"
| step_start: "log_step forge s (s\<lparr>gRep := StartStep now (gRep s) i\<rparr>)"
| step_finish: "log_step forge s (s\<lparr>gRep := FinishStep now (gRep s) i res\<rparr>)"
| step_close: "log_step forge s (s\<lparr>gRep := Close_begin now (gRep s) res\<rparr>)"
| step_send: "flushLogs_request (gRep s) noMore = Some q \<Longrightarrow>
    log_step forge s (s\<lparr>gReqs := q # gReqs s\<rparr>)"
| step_lose_request: "q \<in> set (gReqs s) \<Longrightarrow> log_step forge s (s\<lparr>gReqs := remove1 q (gReqs s)\<rparr>)"
| step_serve: "(idx, rows) \<in> set (gReqs s) \<Longrightarrow> forge (gSrv s) idx rows = (stored, ack) \<Longrightarrow>
    log_step forge s (s\<lparr>gReqs := remove1 (idx, rows) (gReqs s), gSrv := stored, gAcks := ack # gAcks s\<rparr>)"
| step_lose_answer: "k \<in> set (gAcks s) \<Longrightarrow> log_step forge s (s\<lparr>gAcks := remove1 k (gAcks s)\<rparr>)"
| step_ack: "k \<in> set (gAcks s) \<Longrightarrow>
    log_step forge s (s\<lparr>gAcks := remove1 k (gAcks s), gRep := flushLogs_ack (gRep s) k\<rparr>)"

section \<open>The invariant\<close>

text \<open>The buffer is what follows the offset in the history; the forge holds a prefix of it.\<close>

definition buffer_ok :: "Reporter \<Rightarrow> LogRow list \<Rightarrow> LogRow list \<Rightarrow> bool" where
  "buffer_ok r srv hist \<longleftrightarrow>
     0 \<le> rLogOffset r \<and> rLogOffset r \<le> int (length srv) \<and> prefix srv hist \<and>
     rLogRows r = drop (nat (rLogOffset r)) hist"

definition req_ok :: "LogRow list \<Rightarrow> LogRow list \<Rightarrow> int \<times> LogRow list \<Rightarrow> bool" where
  "req_ok srv hist q \<longleftrightarrow>
     0 \<le> fst q \<and> fst q \<le> int (length srv) \<and> prefix (snd q) (drop (nat (fst q)) hist)"

lemma req_ok_mono: "req_ok srv hist q \<Longrightarrow> length srv \<le> length srv' \<Longrightarrow> req_ok srv' hist q"
  by (auto simp: req_ok_def)

definition log_inv :: "log_sys \<Rightarrow> bool" where
  "log_inv s \<longleftrightarrow>
     buffer_ok (gRep s) (gSrv s) (gHist s) \<and>
     (\<forall>q \<in> set (gReqs s). req_ok (gSrv s) (gHist s) q) \<and>
     (\<forall>k \<in> set (gAcks s). 0 \<le> k \<and> k \<le> int (length (gSrv s)))"

lemma rLogOffset_simps [simp]:
  "rLogOffset (AddLog now r c) = rLogOffset r" "rLogOffset (StartStep now r i) = rLogOffset r"
  "rLogOffset (FinishStep now r i res) = rLogOffset r" "rLogOffset (AddMask r v) = rLogOffset r"
  "rLogOffset (RunDaemon r) = rLogOffset r" "rLogOffset (Close_begin now r res) = rLogOffset r"
  by (simp_all add: AddLog_def StartStep_def FinishStep_def AddMask_def RunDaemon_def
      Close_begin_def call_cancel_def Let_def)

lemma rLogRows_Close_begin [simp]: "rLogRows (Close_begin now r res) = rLogRows r"
  by (simp add: Close_begin_def call_cancel_def Let_def)

lemma buffer_ok_ack:
  assumes "buffer_ok r srv hist" "0 \<le> k" "k \<le> int (length srv)"
  shows "buffer_ok (flushLogs_ack r k) srv hist"
proof (cases "rLogOffset r \<le> k")
  case True
  have "length srv \<le> length hist" using assms(1) by (auto simp: buffer_ok_def dest: prefix_length_le)
  with assms True have "k - rLogOffset r \<le> int (length (rLogRows r))"
    by (simp add: buffer_ok_def)
  moreover have "nat (k - rLogOffset r) + nat (rLogOffset r) = nat k"
    using True assms(1) unfolding buffer_ok_def by arith
  ultimately show ?thesis
    using assms True by (simp add: buffer_ok_def flushLogs_ack_def Let_def)
qed (use assms in \<open>simp add: flushLogs_ack_def\<close>)

lemma prefix_extend:
  assumes "prefix srv hist" "i \<le> length srv" "prefix rows (drop i hist)"
  shows "prefix (srv @ drop (length srv - i) rows) hist"
proof -
  from assms(1) obtain zs where hist: "hist = srv @ zs" by (auto simp: prefix_def)
  with assms(2,3) obtain ys where ys: "drop i srv @ zs = rows @ ys" by (auto simp: prefix_def)
  have "zs = drop (length srv - i) (drop i srv @ zs)" by simp
  also have "\<dots> = drop (length srv - i) rows @ drop (length srv - i - length rows) ys"
    by (simp add: ys)
  finally show ?thesis by (auto simp: hist prefix_def)
qed

lemma forge_progress:
  assumes "forge_contract forge" "forge srv idx rows = (stored, ack)"
    and "prefix srv hist" "0 \<le> idx" "idx \<le> int (length srv)" "prefix rows (drop (nat idx) hist)"
  shows "prefix stored hist \<and> length srv \<le> length stored \<and> ack = int (length stored)"
proof -
  from assms(1,2) have ack: "ack = int (length stored)"
    and st: "stored = srv \<or> stored = srv @ drop (length srv - nat idx) rows"
    unfolding forge_contract_def by blast+
  moreover have "prefix (srv @ drop (length srv - nat idx) rows) hist"
    using assms(3-6) by (intro prefix_extend) auto
  ultimately show ?thesis using assms(3) by auto
qed

lemma log_inv_init: "log_init s \<Longrightarrow> log_inv s"
  by (auto simp: log_init_def log_inv_def buffer_ok_def) (auto simp: SetSecrets_def New_def)

lemma log_inv_step:
  assumes "forge_contract forge" "log_inv s" "log_step forge s t"
  shows "log_inv t"
  using assms(3,2)
proof cases
  case (step_log r' now c)
  have "length (gSrv s) \<le> length (gHist s)"
    using assms(2) by (auto simp: log_inv_def buffer_ok_def dest: prefix_length_le)
  with step_log assms(2) show ?thesis
    by (auto simp: log_inv_def buffer_ok_def req_ok_def intro: prefix_order.trans)
next
  case (step_send noMore q)
  with assms(2) show ?thesis
    by (auto simp: log_inv_def buffer_ok_def req_ok_def flushLogs_request_def split: if_splits)
next
  case (step_serve idx rows stored ack)
  then have pre: "prefix (gSrv s) (gHist s)" "0 \<le> idx" "idx \<le> int (length (gSrv s))"
    "prefix rows (drop (nat idx) (gHist s))"
    using assms(2) by (auto simp: log_inv_def buffer_ok_def req_ok_def)
  have "prefix stored (gHist s)" "length (gSrv s) \<le> length stored" "ack = int (length stored)"
    using forge_progress [OF assms(1) step_serve(3) pre] by auto
  moreover have "\<forall>q \<in> set (remove1 (idx, rows) (gReqs s)). q \<in> set (gReqs s)"
    using set_remove1_subset by fast
  ultimately show ?thesis
    using assms(2) by (auto simp: step_serve(1) log_inv_def buffer_ok_def intro: req_ok_mono)
next
  case (step_ack k)
  with assms(2) show ?thesis
    by (auto simp: log_inv_def dest: notin_set_remove1 intro: buffer_ok_ack)
qed (use assms(2) in \<open>auto simp: log_inv_def buffer_ok_def dest: notin_set_remove1\<close>)

lemma log_inv_reach:
  assumes "forge_contract forge" "reach log_init (log_step forge) s"
  shows "log_inv s"
proof -
  have "invariant_system log_init (log_step forge) log_inv"
    by unfold_locales (auto intro: log_inv_init log_inv_step [OF assms(1)])
  then show ?thesis using assms(2) by (rule invariant_system.reach_inv)
qed

section \<open>Properties\<close>

text \<open>
  C1: Log upload is exactly-once and in order, and loses nothing: in every reachable state of
  reporter and forge the forge's log is a prefix of the rows logged so far, and every row the
  forge does not have yet is still in the reporter's buffer.
\<close>

theorem log_upload_safe:
  assumes "forge_contract forge" "reach log_init (log_step forge) s"
  shows "prefix (gSrv s) (gHist s) \<and> suffix (drop (length (gSrv s)) (gHist s)) (rLogRows (gRep s))"
proof -
  have "buffer_ok (gRep s) (gSrv s) (gHist s)"
    using log_inv_reach [OF assms] by (simp add: log_inv_def)
  then have pre: "prefix (gSrv s) (gHist s)"
    and rows: "rLogRows (gRep s) = drop (nat (rLogOffset (gRep s))) (gHist s)"
    and "nat (rLogOffset (gRep s)) \<le> length (gSrv s)" by (auto simp: buffer_ok_def)
  then obtain d where "length (gSrv s) = d + nat (rLogOffset (gRep s))"
    by (metis add.commute le_Suc_ex)
  then have "drop (length (gSrv s)) (gHist s) = drop d (rLogRows (gRep s))" by (simp add: rows)
  with pre show ?thesis by (simp add: suffix_drop)
qed

text \<open>
  The final log flush delivers everything: from any reachable state, when the closing
  \<^verbatim>\<open>UpdateLog\<close> call (with \<open>noMore\<close>) is answered by a forge that stores gap-free rows, the forge
  then holds every row ever logged and the reporter's buffer is empty.
\<close>

theorem final_flush_delivers:
  assumes "forge_contract forge" "forge_stores forge" "reach log_init (log_step forge) s"
    and "flushLogs_request (gRep s) True = Some (idx, rows)"
    and "forge (gSrv s) idx rows = (stored, ack)"
  shows "stored = gHist s \<and> rLogRows (flushLogs_ack (gRep s) ack) = []"
proof -
  have b: "buffer_ok (gRep s) (gSrv s) (gHist s)"
    using log_inv_reach [OF assms(1,3)] by (simp add: log_inv_def)
  have q: "idx = rLogOffset (gRep s)" "rows = drop (nat idx) (gHist s)"
    using assms(4) b by (auto simp: flushLogs_request_def buffer_ok_def)
  then have idx: "0 \<le> idx" "idx \<le> int (length (gSrv s))" using b by (auto simp: buffer_ok_def)
  have st: "stored = gSrv s @ drop (length (gSrv s) - nat idx) rows" "ack = int (length stored)"
    using assms(2,5) idx unfolding forge_stores_def by force+
  have "drop (length (gSrv s) - nat idx) rows = drop (length (gSrv s)) (gHist s)"
    using idx by (simp add: q(2))
  with st(1) b have hist: "stored = gHist s"
    by (auto simp: buffer_ok_def prefix_def)
  have "buffer_ok (gRep s) stored (gHist s)" using b hist by (auto simp: buffer_ok_def prefix_def)
  then have "buffer_ok (flushLogs_ack (gRep s) ack) stored (gHist s)"
    by (rule buffer_ok_ack) (simp_all add: st(2))
  moreover have "rLogOffset (flushLogs_ack (gRep s) ack) = ack"
    using b hist st(2) by (auto simp: flushLogs_ack_def Let_def buffer_ok_def prefix_def)
  ultimately show ?thesis using hist st(2) by (simp add: buffer_ok_def)
qed

subsection \<open>Witnesses\<close>

definition example_forge :: "LogRow list \<Rightarrow> int \<Rightarrow> LogRow list \<Rightarrow> LogRow list \<times> int" where
  "example_forge stored idx rows =
     (if 0 \<le> idx \<and> idx \<le> int (length stored)
      then (stored @ drop (length stored - nat idx) rows,
            int (length (stored @ drop (length stored - nat idx) rows)))
      else (stored, int (length stored)))"

lemma example_forge_contract: "forge_contract example_forge" "forge_stores example_forge"
  by (auto simp: forge_contract_def forge_stores_def example_forge_def)

definition example_sys :: log_sys where
  "example_sys = \<lparr>gRep = AddLog 7 (RunDaemon (SetSecrets (New 1 1) [])) ''hi'', gSrv = [],
     gHist = [\<lparr>rowTime = 7, rowContent = ''hi''\<rparr>], gReqs = [], gAcks = []\<rparr>"

lemma example_sys_reach: "reach log_init (log_step example_forge) example_sys"
proof -
  let ?r = "RunDaemon (SetSecrets (New 1 1) [])"
  let ?s = "\<lparr>gRep = ?r, gSrv = [], gHist = [], gReqs = [], gAcks = []\<rparr>"
  have "log_init ?s" unfolding log_init_def by auto
  then have "reach log_init (log_step example_forge) ?s" by (rule reach_init)
  moreover have "log_step example_forge ?s (?s\<lparr>gRep := AddLog 7 ?r ''hi'',
      gHist := gHist ?s @ [last (rLogRows (AddLog 7 ?r ''hi''))]\<rparr>)"
    by (rule step_log) simp
  ultimately have "reach log_init (log_step example_forge) (?s\<lparr>gRep := AddLog 7 ?r ''hi'',
      gHist := gHist ?s @ [last (rLogRows (AddLog 7 ?r ''hi''))]\<rparr>)" by (rule reach_step)
  moreover have "rLogRows (AddLog 7 ?r ''hi'') = [\<lparr>rowTime = 7, rowContent = ''hi''\<rparr>]" by code_simp
  ultimately show ?thesis by (simp add: example_sys_def)
qed

theorem log_upload_safe_witness:
  "prefix [] [\<lparr>rowTime = 7, rowContent = ''hi''\<rparr>]
   \<and> suffix [\<lparr>rowTime = 7, rowContent = ''hi''\<rparr>] (rLogRows (gRep example_sys))"
  using log_upload_safe [OF example_forge_contract(1) example_sys_reach]
  by (simp add: example_sys_def)

theorem final_flush_delivers_witness:
  "fst (example_forge [] 0 [\<lparr>rowTime = 7, rowContent = ''hi''\<rparr>]) = [\<lparr>rowTime = 7, rowContent = ''hi''\<rparr>]"
proof -
  have q: "flushLogs_request (gRep example_sys) True = Some (0, [\<lparr>rowTime = 7, rowContent = ''hi''\<rparr>])"
    by code_simp
  have f: "example_forge (gSrv example_sys) 0 [\<lparr>rowTime = 7, rowContent = ''hi''\<rparr>]
      = ([\<lparr>rowTime = 7, rowContent = ''hi''\<rparr>], 1)" by code_simp
  show ?thesis
    using final_flush_delivers [OF example_forge_contract example_sys_reach q f] f
    by (simp add: example_sys_def)
qed

end
