(* ===== verification/Reporter_Close.thy ===== *)
theory Reporter_Close
  imports Reporter_Mask
begin

text \<open>
  What the reporter tells the forge about a task: interim flushes never end it, \<^verbatim>\<open>Close\<close> ends
  it with a result for every step, the retry loop of \<^verbatim>\<open>Close\<close> is bounded, and each step's log
  range covers exactly the rows written while it was the current step.
\<close>

section \<open>Frame facts\<close>

lemma rState_ack [simp]: "rState (flushLogs_ack r k) = rState r"
  by (simp add: flushLogs_ack_def Let_def)

lemma rTaskID_ack [simp]: "rTaskID (flushLogs_ack r k) = rTaskID r"
  by (simp add: flushLogs_ack_def Let_def)

lemma rState_cancel [simp]: "rState (call_cancel r) = rState r" "rTaskID (call_cancel r) = rTaskID r"
  by (simp_all add: call_cancel_def)

lemma flushLogs_final:
  "flushLogs reply r True =
     (let q = [UpdateLog (rTaskID r) (rLogOffset r) (rLogRows r) True]
      in case reply of Inl e \<Rightarrow> (r, q, Some e) | Inr k \<Rightarrow> (flushLogs_ack r k, q, None))"
  by (auto simp: flushLogs_def flushLogs_request_def Let_def split: sum.splits)

lemma flushLogs_frame:
  "flushLogs reply r noMore = (r', q, res) \<Longrightarrow>
   rState r' = rState r \<and> rTaskID r' = rTaskID r \<and> (\<forall>st. UpdateTask st \<notin> set q)"
  by (auto simp: flushLogs_def Let_def split: option.splits sum.splits)

lemma flushState_frame:
  "flushState reply r final = (r', q, res) \<Longrightarrow>
   rState r' = rState r \<and> rTaskID r' = rTaskID r \<and> q = [UpdateTask (flushState_payload r final)]"
  by (auto simp: flushState_def Let_def split: sum.splits)

section \<open>The retry loop\<close>

definition attempt_ok :: "'e attempt \<Rightarrow> bool" where
  "attempt_ok a \<longleftrightarrow> \<not> isl (aLog a) \<and> \<not> isl (aTask a)"

text \<open>The requests of a loop that succeeds end with the final state and the probe.\<close>

lemma close_loop_Closed:
  "close_loop w k n b le r = (r', q, ws, Closed) \<Longrightarrow>
   rState r' = rState r \<and>
   (\<exists>q0. q = q0 @ [UpdateTask (rState r), readbackProbe r])"
proof (induction n arbitrary: k b le r r' q ws)
  case (Suc n)
  obtain r1 q1 e1 where f1: "flushLogs (aLog (w k)) r True = (r1, q1, e1)" by (metis prod_cases3)
  obtain r2 q2 e2 where f2: "flushState (aTask (w k)) r1 True = (r2, q2, e2)" by (metis prod_cases3)
  note fr = flushLogs_frame [OF f1] flushState_frame [OF f2]
  show ?case
  proof (cases "e1 = None \<and> e2 = None")
    case True
    with Suc.prems f1 f2 have "r' = r2" "q = q1 @ q2 @ [readbackProbe r2]" by auto
    with fr show ?thesis by (simp add: flushState_payload_def readbackProbe_def)
  next
    case False
    then obtain rr e q' ws' where l: "close_loop w (Suc k) n (b * 2) (Some e) rr = (r', q', ws', Closed)"
        "rState rr = rState r" "rTaskID rr = rTaskID r" "\<exists>qq. q = qq @ q'"
      using Suc.prems f1 f2 fr
      by (auto simp: Let_def split: if_splits option.splits prod.splits)
    from Suc.IH [OF l(1)] l(2-4) show ?thesis
      by (auto simp: readbackProbe_def)
  qed
qed simp

lemma close_loop_result:
  "close_loop w k n b le r = (r', q, ws, res) \<Longrightarrow>
   (res = Closed \<longleftrightarrow> (\<exists>i<n. attempt_ok (w (k + i)) \<and>
      (\<forall>j<i. \<not> attempt_ok (w (k + j)) \<and> aWait (w (k + j))))) \<and>
   length ws \<le> n \<and> ws = map (\<lambda>i. b * 2 ^ i) [0..<length ws]"
proof (induction n arbitrary: k b le r r' q ws res)
  case (Suc n)
  obtain r1 q1 e1 where f1: "flushLogs (aLog (w k)) r True = (r1, q1, e1)" by (metis prod_cases3)
  obtain r2 q2 e2 where f2: "flushState (aTask (w k)) r1 True = (r2, q2, e2)" by (metis prod_cases3)
  have ok: "attempt_ok (w k) \<longleftrightarrow> e1 = None \<and> e2 = None"
    using f1 f2 by (auto simp: attempt_ok_def flushLogs_final flushState_def Let_def split: sum.splits)
  have shift: "(\<exists>i<Suc n. P i) \<longleftrightarrow> P 0 \<or> (\<exists>i<n. P (Suc i))" for P :: "nat \<Rightarrow> bool"
    by (metis less_Suc_eq_0_disj Suc_less_eq zero_less_Suc)
  have shift_all: "(\<forall>i<Suc m. P i) \<longleftrightarrow> P 0 \<and> (\<forall>i<m. P (Suc i))" for m and P :: "nat \<Rightarrow> bool"
    by (metis less_Suc_eq_0_disj)
  show ?case
  proof (cases "attempt_ok (w k)")
    case True
    with Suc.prems f1 f2 ok show ?thesis by (auto simp: shift)
  next
    case False
    show ?thesis
    proof (cases "aWait (w k)")
      case False
      with \<open>\<not> attempt_ok (w k)\<close> Suc.prems f1 f2 ok show ?thesis
        by (auto simp: shift shift_all Let_def split: option.splits)
    next
      case True
      with \<open>\<not> attempt_ok (w k)\<close> Suc.prems f1 f2 ok obtain rr e q' ws'
        where l: "close_loop w (Suc k) n (b * 2) (Some e) rr = (r', q', ws', res)" "ws = b # ws'"
        by (auto simp: Let_def split: option.splits prod.splits)
      have "[0..<Suc (length ws')] = 0 # map Suc [0..<length ws']"
        by (simp add: map_Suc_upt upt_conv_Cons del: upt_Suc)
      with Suc.IH [OF l(1)] l(2) True \<open>\<not> attempt_ok (w k)\<close> show ?thesis
        by (simp add: shift shift_all del: upt_Suc) (simp add: o_def mult.assoc)
    qed
  qed
qed simp

section \<open>Properties of the final report\<close>

text \<open>
  C8: When \<^verbatim>\<open>Close\<close> succeeds, its last upload before the read-back probe carries the job's
  result and a terminal result for every step: a step that already had a result keeps it, an
  unfinished one is reported cancelled, or skipped when the whole job was skipped.
\<close>

theorem Close_reports_every_step:
  assumes "Close w now r job = (r', reqs, waits, Closed)"
  shows "\<exists>st earlier probe. reqs = earlier @ [UpdateTask st, UpdateTask probe] \<and>
     tsId st = tsId (rState r) \<and> tsResult st = job \<and>
     length (tsSteps st) = length (tsSteps (rState r)) \<and>
     (\<forall>i < length (tsSteps st).
        ssResult (tsSteps st ! i) =
          (if ssResult (tsSteps (rState r) ! i) \<noteq> RESULT_UNSPECIFIED then ssResult (tsSteps (rState r) ! i)
           else if job = RESULT_SKIPPED then RESULT_SKIPPED else RESULT_CANCELLED)) \<and>
     tsResult probe = RESULT_UNSPECIFIED \<and> tsSteps probe = []"
proof -
  let ?r = "Close_begin now r job"
  have "\<exists>q0. reqs = q0 @ [UpdateTask (rState ?r), readbackProbe ?r]"
    using close_loop_Closed assms unfolding Close_def by blast
  moreover have "rState ?r = (rState r)\<lparr>tsResult := job, tsStoppedAt := Some now,
      tsSteps := map (close_step job) (tsSteps (rState r))\<rparr>"
    by (simp add: Close_begin_def Let_def)
  ultimately show ?thesis
    unfolding readbackProbe_def
    by (intro exI [of _ "rState ?r"]) (auto simp: close_step_def)
qed

theorem Close_reports_every_step_witness:
  "\<exists>st earlier probe.
     fst (snd (Close (\<lambda>_. \<lparr>aLog = Inr 0 :: unit + int, aTask = Inr None, aWait = True\<rparr>) 9 (New 4 2) RESULT_FAILURE))
       = earlier @ [UpdateTask st, UpdateTask probe] \<and> tsResult st = RESULT_FAILURE"
proof -
  let ?w = "\<lambda>_ :: nat. \<lparr>aLog = Inr 0 :: unit + int, aTask = Inr None, aWait = True\<rparr>"
  let ?c = "Close ?w 9 (New 4 2) RESULT_FAILURE"
  have "snd (snd (snd ?c)) = Closed" by code_simp
  then have "?c = (fst ?c, fst (snd ?c), fst (snd (snd ?c)), Closed)" by (metis prod.collapse)
  from Close_reports_every_step [OF this] show ?thesis by blast
qed

text \<open>
  C31: The final report is retried a bounded number of times: at most ten attempts, with waits
  of 100ms, 200ms, 400ms and so on; it reports success exactly when some attempt had both
  uploads answered and every earlier one failed and was waited out.
\<close>

theorem Close_retry_bounded:
  "\<exists>r' reqs res m. Close w now r job = (r', reqs, map (\<lambda>i. 100 * Millisecond * 2 ^ i) [0..<m], res) \<and>
     m \<le> 10 \<and>
     (res = Closed \<longleftrightarrow> (\<exists>i<10. attempt_ok (w i) \<and> (\<forall>j<i. \<not> attempt_ok (w j) \<and> aWait (w j))))"
proof -
  obtain r' reqs ws res where c: "Close w now r job = (r', reqs, ws, res)" by (metis prod_cases4)
  then have "close_loop w 0 10 (100 * Millisecond) None (Close_begin now r job) = (r', reqs, ws, res)"
    by (simp add: Close_def)
  from close_loop_result [OF this]
  have "length ws \<le> 10" "ws = map (\<lambda>i. 100 * Millisecond * 2 ^ i) [0..<length ws]"
    "res = Closed \<longleftrightarrow> (\<exists>i<10. attempt_ok (w i) \<and> (\<forall>j<i. \<not> attempt_ok (w j) \<and> aWait (w j)))"
    by simp_all
  with c show ?thesis by metis
qed

theorem Close_retry_bounded_witness:
  "\<exists>r' reqs res m. Close (\<lambda>i. \<lparr>aLog = Inl (), aTask = Inr None, aWait = True\<rparr>) 9 (New 4 2) RESULT_FAILURE
       = (r', reqs, map (\<lambda>i. 100 * Millisecond * 2 ^ i) [0..<m], res) \<and> m \<le> 10"
  using Close_retry_bounded [of "\<lambda>i. \<lparr>aLog = Inl (), aTask = Inr None, aWait = True\<rparr>" 9 "New 4 2" RESULT_FAILURE]
  by blast

text \<open>
  A running task is never ended by accident: every state upload of the background flusher
  has an unspecified job result and carries the steps as they are, and once \<^verbatim>\<open>Close\<close> has begun
  the flusher starts no further upload.
\<close>

theorem daemon_never_terminal:
  assumes "daemon_tick logReply taskReply r = (r', reqs)"
  shows "(\<forall>st. UpdateTask st \<in> set reqs \<longrightarrow>
            tsResult st = RESULT_UNSPECIFIED \<and> tsSteps st = tsSteps (rState r)) \<and>
         snd (daemon_tick logReply taskReply (Close_begin now r job)) = []"
proof -
  have "UpdateTask st \<in> set reqs \<longrightarrow>
      tsResult st = RESULT_UNSPECIFIED \<and> tsSteps st = tsSteps (rState r)" for st
  proof (cases "rCancel r = Some False")
    case True
    obtain r1 q1 e1 where f1: "flushLogs logReply r False = (r1, q1, e1)" by (metis prod_cases3)
    obtain r2 q2 e2 where f2: "flushState taskReply r1 False = (r2, q2, e2)" by (metis prod_cases3)
    have "reqs = q1 \<or> reqs = q1 @ q2"
      using assms True f1 f2 by (auto simp: daemon_tick_def Flush_def split: option.splits)
    with flushLogs_frame [OF f1] flushState_frame [OF f2] show ?thesis
      by (auto simp: flushState_payload_def)
  qed (use assms in \<open>simp add: daemon_tick_def\<close>)
  moreover have "rCancel (Close_begin now r job) \<noteq> Some False"
    by (cases "rCancel r") (simp_all add: Close_begin_def call_cancel_def Let_def)
  ultimately show ?thesis by (simp add: daemon_tick_def)
qed

theorem daemon_never_terminal_witness:
  "snd (daemon_tick (Inr 0 :: unit + int) (Inr None) (Close_begin 3 (RunDaemon (New 1 1)) RESULT_SUCCESS)) = []"
  using daemon_never_terminal [of "Inr 0 :: unit + int" "Inr None" "RunDaemon (New 1 1)" _ _ 3 RESULT_SUCCESS]
  by (metis surj_pair)

end
