(* ===== verification/Reporter_Ranges.thy ===== *)
theory Reporter_Ranges
  imports Reporter_Mask
begin

text \<open>
  Attribution of log rows to steps. The reporter records for each step the index of its first
  row and the number of its rows; the forge shows exactly that range under the step. Here the
  state is extended with a ghost, the list of the current step at each \<^verbatim>\<open>AddLog\<close>, and the ranges
  are shown to be the positions of the step's number in it. The calls are those of a watched
  job: steps start in increasing order, and an acknowledgement never exceeds what was sent.
\<close>

type_synonym tagged = "Reporter \<times> int list"

definition tag_do :: "tagged \<Rightarrow> rep_call \<Rightarrow> tagged" where
  "tag_do s c = (rep_do (fst s) c,
     (case c of CAddLog _ _ \<Rightarrow> snd s @ [rCurrentStep (fst s)] | _ \<Rightarrow> snd s))"

definition tag_ok :: "tagged \<Rightarrow> rep_call \<Rightarrow> bool" where
  "tag_ok s c =
     (case c of
        CStartStep _ i \<Rightarrow> rCurrentStep (fst s) < i
      | CAck k \<Rightarrow> k \<le> int (length (snd s))
      | _ \<Rightarrow> True)"

abbreviation steps_of :: "Reporter \<Rightarrow> StepState list" where
  "steps_of r \<equiv> tsSteps (rState r)"

definition in_range :: "StepState \<Rightarrow> nat \<Rightarrow> bool" where
  "in_range st p \<longleftrightarrow> ssLogIndex st \<le> int p \<and> int p < ssLogIndex st + ssLogLength st"

definition ranges_exact :: "StepState list \<Rightarrow> int list \<Rightarrow> bool" where
  "ranges_exact ss tags \<longleftrightarrow>
     (\<forall>i < length ss. 0 \<le> ssLogLength (ss ! i) \<and> 0 \<le> ssLogIndex (ss ! i) \<and>
        (\<forall>p. in_range (ss ! i) p \<longleftrightarrow> p < length tags \<and> tags ! p = int i))"

text \<open>The current step's range, if it has one, ends where the log ends.\<close>

definition current_open :: "StepState list \<Rightarrow> int \<Rightarrow> nat \<Rightarrow> bool" where
  "current_open ss c n \<longleftrightarrow>
     - 1 \<le> c \<and> c < int (length ss) \<and>
     (0 \<le> c \<and> ssLogLength (ss ! nat c) > 0 \<longrightarrow>
        ssLogIndex (ss ! nat c) + ssLogLength (ss ! nat c) = int n)"

definition range_inv :: "tagged \<Rightarrow> bool" where
  "range_inv s \<longleftrightarrow>
     ranges_exact (steps_of (fst s)) (snd s) \<and>
     current_open (steps_of (fst s)) (rCurrentStep (fst s)) (length (snd s)) \<and>
     (\<forall>t \<in> set (snd s). t \<le> rCurrentStep (fst s)) \<and>
     rLogOffset (fst s) + int (length (rLogRows (fst s))) = int (length (snd s))"

section \<open>Frame facts\<close>

lemma length_steps_upd [simp]: "length (steps_upd f i ss) = length ss"
  by (simp add: steps_upd_def)

lemma nth_steps_upd:
  "j < length ss \<Longrightarrow> steps_upd f i ss ! j = (if i = int j then f (ss ! j) else ss ! j)"
  by (auto simp: steps_upd_def nth_list_update)

lemma rep_frame:
  "steps_of (AddMask r v) = steps_of r" "rCurrentStep (AddMask r v) = rCurrentStep r"
  "rLogOffset (AddMask r v) = rLogOffset r"
  "steps_of (RunDaemon r) = steps_of r" "rCurrentStep (RunDaemon r) = rCurrentStep r"
  "rLogOffset (RunDaemon r) = rLogOffset r"
  "steps_of (flushLogs_ack r k) = steps_of r" "rCurrentStep (flushLogs_ack r k) = rCurrentStep r"
  "rCurrentStep (AddLog now r c) = rCurrentStep r" "rLogOffset (AddLog now r c) = rLogOffset r"
  "rCurrentStep (FinishStep now r i res) = rCurrentStep r"
  "rLogOffset (FinishStep now r i res) = rLogOffset r"
  "rLogOffset (StartStep now r i) = rLogOffset r"
  by (simp_all add: AddMask_def RunDaemon_def flushLogs_ack_def AddLog_def FinishStep_def
      StartStep_def Let_def)

text \<open>Calls that leave the ranges of the steps alone.\<close>

definition same_ranges :: "StepState list \<Rightarrow> StepState list \<Rightarrow> bool" where
  "same_ranges ss ss' \<longleftrightarrow> length ss' = length ss \<and>
     (\<forall>i < length ss. ssLogIndex (ss' ! i) = ssLogIndex (ss ! i) \<and>
                      ssLogLength (ss' ! i) = ssLogLength (ss ! i))"

lemma same_ranges_exact: "same_ranges ss ss' \<Longrightarrow> ranges_exact ss tags \<Longrightarrow> ranges_exact ss' tags"
  by (simp add: same_ranges_def ranges_exact_def in_range_def)

lemma same_ranges_open: "same_ranges ss ss' \<Longrightarrow> current_open ss c n \<Longrightarrow> current_open ss' c n"
  by (auto simp: same_ranges_def current_open_def)

lemma same_ranges_steps:
  "same_ranges (steps_of r) (steps_of (StartStep now r i))"
  "same_ranges (steps_of r) (steps_of (FinishStep now r i res))"
  by (simp_all add: same_ranges_def StartStep_def FinishStep_def nth_steps_upd Let_def)

lemma ack_total:
  "rLogOffset r + int (length (rLogRows r)) = int n \<Longrightarrow> k \<le> int n \<Longrightarrow>
   rLogOffset (flushLogs_ack r k) + int (length (rLogRows (flushLogs_ack r k))) = int n"
  by (auto simp: flushLogs_ack_def Let_def)

lemma no_rows_of_later:
  assumes "ranges_exact ss tags" "i < length ss" "int i \<notin> set tags"
  shows "ssLogLength (ss ! i) = 0"
proof -
  from assms have "\<not> in_range (ss ! i) (nat (ssLogIndex (ss ! i)))"
    by (auto simp: ranges_exact_def in_set_conv_nth)
  with assms show ?thesis by (fastforce simp: ranges_exact_def in_range_def)
qed

section \<open>Every call keeps the invariant\<close>

definition track :: "int \<Rightarrow> StepState \<Rightarrow> StepState" where
  "track n st =
     (if ssLogLength st = 0 then st\<lparr>ssLogIndex := n, ssLogLength := ssLogLength st + 1\<rparr>
      else st\<lparr>ssLogLength := ssLogLength st + 1\<rparr>)"

lemma steps_of_AddLog:
  "steps_of (AddLog now r c) =
     steps_upd (track (rLogOffset r + int (length (rLogRows r)))) (rCurrentStep r) (steps_of r)"
  by (simp add: AddLog_def Let_def track_def [abs_def] cong: if_cong)

lemma ranges_exact_track:
  assumes "ranges_exact ss tags" "current_open ss c (length tags)"
  shows "ranges_exact (steps_upd (track (int (length tags))) c ss) (tags @ [c])"
proof -
  have "in_range (steps_upd (track (int (length tags))) c ss ! i) p \<longleftrightarrow>
      p < length (tags @ [c]) \<and> (tags @ [c]) ! p = int i" if i: "i < length ss" for i p
  proof -
    have old: "\<And>p. in_range (ss ! i) p \<longleftrightarrow> p < length tags \<and> tags ! p = int i"
      and nn: "0 \<le> ssLogLength (ss ! i)"
      using assms(1) i by (auto simp: ranges_exact_def)
    have new: "p < length (tags @ [c]) \<and> (tags @ [c]) ! p = int i \<longleftrightarrow>
        in_range (ss ! i) p \<or> p = length tags \<and> c = int i"
      by (auto simp: old nth_append less_Suc_eq)
    have "in_range (track (int (length tags)) (ss ! i)) p \<longleftrightarrow> in_range (ss ! i) p \<or> p = length tags"
      if "c = int i"
      using that assms(2) i nn by (auto simp: in_range_def track_def current_open_def)
    with new i show ?thesis by (auto simp: nth_steps_upd)
  qed
  moreover have "0 \<le> ssLogLength (steps_upd (track (int (length tags))) c ss ! i) \<and>
      0 \<le> ssLogIndex (steps_upd (track (int (length tags))) c ss ! i)" if "i < length ss" for i
    using assms(1) that by (auto simp: ranges_exact_def nth_steps_upd track_def)
  ultimately show ?thesis by (simp add: ranges_exact_def)
qed

lemma current_open_track:
  assumes "ranges_exact ss tags" "current_open ss c (length tags)"
  shows "current_open (steps_upd (track (int (length tags))) c ss) c (Suc (length tags))"
proof (cases "0 \<le> c")
  case True
  with assms have "nat c < length ss" "0 \<le> ssLogLength (ss ! nat c)"
    by (auto simp: current_open_def ranges_exact_def)
  with True assms(2) show ?thesis
    by (cases "ssLogLength (ss ! nat c) = 0") (auto simp: current_open_def nth_steps_upd track_def)
qed (use assms in \<open>simp add: current_open_def\<close>)

lemma range_inv_log: "range_inv s \<Longrightarrow> range_inv (tag_do s (CAddLog now c))"
  using ranges_exact_track [of "steps_of (fst s)" "snd s" "rCurrentStep (fst s)"]
    current_open_track [of "steps_of (fst s)" "snd s" "rCurrentStep (fst s)"]
  by (auto simp: range_inv_def tag_do_def steps_of_AddLog rep_frame)

lemma range_inv_start:
  assumes "range_inv s" "rCurrentStep (fst s) < i"
  shows "range_inv (tag_do s (CStartStep now i))"
proof (cases "0 \<le> i \<and> i < int (length (steps_of (fst s)))")
  case True
  have ex: "ranges_exact (steps_of (fst s)) (snd s)" using assms(1) by (simp add: range_inv_def)
  have "i \<notin> set (snd s)" using assms by (fastforce simp: range_inv_def)
  then have "ssLogLength (steps_of (fst s) ! nat i) = 0"
    using no_rows_of_later [OF ex, of "nat i"] True by auto
  then have "current_open (steps_of (fst s)) i (length (snd s))"
    using True by (auto simp: current_open_def)
  moreover have "rCurrentStep (StartStep now (fst s) i) = i"
    using True by (simp add: StartStep_def Let_def)
  ultimately show ?thesis
    using assms same_ranges_exact [OF same_ranges_steps(1) ex]
      same_ranges_open [OF same_ranges_steps(1)]
    by (fastforce simp: range_inv_def tag_do_def rep_frame)
next
  case False
  then have "StartStep now (fst s) i = fst s" by (auto simp: StartStep_def)
  with assms(1) show ?thesis by (simp add: range_inv_def tag_do_def)
qed

lemma range_inv_call: "range_inv s \<Longrightarrow> tag_ok s c \<Longrightarrow> range_inv (tag_do s c)"
proof (cases c)
  case (CStartStep now i)
  assume "range_inv s" "tag_ok s c"
  then show ?thesis by (simp add: CStartStep range_inv_start tag_ok_def)
next
  case (CAddLog now line)
  assume "range_inv s"
  then show ?thesis by (simp add: CAddLog range_inv_log)
next
  case (CFinishStep now i res)
  assume "range_inv s"
  then show ?thesis
    using same_ranges_exact [OF same_ranges_steps(2)] same_ranges_open [OF same_ranges_steps(2)]
    by (simp add: CFinishStep range_inv_def tag_do_def rep_frame)
qed (auto simp: tag_ok_def range_inv_def tag_do_def rep_frame ack_total)

interpretation ranges: object_invariant tag_do tag_ok range_inv
  by unfold_locales (rule range_inv_call)

definition start :: "int \<Rightarrow> nat \<Rightarrow> string list \<Rightarrow> tagged" where
  "start taskID n secrets = (RunDaemon (SetSecrets (New taskID n) secrets), [])"

lemma range_inv_start_state: "range_inv (start taskID n secrets)"
  by (auto simp: start_def range_inv_def ranges_exact_def current_open_def in_range_def
      RunDaemon_def SetSecrets_def New_def)

section \<open>Property\<close>

text \<open>
  C30: Log rows are shown under the right step: after any sequence of reporter calls of a watched
  job (steps start in increasing order, acknowledgements do not exceed the rows written), the
  range recorded for a step covers a row exactly when the row was written while that step was
  the current one.
\<close>

theorem log_ranges_exact:
  assumes "calls_ok tag_ok tag_do (start taskID n secrets) cs"
    and "run_calls tag_do (start taskID n secrets) cs = (r, tags)"
    and "i < length (tsSteps (rState r))"
  shows "(ssLogIndex (tsSteps (rState r) ! i) \<le> int p \<and>
          int p < ssLogIndex (tsSteps (rState r) ! i) + ssLogLength (tsSteps (rState r) ! i))
         \<longleftrightarrow> p < length tags \<and> tags ! p = int i"
proof -
  have "range_inv (run_calls tag_do (start taskID n secrets) cs)"
    using range_inv_start_state assms(1) by (rule ranges.run_calls_inv)
  with assms(2,3) show ?thesis
    by (simp add: range_inv_def ranges_exact_def in_range_def)
qed

theorem log_ranges_exact_witness:
  "\<exists>r. run_calls tag_do (start 1 2 []) [CAddLog 1 ''a'', CStartStep 2 0, CAddLog 3 ''b''] = (r, [- 1, 0]) \<and>
     (ssLogIndex (tsSteps (rState r) ! 0) \<le> int 1 \<and>
      int 1 < ssLogIndex (tsSteps (rState r) ! 0) + ssLogLength (tsSteps (rState r) ! 0))"
proof -
  let ?cs = "[CAddLog 1 ''a'', CStartStep 2 0, CAddLog 3 ''b'']"
  let ?s = "run_calls tag_do (start 1 2 []) ?cs"
  have ok: "calls_ok tag_ok tag_do (start 1 2 []) ?cs" by code_simp
  have "snd ?s = [- 1, 0]" "length (tsSteps (rState (fst ?s))) = 2" by code_simp+
  then have s: "?s = (fst ?s, [- 1, 0])" "0 < length (tsSteps (rState (fst ?s)))"
    by (metis prod.collapse, simp)
  from log_ranges_exact [OF ok s, of 1] s(1) show ?thesis
    by (intro exI [of _ "fst ?s"]) simp
qed

end
