(* ===== verification/Protocol.thy ===== *)
theory Protocol
  imports Prelude
begin

text \<open>
  Messages of the runner protocol (package \<^verbatim>\<open>actions-proto-go\<close>, generated code outside the
  sources) as far as the sources read them. A task's context is a protobuf struct; the sources
  read string fields of it, so it is a map to strings (\<^verbatim>\<open>GetStringValue\<close> of a field that is not
  a string is the empty string, as is that of a missing one).
\<close>

record Task =
  tkId :: int
  tkPayload :: string
  tkContext :: env_map
  tkSecrets :: "(string \<times> string) list"
  tkVars :: env_map
  tkNeeds :: "string \<rightharpoonup> (env_map \<times> string)"

text \<open>
  A needed job has its outputs and its result, the latter as the name of the protocol constant.
  Secrets are an association list with distinct keys: the sources range over that map, and
  the list is the order of one iteration.
\<close>

definition secret :: "Task \<Rightarrow> string \<Rightarrow> string option" where
  "secret t k = map_of (tkSecrets t) k"

definition ctx_string :: "Task \<Rightarrow> string \<Rightarrow> string" where
  "ctx_string t k = map_get (tkContext t) k"

text \<open>Connect error codes, as far as they are told apart.\<close>

datatype rpc_error = DeadlineExceeded | Unimplemented | OtherError

end
