(* ===== verification/Poller.thy ===== *)
theory Poller
  imports Systems Protocol
begin

text \<open>
  The task poller, from \<^verbatim>\<open>src/pkg/server/poller.go\<close>: one poll loop, at most \<open>capacity\<close> handler
  goroutines, and the shutdown that \<^verbatim>\<open>run\<close> of \<^verbatim>\<open>src/cmd/controller/main.go\<close> performs after the loop has
  returned.

  \<^verbatim>\<open>fetchTask\<close> and the back-off are functions; the loop, the handlers and \<^verbatim>\<open>Shutdown\<close> are a step
  relation, one rule per atomic action. The server's reply, the clock and fresh request keys
  are inputs.
\<close>

section \<open>One fetch\<close>

record workerState =
  wTasksVersion :: int
  wRequestKey :: nat
  wConsecutiveEmpty :: int
  wConsecutiveErrors :: int

definition resetBackoff :: "workerState \<Rightarrow> workerState" where
  "resetBackoff s = s\<lparr>wConsecutiveEmpty := 0, wConsecutiveErrors := 0\<rparr>"

definition backoffMax :: int where "backoffMax = 60 * Second"

datatype FetchReply = FetchErr rpc_error | FetchOk int "Task option"

record heartbeats =
  hLastPollNs :: int
  hLastSuccessfulFetchNs :: int

definition fetch_heartbeat :: "bool \<Rightarrow> int \<Rightarrow> FetchReply \<Rightarrow> heartbeats \<Rightarrow> heartbeats" where
  "fetch_heartbeat ctxDone now reply h =
     (if ctxDone then h
      else
        let h' = h\<lparr>hLastPollNs := now\<rparr>
        in case reply of
             FetchOk _ _ \<Rightarrow> h'\<lparr>hLastSuccessfulFetchNs := now\<rparr>
           | FetchErr e \<Rightarrow> if e = DeadlineExceeded then h'\<lparr>hLastSuccessfulFetchNs := now\<rparr> else h')"

text \<open>\<open>key\<close> is the key \<^verbatim>\<open>gouuid.New\<close> would return.\<close>

definition fetchTask :: "bool \<Rightarrow> nat \<Rightarrow> FetchReply \<Rightarrow> workerState \<Rightarrow> workerState \<times> Task option" where
  "fetchTask ctxDone key reply s =
     (case reply of
        FetchErr e \<Rightarrow>
          if ctxDone then (s, None)
          else if e = DeadlineExceeded then (s\<lparr>wConsecutiveEmpty := wConsecutiveEmpty s + 1\<rparr>, None)
          else (s\<lparr>wConsecutiveErrors := wConsecutiveErrors s + 1\<rparr>, None)
      | FetchOk v task \<Rightarrow>
          let s1 = s\<lparr>wConsecutiveErrors := 0, wRequestKey := key\<rparr>;
              s2 = (if v > wTasksVersion s1 then s1\<lparr>wTasksVersion := v\<rparr> else s1)
          in case task of
               None \<Rightarrow> (s2\<lparr>wConsecutiveEmpty := wConsecutiveEmpty s2 + 1\<rparr>, None)
             | Some t \<Rightarrow>
                 if tkId t = 0 then (s2\<lparr>wConsecutiveEmpty := wConsecutiveEmpty s2 + 1\<rparr>, None)
                 else (s2\<lparr>wTasksVersion := 0\<rparr>, Some t))"

text \<open>The sleep of \<^verbatim>\<open>waitBackoff\<close>; the product is Go's 64-bit product.\<close>

definition backoff_duration :: "int \<Rightarrow> workerState \<Rightarrow> int" where
  "backoff_duration base s =
     (let n = (if wConsecutiveEmpty s > wConsecutiveErrors s then wConsecutiveEmpty s else wConsecutiveErrors s)
      in if n > 1 then
           let shift = (if n - 1 > 5 then 5 else n - 1);
               d = int64 (base * 2 ^ nat shift)
           in if d > backoffMax then backoffMax else d
         else base)"

section \<open>The poll loop, its handlers, and shutdown\<close>

datatype pc =
    PAcquire          \<comment> \<open>waiting for a slot\<close>
  | PFetch            \<comment> \<open>holding a slot, about to call FetchTask\<close>
  | PCall bool        \<comment> \<open>in the call; was the context done when it was made?\<close>
  | PBackoff          \<comment> \<open>sleeping in waitBackoff\<close>
  | PStopped          \<comment> \<open>Run has returned\<close>

text \<open>A handler goroutine: running, slot given back, \<open>inFlight\<close> decremented; after \<^verbatim>\<open>wg.Done\<close> it is gone.\<close>

datatype hphase = HRunning | HReleased | HCounted

datatype sdphase = SNone | SWait | SKill | SDone bool

record poller =
  pCapacity :: nat
  pEphemeral :: bool
  pPc :: pc
  pWorker :: workerState
  pBeats :: heartbeats
  pSem :: nat                        \<comment> \<open>tokens in the semaphore channel\<close>
  pInFlight :: int
  pInBackoff :: bool
  pHandlers :: "(Task \<times> hphase) list"
  pCtxDone :: bool                   \<comment> \<open>the context given to Run\<close>
  pStopPoll :: bool                  \<comment> \<open>stopPoll was called\<close>
  pStopJobs :: bool                  \<comment> \<open>stopJobs was called\<close>
  pShutdown :: sdphase
  pDispatched :: "Task list"         \<comment> \<open>ghost: tasks handed to a handler\<close>

text \<open>The two child contexts of the context given to \<^verbatim>\<open>Run\<close>.\<close>

definition pollingDone :: "poller \<Rightarrow> bool" where
  "pollingDone s \<longleftrightarrow> pCtxDone s \<or> pStopPoll s"

definition jobsDone :: "poller \<Rightarrow> bool" where
  "jobsDone s \<longleftrightarrow> pCtxDone s \<or> pStopJobs s"

definition NewPoller :: "nat \<Rightarrow> bool \<Rightarrow> nat \<Rightarrow> poller" where
  "NewPoller capacity ephemeral key =
     \<lparr>pCapacity = capacity, pEphemeral = ephemeral, pPc = PAcquire,
      pWorker = \<lparr>wTasksVersion = 0, wRequestKey = key, wConsecutiveEmpty = 0, wConsecutiveErrors = 0\<rparr>,
      pBeats = \<lparr>hLastPollNs = 0, hLastSuccessfulFetchNs = 0\<rparr>,
      pSem = 0, pInFlight = 0, pInBackoff = False, pHandlers = [],
      pCtxDone = False, pStopPoll = False, pStopJobs = False, pShutdown = SNone, pDispatched = []\<rparr>"

text \<open>Spawning the handler of a task; in ephemeral mode polling stops.\<close>

definition spawn :: "poller \<Rightarrow> Task \<Rightarrow> poller" where
  "spawn s t = s\<lparr>pWorker := resetBackoff (pWorker s), pPc := PAcquire,
     pHandlers := (t, HRunning) # pHandlers s, pInFlight := pInFlight s + 1,
     pStopPoll := (pStopPoll s \<or> pEphemeral s), pDispatched := pDispatched s @ [t]\<rparr>"

text \<open>The return of \<^verbatim>\<open>waitBackoff\<close>: whether its timer fired, or the context ended the wait and the loop.\<close>

definition waitBackoff_return :: "poller \<Rightarrow> bool \<Rightarrow> poller" where
  "waitBackoff_return s fired = s\<lparr>pPc := (if fired then PAcquire else PStopped), pInBackoff := False\<rparr>"

text \<open>
  The next action of \<^verbatim>\<open>Shutdown\<close>, if it has one: stop polling, wait for the handlers, cancel them
  when its own context has expired, and wait for them again; \<open>SDone True\<close> is the return without an error.
\<close>

definition Shutdown_step :: "bool \<Rightarrow> poller \<Rightarrow> poller option" where
  "Shutdown_step expired s =
     (case pShutdown s of
        SNone \<Rightarrow> Some (s\<lparr>pShutdown := SWait, pStopPoll := True\<rparr>)
      | SWait \<Rightarrow>
          if pHandlers s = [] then Some (s\<lparr>pShutdown := SDone True, pStopJobs := True\<rparr>)
          else if expired then Some (s\<lparr>pShutdown := SKill, pStopJobs := True\<rparr>)
          else None
      | SKill \<Rightarrow> if pHandlers s = [] then Some (s\<lparr>pShutdown := SDone False\<rparr>) else None
      | SDone _ \<Rightarrow> None)"

text \<open>
  \<open>client\<close> is which replies the transport can give to a call, told whether the context was
  already done when the call was made.
\<close>

inductive poll_step :: "(bool \<Rightarrow> FetchReply \<Rightarrow> bool) \<Rightarrow> poller \<Rightarrow> poller \<Rightarrow> bool"
  for client where
  acquire: "pPc s = PAcquire \<Longrightarrow> pSem s < pCapacity s \<Longrightarrow>
    poll_step client s (s\<lparr>pSem := pSem s + 1, pPc := PFetch\<rparr>)"
| acquire_stop: "pPc s = PAcquire \<Longrightarrow> pollingDone s \<Longrightarrow> poll_step client s (s\<lparr>pPc := PStopped\<rparr>)"
| call: "pPc s = PFetch \<Longrightarrow> poll_step client s (s\<lparr>pPc := PCall (pollingDone s)\<rparr>)"
| no_task: "pPc s = PCall d \<Longrightarrow> client d reply \<Longrightarrow>
    fetchTask (pollingDone s) key reply (pWorker s) = (w, None) \<Longrightarrow>
    poll_step client s (s\<lparr>pWorker := w, pBeats := fetch_heartbeat (pollingDone s) now reply (pBeats s),
      pSem := pSem s - 1, pPc := PBackoff, pInBackoff := True\<rparr>)"
| got_task: "pPc s = PCall d \<Longrightarrow> client d reply \<Longrightarrow>
    fetchTask (pollingDone s) key reply (pWorker s) = (w, Some t) \<Longrightarrow>
    poll_step client s (spawn (s\<lparr>pWorker := w,
      pBeats := fetch_heartbeat (pollingDone s) now reply (pBeats s)\<rparr>) t)"
| backoff: "pPc s = PBackoff \<Longrightarrow> fired \<or> pollingDone s \<Longrightarrow> poll_step client s (waitBackoff_return s fired)"
| handler_return: "pHandlers s = pre @ (t, HRunning) # post \<Longrightarrow>
    poll_step client s (s\<lparr>pHandlers := pre @ (t, HReleased) # post, pSem := pSem s - 1\<rparr>)"
| handler_count: "pHandlers s = pre @ (t, HReleased) # post \<Longrightarrow>
    poll_step client s (s\<lparr>pHandlers := pre @ (t, HCounted) # post, pInFlight := pInFlight s - 1\<rparr>)"
| handler_done: "pHandlers s = pre @ (t, HCounted) # post \<Longrightarrow>
    poll_step client s (s\<lparr>pHandlers := pre @ post\<rparr>)"
| ctx_cancel: "poll_step client s (s\<lparr>pCtxDone := True\<rparr>)"
| shutdown: "pPc s = PStopped \<Longrightarrow> Shutdown_step expired s = Some t \<Longrightarrow> poll_step client s t"

definition poll_init :: "nat \<Rightarrow> bool \<Rightarrow> poller \<Rightarrow> bool" where
  "poll_init capacity ephemeral s \<longleftrightarrow> (\<exists>key. s = NewPoller capacity ephemeral key)"

text \<open>The heartbeat readers.\<close>

definition LastPollAt :: "poller \<Rightarrow> int option" where
  "LastPollAt s = (let ns = hLastPollNs (pBeats s) in if ns = 0 then None else Some ns)"

definition LastSuccessfulFetchAt :: "poller \<Rightarrow> int option" where
  "LastSuccessfulFetchAt s =
     (let ns = hLastSuccessfulFetchNs (pBeats s) in if ns = 0 then None else Some ns)"

definition InFlight :: "poller \<Rightarrow> int" where "InFlight s = pInFlight s"

definition InBackoff :: "poller \<Rightarrow> bool" where "InBackoff s = pInBackoff s"

section \<open>The invariant\<close>

definition running :: "(Task \<times> hphase) list \<Rightarrow> nat" where
  "running hs = length (filter (\<lambda>h. snd h = HRunning) hs)"

definition uncounted :: "(Task \<times> hphase) list \<Rightarrow> nat" where
  "uncounted hs = length (filter (\<lambda>h. snd h \<noteq> HCounted) hs)"

definition holds_slot :: "pc \<Rightarrow> nat" where
  "holds_slot p = (case p of PFetch \<Rightarrow> 1 | PCall _ \<Rightarrow> 1 | _ \<Rightarrow> 0)"

definition poll_inv :: "poller \<Rightarrow> bool" where
  "poll_inv s \<longleftrightarrow>
     pSem s = running (pHandlers s) + holds_slot (pPc s) \<and>
     pSem s \<le> pCapacity s \<and>
     pInFlight s = int (uncounted (pHandlers s)) \<and>
     (pInBackoff s \<longleftrightarrow> pPc s = PBackoff) \<and>
     (pPc s = PStopped \<longrightarrow> pollingDone s) \<and>
     (pShutdown s = SNone \<longrightarrow> \<not> pStopJobs s) \<and>
     (pShutdown s = SWait \<longrightarrow> \<not> pStopJobs s \<and> pPc s = PStopped) \<and>
     (pShutdown s = SKill \<longrightarrow> pPc s = PStopped) \<and>
     (\<forall>ok. pShutdown s = SDone ok \<longrightarrow> pHandlers s = [] \<and> pPc s = PStopped) \<and>
     (pShutdown s = SNone \<and> pStopPoll s \<longrightarrow> pEphemeral s)"

lemma Shutdown_step_iff: "Shutdown_step expired s = Some t \<longleftrightarrow>
    pShutdown s = SNone \<and> s\<lparr>pShutdown := SWait, pStopPoll := True\<rparr> = t \<or>
    pShutdown s = SWait \<and> pHandlers s = [] \<and> s\<lparr>pShutdown := SDone True, pStopJobs := True\<rparr> = t \<or>
    pShutdown s = SWait \<and> pHandlers s \<noteq> [] \<and> expired \<and> s\<lparr>pShutdown := SKill, pStopJobs := True\<rparr> = t \<or>
    pShutdown s = SKill \<and> pHandlers s = [] \<and> s\<lparr>pShutdown := SDone False\<rparr> = t"
  by (cases "pShutdown s") (simp_all add: Shutdown_step_def)

lemma Shutdown_step_cases:
  assumes "Shutdown_step expired s = Some t"
  obtains (first) "pShutdown s = SNone" "t = s\<lparr>pShutdown := SWait, pStopPoll := True\<rparr>"
  | (drained) "pShutdown s = SWait" "pHandlers s = []" "t = s\<lparr>pShutdown := SDone True, pStopJobs := True\<rparr>"
  | (expired) "pShutdown s = SWait" "pHandlers s \<noteq> []" "t = s\<lparr>pShutdown := SKill, pStopJobs := True\<rparr>"
  | (killed) "pShutdown s = SKill" "pHandlers s = []" "t = s\<lparr>pShutdown := SDone False\<rparr>"
  using assms unfolding Shutdown_step_iff by blast

lemmas phase_simps = running_def uncounted_def holds_slot_def pollingDone_def jobsDone_def

lemma poll_inv_init: "poll_init c e s \<Longrightarrow> poll_inv s"
  by (auto simp: poll_init_def poll_inv_def NewPoller_def phase_simps)

lemma poll_inv_shutdown: "Shutdown_step expired s = Some t \<Longrightarrow> pPc s = PStopped \<Longrightarrow> poll_inv s \<Longrightarrow> poll_inv t"
  by (erule Shutdown_step_cases) (simp_all add: poll_inv_def phase_simps)

lemma poll_inv_step: "poll_inv s \<Longrightarrow> poll_step client s t \<Longrightarrow> poll_inv t"
  by (erule poll_step.cases; (blast intro: poll_inv_shutdown)?) (auto simp: poll_inv_def spawn_def waitBackoff_return_def phase_simps)

interpretation poll: invariant_system "poll_init c e" "poll_step client" poll_inv for c e client
  by unfold_locales (auto intro: poll_inv_init poll_inv_step)

end
