(* ===== verification/Poller_Props.thy ===== *)
theory Poller_Props
  imports Poller
begin

text \<open>
  Properties of the poller: the capacity bound, ephemeral mode, what shutdown waits for, the
  cursor and idempotency key of \<^verbatim>\<open>FetchTask\<close>, and the length of the back-off.
\<close>

section \<open>Capacity and configuration\<close>

lemma poll_config: "poll_step client s t \<Longrightarrow> pCapacity t = pCapacity s \<and> pEphemeral t = pEphemeral s"
  by (erule poll_step.cases) (auto simp: spawn_def waitBackoff_return_def elim: Shutdown_step_cases)

lemma reach_config:
  "reach (poll_init c e) (poll_step client) s \<Longrightarrow> pCapacity s = c \<and> pEphemeral s = e"
  by (induction rule: reach.induct) (auto simp: poll_init_def NewPoller_def dest: poll_config)

lemma running_le_uncounted: "running hs \<le> uncounted hs"
  by (induction hs) (auto simp: running_def uncounted_def)

text \<open>
  C4: Capacity is never exceeded: in every reachable state of the poll loop with its concurrent
  handlers, at most \<open>capacity\<close> handlers run, counting the slot the loop itself holds while it
  fetches; and the \<open>inFlight\<close> counter read by the health check never undercounts them.
\<close>

theorem capacity_respected:
  assumes "reach (poll_init c e) (poll_step client) s"
  shows "running (pHandlers s) + holds_slot (pPc s) \<le> c \<and> int (running (pHandlers s)) \<le> InFlight s"
  using poll.reach_inv [OF assms] reach_config [OF assms] running_le_uncounted [of "pHandlers s"]
  by (auto simp: poll_inv_def InFlight_def)

section \<open>Ephemeral mode\<close>

definition eph_inv :: "poller \<Rightarrow> bool" where
  "eph_inv s \<longleftrightarrow>
     (pEphemeral s \<longrightarrow>
        length (pDispatched s) \<le> 1 \<and> (pDispatched s \<noteq> [] \<longrightarrow> pStopPoll s) \<and>
        (pPc s = PCall False \<longrightarrow> pDispatched s = []))"

lemma fetchTask_Some:
  "fetchTask d key reply w = (w', Some t) \<Longrightarrow> tkId t \<noteq> 0 \<and> (\<exists>v. reply = FetchOk v (Some t))"
  by (auto simp: fetchTask_def Let_def split: FetchReply.splits option.splits if_splits)

lemma eph_inv_step:
  assumes "\<And>reply. client True reply \<Longrightarrow> \<exists>err. reply = FetchErr err" "eph_inv s" "poll_step client s t"
  shows "eph_inv t"
  using assms(3,2)
proof cases
  case (got_task d reply key w task now)
  from fetchTask_Some [OF got_task(4)] assms(1) got_task(3) have "d = False" by (cases d) auto
  with got_task(1,2) assms(2) show ?thesis by (auto simp: eph_inv_def spawn_def)
qed (auto simp: eph_inv_def pollingDone_def waitBackoff_return_def elim!: Shutdown_step_cases)

text \<open>
  An ephemeral runner takes one task: with a transport that fails a call whose context was
  already cancelled when it was made, at most one task is ever handed to a handler.
\<close>

theorem ephemeral_single_task:
  assumes "\<And>reply. client True reply \<Longrightarrow> \<exists>err. reply = FetchErr err"
    and "reach (poll_init c True) (poll_step client) s"
  shows "length (pDispatched s) \<le> 1"
proof -
  have "eph_inv s"
    using assms(2)
  proof (induction rule: reach.induct)
    case (reach_init s)
    then show ?case by (auto simp: poll_init_def NewPoller_def eph_inv_def)
  next
    case (reach_step s t)
    then show ?case using eph_inv_step [of client s t] assms(1) by blast
  qed
  then show ?thesis using reach_config [OF assms(2)] by (simp add: eph_inv_def)
qed

section \<open>Shutdown\<close>

text \<open>
  \<^verbatim>\<open>Shutdown\<close> returns only when no handler goroutine is left and the poll loop has stopped;
  and until it is called, the handlers' own context is not cancelled by the poller.
\<close>

theorem shutdown_waits:
  assumes "reach (poll_init c e) (poll_step client) s"
  shows "(\<forall>ok. pShutdown s = SDone ok \<longrightarrow> pHandlers s = [] \<and> pPc s = PStopped) \<and>
         (pShutdown s \<in> {SNone, SWait} \<longrightarrow> (jobsDone s \<longleftrightarrow> pCtxDone s))"
  using poll.reach_inv [OF assms] by (auto simp: poll_inv_def jobsDone_def)

text \<open>
  The drain on termination is not graceful: in a runner that is not ephemeral, the poll
  loop returns only after the context given to \<^verbatim>\<open>Run\<close> was cancelled, and the handlers' context is
  a child of that one, so it is already cancelled before \<^verbatim>\<open>Shutdown\<close> starts waiting.
\<close>

theorem drain_already_cancelled:
  assumes "reach (poll_init c False) (poll_step client) s" "pPc s = PStopped"
    and "pShutdown s = SNone"
  shows "jobsDone s"
  using poll.reach_inv [OF assms(1)] reach_config [OF assms(1)] assms(2,3)
  by (auto simp: poll_inv_def pollingDone_def jobsDone_def)

section \<open>Cursor, idempotency key, back-off\<close>

text \<open>
  \<^verbatim>\<open>FetchTask\<close> bookkeeping: a received task has a non-zero id, comes from the reply and resets
  the cursor; without a task the cursor never goes back; a failed call keeps cursor and
  idempotency key so the retry is recognised, and every answered call takes a new key.
\<close>

theorem fetchTask_bookkeeping:
  assumes "fetchTask ctxDone key reply s = (s', r)"
  shows "(\<forall>t. r = Some t \<longrightarrow> tkId t \<noteq> 0 \<and> wTasksVersion s' = 0 \<and> (\<exists>v. reply = FetchOk v (Some t))) \<and>
         (r = None \<longrightarrow> wTasksVersion s \<le> wTasksVersion s') \<and>
         (\<forall>err. reply = FetchErr err \<longrightarrow>
            wRequestKey s' = wRequestKey s \<and> wTasksVersion s' = wTasksVersion s \<and> r = None) \<and>
         (\<forall>v t. reply = FetchOk v t \<longrightarrow> wRequestKey s' = key \<and> wConsecutiveErrors s' = 0)"
  using assms
  by (auto simp: fetchTask_def Let_def split: FetchReply.splits option.splits if_splits)

definition misses :: "workerState \<Rightarrow> int" where
  "misses s = max (wConsecutiveEmpty s) (wConsecutiveErrors s)"

lemma shift_cases: "nat (if n - 1 > 5 then 5 else n - 1) = min 5 (nat (n - 1))" for n :: int
  by auto

lemma pow_le_32: "(2::int) ^ min 5 k \<le> 32"
proof -
  have "(2::int) ^ min 5 k \<le> 2 ^ 5" by (rule power_increasing) auto
  then show ?thesis by simp
qed

text \<open>
  C40: The back-off: with an interval whose 32-fold fits 64 bits, the wait is the interval after
  at most one miss and otherwise the interval doubled per miss (at most 32-fold), cut at 60
  seconds; so for an interval of at most 60 seconds it never falls below the interval.
\<close>

theorem backoff_length:
  assumes "0 < base" "base * 32 < 2 ^ 63"
  shows "backoff_duration base s =
           (if misses s \<le> 1 then base else min (base * 2 ^ min 5 (nat (misses s - 1))) backoffMax) \<and>
         (base \<le> backoffMax \<longrightarrow> base \<le> backoff_duration base s \<and> backoff_duration base s \<le> backoffMax) \<and>
         (base > backoffMax \<and> misses s > 1 \<longrightarrow> backoff_duration base s = backoffMax)"
proof -
  let ?m = "misses s"
  let ?k = "min 5 (nat (?m - 1))"
  have m: "(if wConsecutiveEmpty s > wConsecutiveErrors s then wConsecutiveEmpty s
      else wConsecutiveErrors s) = ?m"
    by (simp add: misses_def)
  have "base * 2 ^ ?k \<le> base * 32" using assms(1) pow_le_32 by (intro mult_left_mono) auto
  then have lt: "base * 2 ^ ?k < 2 ^ 63" using assms(2) by linarith
  have ge: "base \<le> base * 2 ^ ?k" using assms(1) by (simp add: mult_le_cancel_left1)
  have i: "int64 (base * 2 ^ ?k) = base * 2 ^ ?k"
    by (rule int64_id) (use assms(1) ge lt in linarith)+
  have d: "backoff_duration base s = (if ?m \<le> 1 then base else min (base * 2 ^ ?k) backoffMax)"
  proof -
    have "min x backoffMax = (if x > backoffMax then backoffMax else x)" for x :: int by simp
    then show ?thesis unfolding backoff_duration_def m Let_def shift_cases i by simp
  qed
  with ge show ?thesis by (auto simp: min_def)
qed

section \<open>Witnesses\<close>

definition example_client :: "bool \<Rightarrow> FetchReply \<Rightarrow> bool" where
  "example_client done reply = (done \<longrightarrow> (\<exists>err. reply = FetchErr err))"

lemma example_stopped:
  "reach (poll_init 1 e) (poll_step client) (NewPoller 1 e 0\<lparr>pCtxDone := True, pPc := PStopped\<rparr>)"
proof -
  have "reach (poll_init 1 e) (poll_step client) (NewPoller 1 e 0)"
    by (rule reach_init) (auto simp: poll_init_def)
  then have r: "reach (poll_init 1 e) (poll_step client) (NewPoller 1 e 0\<lparr>pCtxDone := True\<rparr>)"
    by (rule reach_step) (rule ctx_cancel)
  have "poll_step client (NewPoller 1 e 0\<lparr>pCtxDone := True\<rparr>)
      ((NewPoller 1 e 0\<lparr>pCtxDone := True\<rparr>)\<lparr>pPc := PStopped\<rparr>)"
    by (rule acquire_stop) (simp_all add: NewPoller_def pollingDone_def)
  with r show ?thesis by (rule reach_step)
qed

theorem capacity_respected_witness:
  "running (pHandlers (NewPoller 1 False 0\<lparr>pCtxDone := True, pPc := PStopped\<rparr>)) \<le> 1"
  using capacity_respected [OF example_stopped [of False example_client]] by simp

theorem ephemeral_single_task_witness:
  "length (pDispatched (NewPoller 1 True 0\<lparr>pCtxDone := True, pPc := PStopped\<rparr>)) \<le> 1"
  by (rule ephemeral_single_task [OF _ example_stopped [of True example_client]])
     (simp add: example_client_def)

theorem shutdown_waits_witness:
  "jobsDone (NewPoller 1 False 0\<lparr>pCtxDone := True, pPc := PStopped\<rparr>)
     = pCtxDone (NewPoller 1 False 0\<lparr>pCtxDone := True, pPc := PStopped\<rparr>)"
  using shutdown_waits [OF example_stopped [of False example_client]]
  by (simp add: NewPoller_def)

theorem drain_already_cancelled_witness:
  "jobsDone (NewPoller 1 False 0\<lparr>pCtxDone := True, pPc := PStopped\<rparr>)"
  by (rule drain_already_cancelled [OF example_stopped [of False example_client]])
     (simp_all add: NewPoller_def)

theorem fetchTask_bookkeeping_witness:
  "wTasksVersion (fst (fetchTask False 9 (FetchOk 4 None)
     \<lparr>wTasksVersion = 3, wRequestKey = 1, wConsecutiveEmpty = 0, wConsecutiveErrors = 2\<rparr>)) \<ge> 3"
  using fetchTask_bookkeeping [of False 9 "FetchOk 4 None"
      "\<lparr>wTasksVersion = 3, wRequestKey = 1, wConsecutiveEmpty = 0, wConsecutiveErrors = 2\<rparr>"]
  by (simp add: fetchTask_def Let_def)

theorem backoff_length_witness:
  "2 * Second \<le> backoff_duration (2 * Second)
     \<lparr>wTasksVersion = 0, wRequestKey = 0, wConsecutiveEmpty = 4, wConsecutiveErrors = 0\<rparr>"
  using backoff_length [of "2 * Second"
      "\<lparr>wTasksVersion = 0, wRequestKey = 0, wConsecutiveEmpty = 4, wConsecutiveErrors = 0\<rparr>"]
  by (simp add: backoffMax_def)

end
