(* ===== verification/Expressions.thy ===== *)
theory Expressions
  imports Protocol
begin

text \<open>
  Expression handling, from \<^verbatim>\<open>src/pkg/expressions\<close> (\<^verbatim>\<open>rewrite.go\<close>, \<^verbatim>\<open>eval.go\<close>, \<^verbatim>\<open>context.go\<close>) and
  \<^verbatim>\<open>EvalContext.BuildEvalEnv\<close> of \<^verbatim>\<open>src/pkg/types/step.go\<close>.

  The interpreter itself is the third-party package \<^verbatim>\<open>exprparser\<close>; it is the parameter
  \<open>interp\<close>: evaluation of an expression text in an environment, truthiness, and how a value
  is turned into a string (\<open>iString\<close> is the type assertion, \<open>iPrint\<close> is \<^verbatim>\<open>%v\<close>). The event
  payload of the GitHub context is not modelled.
\<close>

section \<open>Rewriting embedded expressions\<close>

text \<open>
  \<open>str_match\<close> is the end of the leftmost match of the pattern that finds the end of a string
  literal: the first quote that is not doubled; if every quote is doubled, the first quote of
  the last pair (where the regular expression backtracks to); none without a quote.
\<close>

fun str_match :: "string \<Rightarrow> nat \<Rightarrow> nat option \<Rightarrow> nat option" where
  "str_match [] n pair = pair"
| "str_match (c # s) n pair =
     (if c \<noteq> CHR 0x27 then str_match s (n + 1) pair
      else case s of
             [] \<Rightarrow> Some (n + 1)
           | c' # s' \<Rightarrow> if c' = CHR 0x27 then str_match s' (n + 2) (Some (n + 1)) else Some (n + 1))"

lemma str_match_pos: "str_match s n pair = Some m \<Longrightarrow> (\<forall>k. pair = Some k \<longrightarrow> 0 < k) \<Longrightarrow> 0 < m"
  by (induction s n pair rule: str_match.induct) (auto split: if_splits list.splits)

definition escapeFormatString :: "string \<Rightarrow> string" where
  "escapeFormatString s = ReplaceAll (ReplaceAll s (CHR ''{'') ''{{'') (CHR ''}'') ''}}''"

text \<open>The scanner's position: in text, in an expression or in a string literal of an expression,
  the last two with the expression's text so far.\<close>

datatype scan_mode = InText | InExpr string | InString string

function rewrite_loop :: "scan_mode \<Rightarrow> string \<Rightarrow> string list \<Rightarrow> string \<Rightarrow> (string list \<times> string) option" where
  "rewrite_loop mode [] results out = Some (results, out)"
| "rewrite_loop (InString e) (c # s) results out =
     (case str_match (c # s) 0 None of
        None \<Rightarrow> None
      | Some n \<Rightarrow> rewrite_loop (InExpr (e @ take n (c # s))) (drop n (c # s)) results out)"
| "rewrite_loop (InExpr e) (c # s) results out =
     (let rest = c # s; exprEnd = Index rest ''}}''; strStart = Index rest [CHR 0x27] in
      if exprEnd > - 1 \<and> (strStart = - 1 \<or> exprEnd < strStart) then
        rewrite_loop InText (drop (nat exprEnd + 2) rest)
          (results @ [TrimSpace (e @ take (nat exprEnd) rest)])
          (out @ ''{'' @ dec_nat (length results) @ ''}'')
      else if strStart > - 1 then
        rewrite_loop (InString (e @ take (nat strStart + 1) rest)) (drop (nat strStart + 1) rest) results out
      else None)"
| "rewrite_loop InText (c # s) results out =
     (let rest = c # s; i = Index rest ''${{'' in
      if i \<noteq> - 1 then
        rewrite_loop (InExpr []) (drop (nat i + 3) rest) results (out @ escapeFormatString (take (nat i) rest))
      else rewrite_loop InText [] results (out @ escapeFormatString rest))"
  by pat_completeness auto
termination
  by (relation "measure (\<lambda>(_, s, _, _). length s)") (auto simp del: drop_Suc_Cons str_match.simps dest!: str_match_pos)

definition rewriteSubExpression :: "string \<Rightarrow> bool \<Rightarrow> string" where
  "rewriteSubExpression inp forceFormat =
     (if \<not> Contains inp ''${{'' \<or> \<not> Contains inp ''}}'' then inp
      else case rewrite_loop InText inp [] [] of
             None \<Rightarrow> inp
           | Some (results, out) \<Rightarrow>
               if length results = 1 \<and> out = ''{0}'' \<and> \<not> forceFormat then inp
               else ''format('' @ [CHR 0x27] @ ReplaceAll out (CHR 0x27) [CHR 0x27, CHR 0x27] @
                 [CHR 0x27] @ '', '' @ Join '', '' results @ '')'')"

section \<open>The evaluation environment\<close>

record GithubContext =
  ghRunID :: string
  ghRunNumber :: string
  ghRunAttempt :: string
  ghActor :: string
  ghRepository :: string
  ghEventName :: string
  ghSha :: string
  ghRef :: string
  ghRefName :: string
  ghRefType :: string
  ghHeadRef :: string
  ghBaseRef :: string
  ghToken :: string
  ghRepositoryOwner :: string
  ghRetentionDays :: string
  ghServerURL :: string
  ghAPIURL :: string
  ghWorkspace :: string

datatype StepStatus = StepStatusSuccess | StepStatusFailure

record StepContext =
  scOutcome :: StepStatus
  scConclusion :: StepStatus
  scOutputs :: env_map

type_synonym needs_map = "string \<rightharpoonup> (env_map \<times> string)"

record EvaluationEnvironment =
  eeGithub :: GithubContext
  eeEnv :: env_map
  eeJob :: "string option"    \<comment> \<open>the job context's status; \<open>None\<close> is a nil job context\<close>
  eeSecrets :: env_map
  eeVars :: env_map
  eeNeeds :: needs_map
  eeSteps :: "string \<rightharpoonup> StepContext"
  eeRunner :: env_map

definition runner_context :: env_map where
  "runner_context = [''os'' \<mapsto> ''linux'', ''arch'' \<mapsto> ''x64'', ''name'' \<mapsto> ''drawbar'']"

definition BuildGithubContext :: "Task \<Rightarrow> GithubContext" where
  "BuildGithubContext task =
     (let get = ctx_string task;
          given = (\<lambda>k. case secret task k of None \<Rightarrow> False | Some t \<Rightarrow> t \<noteq> []);
          token = (if given ''FORGEJO_TOKEN'' then the (secret task ''FORGEJO_TOKEN'')
                   else if given ''GITEA_TOKEN'' then the (secret task ''GITEA_TOKEN'')
                   else if given ''GITHUB_TOKEN'' then the (secret task ''GITHUB_TOKEN'')
                   else get ''token'')
      in \<lparr>ghRunID = get ''run_id'', ghRunNumber = get ''run_number'', ghRunAttempt = get ''run_attempt'',
          ghActor = get ''actor'', ghRepository = get ''repository'', ghEventName = get ''event_name'',
          ghSha = get ''sha'', ghRef = get ''ref'', ghRefName = get ''ref_name'', ghRefType = get ''ref_type'',
          ghHeadRef = get ''head_ref'', ghBaseRef = get ''base_ref'', ghToken = token,
          ghRepositoryOwner = get ''repository_owner'', ghRetentionDays = get ''retention_days'',
          ghServerURL = TrimRight (get ''server_url'') ''/'', ghAPIURL = get ''api_url'',
          ghWorkspace = ''/workspace''\<rparr>)"

definition BuildEnvironment :: "Task \<Rightarrow> env_map \<Rightarrow> EvaluationEnvironment" where
  "BuildEnvironment task jobEnv =
     \<lparr>eeGithub = BuildGithubContext task, eeEnv = jobEnv, eeJob = Some ''success'',
      eeSecrets = secret task, eeVars = tkVars task,
      eeNeeds = (\<lambda>k. map_option (\<lambda>(outputs, result). (outputs, ToLower (TrimPrefix result ''RESULT_'')))
        (tkNeeds task k)),
      eeSteps = Map.empty, eeRunner = runner_context\<rparr>"

text \<open>The part of the environment the manifest carries to the entrypoint.\<close>

record EvalContext =
  ecGitHub :: GithubContext
  ecEnv :: env_map
  ecSecrets :: env_map
  ecVars :: env_map
  ecNeeds :: needs_map

definition BuildEvalEnv :: "EvalContext \<Rightarrow> EvaluationEnvironment" where
  "BuildEvalEnv c =
     \<lparr>eeGithub = ecGitHub c, eeEnv = ecEnv c, eeJob = Some ''success'', eeSecrets = ecSecrets c,
      eeVars = ecVars c, eeNeeds = ecNeeds c, eeSteps = Map.empty, eeRunner = runner_context\<rparr>"

section \<open>The evaluator\<close>

datatype status_check = DefaultStatusCheckNone | DefaultStatusCheckSuccess

record ('e, 'v) interpreter =
  iEvaluate :: "EvaluationEnvironment \<Rightarrow> string \<Rightarrow> status_check \<Rightarrow> 'e + 'v"
  iIsTruthy :: "'v \<Rightarrow> bool"
  iString :: "'v \<Rightarrow> string option"
  iPrint :: "'v \<Rightarrow> string"

definition Interpolate :: "('e, 'v) interpreter \<Rightarrow> EvaluationEnvironment \<Rightarrow> string \<Rightarrow> string" where
  "Interpolate interp env input =
     (if \<not> Contains input ''${{'' \<or> \<not> Contains input ''}}'' then input
      else case iEvaluate interp env (rewriteSubExpression input True) DefaultStatusCheckNone of
             Inl _ \<Rightarrow> input
           | Inr v \<Rightarrow> (case iString interp v of Some s \<Rightarrow> s | None \<Rightarrow> iPrint interp v))"

definition condition_text :: "string \<Rightarrow> string" where
  "condition_text expr =
     (let e = TrimSpace (if expr = [] then ''success()'' else expr)
      in if HasPrefix e ''${{'' \<and> HasSuffix e ''}}''
         then TrimSpace (TrimSuffix (TrimPrefix e ''${{'') ''}}'') else e)"

definition EvalCondition :: "('e, 'v) interpreter \<Rightarrow> EvaluationEnvironment \<Rightarrow> string \<Rightarrow> 'e + bool" where
  "EvalCondition interp env expr =
     (case iEvaluate interp env (rewriteSubExpression (condition_text expr) False) DefaultStatusCheckSuccess of
        Inl e \<Rightarrow> Inl e
      | Inr v \<Rightarrow> Inr (iIsTruthy interp v))"

definition InterpolateMap :: "('e, 'v) interpreter \<Rightarrow> EvaluationEnvironment \<Rightarrow> env_map \<Rightarrow> env_map" where
  "InterpolateMap interp env m = (\<lambda>k. map_option (Interpolate interp env) (m k))"

definition SetStepResult :: "EvaluationEnvironment \<Rightarrow> string \<Rightarrow> string \<Rightarrow> bool \<Rightarrow> env_map \<Rightarrow> EvaluationEnvironment" where
  "SetStepResult env stepID outcome continueOnError outputs =
     (let failed = (outcome = ''failure'');
          res = \<lparr>scOutcome = (if failed then StepStatusFailure else StepStatusSuccess),
                 scConclusion = (if failed \<and> \<not> continueOnError then StepStatusFailure else StepStatusSuccess),
                 scOutputs = outputs\<rparr>
      in env\<lparr>eeSteps := (eeSteps env)(stepID \<mapsto> res)\<rparr>)"

definition SetJobStatus :: "EvaluationEnvironment \<Rightarrow> string \<Rightarrow> EvaluationEnvironment" where
  "SetJobStatus env status = env\<lparr>eeJob := map_option (\<lambda>_. status) (eeJob env)\<rparr>"

definition UpdateEnv :: "EvaluationEnvironment \<Rightarrow> env_map \<Rightarrow> EvaluationEnvironment" where
  "UpdateEnv env m = env\<lparr>eeEnv := eeEnv env ++ m\<rparr>"

end
