(* ===== verification/Expressions_Template.thy ===== *)
theory Expressions_Template
  imports Expressions
begin

text \<open>
  Interpolation of strings with embedded expressions: the text between the expressions comes
  out unchanged, braces and quotes included, and a string literal inside an expression may
  contain the closing braces.
\<close>

abbreviation QUOTE :: char where "QUOTE \<equiv> CHR 0x27"

definition double_quotes :: "string \<Rightarrow> string" where
  "double_quotes s = ReplaceAll s QUOTE [QUOTE, QUOTE]"

text \<open>An expression: string literals, each after some plain text, and plain text at the end.\<close>

type_synonym expression = "(string \<times> string) list \<times> string"

definition expr_text :: "expression \<Rightarrow> string" where
  "expr_text e = concat (map (\<lambda>(p, q). p @ QUOTE # double_quotes q @ [QUOTE]) (fst e)) @ snd e"

definition plain :: "string \<Rightarrow> bool" where
  "plain p \<longleftrightarrow> QUOTE \<notin> set p \<and> CHR ''}'' \<notin> set p"

text \<open>Between two string literals there is some text.\<close>

definition expr_ok :: "expression \<Rightarrow> bool" where
  "expr_ok e \<longleftrightarrow> plain (snd e) \<and> list_all (plain \<circ> fst) (fst e) \<and>
     (fst e \<noteq> [] \<longrightarrow> list_all (\<lambda>pq. fst pq \<noteq> []) (tl (fst e)))"

type_synonym template = "(string \<times> expression) list \<times> string"

definition template_text :: "template \<Rightarrow> string" where
  "template_text t = concat (map (\<lambda>(lit, e). lit @ ''${{'' @ expr_text e @ ''}}'') (fst t)) @ snd t"

definition template_ok :: "template \<Rightarrow> bool" where
  "template_ok t \<longleftrightarrow> \<not> sublist ''${{'' (snd t) \<and>
     list_all (\<lambda>(lit, e). \<not> sublist ''${{'' lit \<and> expr_ok e) (fst t)"

fun template_format :: "nat \<Rightarrow> (string \<times> expression) list \<Rightarrow> string \<Rightarrow> string" where
  "template_format n [] l = escapeFormatString l"
| "template_format n ((lit, e) # ts) l =
     escapeFormatString lit @ ''{'' @ dec_nat n @ ''}'' @ template_format (Suc n) ts l"

definition template_args :: "template \<Rightarrow> string list" where
  "template_args t = map (\<lambda>(_, e). TrimSpace (expr_text e)) (fst t)"

definition format_call :: "string \<Rightarrow> string list \<Rightarrow> string" where
  "format_call f args = ''format('' @ [QUOTE] @ double_quotes f @ [QUOTE] @ '', '' @ Join '', '' args @ '')''"

section \<open>The scanner on a template\<close>

lemma str_match_doubled:
  "r = [] \<or> hd r \<noteq> QUOTE \<Longrightarrow>
     str_match (double_quotes q @ QUOTE # r) n pair = Some (n + length (double_quotes q) + 1)"
proof (induction q arbitrary: n pair)
  case Nil
  then show ?case by (cases r) (auto simp: double_quotes_def ReplaceAll_def)
qed (auto simp: double_quotes_def ReplaceAll_def)

lemma rewrite_plain_end:
  assumes "plain p"
  shows "rewrite_loop (InExpr e) (p @ ''}}'' @ rest) results out =
    rewrite_loop InText rest (results @ [TrimSpace (e @ p)]) (out @ ''{'' @ dec_nat (length results) @ ''}'')"
proof -
  have i: "Index (p @ ''}}'' @ rest) ''}}'' = int (length p)"
    using assms by (auto simp: plain_def intro: Index_first)
  have "Index (p @ ''}}'' @ rest) [QUOTE] < 0 \<or> Index (p @ ''}}'' @ rest) [QUOTE] > int (length p)"
    using assms Index_after [of "CHR ''}''" QUOTE p "CHR ''}'' # rest" "[]"] by (simp add: plain_def)
  with Index_nonneg [of "p @ ''}}'' @ rest" "[QUOTE]"]
  have j: "Index (p @ ''}}'' @ rest) [QUOTE] = - 1 \<or> int (length p) < Index (p @ ''}}'' @ rest) [QUOTE]"
    by linarith
  obtain c s where cs: "p @ ''}}'' @ rest = c # s" by (cases "p @ ''}}'' @ rest") auto
  have "rewrite_loop (InExpr e) (c # s) results out =
    rewrite_loop InText (drop (length p + 2) (c # s)) (results @ [TrimSpace (e @ take (length p) (c # s))])
      (out @ ''{'' @ dec_nat (length results) @ ''}'')"
    using i j unfolding cs by (simp only: rewrite_loop.simps Let_def) simp
  then show ?thesis unfolding cs [symmetric] by simp
qed

lemma rewrite_quoted:
  assumes "plain p" "r = [] \<or> hd r \<noteq> QUOTE"
  shows "rewrite_loop (InExpr e) (p @ QUOTE # double_quotes q @ QUOTE # r) results out =
    rewrite_loop (InExpr (e @ p @ QUOTE # double_quotes q @ [QUOTE])) r results out"
proof -
  let ?s = "p @ QUOTE # double_quotes q @ QUOTE # r" and ?t = "double_quotes q @ QUOTE # r"
  have i: "Index ?s [QUOTE] = int (length p)"
    using assms by (auto simp: plain_def intro: Index_first)
  have "Index ?s ''}}'' < 0 \<or> Index ?s ''}}'' > int (length p)"
    using assms Index_after [of QUOTE "CHR ''}''" p ?t "''}''"] by (simp add: plain_def)
  with Index_nonneg [of ?s "''}}''"] have j: "\<not> (- 1 < Index ?s ''}}'' \<and> Index ?s ''}}'' < int (length p))"
    by linarith
  obtain c s where cs: "?s = c # s" by (cases ?s) auto
  obtain c' s' where cs': "?t = c' # s'" by (cases ?t) auto
  have "rewrite_loop (InExpr e) (c # s) results out =
    rewrite_loop (InString (e @ take (length p + 1) (c # s))) (drop (length p + 1) (c # s)) results out"
    using i j unfolding cs by (simp only: rewrite_loop.simps Let_def) (auto simp del: Index.simps)
  then have "rewrite_loop (InExpr e) ?s results out = rewrite_loop (InString (e @ p @ [QUOTE])) ?t results out"
    unfolding cs [symmetric] by simp
  also have "\<dots> = rewrite_loop (InExpr ((e @ p @ [QUOTE]) @ take (length (double_quotes q) + 1) ?t))
      (drop (length (double_quotes q) + 1) ?t) results out"
    using str_match_doubled [OF assms(2), of q 0 None] unfolding cs' by (simp only: rewrite_loop.simps) simp
  finally show ?thesis by simp
qed

lemma rewrite_expr:
  assumes "plain p" "list_all (plain \<circ> fst) ps" "ps \<noteq> [] \<Longrightarrow> list_all (\<lambda>pq. fst pq \<noteq> []) (tl ps)"
  shows "rewrite_loop (InExpr e) (expr_text (ps, p) @ ''}}'' @ rest) results out =
    rewrite_loop InText rest (results @ [TrimSpace (e @ expr_text (ps, p))])
      (out @ ''{'' @ dec_nat (length results) @ ''}'')"
  using assms
proof (induction ps arbitrary: e)
  case Nil
  then show ?case using rewrite_plain_end [of p e] by (simp add: expr_text_def)
next
  case (Cons pq ps)
  obtain p1 q1 where pq: "pq = (p1, q1)" by (cases pq)
  let ?r = "expr_text (ps, p) @ ''}}'' @ rest"
  have "?r = [] \<or> hd ?r \<noteq> QUOTE"
  proof (cases ps)
    case Nil
    then show ?thesis using Cons.prems(1) by (cases p) (auto simp: expr_text_def plain_def)
  next
    case (Cons pq' ps')
    obtain p2 q2 where "pq' = (p2, q2)" by (cases pq')
    then show ?thesis using Cons.prems Cons by (cases p2) (auto simp: expr_text_def plain_def)
  qed
  then have "rewrite_loop (InExpr e) (p1 @ QUOTE # double_quotes q1 @ QUOTE # ?r) results out =
      rewrite_loop (InExpr (e @ p1 @ QUOTE # double_quotes q1 @ [QUOTE])) ?r results out"
    by (intro rewrite_quoted) (use Cons.prems(2) pq in auto)
  moreover have "ps \<noteq> [] \<Longrightarrow> list_all (\<lambda>pq. fst pq \<noteq> []) (tl ps)"
    using Cons.prems(3) by (cases ps) auto
  ultimately show ?case using Cons.IH [of "e @ p1 @ QUOTE # double_quotes q1 @ [QUOTE]"] Cons.prems pq
    by (simp add: expr_text_def)
qed

lemma rewrite_text:
  assumes "\<not> sublist ''${{'' lit"
  shows "rewrite_loop InText (lit @ ''${{'' @ rest) results out =
    rewrite_loop (InExpr []) rest results (out @ escapeFormatString lit)"
proof -
  have i: "Index (lit @ ''${{'' @ rest) ''${{'' = int (length lit)"
    using assms Index_overlap [of "CHR ''$''" "''{{''" lit rest] by simp
  obtain c s where cs: "lit @ ''${{'' @ rest = c # s" by (cases "lit @ ''${{'' @ rest") auto
  have "rewrite_loop InText (c # s) results out =
    rewrite_loop (InExpr []) (drop (length lit + 3) (c # s)) results (out @ escapeFormatString (take (length lit) (c # s)))"
    using i unfolding cs by (simp only: rewrite_loop.simps Let_def) simp
  then show ?thesis unfolding cs [symmetric] by simp
qed

lemma rewrite_rest: "\<not> sublist ''${{'' l \<Longrightarrow>
    rewrite_loop InText l results out = Some (results, out @ escapeFormatString l)"
proof (cases l)
  case (Cons c s)
  assume "\<not> sublist ''${{'' l"
  then show ?thesis using Index_missing [of "''${{''" l] Cons by (simp add: Let_def del: Index.simps)
qed (simp add: escapeFormatString_def ReplaceAll_def)

lemma rewrite_template:
  "template_ok (ts, l) \<Longrightarrow> rewrite_loop InText (template_text (ts, l)) results out =
     Some (results @ template_args (ts, l), out @ template_format (length results) ts l)"
proof (induction ts arbitrary: results out)
  case Nil
  then show ?case using rewrite_rest [of l] by (simp add: template_ok_def template_text_def template_args_def)
next
  case (Cons le ts)
  obtain lit ps p where le: "le = (lit, (ps, p))" by (cases le) auto
  have ok: "\<not> sublist ''${{'' lit" "plain p" "list_all (plain \<circ> fst) ps"
    "ps \<noteq> [] \<Longrightarrow> list_all (\<lambda>pq. fst pq \<noteq> []) (tl ps)" "template_ok (ts, l)"
    using Cons.prems le by (auto simp: template_ok_def expr_ok_def)
  have "template_text (le # ts, l) = lit @ ''${{'' @ (expr_text (ps, p) @ ''}}'' @ template_text (ts, l))"
    by (simp add: template_text_def le)
  then show ?case
    using rewrite_text [OF ok(1)] rewrite_expr [OF ok(2,3,4)] Cons.IH [OF ok(5)] le
    by (simp add: template_args_def)
qed

section \<open>What the interpreter's format function makes of it\<close>

text \<open>
  The documented behaviour of \<^verbatim>\<open>format\<close> in the expression language: \<open>{N}\<close> stands for the argument
  with that number, doubled braces for single ones.
\<close>

function apply_format :: "string list \<Rightarrow> string \<Rightarrow> string" where
  "apply_format args s =
     (if s = [] then []
      else if prefix ''{{'' s then CHR ''{'' # apply_format args (drop 2 s)
      else if prefix ''}}'' s then CHR ''}'' # apply_format args (drop 2 s)
      else if hd s = CHR ''{'' then
        (let ds = takeWhile is_digit (tl s); rest = dropWhile is_digit (tl s) in
         if ds \<noteq> [] \<and> prefix ''}'' rest \<and> parse_digits ds < length args
         then args ! parse_digits ds @ apply_format args (tl rest)
         else hd s # apply_format args (tl s))
      else hd s # apply_format args (tl s))"
  by pat_completeness auto
termination
proof (relation "measure (\<lambda>(_, s). length s)", goal_cases)
  case (4 args s ds rest)
  have "length (dropWhile is_digit (tl s)) \<le> length s - 1"
    using length_dropWhile_le [of is_digit "tl s"] by simp
  moreover have "length s > 0" using 4(1) by simp
  ultimately have "length (dropWhile is_digit (tl s)) - 1 < length s" by linarith
  with 4 show ?case by simp
qed auto

declare apply_format.simps [simp del]

lemma apply_format_Nil [simp]: "apply_format args [] = []"
  by (subst apply_format.simps) simp

lemma apply_format_escape: "apply_format args (escapeFormatString lit @ s) = lit @ apply_format args s"
proof (induction lit)
  case (Cons c lit)
  then show ?case
    by (subst apply_format.simps) (auto simp: escapeFormatString_def ReplaceAll_def)
qed (simp add: escapeFormatString_def ReplaceAll_def)

lemma apply_format_arg:
  assumes "n < length args"
  shows "apply_format args (''{'' @ dec_nat n @ ''}'' @ s) = args ! n @ apply_format args s"
proof -
  have d: "takeWhile is_digit (dec_nat n @ CHR ''}'' # s) = dec_nat n"
    "dropWhile is_digit (dec_nat n @ CHR ''}'' # s) = CHR ''}'' # s"
    using dec_nat_digits [of n] by (auto simp: list_all_iff is_digit_def char_in_def)
  have "\<not> prefix ''{'' (dec_nat n @ CHR ''}'' # s)"
    using dec_nat_digits [of n] dec_nat_nonempty [of n]
    by (cases "dec_nat n") (auto simp: is_digit_def char_in_def)
  then show ?thesis
    by (subst apply_format.simps) (simp add: d dec_nat_nonempty parse_dec_nat assms)
qed

fun fill :: "string list \<Rightarrow> (string \<times> expression) list \<Rightarrow> string \<Rightarrow> string" where
  "fill vs [] l = l"
| "fill vs ((lit, e) # ts) l = lit @ hd vs @ fill (tl vs) ts l"

lemma apply_template_format:
  "n + length ts \<le> length args \<Longrightarrow>
     apply_format args (template_format n ts l) = fill (drop n args) ts l"
proof (induction ts arbitrary: n)
  case Nil
  then show ?case using apply_format_escape [of args l "[]"] by simp
next
  case (Cons le ts)
  then show ?case using apply_format_arg [of n args]
    by (cases le) (simp add: apply_format_escape hd_drop_conv_nth tl_drop drop_Suc)
qed

lemma template_contains:
  assumes "ts \<noteq> []"
  shows "Contains (template_text (ts, l)) ''${{''" "Contains (template_text (ts, l)) ''}}''"
proof -
  obtain lit e ts' where "ts = (lit, e) # ts'" using assms by (metis list.exhaust surj_pair)
  then have "template_text (ts, l) = lit @ ''${{'' @ (expr_text e @ ''}}'' @ template_text (ts', l))"
    "template_text (ts, l) = (lit @ ''${{'' @ expr_text e) @ ''}}'' @ template_text (ts', l)"
    by (simp_all add: template_text_def)
  then show "Contains (template_text (ts, l)) ''${{''" "Contains (template_text (ts, l)) ''}}''"
    unfolding Contains_def by (metis sublist_appendI)+
qed

text \<open>
  C38: Interpolation: for a text with embedded expressions (string literals in them may contain
  closing braces), and an interpreter whose \<^verbatim>\<open>format\<close> behaves as documented on the call the
  rewriting produces, the result is the text with every expression replaced by its value and
  everything else, braces and quotes included, unchanged.
\<close>

theorem Interpolate_template:
  assumes "template_ok (ts, l)" "ts \<noteq> []"
    and "iEvaluate interp env (format_call (template_format 0 ts l) (template_args (ts, l)))
           DefaultStatusCheckNone = Inr v"
    and "iString interp v = Some (apply_format (map val (template_args (ts, l))) (template_format 0 ts l))"
  shows "Interpolate interp env (template_text (ts, l)) = fill (map val (template_args (ts, l))) ts l"
proof -
  have "rewriteSubExpression (template_text (ts, l)) True
      = format_call (template_format 0 ts l) (template_args (ts, l))"
    using rewrite_template [OF assms(1), of "[]" "[]"] template_contains [OF assms(2)]
    by (simp add: rewriteSubExpression_def format_call_def double_quotes_def)
  moreover have "apply_format (map val (template_args (ts, l))) (template_format 0 ts l)
      = fill (map val (template_args (ts, l))) ts l"
    using apply_template_format [of 0 ts "map val (template_args (ts, l))" l]
    by (simp add: template_args_def)
  ultimately show ?thesis
    using assms(3,4) template_contains [OF assms(2)] by (simp add: Interpolate_def)
qed

definition example_interp :: "(unit, string) interpreter" where
  "example_interp =
     \<lparr>iEvaluate = (\<lambda>env s chk. if s = format_call ''{{x}} {0}!'' [''a''] then Inr ''{x} 1!'' else Inl ()),
      iIsTruthy = (\<lambda>v. v \<noteq> []), iString = Some, iPrint = id\<rparr>"

theorem Interpolate_template_witness:
  "Interpolate example_interp (BuildEnvironment \<lparr>tkId = 1, tkPayload = [], tkContext = Map.empty,
     tkSecrets = [], tkVars = Map.empty, tkNeeds = Map.empty\<rparr> Map.empty) ''{x} ${{a}}!'' = ''{x} 1!''"
proof -
  have t: "TrimSpace ''a'' = ''a''" by (simp add: strings_simps char_in_def)
  have d: "dec_nat 0 = ''0''" by code_simp
  have f: "template_format 0 [(''{x} '', ([], ''a''))] ''!'' = ''{{x}} {0}!''"
    by (simp add: escapeFormatString_def ReplaceAll_def d)
  have a: "template_args ([(''{x} '', ([], ''a''))], ''!'') = [''a'']"
    by (simp add: template_args_def expr_text_def t)
  have p: "apply_format [''1''] ''{{x}} {0}!'' = ''{x} 1!''"
    using apply_template_format [of 0 "[(''{x} '', ([], ''a''))]" "[''1'']" "''!''"] unfolding f by simp
  let ?ts = "[(''{x} '', ([], ''a''))]"
  have "Interpolate example_interp E (template_text (?ts, ''!''))
      = fill (map (\<lambda>_. ''1'') (template_args (?ts, ''!''))) ?ts ''!''" for E
    by (rule Interpolate_template [where v = "''{x} 1!''"])
      (simp_all add: f a p template_ok_def expr_ok_def plain_def sublist_Cons_right example_interp_def
        del: template_format.simps)
  moreover have "template_text (?ts, ''!'') = ''{x} ${{a}}!''"
    by (simp add: template_text_def expr_text_def)
  ultimately show ?thesis by (simp add: a)
qed

end
