(* ===== verification/Types.thy ===== *)
theory Types
  imports Complex_Main Expressions
begin

text \<open>
  The data shared between controller and entrypoint, from \<^verbatim>\<open>src/pkg/types/step.go\<close>. A
  \<^verbatim>\<open>float64\<close> (the step timeout) is a rational number, an infinity or not a number. JSON encoding and decoding of the manifest
  and of the state events is not modelled: both sides use these records.
\<close>

datatype float64 = Finite rat | Infinite bool | NotANumber

record StepSpec =
  spID :: string
  spName :: string
  spShell :: string
  spScript :: string
  spArgs :: "string list"
  spEnv :: env_map
  spImage :: string
  spCmd :: "string list"
  spActionDir :: string
  spContinueOnError :: bool
  spIf :: string
  spTimeoutMinutes :: float64

record ManifestStep =
  msID :: string
  msName :: string
  msCommand :: string
  msArgs :: "string list"
  msShell :: string
  msEnv :: env_map
  msWorkDir :: string
  msContinueOnError :: bool
  msIf :: string
  msTimeoutMinutes :: float64

record ActionFetch =
  afDir :: string
  afURL :: string

record Manifest =
  mfSteps :: "ManifestStep list"
  mfBaseEnv :: env_map
  mfContext :: "EvalContext option"
  mfActions :: "ActionFetch list"
  mfCachePaths :: "string list"

record StateEvent =
  evEvent :: string
  evStep :: int
  evName :: string
  evExitCode :: int
  evTime :: string

record StepResult =
  srExitCode :: int
  srOutputs :: env_map

end
