(* ===== verification/Tail.thy ===== *)
theory Tail
  imports Systems
begin

text \<open>
  The state-agent: \<^verbatim>\<open>entrypoint tail\<close> copies the lines of the growing state file to its standard
  output, from where the controller reads them. From \<^verbatim>\<open>src/cmd/entrypoint/tail.go\<close>.
\<close>

section \<open>Arguments\<close>

record tailArgs =
  taPath :: string
  taOnce :: bool
  taSkip :: int

datatype tail_error =
    SkipNeedsValue
  | SkipSyntax string
  | SkipNegative
  | UnknownFlag string
  | UnexpectedArgument string
  | MissingPath

fun parse_tail :: "string list \<Rightarrow> tailArgs \<Rightarrow> tail_error + tailArgs" where
  "parse_tail [] args = (if taPath args = [] then Inl MissingPath else Inr args)"
| "parse_tail (a # argv) args =
     (if a = ''--once'' then parse_tail argv (args\<lparr>taOnce := True\<rparr>)
      else if a = ''--skip'' then
        (case argv of
           [] \<Rightarrow> Inl SkipNeedsValue
         | v # argv' \<Rightarrow>
             (case ParseInt 64 v of
                None \<Rightarrow> Inl (SkipSyntax v)
              | Some n \<Rightarrow> if n < 0 then Inl SkipNegative else parse_tail argv' (args\<lparr>taSkip := n\<rparr>)))
      else if length a > 2 \<and> take 2 a = ''--'' then Inl (UnknownFlag a)
      else if taPath args \<noteq> [] then Inl (UnexpectedArgument a)
      else parse_tail argv (args\<lparr>taPath := a\<rparr>))"

definition parseTailArgs :: "string list \<Rightarrow> tail_error + tailArgs" where
  "parseTailArgs argv = parse_tail argv \<lparr>taPath = [], taOnce = False, taSkip = 0\<rparr>"

section \<open>The copy loop\<close>

text \<open>
  \<open>tRead\<close> is what has been read from the file so far, \<open>tEOF\<close> whether the last read met the end
  of the file. One iteration reads up to the next newline or to the current end of the file;
  \<open>file\<close> is the file's content at that time.
\<close>

record tail_state =
  tRead :: string
  tPending :: string
  tSkipped :: int
  tOut :: string
  tEOF :: bool

definition tail_init :: tail_state where
  "tail_init = \<lparr>tRead = [], tPending = [], tSkipped = 0, tOut = [], tEOF = False\<rparr>"

definition tail_iter :: "tailArgs \<Rightarrow> tail_state \<Rightarrow> string \<Rightarrow> tail_state" where
  "tail_iter args s content =
     (let unread = drop (length (tRead s)) content in
      case Cut NL unread of
        Some (l, _) \<Rightarrow>
          let line = l @ [NL];
              full = (if tPending s \<noteq> [] then tPending s @ line else line);
              s' = s\<lparr>tRead := tRead s @ line, tPending := [], tEOF := False\<rparr>
          in if tSkipped s < taSkip args then s'\<lparr>tSkipped := tSkipped s + 1\<rparr>
             else s'\<lparr>tOut := tOut s @ full\<rparr>
      | None \<Rightarrow>
          s\<lparr>tRead := tRead s @ unread,
            tPending := (if unread \<noteq> [] then tPending s @ unread else tPending s), tEOF := True\<rparr>)"

text \<open>
  \<^verbatim>\<open>runTail\<close> in one-shot mode: iterate until the end of the file; \<open>n\<close> bounds the iterations.
\<close>

fun tail_once :: "nat \<Rightarrow> tailArgs \<Rightarrow> string \<Rightarrow> tail_state \<Rightarrow> tail_state option" where
  "tail_once 0 args content s = None"
| "tail_once (Suc n) args content s =
     (let s' = tail_iter args s content in if tEOF s' then Some s' else tail_once n args content s')"

text \<open>
  \<^verbatim>\<open>runTail\<close> as a whole. A round of its loop finds the context cancelled or not, reads from the file as it
  is then, and at the end of the file either returns (one-shot mode) or sleeps, which a
  cancellation ends.
\<close>

record tail_round =
  trCancelled :: bool
  trContent :: string
  trCancelledAsleep :: bool

datatype tail_end = TailOpenFailed | TailDone | TailCancelled | TailRunning

fun tail_rounds :: "tailArgs \<Rightarrow> tail_round list \<Rightarrow> tail_state \<Rightarrow> tail_end \<times> tail_state" where
  "tail_rounds args [] s = (TailRunning, s)"
| "tail_rounds args (r # rounds) s =
     (if trCancelled r then (TailCancelled, s)
      else
        let s' = tail_iter args s (trContent r)
        in if \<not> tEOF s' then tail_rounds args rounds s'
           else if taOnce args then (TailDone, s')
           else if trCancelledAsleep r then (TailCancelled, s')
           else tail_rounds args rounds s')"

definition runTail :: "bool \<Rightarrow> tailArgs \<Rightarrow> tail_round list \<Rightarrow> tail_end \<times> tail_state" where
  "runTail opened args rounds = (if opened then tail_rounds args rounds tail_init else (TailOpenFailed, tail_init))"

section \<open>Correctness\<close>

definition full_lines :: "string \<Rightarrow> string list" where
  "full_lines s = map (\<lambda>l. l @ [NL]) (butlast (Split NL s))"

definition partial_line :: "string \<Rightarrow> string" where
  "partial_line s = last (Split NL s)"

lemma full_lines_append_line: "NL \<notin> set l \<Longrightarrow>
    full_lines (s @ l @ [NL]) = full_lines s @ [partial_line s @ l @ [NL]] \<and> partial_line (s @ l @ [NL]) = []"
  using Split_append [of NL l "[]"] by (simp add: full_lines_def partial_line_def Split_append_gen butlast_append)

lemma full_lines_append_part: "NL \<notin> set l \<Longrightarrow>
    full_lines (s @ l) = full_lines s \<and> partial_line (s @ l) = partial_line s @ l"
  by (simp add: full_lines_def partial_line_def Split_append_gen Split_single butlast_append)

definition tail_inv :: "tailArgs \<Rightarrow> tail_state \<Rightarrow> bool" where
  "tail_inv args s \<longleftrightarrow>
     tPending s = partial_line (tRead s) \<and>
     tSkipped s = min (taSkip args) (int (length (full_lines (tRead s)))) \<and>
     tOut s = concat (drop (nat (taSkip args)) (full_lines (tRead s)))"

text \<open>The file is only appended to: what was read is still there.\<close>

definition append_only :: "tail_state \<Rightarrow> string \<Rightarrow> bool" where
  "append_only s content \<longleftrightarrow> prefix (tRead s) content"

lemma tail_iter_inv:
  assumes "tail_inv args s" "0 \<le> taSkip args"
  shows "tail_inv args (tail_iter args s content)"
proof (cases "Cut NL (drop (length (tRead s)) content)")
  case None
  then have "NL \<notin> set (drop (length (tRead s)) content)" by (simp add: Cut_None_iff)
  from full_lines_append_part [OF this, of "tRead s"] assms None show ?thesis
    by (simp add: tail_iter_def tail_inv_def Let_def)
next
  case (Some lr)
  obtain l r where lr: "lr = (l, r)" by fastforce
  with Some have "NL \<notin> set l" by (simp add: Cut_Some_iff)
  note lines = full_lines_append_line [OF this, of "tRead s"]
  show ?thesis
  proof (cases "int (length (full_lines (tRead s))) < taSkip args")
    case True
    then have "drop (nat (taSkip args)) (full_lines (tRead s) @ [x]) = []" for x by simp
    with True assms Some lr lines show ?thesis by (auto simp: tail_iter_def tail_inv_def Let_def)
  next
    case False
    then have "nat (taSkip args) \<le> length (full_lines (tRead s))" by linarith
    with False assms Some lr lines show ?thesis by (auto simp: tail_iter_def tail_inv_def Let_def)
  qed
qed

lemma tail_init_inv: "0 \<le> taSkip args \<Longrightarrow> tail_inv args tail_init"
  by (simp add: tail_inv_def tail_init_def full_lines_def partial_line_def)

interpretation tailing: object_invariant "tail_iter args" append_only "\<lambda>s. tail_inv args s \<and> 0 \<le> taSkip args" for args
  by unfold_locales (simp add: tail_iter_inv)

lemma tail_iter_read:
  assumes "append_only s content"
  shows "append_only (tail_iter args s content) content \<and>
    (tEOF (tail_iter args s content) \<longrightarrow> tRead (tail_iter args s content) = content)"
proof -
  obtain u where u: "content = tRead s @ u" using assms by (auto simp: append_only_def prefix_def)
  show ?thesis
  proof (cases "Cut NL u")
    case None
    with u show ?thesis by (simp add: tail_iter_def append_only_def Let_def)
  next
    case (Some lr)
    then show ?thesis using u by (cases lr) (auto simp: tail_iter_def append_only_def Cut_Some_iff Cut_append Let_def)
  qed
qed

text \<open>
  The state-agent neither loses, repeats nor tears a line: after any number of reads of a
  file that is only appended to, its output is exactly the complete lines read so far without
  the first \<open>skip\<close>; once it has met the end of the file, these are all complete lines of it.
\<close>

theorem tail_copies_lines:
  assumes "0 \<le> taSkip args" "calls_ok append_only (tail_iter args) tail_init (reads @ [content])"
  shows "let s = run_calls (tail_iter args) tail_init (reads @ [content]) in
    tOut s = concat (drop (nat (taSkip args)) (full_lines (tRead s))) \<and> prefix (tRead s) content \<and>
    (tEOF s \<longrightarrow> tOut s = concat (drop (nat (taSkip args)) (full_lines content)))"
proof -
  let ?s = "run_calls (tail_iter args) tail_init reads"
  have "tail_inv args (run_calls (tail_iter args) tail_init (reads @ [content]))"
    using tailing.run_calls_inv [OF _ assms(2)] tail_init_inv assms(1) by blast
  moreover have "append_only ?s content" using assms(2) by (simp add: calls_ok_append)
  note tail_iter_read [OF this, of args]
  ultimately show ?thesis by (auto simp: run_calls_append tail_inv_def append_only_def Let_def)
qed

text \<open>
  One-shot mode ends: with at least as many iterations as the file has bytes, plus one, it
  has met the end of the file and printed its complete lines (without the skipped ones).
\<close>

theorem tail_once_terminates:
  assumes "0 \<le> taSkip args" "length content < n"
  shows "\<exists>s. tail_once n args content tail_init = Some s \<and>
    tOut s = concat (drop (nat (taSkip args)) (full_lines content))"
proof -
  have "tail_inv args s \<Longrightarrow> append_only s content \<Longrightarrow> length content - length (tRead s) < n \<Longrightarrow>
    \<exists>s'. tail_once n args content s = Some s' \<and> tail_inv args s' \<and> tRead s' = content" for s
  proof (induction n arbitrary: s)
    case (Suc n)
    let ?s = "tail_iter args s content"
    note r = tail_iter_read [OF Suc.prems(2), of args]
    have inv: "tail_inv args ?s" using Suc.prems(1) assms(1) by (rule tail_iter_inv)
    show ?case
    proof (cases "tEOF ?s")
      case True
      with r inv show ?thesis by (simp add: Let_def)
    next
      case False
      then have "length (tRead s) < length (tRead ?s)"
        by (auto simp: tail_iter_def Let_def split: option.splits)
      moreover have "length (tRead ?s) \<le> length content" using r by (simp add: append_only_def prefix_length_le)
      ultimately have "length content - length (tRead ?s) < n" using Suc.prems(3) by linarith
      with Suc.IH [OF inv] r False show ?thesis by (simp add: Let_def)
    qed
  qed simp
  from this [of tail_init] tail_init_inv [OF assms(1)] assms(2) show ?thesis
    by (auto simp: append_only_def tail_init_def tail_inv_def)
qed

text \<open>
  The agent stops where it is: when the agent has copied the file up to its end and is asleep, and lines are
  appended before the signal to terminate wakes it, it returns without copying them. So the events of the last
  fifty milliseconds of a job can be missing from what the controller reads.
\<close>

lemma drain_to_end:
  assumes "tail_inv args s" "append_only s content" "0 \<le> taSkip args"
  shows "\<exists>rounds s'. (\<forall>r \<in> set rounds. \<not> trCancelled r \<and> \<not> trCancelledAsleep r \<and> trContent r = content) \<and>
    tail_inv args s' \<and> tRead s' = content \<and>
    (\<forall>extra. taOnce args \<or> tail_rounds args (rounds @ extra) s = tail_rounds args extra s')"
  using assms
proof (induction "length content - length (tRead s)" arbitrary: s rule: less_induct)
  case less
  let ?s = "tail_iter args s content" and ?r = "\<lparr>trCancelled = False, trContent = content, trCancelledAsleep = False\<rparr>"
  have inv: "tail_inv args ?s" using tail_iter_inv less.prems by blast
  note read = tail_iter_read [OF less.prems(2), of args]
  show ?case
  proof (cases "tEOF ?s")
    case True
    with read inv show ?thesis by (intro exI [of _ "[?r]"] exI [of _ ?s]) (simp add: Let_def)
  next
    case False
    have "length (tRead s) < length (tRead ?s)" using False by (auto simp: tail_iter_def Let_def split: option.splits if_splits)
    moreover have "length (tRead ?s) \<le> length content" using read by (auto simp: append_only_def dest: prefix_length_le)
    ultimately have "length content - length (tRead ?s) < length content - length (tRead s)" by simp
    from less.hyps [OF this inv] read less.prems(3) obtain rounds s' where
      "\<forall>r \<in> set rounds. \<not> trCancelled r \<and> \<not> trCancelledAsleep r \<and> trContent r = content" "tail_inv args s'" "tRead s' = content"
      "\<forall>extra. taOnce args \<or> tail_rounds args (rounds @ extra) ?s = tail_rounds args extra s'" by blast
    with False show ?thesis by (intro exI [of _ "?r # rounds"] exI [of _ s']) (simp add: Let_def)
  qed
qed

theorem last_lines_lost:
  assumes "\<not> taOnce args" "0 \<le> taSkip args"
  shows "\<exists>rounds s. (\<forall>r \<in> set (butlast rounds). \<not> trCancelled r \<and> trContent r = content) \<and>
    trCancelled (last rounds) \<and> trContent (last rounds) = content @ extra \<and>
    runTail True args rounds = (TailCancelled, s) \<and> tOut s = concat (drop (nat (taSkip args)) (full_lines content))"
proof -
  obtain rounds s' where r: "\<forall>r \<in> set rounds. \<not> trCancelled r \<and> \<not> trCancelledAsleep r \<and> trContent r = content"
    "tail_inv args s'" "tRead s' = content" "\<forall>extra. tail_rounds args (rounds @ extra) tail_init = tail_rounds args extra s'"
    using drain_to_end [OF tail_init_inv [OF assms(2)], of content] assms by (auto simp: append_only_def tail_init_def)
  let ?last = "\<lparr>trCancelled = True, trContent = content @ extra, trCancelledAsleep = False\<rparr>"
  show ?thesis using r by (intro exI [of _ "rounds @ [?last]"] exI [of _ s']) (simp add: runTail_def tail_inv_def)
qed

section \<open>Witnesses\<close>

definition example_args :: tailArgs where
  "example_args = \<lparr>taPath = ''/shim/state.jsonl'', taOnce = False, taSkip = 0\<rparr>"

theorem tail_copies_lines_witness:
  "tOut (run_calls (tail_iter example_args) tail_init (([''a''] @ [''ab'' @ [NL] @ ''c'']) @ [''ab'' @ [NL] @ ''c'']))
     = ''ab'' @ [NL]"
proof -
  have ok: "calls_ok append_only (tail_iter example_args) tail_init
      (([''a''] @ [''ab'' @ [NL] @ ''c'']) @ [''ab'' @ [NL] @ ''c''])"
    by (simp add: append_only_def tail_iter_def tail_init_def example_args_def Let_def)
  have eof: "tEOF (run_calls (tail_iter example_args) tail_init
      (([''a''] @ [''ab'' @ [NL] @ ''c'']) @ [''ab'' @ [NL] @ ''c'']))"
    by (simp add: tail_iter_def tail_init_def example_args_def Let_def)
  have z: "0 \<le> taSkip example_args" by (simp add: example_args_def)
  have "tOut (run_calls (tail_iter example_args) tail_init (([''a''] @ [''ab'' @ [NL] @ ''c'']) @ [''ab'' @ [NL] @ ''c'']))
      = concat (drop (nat (taSkip example_args)) (full_lines (''ab'' @ [NL] @ ''c'')))"
    using tail_copies_lines [OF z ok, unfolded Let_def] eof by blast
  then show ?thesis by (simp only: example_args_def full_lines_def) simp
qed

theorem last_lines_lost_witness:
  "\<exists>rounds s. trContent (last rounds) = ''a'' @ [NL] @ ''b'' @ [NL] \<and> runTail True example_args rounds = (TailCancelled, s) \<and> tOut s = ''a'' @ [NL]"
  using last_lines_lost [of example_args "''a'' @ [NL]" "''b'' @ [NL]"]
  by (simp add: example_args_def full_lines_def) blast

theorem tail_once_terminates_witness:
  "\<exists>s. tail_once 4 example_args (''a'' @ [NL] @ ''b'') tail_init = Some s \<and> tOut s = ''a'' @ [NL]"
  using tail_once_terminates [of example_args "''a'' @ [NL] @ ''b''" 4]
  by (simp add: example_args_def full_lines_def)

end
