(* ===== verification/Watcher.thy ===== *)
theory Watcher
  imports Commands Types Tail
begin

text \<open>
  The job watcher, from \<^verbatim>\<open>src/pkg/k8s/watcher.go\<close>: waiting for the pod and its runner container,
  routing log lines and state events to the reporter, and the job's result from the container
  status.

  The Kubernetes API is outside the sources: its answers are the observations a poll makes. A
  waiting loop is a function of the sequence of its polls; \<open>None\<close> means that it is still waiting
  after the given ones. Decoding of a state event (\<^verbatim>\<open>json.Unmarshal\<close>) is the parameter \<open>decode\<close>.
\<close>

section \<open>Pods\<close>

datatype ContainerState =
    Waiting string string          \<comment> \<open>reason, message\<close>
  | Running
  | Terminated int string string   \<comment> \<open>exit code, reason, message\<close>
  | NoState

record ContainerStatus =
  csName :: string
  csState :: ContainerState
  csLast :: ContainerState

datatype PodPhase = PodPending | PodRunning | PodSucceeded | PodFailed | PodUnknown

record Pod =
  podPhase :: PodPhase
  podReason :: string
  podInit :: "ContainerStatus list"
  podMain :: "ContainerStatus list"

datatype get_error = NotFound | GetError

datatype watch_error =
    PodGetFailed
  | PodFailedError string
  | ImageError string string
  | ContextDone
  | NotTerminated
  | StatusNotFound
  | WaitingForPod watch_error
  | WaitingForRunner watch_error
  | WaitingAfterLog watch_error

section \<open>Diagnosis of a failed pod\<close>

record failingContainer =
  fcName :: string
  fcExitCode :: int
  fcReason :: string
  fcMessage :: string

fun failed_state :: "string \<Rightarrow> ContainerState \<Rightarrow> failingContainer option" where
  "failed_state name (Terminated code reason msg) =
     (if code \<noteq> 0 then Some \<lparr>fcName = name, fcExitCode = code, fcReason = reason, fcMessage = msg\<rparr> else None)"
| "failed_state name _ = None"

fun pick_failing :: "ContainerStatus list \<Rightarrow> failingContainer option" where
  "pick_failing [] = None"
| "pick_failing (cs # rest) =
     (case failed_state (csName cs) (csState cs) of
        Some c \<Rightarrow> Some c
      | None \<Rightarrow> (case failed_state (csName cs) (csLast cs) of Some c \<Rightarrow> Some c | None \<Rightarrow> pick_failing rest))"

definition findFailingContainer :: "Pod \<Rightarrow> (failingContainer \<times> string) option" where
  "findFailingContainer pod =
     (case pick_failing (podInit pod) of
        Some c \<Rightarrow> Some (c, ''init'')
      | None \<Rightarrow> (case pick_failing (podMain pod) of Some c \<Rightarrow> Some (c, ''main'') | None \<Rightarrow> None))"

definition truncate :: "string \<Rightarrow> nat \<Rightarrow> string" where
  "truncate s n = (if length s \<le> n then s else take n s @ map char_of [0xE2, 0x80, 0xA6 :: nat])"

text \<open>The previous instance's log, indented; \<open>None\<close> is a log that cannot be read.\<close>

definition fetchPreviousLogTail :: "string option \<Rightarrow> string" where
  "fetchPreviousLogTail prev =
     (case prev of
        None \<Rightarrow> []
      | Some buf \<Rightarrow> if buf = [] then []
          else Join [NL] (map (\<lambda>l. ''  '' @ l) (Split NL (TrimRight buf [NL]))))"

definition formatPodFailure :: "(string \<Rightarrow> string option) \<Rightarrow> Pod \<Rightarrow> string" where
  "formatPodFailure previousLog pod =
     (case findFailingContainer pod of
        Some (c, kind) \<Rightarrow>
          kind @ '' container '' @ fcName c @ '' terminated with exit code '' @ Itoa (fcExitCode c) @
          '' ('' @ fcReason c @ '')'' @
          (if fcMessage c \<noteq> [] then '': '' @ truncate (TrimSpace (fcMessage c)) 1024 else []) @
          (let tail = fetchPreviousLogTail (previousLog (fcName c))
           in if tail \<noteq> [] then [NL] @ ''last log lines:'' @ [NL] @ tail else [])
      | None \<Rightarrow> if podReason pod \<noteq> [] then podReason pod else ''unknown reason'')"

section \<open>Waiting\<close>

text \<open>One poll: the answer, and whether the context is done while the loop sleeps.\<close>

fun waitForPod :: "((get_error + string list) \<times> bool) list \<Rightarrow> (watch_error + string) option" where
  "waitForPod [] = None"
| "waitForPod ((answer, cancelled) # polls) =
     (case answer of
        Inl _ \<Rightarrow> Some (Inl PodGetFailed)
      | Inr [] \<Rightarrow> if cancelled then Some (Inl ContextDone) else waitForPod polls
      | Inr (p # _) \<Rightarrow> Some (Inr p))"

definition fatal_waiting :: "string list" where
  "fatal_waiting = [''ImagePullBackOff'', ''ErrImagePull'', ''InvalidImageName'', ''CreateContainerConfigError'']"

text \<open>The scan of the container statuses: \<open>None\<close> goes on waiting.\<close>

fun runner_started :: "string \<Rightarrow> ContainerStatus list \<Rightarrow> (watch_error option) option" where
  "runner_started name [] = None"
| "runner_started name (cs # rest) =
     (if csName cs = name then
        (case csState cs of
           Running \<Rightarrow> Some None
         | Terminated _ _ _ \<Rightarrow> Some None
         | Waiting reason msg \<Rightarrow>
             if reason \<in> set fatal_waiting then Some (Some (ImageError reason msg)) else runner_started name rest
         | NoState \<Rightarrow> runner_started name rest)
      else runner_started name rest)"

fun waitForContainerRunning ::
  "(string \<Rightarrow> string option) \<Rightarrow> string \<Rightarrow> ((get_error + Pod) \<times> bool) list \<Rightarrow> (watch_error + unit) option" where
  "waitForContainerRunning previousLog name [] = None"
| "waitForContainerRunning previousLog name ((answer, cancelled) # polls) =
     (case answer of
        Inl _ \<Rightarrow> Some (Inl PodGetFailed)
      | Inr pod \<Rightarrow>
          if podPhase pod = PodFailed then Some (Inl (PodFailedError (formatPodFailure previousLog pod)))
          else (case runner_started name (podMain pod) of
                  Some None \<Rightarrow> Some (Inr ())
                | Some (Some e) \<Rightarrow> Some (Inl e)
                | None \<Rightarrow> if cancelled then Some (Inl ContextDone)
                          else waitForContainerRunning previousLog name polls))"

text \<open>How the sleep between two polls of the termination wait ends.\<close>

datatype sleep_end = TimerFired | TimeoutExpired | ParentDone

definition is_terminated :: "string \<Rightarrow> ContainerStatus \<Rightarrow> bool" where
  "is_terminated name cs = (csName cs = name \<and> (case csState cs of Terminated _ _ _ \<Rightarrow> True | _ \<Rightarrow> False))"

definition termination_seen :: "string \<Rightarrow> get_error + Pod \<Rightarrow> bool" where
  "termination_seen name answer =
     (case answer of
        Inl NotFound \<Rightarrow> True
      | Inl GetError \<Rightarrow> False
      | Inr pod \<Rightarrow> podPhase pod = PodFailed \<or> podPhase pod = PodSucceeded \<or>
                   list_ex (is_terminated name) (podMain pod))"

fun waitForContainerTerminated ::
  "string \<Rightarrow> ((get_error + Pod) \<times> sleep_end) list \<Rightarrow> (watch_error + unit) option" where
  "waitForContainerTerminated name [] = None"
| "waitForContainerTerminated name ((answer, slept) # polls) =
     (if termination_seen name answer then Some (Inr ())
      else case slept of
             TimerFired \<Rightarrow> waitForContainerTerminated name polls
           | TimeoutExpired \<Rightarrow> Some (Inl NotTerminated)
           | ParentDone \<Rightarrow> Some (Inl ContextDone))"

fun runner_result :: "ContainerStatus list \<Rightarrow> Result option" where
  "runner_result [] = None"
| "runner_result (cs # rest) =
     (if csName cs = ''runner'' then
        (case csState cs of
           Terminated code _ _ \<Rightarrow> Some (if code = 0 then RESULT_SUCCESS else RESULT_FAILURE)
         | _ \<Rightarrow> runner_result rest)
      else runner_result rest)"

definition getContainerResult :: "get_error + Pod \<Rightarrow> Result \<times> watch_error option" where
  "getContainerResult answer =
     (case answer of
        Inl _ \<Rightarrow> (RESULT_FAILURE, Some PodGetFailed)
      | Inr pod \<Rightarrow> (case runner_result (podMain pod) of
           Some res \<Rightarrow> (res, None)
         | None \<Rightarrow> (RESULT_FAILURE, Some StatusNotFound)))"

section \<open>Streams\<close>

definition routeStateEvent :: "int \<Rightarrow> StateEvent \<Rightarrow> Reporter \<Rightarrow> Reporter" where
  "routeStateEvent now ev rep =
     (if evEvent ev = ''start'' then StartStep now rep (evStep ev)
      else if evEvent ev = ''end'' then
        FinishStep now rep (evStep ev) (if evExitCode ev \<noteq> 0 then RESULT_FAILURE else RESULT_SUCCESS)
      else if evEvent ev = ''skip'' then FinishStep now rep (evStep ev) RESULT_SKIPPED
      else rep)"

text \<open>
  The state stream up to its end (end of file or an error): \<^verbatim>\<open>ReadString\<close> delivers the complete
  lines, a partial one at the end is dropped. Result: the reporter and the number of lines.
\<close>

definition state_line :: "(string \<Rightarrow> StateEvent option) \<Rightarrow> int \<Rightarrow> string \<Rightarrow> Reporter \<Rightarrow> Reporter" where
  "state_line decode now line rep =
     (let trimmed = TrimRight line [NL, CR] in
      if trimmed = [] then rep
      else case decode trimmed of None \<Rightarrow> rep | Some ev \<Rightarrow> routeStateEvent now ev rep)"

definition streamStateFileWith ::
  "(string \<Rightarrow> StateEvent option) \<Rightarrow> int \<Rightarrow> string \<Rightarrow> Reporter \<Rightarrow> Reporter \<times> nat" where
  "streamStateFileWith decode now stream rep =
     (foldl (\<lambda>r l. state_line decode now l r) rep (full_lines stream), length (full_lines stream))"

text \<open>The log stream: a partial last line is delivered too.\<close>

definition log_line ::
  "int \<Rightarrow> CommandProcessor option \<times> Reporter \<Rightarrow> string \<Rightarrow> CommandProcessor option \<times> Reporter" where
  "log_line now s line =
     (let l = TrimRight line [NL, CR] in
      case s of
        (None, rep) \<Rightarrow> (None, AddLog now rep l)
      | (Some proc, rep) \<Rightarrow>
          (case ProcessLine proc rep l of
             (proc', rep', None) \<Rightarrow> (Some proc', rep')
           | (proc', rep', Some out) \<Rightarrow> (Some proc', AddLog now rep' out)))"

definition streamLogs :: "int \<Rightarrow> string \<Rightarrow> CommandProcessor option \<times> Reporter \<Rightarrow> CommandProcessor option \<times> Reporter" where
  "streamLogs now stream s =
     foldl (log_line now) s (full_lines stream @ (if partial_line stream = [] then [] else [partial_line stream]))"

section \<open>Watching a job\<close>

text \<open>What the watcher observes of the cluster, in the order it looks.\<close>

record job_world =
  jwPods :: "((get_error + string list) \<times> bool) list"
  jwRunning :: "((get_error + Pod) \<times> bool) list"
  jwPrevious :: "string \<Rightarrow> string option"
  jwTerminated :: "((get_error + Pod) \<times> sleep_end) list"
  jwFinal :: "get_error + Pod"

definition watchJobWith :: "job_world \<Rightarrow> (Result \<times> watch_error option) option" where
  "watchJobWith w =
     (case waitForPod (jwPods w) of
        None \<Rightarrow> None
      | Some (Inl e) \<Rightarrow> Some (RESULT_FAILURE, Some (WaitingForPod e))
      | Some (Inr _) \<Rightarrow>
          (case waitForContainerRunning (jwPrevious w) ''runner'' (jwRunning w) of
             None \<Rightarrow> None
           | Some (Inl e) \<Rightarrow> Some (RESULT_FAILURE, Some (WaitingForRunner e))
           | Some (Inr _) \<Rightarrow>
               (case waitForContainerTerminated ''runner'' (jwTerminated w) of
                  None \<Rightarrow> None
                | Some (Inl e) \<Rightarrow> Some (RESULT_FAILURE, Some (WaitingAfterLog e))
                | Some (Inr _) \<Rightarrow>
                    (case getContainerResult (jwFinal w) of
                       (res, None) \<Rightarrow> Some (res, None)
                     | (_, Some e) \<Rightarrow> Some (RESULT_FAILURE, Some e)))))"

end
