(* ===== verification/EnvFile.thy ===== *)
theory EnvFile
  imports Prelude
begin

text \<open>
  The files a step writes to pass values on, from \<^verbatim>\<open>src/cmd/entrypoint/envfile.go\<close>:
  \<^verbatim>\<open>$GITHUB_ENV\<close> and \<^verbatim>\<open>$GITHUB_OUTPUT\<close> (\<^verbatim>\<open>parseEnvFile\<close>) and \<^verbatim>\<open>$GITHUB_PATH\<close> (\<^verbatim>\<open>parsePaths\<close>),
  over a model of \<^verbatim>\<open>bufio.Scanner\<close>. A read error in the middle of a file is not modelled; a file
  is absent, cannot be opened, or has a content.
\<close>

datatype env_file =
    NotExist
  | OpenError
  | Content string

section \<open>bufio.Scanner splitting lines\<close>

definition dropCR :: "string \<Rightarrow> string" where
  "dropCR l = (if l \<noteq> [] \<and> last l = CR then butlast l else l)"

definition raw_lines :: "string \<Rightarrow> string list" where
  "raw_lines s = (let ls = Split NL s in if last ls = [] then butlast ls else ls)"

text \<open>
  The tokens \<^verbatim>\<open>Scan\<close> delivers and whether it stopped with \<^verbatim>\<open>ErrTooLong\<close>: a line that does not
  leave room for its newline in a buffer of \<open>mx\<close> bytes ends the scan.
\<close>

definition scan_lines :: "nat \<Rightarrow> string \<Rightarrow> string list \<times> bool" where
  "scan_lines mx s =
     (let raw = raw_lines s; ok = takeWhile (\<lambda>l. length l < mx) raw
      in (map dropCR ok, length ok < length raw))"

definition MaxScanTokenSize :: nat where "MaxScanTokenSize = 64 * 1024"

section \<open>parseEnvFile\<close>

datatype env_error =
    CannotOpen
  | TooLong
  | UnclosedHeredoc string string

text \<open>The inner loop: the value collected up to the delimiter and the lines after it.\<close>

fun heredoc :: "string \<Rightarrow> string list \<Rightarrow> string \<Rightarrow> (string \<times> string list) option" where
  "heredoc delim [] v = None"
| "heredoc delim (l # ls) v =
     (if l = delim then Some (v, ls)
      else heredoc delim ls ((if v \<noteq> [] then v @ [NL] else v) @ l))"

lemma heredoc_length: "heredoc delim ls v = Some (w, rest) \<Longrightarrow> length rest < length ls"
  by (induction delim ls v rule: heredoc.induct) (auto split: if_splits)

function parse_env_lines :: "string list \<Rightarrow> env_map \<Rightarrow> env_error + env_map" where
  "parse_env_lines [] result = Inr result"
| "parse_env_lines (line # ls) result =
     (let eqIdx = Index line ''=''; hereIdx = Index line ''<<'' in
      if hereIdx > 0 \<and> (eqIdx < 0 \<or> hereIdx < eqIdx) then
        let key = take (nat hereIdx) line; delim = drop (nat hereIdx + 2) line in
        (case heredoc delim ls [] of
           None \<Rightarrow> Inl (UnclosedHeredoc key delim)
         | Some (v, rest) \<Rightarrow> parse_env_lines rest (result(key \<mapsto> v)))
      else if eqIdx > 0 then
        parse_env_lines ls (result(take (nat eqIdx) line \<mapsto> drop (nat eqIdx + 1) line))
      else parse_env_lines ls result)"
  by pat_completeness auto
termination
  by (relation "measure (\<lambda>(ls, _). length ls)") (auto dest!: heredoc_length)

definition parseEnvFile :: "env_file \<Rightarrow> env_map option \<times> env_error option" where
  "parseEnvFile f =
     (case f of
        NotExist \<Rightarrow> (None, None)
      | OpenError \<Rightarrow> (None, Some CannotOpen)
      | Content s \<Rightarrow>
          (case scan_lines (1024 * 1024) s of
             (ls, too) \<Rightarrow>
               (case parse_env_lines ls Map.empty of
                  Inl e \<Rightarrow> (None, Some e)
                | Inr m \<Rightarrow> (Some m, if too then Some TooLong else None))))"

definition parsePaths :: "env_file \<Rightarrow> string list \<times> env_error option" where
  "parsePaths f =
     (case f of
        NotExist \<Rightarrow> ([], None)
      | OpenError \<Rightarrow> ([], Some CannotOpen)
      | Content s \<Rightarrow>
          (case scan_lines MaxScanTokenSize s of
             (ls, too) \<Rightarrow> (filter (\<lambda>l. l \<noteq> []) (map TrimSpace ls), if too then Some TooLong else None)))"

section \<open>Reading back what a step wrote\<close>

text \<open>The two documented ways to write an entry.\<close>

datatype entry =
    Simple string string              \<comment> \<open>\<open>key=value\<close>\<close>
  | Heredoc string string string      \<comment> \<open>key, delimiter, value\<close>

fun entry_lines :: "entry \<Rightarrow> string list" where
  "entry_lines (Simple k v) = [k @ ''='' @ v]"
| "entry_lines (Heredoc k d v) = (k @ ''<<'' @ d) # Split NL v @ [d]"

definition write_entry :: "entry \<Rightarrow> string" where
  "write_entry e = concat (map (\<lambda>l. l @ [NL]) (entry_lines e))"

fun entry_key :: "entry \<Rightarrow> string" where
  "entry_key (Simple k v) = k"
| "entry_key (Heredoc k d v) = k"

text \<open>What is read back: a here-document loses the newlines it starts with.\<close>

fun entry_value :: "entry \<Rightarrow> string" where
  "entry_value (Simple k v) = v"
| "entry_value (Heredoc k d v) = dropWhile (\<lambda>c. c = NL) v"

definition plain_line :: "nat \<Rightarrow> string \<Rightarrow> bool" where
  "plain_line mx l \<longleftrightarrow> NL \<notin> set l \<and> (l \<noteq> [] \<longrightarrow> last l \<noteq> CR) \<and> length l < mx"

fun entry_ok :: "entry \<Rightarrow> bool" where
  "entry_ok (Simple k v) \<longleftrightarrow> k \<noteq> [] \<and> CHR ''='' \<notin> set k \<and> CHR ''<'' \<notin> set k \<and>
     plain_line (1024 * 1024) (k @ ''='' @ v)"
| "entry_ok (Heredoc k d v) \<longleftrightarrow> k \<noteq> [] \<and> CHR ''='' \<notin> set k \<and> CHR ''<'' \<notin> set k \<and> d \<notin> set (Split NL v) \<and>
     list_all (plain_line (1024 * 1024)) (entry_lines (Heredoc k d v))"

lemma heredoc_skip: "d \<notin> set xs \<Longrightarrow>
    heredoc d (xs @ d # rest) v = Some (foldl (\<lambda>v l. (if v \<noteq> [] then v @ [NL] else v) @ l) v xs, rest)"
  by (induction xs arbitrary: v) auto

lemma heredoc_fold: "v \<noteq> [] \<Longrightarrow>
    foldl (\<lambda>v l. (if v \<noteq> [] then v @ [NL] else v) @ l) v xs = v @ concat (map (\<lambda>l. NL # l) xs)"
  by (induction xs arbitrary: v) auto

lemma Join_lines: "Join [NL] (y # ys) = y @ concat (map (\<lambda>l. NL # l) ys)"
  by (induction ys arbitrary: y) auto

lemma Split_dropWhile:
  "foldl (\<lambda>v l. (if v \<noteq> [] then v @ [NL] else v) @ l) [] (Split NL s) = dropWhile (\<lambda>c. c = NL) s"
proof (induction s)
  case (Cons c s)
  show ?case
  proof (cases "c = NL")
    case False
    obtain y ys where y: "Split NL s = y # ys" using Split_nonempty by (metis list.exhaust)
    have "y @ concat (map (\<lambda>l. NL # l) ys) = s"
      using Join_Split [of NL s] unfolding y Join_lines .
    with False y show ?thesis by (simp add: heredoc_fold)
  qed (use Cons in simp)
qed simp

lemma heredoc_value: "d \<notin> set (Split NL v) \<Longrightarrow>
    heredoc d (Split NL v @ d # rest) [] = Some (dropWhile (\<lambda>c. c = NL) v, rest)"
  by (simp add: heredoc_skip Split_dropWhile)

lemma parse_entry: "entry_ok e \<Longrightarrow>
    parse_env_lines (entry_lines e @ rest) m = parse_env_lines rest (m(entry_key e \<mapsto> entry_value e))"
proof (cases e)
  case (Simple k v)
  assume "entry_ok e"
  then have "Index (k @ CHR ''='' # v) ''='' = int (length k)" "k \<noteq> []"
    "Index (k @ CHR ''='' # v) ''<<'' < 0 \<or> Index (k @ CHR ''='' # v) ''<<'' > int (length k)"
    using Simple Index_after [of "CHR ''=''" "CHR ''<''" k v "''<''"] by (auto intro: Index_first)
  then show ?thesis using Simple by (auto simp: Let_def)
next
  case (Heredoc k d v)
  assume ok: "entry_ok e"
  then have "Index (k @ CHR ''<'' # CHR ''<'' # d) ''<<'' = int (length k)" "k \<noteq> []"
    "Index (k @ CHR ''<'' # CHR ''<'' # d) ''='' < 0 \<or>
       Index (k @ CHR ''<'' # CHR ''<'' # d) ''='' > int (length k)"
    using Heredoc Index_after [of "CHR ''<''" "CHR ''=''" k "CHR ''<'' # d" "[]"]
    by (auto intro: Index_first)
  with ok show ?thesis using Heredoc by (auto simp: Let_def heredoc_value)
qed

lemma parse_entries: "list_all entry_ok es \<Longrightarrow>
    parse_env_lines (concat (map entry_lines es)) m
      = Inr (foldl (\<lambda>m e. m(entry_key e \<mapsto> entry_value e)) m es)"
  by (induction es arbitrary: m) (simp_all add: parse_entry)

lemma raw_lines_concat: "(\<forall>l \<in> set ls. NL \<notin> set l) \<Longrightarrow> raw_lines (concat (map (\<lambda>l. l @ [NL]) ls)) = ls"
proof -
  assume "\<forall>l \<in> set ls. NL \<notin> set l"
  then have "Split NL (concat (map (\<lambda>l. l @ [NL]) ls)) = ls @ [[]]"
    by (induction ls) (auto simp: Split_append)
  then show ?thesis by (simp add: raw_lines_def)
qed

lemma scan_plain:
  assumes "list_all (plain_line mx) ls"
  shows "scan_lines mx (concat (map (\<lambda>l. l @ [NL]) ls)) = (ls, False)"
proof -
  have tw: "takeWhile (\<lambda>l. length l < mx) ls = ls" and "\<forall>l \<in> set ls. NL \<notin> set l"
    using assms by (auto simp: list_all_iff plain_line_def)
  moreover have "map dropCR ls = ls"
    by (rule map_idI) (use assms in \<open>auto simp: list_all_iff plain_line_def dropCR_def\<close>)
  ultimately show ?thesis by (simp add: scan_lines_def raw_lines_concat Let_def del: takeWhile_eq_all_conv)
qed

lemma write_entries: "concat (map write_entry es) = concat (map (\<lambda>l. l @ [NL]) (concat (map entry_lines es)))"
  by (induction es) (auto simp: write_entry_def)

lemma entry_lines_plain: "entry_ok e \<Longrightarrow> list_all (plain_line (1024 * 1024)) (entry_lines e)"
  by (cases e) simp_all

text \<open>
  Values a step writes reach the next steps: a file of well-formed entries, in either form
  and any order, parses without error to the map the entries describe, the last entry of a key
  winning; a here-document value comes back whole except for newlines at its start.
\<close>

theorem env_file_roundtrip:
  assumes "list_all entry_ok es"
  shows "parseEnvFile (Content (concat (map write_entry es)))
    = (Some (foldl (\<lambda>m e. m(entry_key e \<mapsto> entry_value e)) Map.empty es), None)"
proof -
  have "list_all (plain_line (1024 * 1024)) (concat (map entry_lines es))"
    using assms entry_lines_plain by (fastforce simp: list_all_iff)
  then have "scan_lines (1024 * 1024) (concat (map write_entry es)) = (concat (map entry_lines es), False)"
    unfolding write_entries by (rule scan_plain)
  then show ?thesis using parse_entries [OF assms] by (simp add: parseEnvFile_def)
qed

theorem env_file_roundtrip_witness:
  "parseEnvFile (Content (concat (map write_entry
     [Simple ''URL'' ''a<<b=c'', Heredoc ''BODY'' ''EOF'' (NL # ''x'' @ [NL] @ ''y'')])))
   = (Some [''URL'' \<mapsto> ''a<<b=c'', ''BODY'' \<mapsto> ''x'' @ [NL] @ ''y''], None)"
  by (subst env_file_roundtrip) (simp_all add: plain_line_def)

end
