(* ===== verification/Paths.thy ===== *)
theory Paths
  imports Prelude
begin

text \<open>
  Package \<^verbatim>\<open>path/filepath\<close> on Unix, as the sources use it: \<^verbatim>\<open>Clean\<close>, \<^verbatim>\<open>Join\<close>, \<^verbatim>\<open>Dir\<close>, \<^verbatim>\<open>IsAbs\<close>.
  A path is cleaned by processing its elements from the left with a stack.
\<close>

definition IsAbs :: "string \<Rightarrow> bool" where
  "IsAbs p = HasPrefix p ''/''"

text \<open>The stack holds the elements kept so far, last first.\<close>

fun clean_elems :: "bool \<Rightarrow> string list \<Rightarrow> string list \<Rightarrow> string list" where
  "clean_elems rooted acc [] = acc"
| "clean_elems rooted acc (e # es) =
     (if e = [] \<or> e = ''.'' then clean_elems rooted acc es
      else if e = ''..'' then
        (if acc \<noteq> [] \<and> hd acc \<noteq> ''..'' then clean_elems rooted (tl acc) es
         else if rooted then clean_elems rooted acc es
         else clean_elems rooted (''..'' # acc) es)
      else clean_elems rooted (e # acc) es)"

definition clean_list :: "string \<Rightarrow> string list" where
  "clean_list p = rev (clean_elems (IsAbs p) [] (Split CHR ''/'' p))"

definition Clean :: "string \<Rightarrow> string" where
  "Clean p =
     (if IsAbs p then ''/'' @ Join ''/'' (clean_list p)
      else if clean_list p = [] then ''.'' else Join ''/'' (clean_list p))"

definition filepath_Join :: "string list \<Rightarrow> string" where
  "filepath_Join elems =
     (case dropWhile (\<lambda>e. e = []) elems of [] \<Rightarrow> [] | es \<Rightarrow> Clean (Join ''/'' es))"

text \<open>\<^verbatim>\<open>Dir\<close>: all but the last element, cleaned.\<close>

definition Dir :: "string \<Rightarrow> string" where
  "Dir p = Clean (rev (dropWhile (\<lambda>c. c \<noteq> CHR ''/'') (rev p)))"

section \<open>Elements of a cleaned path\<close>

definition normal_elem :: "string \<Rightarrow> bool" where
  "normal_elem e \<longleftrightarrow> e \<noteq> [] \<and> e \<noteq> ''.'' \<and> e \<noteq> ''..'' \<and> CHR ''/'' \<notin> set e"

lemma Split_Join_normal:
  "list_all normal_elem es \<Longrightarrow> es \<noteq> [] \<Longrightarrow> Split CHR ''/'' (Join ''/'' es) = es"
  using Split_Join [of es "CHR ''/''"] by (auto simp: list_all_iff normal_elem_def)

lemma clean_elems_normal: "list_all normal_elem es \<Longrightarrow> clean_elems r acc es = rev es @ acc"
  by (induction es arbitrary: acc) (auto simp: normal_elem_def)

lemma clean_elems_append: "clean_elems r acc (xs @ ys) = clean_elems r (clean_elems r acc xs) ys"
  by (induction r acc xs rule: clean_elems.induct) auto

text \<open>Cleaning a rooted path leaves only normal elements: nothing climbs out of the root.\<close>

lemma clean_elems_rooted:
  "list_all normal_elem acc \<Longrightarrow> \<forall>e \<in> set es. CHR ''/'' \<notin> set e \<Longrightarrow> list_all normal_elem (clean_elems True acc es)"
proof (induction True acc es rule: clean_elems.induct)
  case (2 acc e es)
  then show ?case by (cases acc) (auto simp: normal_elem_def)
qed simp

lemma clean_list_rooted: "IsAbs p \<Longrightarrow> list_all normal_elem (clean_list p)"
  using clean_elems_rooted [of "[]" "Split CHR ''/'' p"] Split_no_sep
  by (auto simp: clean_list_def list_all_iff)

text \<open>Without \<open>..\<close> elements nothing is dropped from what came before.\<close>

lemma clean_elems_no_up: "''..'' \<notin> set es \<Longrightarrow>
    clean_elems r acc es = rev (filter (\<lambda>e. e \<noteq> [] \<and> e \<noteq> ''.'') es) @ acc"
  by (induction es arbitrary: acc) auto

lemma Split_Join_gen: "ps \<noteq> [] \<Longrightarrow> Split c (Join [c] ps) = concat (map (Split c) ps)"
proof (induction "[c]" ps rule: Join.induct)
  case (3 x y ys)
  have "Split c (x @ c # r) = Split c x @ Split c r" for r
  proof (induction x)
    case (Cons z x)
    then show ?case by (cases "Split c x") auto
  qed simp
  with 3 show ?case by simp
qed simp_all

text \<open>An absolute directory, given by its elements.\<close>

definition abs_dir :: "string list \<Rightarrow> string" where
  "abs_dir es = ''/'' @ Join ''/'' es"

lemma IsAbs_abs_dir [simp]: "IsAbs (abs_dir es)"
  by (simp add: IsAbs_def HasPrefix_def abs_dir_def)

lemma Split_abs_dir: "list_all normal_elem es \<Longrightarrow>
    Split CHR ''/'' (abs_dir es) = [] # (if es = [] then [[]] else es)"
  using Split_append [of "CHR ''/''" "[]"] Split_Join_normal [of es] by (auto simp: abs_dir_def)

lemma clean_list_abs_dir: "list_all normal_elem es \<Longrightarrow> clean_list (abs_dir es) = es"
  by (simp add: clean_list_def Split_abs_dir clean_elems_normal)

lemma Clean_rooted: "IsAbs p \<Longrightarrow> Clean p = abs_dir (clean_list p)"
  by (simp add: Clean_def abs_dir_def)

lemma Clean_abs_dir [simp]: "list_all normal_elem es \<Longrightarrow> Clean (abs_dir es) = abs_dir es"
  by (simp add: Clean_rooted clean_list_abs_dir)

lemma abs_dir_inject: "list_all normal_elem es \<Longrightarrow> list_all normal_elem fs \<Longrightarrow> abs_dir es = abs_dir fs \<longleftrightarrow> es = fs"
  by (metis clean_list_abs_dir)

lemma IsAbs_Join: "IsAbs p \<Longrightarrow> IsAbs (Join ''/'' (p # ps))"
  by (cases ps) (auto simp: IsAbs_def HasPrefix_def prefix_def)

text \<open>Joining onto an absolute directory processes the new elements on top of its own.\<close>

lemma Join_under:
  assumes "list_all normal_elem es"
  shows "filepath_Join (abs_dir es # ps) = abs_dir (rev (clean_elems True (rev es) (concat (map (Split CHR ''/'') ps))))"
proof -
  have ne: "abs_dir es \<noteq> []" by (simp add: abs_dir_def)
  have "clean_list (Join ''/'' (abs_dir es # ps))
      = rev (clean_elems True [] (Split CHR ''/'' (abs_dir es) @ concat (map (Split CHR ''/'') ps)))"
    using IsAbs_Join [of "abs_dir es" ps] Split_Join_gen [of "abs_dir es # ps" "CHR ''/''"]
    by (simp add: clean_list_def)
  also have "\<dots> = rev (clean_elems True (rev es) (concat (map (Split CHR ''/'') ps)))"
    using assms by (simp add: clean_elems_append Split_abs_dir clean_elems_normal)
  finally show ?thesis
    using ne IsAbs_Join [of "abs_dir es" ps] by (simp add: filepath_Join_def Clean_rooted)
qed

text \<open>A path lies in a directory when it extends the directory's elements by normal ones.\<close>

definition inside :: "string list \<Rightarrow> string \<Rightarrow> bool" where
  "inside es p \<longleftrightarrow> (\<exists>fs. list_all normal_elem fs \<and> p = abs_dir (es @ fs))"

lemma Join_inside:
  assumes "list_all normal_elem es" "\<forall>p \<in> set ps. ''..'' \<notin> set (Split CHR ''/'' p)"
  shows "inside es (filepath_Join (abs_dir es # ps))"
proof -
  let ?fs = "filter (\<lambda>e. e \<noteq> [] \<and> e \<noteq> ''.'') (concat (map (Split CHR ''/'') ps))"
  have "''..'' \<notin> set (concat (map (Split CHR ''/'') ps))" using assms(2) by auto
  moreover have "list_all normal_elem ?fs"
    using assms(2) Split_no_sep by (fastforce simp: list_all_iff normal_elem_def)
  ultimately show ?thesis
    using Join_under [OF assms(1), of ps] by (auto simp: inside_def clean_elems_no_up)
qed

end
