(* ===== verification/Entrypoint.thy ===== *)
theory Entrypoint
  imports Types EnvFile Paths
begin

text \<open>
  The process that executes the steps of a job inside the runner container, from
  \<^verbatim>\<open>src/cmd/entrypoint/main.go\<close> (\<^verbatim>\<open>runEntrypoint\<close>, \<^verbatim>\<open>buildStepEnv\<close>, \<^verbatim>\<open>executeStep\<close>, \<^verbatim>\<open>writeState\<close>) and
  the path resolution of \<^verbatim>\<open>src/cmd/entrypoint/cache_mirror.go\<close>.

  What happens outside the process is the parameter \<open>w\<close>: for every step whether its files can
  be created, how its command ends, what it left in the files, and the clock. Writing to the
  state file and the diagnostics on stderr are assumed to work, as the code does.
\<close>

section \<open>Cache path resolution\<close>

text \<open>Where the symbolic link lives and where it points; \<open>None\<close> is \<^verbatim>\<open>errHomeRequired\<close>.\<close>

definition resolvePath :: "string \<Rightarrow> string \<Rightarrow> string \<Rightarrow> string \<Rightarrow> (string \<times> string) option" where
  "resolvePath workspace cache home rel =
     (if rel = ''~'' \<or> HasPrefix rel ''~/'' then
        (if home = [] then None
         else let rest = TrimPrefix (TrimPrefix rel ''~'') ''/''
              in Some (filepath_Join [home, rest], filepath_Join [cache, TrimPrefix home ''/'', rest]))
      else if IsAbs rel then Some (rel, filepath_Join [cache, TrimPrefix rel ''/''])
      else Some (filepath_Join [workspace, rel], filepath_Join [cache, rel]))"

text \<open>
  \<^verbatim>\<open>mirrorCachePaths\<close> fails only with \<^verbatim>\<open>errHomeRequired\<close>; its other errors are logged and skipped,
  and an empty path is one of those.
\<close>

definition mirror_fatal :: "string \<Rightarrow> string \<Rightarrow> string \<Rightarrow> string list \<Rightarrow> bool" where
  "mirror_fatal workspace cache home paths =
     list_ex (\<lambda>rel. rel \<noteq> [] \<and> resolvePath workspace cache home rel = None) paths"

section \<open>Running one command\<close>

record Cmd =
  cPath :: string
  cArgs :: "string list"
  cDir :: string
  cEnv :: env_map

datatype run_result =
    RunOk
  | RunDeadline          \<comment> \<open>failed, and the step's deadline had passed\<close>
  | RunExit int          \<comment> \<open>an \<^verbatim>\<open>ExitError\<close> with its exit code\<close>
  | RunError             \<comment> \<open>any other error\<close>

definition step_cmd :: "ManifestStep \<Rightarrow> env_map \<Rightarrow> Cmd" where
  "step_cmd step env =
     (let shell = (if msShell step = [] then ''sh'' else msShell step);
          (path, args) =
            (if msArgs step \<noteq> [] then (hd (msArgs step), tl (msArgs step))
             else if shell = ''bash'' then
               (''/bin/bash'', [''--noprofile'', ''--norc'', ''-eo'', ''pipefail'', ''-c'', msCommand step])
             else if shell = ''python'' then (''python3'', [''-c'', msCommand step])
             else (''/bin/sh'', [''-e'', ''-c'', msCommand step]))
      in \<lparr>cPath = path, cArgs = args,
          cDir = (if msWorkDir step = [] then ''/workspace'' else msWorkDir step), cEnv = env\<rparr>)"

text \<open>A deadline exists only for a step with a timeout.\<close>

definition executeStep :: "(Cmd \<Rightarrow> run_result) \<Rightarrow> ManifestStep \<Rightarrow> env_map \<Rightarrow> int" where
  "executeStep run step env =
     (case run (step_cmd step env) of
        RunOk \<Rightarrow> 0
      | RunDeadline \<Rightarrow> 1
      | RunExit c \<Rightarrow> c
      | RunError \<Rightarrow> 1)"

section \<open>The environment of a step\<close>

text \<open>\<open>environ\<close> is \<^verbatim>\<open>os.Environ()\<close>.\<close>

definition environ_map :: "string list \<Rightarrow> env_map" where
  "environ_map environ =
     foldl (\<lambda>env e. case Cut CHR ''='' e of
        Some (k, v) \<Rightarrow> if k \<noteq> [] then env(k \<mapsto> v) else env
      | None \<Rightarrow> env) Map.empty environ"

definition buildStepEnv :: "string list \<Rightarrow> env_map \<Rightarrow> env_map \<Rightarrow> env_map \<Rightarrow> string list \<Rightarrow> env_map" where
  "buildStepEnv environ base accumulated stepEnv extraPaths =
     (let env = environ_map environ ++ base ++ accumulated ++ stepEnv
      in if extraPaths \<noteq> [] then env(''PATH'' \<mapsto> Join '':'' extraPaths @ '':'' @ map_get env ''PATH'') else env)"

definition step_file :: "string \<Rightarrow> string \<Rightarrow> nat \<Rightarrow> string" where
  "step_file workDir kind i = filepath_Join [workDir, kind @ ''-'' @ dec_nat i]"

definition file_env :: "string \<Rightarrow> nat \<Rightarrow> env_map" where
  "file_env workDir i =
     [''GITHUB_OUTPUT'' \<mapsto> step_file workDir ''output'' i, ''FORGEJO_OUTPUT'' \<mapsto> step_file workDir ''output'' i,
      ''GITHUB_ENV'' \<mapsto> step_file workDir ''env'' i, ''FORGEJO_ENV'' \<mapsto> step_file workDir ''env'' i,
      ''GITHUB_PATH'' \<mapsto> step_file workDir ''path'' i, ''FORGEJO_PATH'' \<mapsto> step_file workDir ''path'' i,
      ''GITHUB_STATE'' \<mapsto> step_file workDir ''state'' i, ''FORGEJO_STATE'' \<mapsto> step_file workDir ''state'' i,
      ''GITHUB_STEP_SUMMARY'' \<mapsto> step_file workDir ''summary'' i,
      ''FORGEJO_STEP_SUMMARY'' \<mapsto> step_file workDir ''summary'' i,
      ''GITHUB_WORKSPACE'' \<mapsto> ''/workspace'', ''FORGEJO_WORKSPACE'' \<mapsto> ''/workspace'', ''RUNNER_TEMP'' \<mapsto> ''/tmp'']"

section \<open>The step loop\<close>

record step_world =
  swCreated :: bool                    \<comment> \<open>the step's five files could be created\<close>
  swRun :: "Cmd \<Rightarrow> run_result"
  swOutputFile :: env_file             \<comment> \<open>the files after the command\<close>
  swEnvFile :: env_file
  swPathFile :: env_file
  swStartTime :: string
  swEndTime :: string

record ep_state =
  epEval :: "EvaluationEnvironment option"
  epEnv :: env_map
  epPaths :: "string list"
  epResults :: "string \<rightharpoonup> StepResult"
  epSuccess :: bool
  epHadFailure :: bool
  epEvents :: "StateEvent list"

definition writeState :: "ep_state \<Rightarrow> StateEvent \<Rightarrow> ep_state" where
  "writeState st ev = st\<lparr>epEvents := epEvents st @ [ev]\<rparr>"

definition skip_event :: "nat \<Rightarrow> ManifestStep \<Rightarrow> string \<Rightarrow> StateEvent" where
  "skip_event i step t = \<lparr>evEvent = ''skip'', evStep = int i, evName = msName step, evExitCode = 0, evTime = t\<rparr>"

definition start_event :: "nat \<Rightarrow> ManifestStep \<Rightarrow> string \<Rightarrow> StateEvent" where
  "start_event i step t = \<lparr>evEvent = ''start'', evStep = int i, evName = msName step, evExitCode = 0, evTime = t\<rparr>"

definition end_event :: "nat \<Rightarrow> ManifestStep \<Rightarrow> int \<Rightarrow> string \<Rightarrow> StateEvent" where
  "end_event i step c t = \<lparr>evEvent = ''end'', evStep = int i, evName = msName step, evExitCode = c, evTime = t\<rparr>"

text \<open>The evaluator's update after a step.\<close>

definition eval_after :: "ManifestStep \<Rightarrow> int \<Rightarrow> env_map \<Rightarrow> EvaluationEnvironment \<Rightarrow> EvaluationEnvironment" where
  "eval_after step exitCode outputs env =
     (let env1 = (if exitCode \<noteq> 0 \<and> \<not> msContinueOnError step then SetJobStatus env ''failure'' else env)
      in SetStepResult env1 (msID step) (if exitCode \<noteq> 0 then ''failure'' else ''success'')
           (msContinueOnError step) outputs)"

definition run_step_env :: "string list \<Rightarrow> string \<Rightarrow> Manifest \<Rightarrow> ep_state \<Rightarrow> nat \<Rightarrow> ManifestStep \<Rightarrow> env_map" where
  "run_step_env environ workDir m st i step =
     buildStepEnv environ (mfBaseEnv m) (epEnv st) (msEnv step) (epPaths st) ++ file_env workDir i"

text \<open>The part of the loop body from the command to the end event.\<close>

definition finish_step :: "step_world \<Rightarrow> nat \<Rightarrow> ManifestStep \<Rightarrow> int \<Rightarrow> ep_state \<Rightarrow> ep_state" where
  "finish_step w i step exitCode st =
     (let outputs = (case fst (parseEnvFile (swOutputFile w)) of None \<Rightarrow> Map.empty | Some m \<Rightarrow> m);
          newEnv = (case fst (parseEnvFile (swEnvFile w)) of None \<Rightarrow> Map.empty | Some m \<Rightarrow> m);
          st1 = st\<lparr>epEnv := epEnv st ++ newEnv,
                   epPaths := epPaths st @ fst (parsePaths (swPathFile w)),
                   epResults := (epResults st)(msID step \<mapsto> \<lparr>srExitCode = exitCode, srOutputs = outputs\<rparr>),
                   epEval := map_option (eval_after step exitCode outputs) (epEval st)\<rparr>;
          st2 = writeState st1 (end_event i step exitCode (swEndTime w))
      in if exitCode \<noteq> 0 \<and> \<not> msContinueOnError step
         then st2\<lparr>epHadFailure := True, epSuccess := False\<rparr> else st2)"

datatype loop_end = Next | Break | Abort

definition should_skip :: "('e, 'v) interpreter \<Rightarrow> ep_state \<Rightarrow> ManifestStep \<Rightarrow> bool" where
  "should_skip interp st step =
     (if msIf step \<noteq> [] then
        (case epEval st of
           None \<Rightarrow> False
         | Some env \<Rightarrow> (case EvalCondition interp env (msIf step) of Inl _ \<Rightarrow> True | Inr b \<Rightarrow> \<not> b))
      else epHadFailure st)"

definition loop_body ::
  "('e, 'v) interpreter \<Rightarrow> string list \<Rightarrow> string \<Rightarrow> Manifest \<Rightarrow> step_world \<Rightarrow> nat \<Rightarrow> ManifestStep \<Rightarrow> ep_state
    \<Rightarrow> ep_state \<times> loop_end" where
  "loop_body interp environ workDir m w i step st =
     (if mfCachePaths m \<noteq> [] \<and>
         mirror_fatal ''/workspace'' ''/cache'' (map_get (environ_map environ) ''HOME'') (mfCachePaths m)
      then (st, Abort)
      else if should_skip interp st step then (writeState st (skip_event i step (swStartTime w)), Next)
      else
        let st1 = writeState st (start_event i step (swStartTime w)) in
        if \<not> swCreated w then (st1, Abort)
        else
          let exitCode = executeStep (swRun w) step (run_step_env environ workDir m st1 i step);
              st2 = finish_step w i step exitCode st1
          in (st2, if exitCode \<noteq> 0 \<and> \<not> msContinueOnError step \<and> \<not> list_ex (\<lambda>s. msIf s \<noteq> []) (mfSteps m)
                   then Break else Next))"

fun step_loop ::
  "('e, 'v) interpreter \<Rightarrow> string list \<Rightarrow> string \<Rightarrow> Manifest \<Rightarrow> (nat \<Rightarrow> step_world) \<Rightarrow> nat \<Rightarrow> ManifestStep list
    \<Rightarrow> ep_state \<Rightarrow> ep_state \<times> loop_end" where
  "step_loop interp environ workDir m w i [] st = (st, Next)"
| "step_loop interp environ workDir m w i (step # steps) st =
     (case loop_body interp environ workDir m (w i) i step st of
        (st', Next) \<Rightarrow> step_loop interp environ workDir m w (Suc i) steps st'
      | (st', e) \<Rightarrow> (st', e))"

definition ep_init :: "Manifest \<Rightarrow> ep_state" where
  "ep_init m =
     \<lparr>epEval = map_option BuildEvalEnv (mfContext m), epEnv = Map.empty, epPaths = [],
      epResults = Map.empty, epSuccess = True, epHadFailure = False, epEvents = []\<rparr>"

text \<open>
  \<open>manifest = None\<close> is a manifest that cannot be loaded, \<open>stateOk\<close> whether the state file, given by its path, can be
  opened. The results are written unless the loop was left by a return or an exit. Result: the
  events in the state file, the results, and the return value.
\<close>

definition state_path :: "string \<Rightarrow> string" where
  "state_path workDir = filepath_Join [workDir, ''state.jsonl'']"

definition runEntrypoint ::
  "('e, 'v) interpreter \<Rightarrow> string list \<Rightarrow> string \<Rightarrow> (nat \<Rightarrow> step_world) \<Rightarrow> (string \<Rightarrow> bool) \<Rightarrow> Manifest option
    \<Rightarrow> StateEvent list \<times> (string \<rightharpoonup> StepResult) option \<times> bool" where
  "runEntrypoint interp environ workDir w stateOk manifest =
     (case manifest of
        None \<Rightarrow> ([], None, False)
      | Some m \<Rightarrow>
          if \<not> stateOk (state_path workDir) then ([], None, False)
          else (case step_loop interp environ workDir m w 0 (mfSteps m) (ep_init m) of
                  (st, Abort) \<Rightarrow> (epEvents st, None, False)
                | (st, _) \<Rightarrow> (epEvents st, Some (epResults st), epSuccess st)))"

end
