(* ===== verification/Entrypoint_Props.thy ===== *)
theory Entrypoint_Props
  imports Entrypoint
begin

text \<open>
  What the step loop guarantees: the shape of the event trace it leaves for the controller, its
  return value, which steps run after a failure, what conditions see, and how values written
  by one step reach the next. One invariant of the loop carries all of it.
\<close>

section \<open>Vocabulary of event traces\<close>

text \<open>A complete trace: every step in order, each skipped or started and ended.\<close>

fun trace_next :: "nat \<Rightarrow> StateEvent list \<Rightarrow> nat option" where
  "trace_next i [] = Some i"
| "trace_next i (e # es) =
     (if evStep e \<noteq> int i then None
      else if evEvent e = ''skip'' then trace_next (Suc i) es
      else if evEvent e = ''start'' then
        (case es of
           [] \<Rightarrow> None
         | e' # es' \<Rightarrow> if evEvent e' = ''end'' \<and> evStep e' = int i then trace_next (Suc i) es' else None)
      else None)"

definition step_of :: "Manifest \<Rightarrow> StateEvent \<Rightarrow> ManifestStep" where
  "step_of m e = mfSteps m ! nat (evStep e)"

definition failing :: "Manifest \<Rightarrow> StateEvent \<Rightarrow> bool" where
  "failing m e \<longleftrightarrow> evEvent e = ''end'' \<and> evExitCode e \<noteq> 0 \<and> \<not> msContinueOnError (step_of m e)"

definition plain_start :: "Manifest \<Rightarrow> StateEvent \<Rightarrow> bool" where
  "plain_start m e \<longleftrightarrow> evEvent e = ''start'' \<and> msIf (step_of m e) = []"

definition guarded :: "Manifest \<Rightarrow> StateEvent list \<Rightarrow> bool" where
  "guarded m evs \<longleftrightarrow> (\<forall>pre x post. evs = pre @ x # post \<and> plain_start m x \<longrightarrow> \<not> (\<exists>e \<in> set pre. failing m e))"

definition conditional :: "Manifest \<Rightarrow> bool" where
  "conditional m \<longleftrightarrow> list_ex (\<lambda>s. msIf s \<noteq> []) (mfSteps m)"

definition ran_steps :: "StateEvent list \<Rightarrow> nat list" where
  "ran_steps evs = map (\<lambda>e. nat (evStep e)) (filter (\<lambda>e. evEvent e = ''end'') evs)"

text \<open>What a step wrote to its environment file, and to its path file.\<close>

definition written_env :: "step_world \<Rightarrow> env_map" where
  "written_env w = (case fst (parseEnvFile (swEnvFile w)) of None \<Rightarrow> Map.empty | Some m \<Rightarrow> m)"

definition written_paths :: "step_world \<Rightarrow> string list" where
  "written_paths w = fst (parsePaths (swPathFile w))"

lemma trace_next_append: "trace_next i xs = Some j \<Longrightarrow> trace_next i (xs @ ys) = trace_next j ys"
  by (induction i xs rule: trace_next.induct) (auto split: if_splits list.splits)

lemma guarded_snoc: "guarded m (evs @ [x]) \<longleftrightarrow> guarded m evs \<and> (plain_start m x \<longrightarrow> \<not> (\<exists>e \<in> set evs. failing m e))"
proof
  assume g: "guarded m (evs @ [x])"
  have "guarded m evs"
    unfolding guarded_def
  proof (intro allI impI)
    fix pre y post assume "evs = pre @ y # post \<and> plain_start m y"
    then have "evs @ [x] = pre @ y # (post @ [x]) \<and> plain_start m y" by simp
    with g show "\<not> (\<exists>e \<in> set pre. failing m e)" unfolding guarded_def by blast
  qed
  with g show "guarded m evs \<and> (plain_start m x \<longrightarrow> \<not> (\<exists>e \<in> set evs. failing m e))"
    by (auto simp: guarded_def)
next
  assume g: "guarded m evs \<and> (plain_start m x \<longrightarrow> \<not> (\<exists>e \<in> set evs. failing m e))"
  show "guarded m (evs @ [x])"
    unfolding guarded_def
  proof (intro allI impI)
    fix pre y post assume y: "evs @ [x] = pre @ y # post \<and> plain_start m y"
    show "\<not> (\<exists>e \<in> set pre. failing m e)"
    proof (cases post rule: rev_cases)
      case Nil
      with y g show ?thesis by auto
    next
      case (snoc post' z)
      with y have "evs = pre @ y # post'" by simp
      with y g show ?thesis unfolding guarded_def by blast
    qed
  qed
qed

section \<open>The loop invariant\<close>

definition ep_inv :: "Manifest \<Rightarrow> (nat \<Rightarrow> step_world) \<Rightarrow> nat \<Rightarrow> ep_state \<Rightarrow> bool" where
  "ep_inv m w k st \<longleftrightarrow>
     k \<le> length (mfSteps m) \<and> trace_next 0 (epEvents st) = Some k \<and>
     (epHadFailure st \<longleftrightarrow> (\<exists>e \<in> set (epEvents st). failing m e)) \<and>
     (epSuccess st \<longleftrightarrow> \<not> epHadFailure st) \<and>
     guarded m (epEvents st) \<and>
     (\<forall>env. epEval st = Some env \<longrightarrow> eeJob env = Some (if epHadFailure st then ''failure'' else ''success'')) \<and>
     epEnv st = foldl (\<lambda>env j. env ++ written_env (w j)) Map.empty (ran_steps (epEvents st)) \<and>
     epPaths st = concat (map (\<lambda>j. written_paths (w j)) (ran_steps (epEvents st)))"

lemma ep_inv_init: "ep_inv m w 0 (ep_init m)"
  by (auto simp: ep_inv_def ep_init_def guarded_def ran_steps_def BuildEvalEnv_def)

lemmas event_defs = skip_event_def start_event_def end_event_def writeState_def

lemma ran_snoc:
  "ran_steps (evs @ [skip_event i step t]) = ran_steps evs" "ran_steps (evs @ [start_event i step t]) = ran_steps evs"
  "ran_steps (evs @ [start_event i step t, end_event i step c t']) = ran_steps evs @ [i]"
  by (simp_all add: ran_steps_def event_defs)

lemma classify:
  "mfSteps m ! i = step \<Longrightarrow> failing m (end_event i step c t) \<longleftrightarrow> c \<noteq> 0 \<and> \<not> msContinueOnError step"
  "\<not> failing m (skip_event i step t)" "\<not> failing m (start_event i step t)"
  "mfSteps m ! i = step \<Longrightarrow> plain_start m (start_event i step t) \<longleftrightarrow> msIf step = []"
  "\<not> plain_start m (skip_event i step t)" "\<not> plain_start m (end_event i step c t)"
  by (auto simp: failing_def plain_start_def step_of_def event_defs)

lemma ep_inv_skip:
  assumes "ep_inv m w k st" "k < length (mfSteps m)" "mfSteps m ! k = step"
  shows "ep_inv m w (Suc k) (writeState st (skip_event k step t))"
  using assms trace_next_append [of 0 "epEvents st" k "[skip_event k step t]"]
  by (simp add: ep_inv_def writeState_def ran_snoc classify guarded_snoc) (simp add: event_defs)

text \<open>A started step: the events so far are still guarded, the loop state is otherwise unchanged.\<close>

lemma finish_simps [simp]:
  "epEvents (finish_step w i step c st) = epEvents st @ [end_event i step c (swEndTime w)]"
  "epEnv (finish_step w i step c st) = epEnv st ++ written_env w"
  "epPaths (finish_step w i step c st) = epPaths st @ written_paths w"
  "epHadFailure (finish_step w i step c st) \<longleftrightarrow> epHadFailure st \<or> (c \<noteq> 0 \<and> \<not> msContinueOnError step)"
  "epSuccess (finish_step w i step c st) \<longleftrightarrow> epSuccess st \<and> \<not> (c \<noteq> 0 \<and> \<not> msContinueOnError step)"
  by (simp_all add: finish_step_def Let_def writeState_def written_env_def written_paths_def)

lemma finish_eval: "epEval (finish_step w i step c st) = Some env' \<Longrightarrow>
    \<exists>env. epEval st = Some env \<and>
      eeJob env' = (if c \<noteq> 0 \<and> \<not> msContinueOnError step then map_option (\<lambda>_. ''failure'') (eeJob env) else eeJob env)"
  by (auto simp: finish_step_def Let_def writeState_def eval_after_def SetStepResult_def SetJobStatus_def
      split: if_splits)

lemma ep_inv_ran:
  assumes inv: "ep_inv m w k st" and k: "k < length (mfSteps m)" "mfSteps m ! k = step"
    and go: "epHadFailure st \<Longrightarrow> msIf step \<noteq> []"
  shows "ep_inv m w (Suc k) (finish_step (w k) k step c (writeState st (start_event k step t)))"
proof -
  let ?st = "writeState st (start_event k step t)"
  let ?fin = "finish_step (w k) k step c ?st"
  have "trace_next 0 (epEvents ?fin) = Some (Suc k)"
    using inv trace_next_append [of 0 "epEvents st" k "[start_event k step t, end_event k step c (swEndTime (w k))]"]
    by (simp add: ep_inv_def event_defs)
  moreover have "guarded m (epEvents ?fin)"
    using inv go k by (auto simp: ep_inv_def writeState_def guarded_snoc classify simp flip: append_assoc)
  moreover have "eeJob env' = Some (if epHadFailure ?fin then ''failure'' else ''success'')"
    if "epEval ?fin = Some env'" for env'
    using finish_eval [OF that] inv by (auto simp: ep_inv_def writeState_def)
  ultimately show ?thesis
    using inv k by (auto simp: ep_inv_def writeState_def ran_snoc classify)
qed

lemma loop_body_cases:
  assumes "loop_body interp environ workDir m w i step st = (st', e)"
  obtains (abort) "e = Abort" "st' = st"
  | (crash) t where "e = Abort" "\<not> should_skip interp st step" "st' = writeState st (start_event i step t)"
  | (skip) t where "e = Next" "should_skip interp st step" "st' = writeState st (skip_event i step t)"
  | (run) t c where "\<not> should_skip interp st step"
      "st' = finish_step w i step c (writeState st (start_event i step t))"
      "e = (if c \<noteq> 0 \<and> \<not> msContinueOnError step \<and> \<not> conditional m then Break else Next)"
proof -
  let ?fatal = "mfCachePaths m \<noteq> [] \<and>
    mirror_fatal ''/workspace'' ''/cache'' (map_get (environ_map environ) ''HOME'') (mfCachePaths m)"
  let ?st = "writeState st (start_event i step (swStartTime w))"
  let ?c = "executeStep (swRun w) step (run_step_env environ workDir m ?st i step)"
  consider "?fatal" | "\<not> ?fatal" "should_skip interp st step"
    | "\<not> ?fatal" "\<not> should_skip interp st step" "\<not> swCreated w"
    | "\<not> ?fatal" "\<not> should_skip interp st step" "swCreated w" by blast
  then show thesis
  proof cases
    case 1
    show thesis by (rule abort) (use assms 1 in \<open>simp_all add: loop_body_def\<close>)
  next
    case 2
    show thesis by (rule skip [of "swStartTime w"]) (use assms 2 in \<open>simp_all add: loop_body_def\<close>)
  next
    case 3
    show thesis by (rule crash [of "swStartTime w"]) (use assms 3 in \<open>simp_all add: loop_body_def Let_def\<close>)
  next
    case 4
    then have "loop_body interp environ workDir m w i step st = (finish_step w i step ?c ?st,
        if ?c \<noteq> 0 \<and> \<not> msContinueOnError step \<and> \<not> conditional m then Break else Next)"
      unfolding loop_body_def conditional_def Let_def by (simp only: if_False if_True simp_thms)
    with assms 4(2) show thesis by (intro run [of ?c "swStartTime w"]) simp_all
  qed
qed

lemma should_skip_failure: "\<not> should_skip interp st step \<Longrightarrow> epHadFailure st \<Longrightarrow> msIf step \<noteq> []"
  by (auto simp: should_skip_def)

text \<open>
  How the loop can end, from a state that satisfies the invariant before step \<open>i\<close>. Without
  conditions in the job, it goes on only as long as nothing has failed.
\<close>

definition quiet :: "Manifest \<Rightarrow> ep_state \<Rightarrow> bool" where
  "quiet m st \<longleftrightarrow> (\<not> conditional m \<longrightarrow> \<not> epHadFailure st)"

inductive loop_result :: "Manifest \<Rightarrow> (nat \<Rightarrow> step_world) \<Rightarrow> nat \<Rightarrow> ep_state \<Rightarrow> loop_end \<Rightarrow> bool"
  for m w n where
  lr_done: "ep_inv m w n st \<Longrightarrow> quiet m st \<Longrightarrow> loop_result m w n st Next"
| lr_break: "k < n \<Longrightarrow> ep_inv m w k st0 \<Longrightarrow> quiet m st0 \<Longrightarrow> ep_inv m w (Suc k) st \<Longrightarrow> epHadFailure st \<Longrightarrow>
    \<not> conditional m \<Longrightarrow> epEvents st = epEvents st0 @ [start_event k step t, y] \<Longrightarrow> loop_result m w n st Break"
| lr_exit: "k < n \<Longrightarrow> ep_inv m w k st \<Longrightarrow> quiet m st \<Longrightarrow> loop_result m w n st Abort"
| lr_crash: "k < n \<Longrightarrow> ep_inv m w k st0 \<Longrightarrow> quiet m st0 \<Longrightarrow>
    (epHadFailure st0 \<Longrightarrow> msIf (mfSteps m ! k) \<noteq> []) \<Longrightarrow>
    loop_result m w n (writeState st0 (start_event k (mfSteps m ! k) t)) Abort"

inductive_cases loop_resultE: "loop_result m w n st e"
inductive_cases loop_result_NextE: "loop_result m w n st Next"

lemma step_loop_result:
  "step_loop interp environ workDir m w i steps st = (st', e) \<Longrightarrow>
   i + length steps \<le> length (mfSteps m) \<Longrightarrow> steps = take (length steps) (drop i (mfSteps m)) \<Longrightarrow>
   ep_inv m w i st \<Longrightarrow> quiet m st \<Longrightarrow> loop_result m w (i + length steps) st' e"
proof (induction steps arbitrary: i st)
  case Nil
  then show ?case by (auto intro: lr_done)
next
  case (Cons step steps)
  have i: "i < length (mfSteps m)" using Cons.prems(2) by simp
  then have "drop i (mfSteps m) = mfSteps m ! i # drop (Suc i) (mfSteps m)" by (rule Cons_nth_drop_Suc [symmetric])
  then have step: "mfSteps m ! i = step" "steps = take (length steps) (drop (Suc i) (mfSteps m))"
    using Cons.prems(3) by auto
  obtain st1 e1 where b: "loop_body interp environ workDir m (w i) i step st = (st1, e1)" by fastforce
  have cont: "loop_result m w (i + length (step # steps)) st' e" if "e1 = Next" "ep_inv m w (Suc i) st1" "quiet m st1"
    using Cons.IH [of "Suc i" st1] Cons.prems(1,2) step that b by simp
  from b show ?case
  proof (cases rule: loop_body_cases)
    case abort
    then have "st' = st" "e = Abort" using Cons.prems(1) b by simp_all
    then show ?thesis using lr_exit [of i] Cons.prems(4,5) by simp
  next
    case (crash t)
    then have "st' = writeState st (start_event i (mfSteps m ! i) t)" "e = Abort"
      using Cons.prems(1) b step by simp_all
    moreover have "epHadFailure st \<Longrightarrow> msIf (mfSteps m ! i) \<noteq> []"
      using should_skip_failure [OF crash(2)] step by simp
    ultimately show ?thesis using lr_crash [of i "i + length (step # steps)" m w st t] Cons.prems(4,5) by simp
  next
    case (skip t)
    then show ?thesis using cont ep_inv_skip [OF Cons.prems(4) i step(1)] Cons.prems(5)
      by (simp add: quiet_def writeState_def)
  next
    case (run t c)
    have inv: "ep_inv m w (Suc i) st1"
      unfolding run(2) by (rule ep_inv_ran [OF Cons.prems(4) i step(1)]) (rule should_skip_failure [OF run(1)])
    show ?thesis
    proof (cases e1)
      case Next
      then have "quiet m st1" using run Cons.prems(5) by (auto simp: quiet_def writeState_def split: if_splits)
      with Next inv cont show ?thesis by simp
    next
      case Break
      then have "st' = st1" "e = Break" "epHadFailure st1" "\<not> conditional m"
        using Cons.prems(1) b run by (auto split: if_splits)
      moreover have "epEvents st1 = epEvents st @ [start_event i step t, end_event i step c (swEndTime (w i))]"
        by (simp add: run(2) writeState_def)
      ultimately show ?thesis using lr_break [of i "i + length (step # steps)" m w st st1] Cons.prems(4,5) inv
        by simp
    next
      case Abort
      with run show ?thesis by (simp split: if_splits)
    qed
  qed
qed

lemma quiet_init: "quiet m (ep_init m)"
  by (simp add: quiet_def ep_init_def)

lemma step_loop_all:
  "step_loop interp environ workDir m w 0 (mfSteps m) (ep_init m) = (st, e) \<Longrightarrow>
     loop_result m w (length (mfSteps m)) st e"
  using step_loop_result [of interp environ workDir m w 0 "mfSteps m" "ep_init m" st e] ep_inv_init quiet_init
  by simp

lemma step_loop_prefix:
  "k \<le> length (mfSteps m) \<Longrightarrow>
   step_loop interp environ workDir m w 0 (take k (mfSteps m)) (ep_init m) = (st, Next) \<Longrightarrow> ep_inv m w k st"
  using step_loop_result [of interp environ workDir m w 0 "take k (mfSteps m)" "ep_init m" st Next]
    ep_inv_init quiet_init
  by (auto simp: min.absorb2 elim: loop_result_NextE)

section \<open>Properties\<close>

lemma runEntrypoint_cases:
  assumes "runEntrypoint interp environ workDir w stateOk (Some m) = (evs, res, ok)"
  obtains (unopened) "evs = []" "res = None" "\<not> ok"
  | (aborted) st where "loop_result m w (length (mfSteps m)) st Abort" "evs = epEvents st" "res = None" "\<not> ok"
  | (ended) st e where "loop_result m w (length (mfSteps m)) st e" "e \<noteq> Abort" "evs = epEvents st"
      "res = Some (epResults st)" "ok = epSuccess st"
proof (cases "stateOk (state_path workDir)")
  case False
  with assms unopened show thesis by (simp add: runEntrypoint_def)
next
  case True
  obtain st e where l: "step_loop interp environ workDir m w 0 (mfSteps m) (ep_init m) = (st, e)" by fastforce
  note r = step_loop_all [OF l]
  show thesis
  proof (cases "e = Abort")
    case abort: True
    show thesis
      by (rule aborted) (use r assms True l abort in \<open>auto simp: runEntrypoint_def\<close>)
  next
    case False
    show thesis
      by (rule ended [OF r False]) (use assms True l False in \<open>auto simp: runEntrypoint_def split: loop_end.splits\<close>)
  qed
qed

lemma entrypoint_shape:
  assumes "runEntrypoint interp environ workDir w stateOk (Some m) = (evs, res, ok)"
  shows "\<exists>done rest k. evs = done @ rest \<and> trace_next 0 done = Some k \<and> k \<le> length (mfSteps m) \<and>
    (rest = [] \<or> (\<exists>t. rest = [start_event k (mfSteps m ! k) t] \<and> k < length (mfSteps m) \<and> \<not> ok \<and> res = None)) \<and>
    (ok \<longrightarrow> rest = [] \<and> k = length (mfSteps m))"
  using assms
proof (cases rule: runEntrypoint_cases)
  case unopened
  then show ?thesis by (intro exI [of _ "[]"] exI [of _ 0]) simp
next
  case (aborted st)
  from aborted(1) show ?thesis
  proof (cases rule: loop_result.cases)
    case (lr_exit k)
    with aborted show ?thesis by (intro exI [of _ evs] exI [of _ "[]"] exI [of _ k]) (simp add: ep_inv_def)
  next
    case (lr_crash k st0 t)
    with aborted show ?thesis
      by (intro exI [of _ "epEvents st0"] exI [of _ "[start_event k (mfSteps m ! k) t]"] exI [of _ k])
         (auto simp: ep_inv_def writeState_def)
  qed
next
  case (ended st e)
  from ended(1) show ?thesis
  proof (cases rule: loop_result.cases)
    case lr_done
    with ended show ?thesis by (intro exI [of _ evs] exI [of _ "[]"] exI [of _ "length (mfSteps m)"]) (simp add: ep_inv_def)
  next
    case (lr_break k st0 step t y)
    with ended show ?thesis by (intro exI [of _ evs] exI [of _ "[]"] exI [of _ "Suc k"]) (simp add: ep_inv_def)
  qed (use ended in simp_all)
qed

text \<open>
  C10: The state file describes the run: the events are, for the steps in order, either a skip or
  a start followed by its end; only an aborted run can stop behind a start; and when the
  entrypoint returns success every step of the job has been skipped or has ended.
\<close>

theorem entrypoint_trace:
  assumes "runEntrypoint interp environ workDir w stateOk (Some m) = (evs, res, ok)"
  shows "\<exists>done rest k. evs = done @ rest \<and> trace_next 0 done = Some k \<and> k \<le> length (mfSteps m) \<and>
    (rest = [] \<or> (\<exists>t. rest = [start_event k (mfSteps m ! k) t] \<and> k < length (mfSteps m) \<and> \<not> ok \<and> res = None)) \<and>
    (ok \<longrightarrow> rest = [] \<and> k = length (mfSteps m))"
  using entrypoint_shape [OF assms] .

text \<open>
  C11: The return value is the verdict on the job: it is success exactly when the run was not
  aborted and every step that failed had \<^verbatim>\<open>continue-on-error\<close>.
\<close>

theorem entrypoint_verdict:
  assumes "runEntrypoint interp environ workDir w stateOk (Some m) = (evs, res, ok)"
  shows "ok \<longleftrightarrow> res \<noteq> None \<and>
    \<not> (\<exists>e \<in> set evs. evEvent e = ''end'' \<and> evExitCode e \<noteq> 0 \<and> \<not> msContinueOnError (mfSteps m ! nat (evStep e)))"
  using assms
proof (cases rule: runEntrypoint_cases)
  case (ended st e)
  from ended(1) obtain k where "ep_inv m w k st"
    using ended(2) by (auto elim: loop_result.cases)
  with ended show ?thesis by (auto simp: ep_inv_def failing_def step_of_def)
qed simp_all

lemma loop_result_guarded: "loop_result m w n st e \<Longrightarrow> n \<le> length (mfSteps m) \<Longrightarrow> guarded m (epEvents st)"
proof (induction rule: loop_result.induct)
  case (lr_crash k st0 t)
  then show ?case by (auto simp: ep_inv_def writeState_def guarded_snoc classify)
qed (auto simp: ep_inv_def)

lemma loop_result_stops:
  assumes "loop_result m w n st e" "\<not> conditional m" "epEvents st = pre @ x # post" "failing m x"
  shows "post = []"
  using assms(1)
proof (cases rule: loop_result.cases)
  case (lr_break k st0 step t y)
  then have "\<not> (\<exists>x \<in> set (epEvents st0). failing m x)" using assms(2) by (auto simp: ep_inv_def quiet_def)
  moreover have "\<not> failing m (start_event k step t)" by (simp add: failing_def start_event_def)
  moreover have "pre @ x # post = (epEvents st0 @ [start_event k step t]) @ [y]" using assms(3) lr_break by simp
  ultimately show ?thesis using assms(4)
  proof (cases post rule: rev_cases)
    case (snoc p z)
    with \<open>pre @ x # post = _\<close> have "x \<in> set (epEvents st0 @ [start_event k step t])"
      by (metis append_Cons append_assoc butlast_snoc in_set_conv_decomp)
    with \<open>\<not> (\<exists>x \<in> set (epEvents st0). _ x)\<close> \<open>\<not> failing m (start_event k step t)\<close> assms(4)
    show ?thesis by auto
  qed simp
next
  case (lr_crash k st0 t)
  then have "\<not> (\<exists>x \<in> set (epEvents st0). failing m x)" using assms(2) by (auto simp: ep_inv_def quiet_def)
  moreover have "epEvents st = epEvents st0 @ [start_event k (mfSteps m ! k) t]" using lr_crash by (simp add: writeState_def)
  ultimately have "\<not> (\<exists>x \<in> set (epEvents st). failing m x)" by (simp add: classify)
  with assms(3,4) show ?thesis by simp
qed (use assms(2-) in \<open>auto simp: ep_inv_def quiet_def\<close>)

text \<open>
  C12: After a failed step (without \<^verbatim>\<open>continue-on-error\<close>) no step starts that has no condition of
  its own, and in a job without conditions nothing at all follows the failure.
\<close>

theorem entrypoint_failure_gate:
  assumes "runEntrypoint interp environ workDir w stateOk (Some m) = (pre @ x # post, res, ok)"
    and "evEvent x = ''end''" "evExitCode x \<noteq> 0" "\<not> msContinueOnError (mfSteps m ! nat (evStep x))"
  shows "(\<forall>y \<in> set post. evEvent y = ''start'' \<longrightarrow> msIf (mfSteps m ! nat (evStep y)) \<noteq> []) \<and>
         (list_all (\<lambda>s. msIf s = []) (mfSteps m) \<longrightarrow> post = [])"
proof -
  have x: "failing m x" using assms(2-4) by (simp add: failing_def step_of_def)
  obtain st e where st: "loop_result m w (length (mfSteps m)) st e" "epEvents st = pre @ x # post"
    using assms(1) by (cases rule: runEntrypoint_cases) auto
  have g: "guarded m (pre @ x # post)" using loop_result_guarded [OF st(1)] st(2) by simp
  have "msIf (mfSteps m ! nat (evStep y)) \<noteq> []" if y: "y \<in> set post" "evEvent y = ''start''" for y
  proof
    assume "msIf (mfSteps m ! nat (evStep y)) = []"
    with y(2) have "plain_start m y" by (simp add: plain_start_def step_of_def)
    moreover obtain p q where "post = p @ y # q" using split_list [OF y(1)] by blast
    then have "pre @ x # post = (pre @ x # p) @ y # q" by simp
    ultimately have "\<not> (\<exists>e \<in> set (pre @ x # p). failing m e)" using g unfolding guarded_def by blast
    with x show False by simp
  qed
  moreover have "list_all (\<lambda>s. msIf s = []) (mfSteps m) \<Longrightarrow> post = []"
    using loop_result_stops [OF st(1) _ st(2) x] by (auto simp: conditional_def list_all_iff list_ex_iff)
  ultimately show ?thesis by blast
qed

text \<open>
  What a condition sees: when the loop comes to step \<open>k\<close>, the job status in the evaluation
  environment is \<open>failure\<close> exactly when some earlier step failed without \<^verbatim>\<open>continue-on-error\<close>, and
  \<open>success\<close> otherwise.
\<close>

theorem condition_sees_status:
  assumes "k \<le> length (mfSteps m)"
    and "step_loop interp environ workDir m w 0 (take k (mfSteps m)) (ep_init m) = (st, Next)"
    and "epEval st = Some env"
  shows "eeJob env = Some (if \<exists>e \<in> set (epEvents st). evEvent e = ''end'' \<and> evExitCode e \<noteq> 0 \<and>
           \<not> msContinueOnError (mfSteps m ! nat (evStep e)) then ''failure'' else ''success'')"
  using step_loop_prefix [OF assms(1,2)] assms(3)
  by (auto simp: ep_inv_def failing_def step_of_def)

lemma file_env_dom: "x \<notin> dom (file_env workDir i) \<Longrightarrow> (env ++ file_env workDir i) x = env x"
  by (simp add: map_add_dom_app_simps)

text \<open>
  C24: Environment of step \<open>k\<close>: a variable that is not one of the step's own files is taken from
  the step's settings, else from what the steps that ran before wrote to their environment
  files (a later one overriding an earlier), else from the job's settings, else from the
  process; \<^verbatim>\<open>PATH\<close> in addition starts with the directories earlier steps added, in order.
\<close>

theorem step_environment:
  assumes "k \<le> length (mfSteps m)"
    and "step_loop interp environ workDir m w 0 (take k (mfSteps m)) (ep_init m) = (st, Next)"
    and "x \<notin> dom (file_env workDir k)"
  shows "run_step_env environ workDir m st k step x =
    (let written = foldl (\<lambda>env j. env ++ written_env (w j)) Map.empty (ran_steps (epEvents st));
         added = concat (map (\<lambda>j. written_paths (w j)) (ran_steps (epEvents st)));
         value = (case msEnv step x of Some v \<Rightarrow> Some v | None \<Rightarrow>
                   (case written x of Some v \<Rightarrow> Some v | None \<Rightarrow>
                     (case mfBaseEnv m x of Some v \<Rightarrow> Some v | None \<Rightarrow> environ_map environ x)))
     in if x = ''PATH'' \<and> added \<noteq> []
        then Some (Join '':'' added @ '':'' @ (case value of None \<Rightarrow> [] | Some v \<Rightarrow> v))
        else value)"
proof -
  note inv = step_loop_prefix [OF assms(1,2)]
  have "foldl (\<lambda>env j. env ++ written_env (w j)) Map.empty (ran_steps (epEvents st)) = epEnv st"
    "concat (map (\<lambda>j. written_paths (w j)) (ran_steps (epEvents st))) = epPaths st"
    using inv by (simp_all add: ep_inv_def)
  then show ?thesis unfolding run_step_env_def file_env_dom [OF assms(3)]
    by (cases "x = ''PATH''") (simp_all add: buildStepEnv_def Let_def map_get_def map_add_def split: option.splits)
qed

section \<open>Witnesses\<close>

text \<open>A job of three steps: the first fails, the second runs always, the third has no condition.\<close>

definition example_step :: "string \<Rightarrow> string \<Rightarrow> ManifestStep" where
  "example_step name cond =
     \<lparr>msID = name, msName = name, msCommand = ''false'', msArgs = [], msShell = [], msEnv = Map.empty,
      msWorkDir = [], msContinueOnError = False, msIf = cond, msTimeoutMinutes = Finite 0\<rparr>"

definition example_context :: EvalContext where
  "example_context =
     \<lparr>ecGitHub = \<lparr>ghRunID = [], ghRunNumber = [], ghRunAttempt = [], ghActor = [], ghRepository = [],
        ghEventName = [], ghSha = [], ghRef = [], ghRefName = [], ghRefType = [], ghHeadRef = [],
        ghBaseRef = [], ghToken = [], ghRepositoryOwner = [], ghRetentionDays = [], ghServerURL = [],
        ghAPIURL = [], ghWorkspace = []\<rparr>,
      ecEnv = Map.empty, ecSecrets = Map.empty, ecVars = Map.empty, ecNeeds = Map.empty\<rparr>"

definition example_manifest :: Manifest where
  "example_manifest =
     \<lparr>mfSteps = [example_step ''a'' [], example_step ''b'' ''always()'', example_step ''c'' []],
      mfBaseEnv = [''K'' \<mapsto> ''v''], mfContext = Some example_context, mfActions = [], mfCachePaths = []\<rparr>"

definition example_always :: "(unit, bool) interpreter" where
  "example_always =
     \<lparr>iEvaluate = (\<lambda>env s chk. if s = ''always()'' then Inr True else Inl ()), iIsTruthy = id,
      iString = (\<lambda>_. None), iPrint = (\<lambda>_. [])\<rparr>"

definition example_world :: "nat \<Rightarrow> step_world" where
  "example_world i =
     \<lparr>swCreated = True, swRun = (\<lambda>_. if i = 0 then RunExit 2 else RunOk), swOutputFile = NotExist,
      swEnvFile = NotExist, swPathFile = NotExist, swStartTime = ''t'', swEndTime = ''u''\<rparr>"

definition example_events :: "StateEvent list" where
  "example_events =
     [start_event 0 (example_step ''a'' []) ''t'', end_event 0 (example_step ''a'' []) 2 ''u'',
      start_event 1 (example_step ''b'' ''always()'') ''t'', end_event 1 (example_step ''b'' ''always()'') 0 ''u'',
      skip_event 2 (example_step ''c'' []) ''t'']"

lemma example_condition: "EvalCondition example_always env ''always()'' = Inr True"
  by (simp add: EvalCondition_def condition_text_def strings_simps char_in_def HasPrefix_def
      rewriteSubExpression_def Contains_def sublist_Cons_right example_always_def)

lemmas example_defs = example_manifest_def example_world_def example_step_def ep_init_def loop_body_def
  should_skip_def writeState_def executeStep_def finish_step_def parseEnvFile_def parsePaths_def

lemma example_run: "\<exists>res. runEntrypoint example_always [] ''/shim'' example_world (\<lambda>_. True) (Some example_manifest)
    = (example_events, Some res, False)"
  by (simp add: runEntrypoint_def example_defs example_condition example_events_def Let_def numeral_2_eq_2)

lemma example_prefix: "\<exists>st env. step_loop example_always [] ''/shim'' example_manifest example_world 0
    (take 1 (mfSteps example_manifest)) (ep_init example_manifest) = (st, Next) \<and> epEval st = Some env \<and>
    epEvents st = take 2 example_events"
  by (simp add: example_defs example_events_def Let_def)

theorem entrypoint_trace_witness:
  "\<exists>done rest k. example_events = done @ rest \<and> trace_next 0 done = Some k"
proof -
  obtain res where r: "runEntrypoint example_always [] ''/shim'' example_world (\<lambda>_. True) (Some example_manifest)
    = (example_events, Some res, False)" using example_run by blast
  show ?thesis using entrypoint_trace [OF r] by blast
qed

theorem entrypoint_verdict_witness:
  "\<exists>e \<in> set example_events. evEvent e = ''end'' \<and> evExitCode e \<noteq> 0 \<and>
     \<not> msContinueOnError (mfSteps example_manifest ! nat (evStep e))"
proof -
  obtain res where r: "runEntrypoint example_always [] ''/shim'' example_world (\<lambda>_. True) (Some example_manifest)
    = (example_events, Some res, False)" using example_run by blast
  show ?thesis using entrypoint_verdict [OF r] by blast
qed

theorem entrypoint_failure_gate_witness:
  "msIf (mfSteps example_manifest ! nat (evStep (example_events ! 2))) \<noteq> []"
proof -
  obtain res where r: "runEntrypoint example_always [] ''/shim'' example_world (\<lambda>_. True) (Some example_manifest)
    = (example_events, Some res, False)" using example_run by blast
  have "example_events = take 1 example_events @ example_events ! 1 # drop 2 example_events"
    by (simp add: example_events_def)
  with r have r': "runEntrypoint example_always [] ''/shim'' example_world (\<lambda>_. True) (Some example_manifest)
    = (take 1 example_events @ example_events ! 1 # drop 2 example_events, Some res, False)" by simp
  have "evEvent (example_events ! 1) = ''end''" "evExitCode (example_events ! 1) \<noteq> 0"
    "\<not> msContinueOnError (mfSteps example_manifest ! nat (evStep (example_events ! 1)))"
    by (simp_all add: example_events_def end_event_def example_manifest_def example_step_def)
  moreover have "example_events ! 2 \<in> set (drop 2 example_events)" "evEvent (example_events ! 2) = ''start''"
    by (simp_all add: example_events_def start_event_def)
  ultimately show ?thesis using entrypoint_failure_gate [OF r'] by blast
qed

theorem condition_sees_status_witness:
  "\<exists>st env. step_loop example_always [] ''/shim'' example_manifest example_world 0
    (take 1 (mfSteps example_manifest)) (ep_init example_manifest) = (st, Next) \<and> epEval st = Some env \<and>
    eeJob env = Some ''failure''"
proof -
  obtain st env where s: "step_loop example_always [] ''/shim'' example_manifest example_world 0
    (take 1 (mfSteps example_manifest)) (ep_init example_manifest) = (st, Next)" "epEval st = Some env"
    "epEvents st = take 2 example_events" using example_prefix by blast
  have "eeJob env = Some ''failure''"
    using condition_sees_status [OF _ s(1,2)] s(3)
    by (simp add: example_events_def end_event_def start_event_def example_manifest_def example_step_def)
  with s show ?thesis by blast
qed

theorem step_environment_witness:
  "\<exists>st. step_loop example_always [] ''/shim'' example_manifest example_world 0
    (take 1 (mfSteps example_manifest)) (ep_init example_manifest) = (st, Next) \<and>
    run_step_env [] ''/shim'' example_manifest st 1 (example_step ''b'' []) ''K'' = Some ''v''"
proof -
  obtain st env where s: "step_loop example_always [] ''/shim'' example_manifest example_world 0
    (take 1 (mfSteps example_manifest)) (ep_init example_manifest) = (st, Next)"
    "epEvents st = take 2 example_events" using example_prefix by blast
  have "run_step_env [] ''/shim'' example_manifest st 1 (example_step ''b'' []) ''K'' = Some ''v''"
    using step_environment [OF _ s(1), of "''K''" "example_step ''b'' []"] s(2)
    by (simp add: file_env_def example_manifest_def example_step_def example_events_def ran_steps_def
        end_event_def start_event_def written_env_def example_world_def parseEnvFile_def)
  with s show ?thesis by blast
qed

end
