(* ===== verification/Watcher_Props.thy ===== *)
theory Watcher_Props
  imports Watcher Entrypoint_Props Reporter_Mask
begin

text \<open>
  The way of a step's outcome from the entrypoint to the forge: the events of a run, the lines
  of the state file, the stream the watcher reads, the reporter's steps and the final report.
\<close>

section \<open>From events to step results\<close>

text \<open>The reporter call that routing an event makes at a given time.\<close>

definition route_calls :: "int \<Rightarrow> StateEvent \<Rightarrow> rep_call list" where
  "route_calls now ev =
     (if evEvent ev = ''start'' then [CStartStep now (evStep ev)]
      else if evEvent ev = ''end'' then
        [CFinishStep now (evStep ev) (if evExitCode ev \<noteq> 0 then RESULT_FAILURE else RESULT_SUCCESS)]
      else if evEvent ev = ''skip'' then [CFinishStep now (evStep ev) RESULT_SKIPPED]
      else [])"

lemma routeStateEvent_calls: "routeStateEvent now ev rep = run_calls rep_do rep (route_calls now ev)"
  by (simp add: routeStateEvent_def route_calls_def)

fun is_step_call :: "rep_call \<Rightarrow> bool" where
  "is_step_call (CStartStep now i) = True"
| "is_step_call (CFinishStep now i res) = True"
| "is_step_call _ = False"

definition results :: "Reporter \<Rightarrow> Result list" where
  "results r = map ssResult (tsSteps (rState r))"

definition result_upd :: "int \<Rightarrow> Result \<Rightarrow> Result list \<Rightarrow> Result list" where
  "result_upd i res rs = (if 0 \<le> i \<and> i < int (length rs) then rs[nat i := res] else rs)"

fun result_call :: "Result list \<Rightarrow> rep_call \<Rightarrow> Result list" where
  "result_call rs (CFinishStep now i res) = result_upd i res rs"
| "result_call rs _ = rs"

lemma map_steps_upd: "(\<And>s. ssResult (f s) = ssResult s) \<Longrightarrow> map ssResult (steps_upd f i ss) = map ssResult ss"
  by (auto simp: steps_upd_def map_update intro!: nth_equalityI) (metis length_map list_update_id map_update nth_map)

lemma results_rep_do: "results (rep_do r c) = result_call (results r) c"
proof (cases c)
  case (CAddLog now l)
  have "map ssResult (tsSteps (rState (AddLog now r l))) = map ssResult (tsSteps (rState r))"
    unfolding AddLog_def Let_def by (simp, rule map_steps_upd) simp
  with CAddLog show ?thesis by (simp add: results_def)
next
  case (CStartStep now i)
  have "map ssResult (tsSteps (rState (StartStep now r i))) = map ssResult (tsSteps (rState r))"
    unfolding StartStep_def Let_def by (auto intro: map_steps_upd)
  with CStartStep show ?thesis by (simp add: results_def)
next
  case (CFinishStep now i res)
  then show ?thesis by (auto simp: results_def FinishStep_def steps_upd_def result_upd_def map_update)
qed (simp_all add: results_def AddMask_def flushLogs_ack_def RunDaemon_def Let_def)

lemma results_run: "results (run_calls rep_do r cs) = foldl result_call (results r) (filter is_step_call cs)"
proof (induction cs arbitrary: r)
  case (Cons c cs)
  then show ?case using results_rep_do [of r c] by (cases c) simp_all
qed simp

text \<open>The effect of an event on the results, whatever the clock says.\<close>

definition result_event :: "Result list \<Rightarrow> StateEvent \<Rightarrow> Result list" where
  "result_event rs ev =
     (if evEvent ev = ''end'' then
        result_upd (evStep ev) (if evExitCode ev \<noteq> 0 then RESULT_FAILURE else RESULT_SUCCESS) rs
      else if evEvent ev = ''skip'' then result_upd (evStep ev) RESULT_SKIPPED rs
      else rs)"

lemma results_routed:
  "length clocks = length evs \<Longrightarrow>
     foldl result_call rs (concat (map2 route_calls clocks evs)) = foldl result_event rs evs"
  by (induction clocks evs arbitrary: rs rule: list_induct2) (simp_all add: route_calls_def result_event_def)

text \<open>What the events say about step \<open>i\<close>.\<close>

definition outcome :: "StateEvent list \<Rightarrow> nat \<Rightarrow> Result option" where
  "outcome evs i =
     (if \<exists>e \<in> set evs. evStep e = int i \<and> evEvent e = ''skip'' then Some RESULT_SKIPPED
      else if \<exists>e \<in> set evs. evStep e = int i \<and> evEvent e = ''end'' \<and> evExitCode e = 0 then Some RESULT_SUCCESS
      else if \<exists>e \<in> set evs. evStep e = int i \<and> evEvent e = ''end'' then Some RESULT_FAILURE
      else None)"

lemma trace_steps: "trace_next k evs = Some n \<Longrightarrow> k \<le> n \<and> (\<forall>e \<in> set evs. int k \<le> evStep e \<and> evStep e < int n)"
  by (induction k evs rule: trace_next.induct) (force split: if_splits list.splits)+

lemma length_result_event [simp]: "length (result_event rs e) = length rs"
  by (simp add: result_event_def result_upd_def)

lemma length_foldl_result [simp]: "length (foldl result_event rs evs) = length rs"
  by (induction evs arbitrary: rs) simp_all

lemma outcome_other: "(\<forall>e \<in> set evs. evStep e \<noteq> int i) \<Longrightarrow> outcome evs i = None"
  by (auto simp: outcome_def)

lemma outcome_Cons_other: "evStep e \<noteq> int i \<Longrightarrow> outcome (e # evs) i = outcome evs i"
  by (auto simp: outcome_def)

lemma outcome_start: "evEvent e = ''start'' \<Longrightarrow> outcome (e # evs) i = outcome evs i"
  by (auto simp: outcome_def)

lemma result_event_nth: "i < length rs \<Longrightarrow> result_event rs e ! i =
    (if evStep e = int i then (case outcome [e] i of None \<Rightarrow> rs ! i | Some r \<Rightarrow> r) else rs ! i)"
  by (auto simp: result_event_def result_upd_def outcome_def nth_list_update)

lemma trace_results:
  "trace_next k evs = Some n \<Longrightarrow> i < length rs \<Longrightarrow>
     foldl result_event rs evs ! i = (case outcome evs i of None \<Rightarrow> rs ! i | Some r \<Rightarrow> r)"
proof (induction k evs arbitrary: rs rule: trace_next.induct)
  case (2 k e es)
  then have k: "evStep e = int k" by (auto split: if_splits)
  show ?case
  proof (cases "evEvent e = ''skip''")
    case True
    with 2(3) k have t: "trace_next (Suc k) es = Some n" by simp
    have "outcome (e # es) k = Some RESULT_SKIPPED" using True k by (auto simp: outcome_def)
    moreover have "outcome es k = None" using trace_steps [OF t] by (force intro: outcome_other)
    ultimately show ?thesis using 2(1) [OF _ True t, of "result_event rs e"] k True 2(4)
      by (cases "i = k") (auto simp: result_event_nth outcome_Cons_other outcome_def)
  next
    case False
    with 2(3) k obtain e' es' where es: "es = e' # es'" "evEvent e = ''start''" "evEvent e' = ''end''"
      "evStep e' = int k" "trace_next (Suc k) es' = Some n" by (auto split: if_splits list.splits)
    have "outcome es' k = None" using trace_steps [OF es(5)] by (force intro: outcome_other)
    moreover have "outcome (e # es) k = outcome [e'] k"
      using es k \<open>outcome es' k = None\<close> by (auto simp: outcome_def split: if_splits)
    moreover have "foldl result_event rs (e # es) ! i
        = (case outcome es' i of None \<Rightarrow> result_event rs e' ! i | Some r \<Rightarrow> r)"
    proof -
      have "result_event rs e = rs" using es(2) by (simp add: result_event_def)
      then show ?thesis using 2(2) [OF _ False es(2) es(1) _ es(5)] 2(4) es k by simp
    qed
    ultimately show ?thesis using 2(4) es k
      by (cases "i = k") (auto simp: result_event_nth outcome_Cons_other split: option.splits)
  qed
qed (simp add: outcome_def)

lemma outcome_complete: "trace_next k evs = Some n \<Longrightarrow> k \<le> i \<Longrightarrow> i < n \<Longrightarrow> outcome evs i \<noteq> None"
proof (induction k evs rule: trace_next.induct)
  case (2 k e es)
  then show ?case
    by (cases "i = k") (auto simp: outcome_def split: if_splits list.splits)
qed simp

lemma outcome_snoc_start: "evEvent e = ''start'' \<Longrightarrow> outcome (evs @ [e]) i = outcome evs i"
  by (auto simp: outcome_def)

lemma result_event_start: "evEvent e = ''start'' \<Longrightarrow> result_event rs e = rs"
  by (simp add: result_event_def)

text \<open>
  End to end, from the entrypoint to the final report: whatever logs, masks and
  acknowledgements are interleaved with the routed events of a run, the report that closes the
  task shows a step as skipped if it was skipped, as success or failure by its exit code if it
  ended, and as cancelled otherwise; after a successful run no step is reported as cancelled.
\<close>

theorem reported_outcomes:
  assumes "runEntrypoint interp environ workDir w stateOk (Some m) = (evs, res, ok)"
    and "length clocks = length evs" "filter is_step_call cs = concat (map2 route_calls clocks evs)"
    and "i < length (mfSteps m)"
    and "job \<noteq> RESULT_SKIPPED"
  shows "let final = Close_begin now (run_calls rep_do (SetSecrets (New taskID (length (mfSteps m))) secrets) cs) job;
             reported = ssResult (tsSteps (rState final) ! i)
         in reported = (case outcome evs i of Some r \<Rightarrow> r | None \<Rightarrow> RESULT_CANCELLED) \<and>
            (ok \<longrightarrow> reported \<noteq> RESULT_CANCELLED)"
proof -
  let ?n = "length (mfSteps m)"
  let ?r = "run_calls rep_do (SetSecrets (New taskID ?n) secrets) cs"
  obtain dn rest k where t: "evs = dn @ rest" "trace_next 0 dn = Some k"
    "rest = [] \<or> (\<exists>t. rest = [start_event k (mfSteps m ! k) t])" "ok \<longrightarrow> rest = [] \<and> k = ?n"
    using entrypoint_shape [OF assms(1)] by blast
  have init: "results (SetSecrets (New taskID ?n) secrets) = replicate ?n RESULT_UNSPECIFIED"
    by (simp add: results_def SetSecrets_def New_def comp_def map_replicate_const)
  have rest: "outcome evs i = outcome dn i" "foldl result_event rs evs = foldl result_event rs dn" for rs
    using t(1,3) by (auto simp: outcome_snoc_start result_event_start start_event_def)
  have "results ?r = foldl result_event (replicate ?n RESULT_UNSPECIFIED) evs"
    using assms(2,3) by (simp add: results_run init results_routed)
  then have ri: "results ?r ! i = (case outcome evs i of None \<Rightarrow> RESULT_UNSPECIFIED | Some r \<Rightarrow> r)"
    and len: "length (results ?r) = ?n"
    using trace_results [OF t(2), of i "replicate ?n RESULT_UNSPECIFIED"] assms(4) rest
    by (simp_all split: option.splits)
  have "ssResult (tsSteps (rState (Close_begin now ?r job)) ! i)
      = (if results ?r ! i = RESULT_UNSPECIFIED then RESULT_CANCELLED else results ?r ! i)"
    using assms(4,5) len by (simp add: Close_begin_def call_cancel_def Let_def close_step_def results_def)
  moreover have "outcome evs i \<noteq> Some RESULT_UNSPECIFIED" "outcome evs i \<noteq> Some RESULT_CANCELLED"
    by (simp_all add: outcome_def)
  moreover have "ok \<Longrightarrow> outcome evs i \<noteq> None"
    using t assms(4) outcome_complete [OF t(2), of i] rest by auto
  ultimately show ?thesis using ri by (auto simp: Let_def split: option.splits)
qed

section \<open>The stream of events\<close>

lemma full_lines_lines: "\<forall>l \<in> set ls. NL \<notin> set l \<Longrightarrow>
    full_lines (concat (map (\<lambda>l. l @ [NL]) ls) @ p) = map (\<lambda>l. l @ [NL]) ls @ full_lines p"
  by (induction ls) (auto simp: full_lines_def Split_append)

text \<open>
  The state stream delivers the events in order and whole: for an encoding of events that
  decoding inverts and that has no line breaks in it, any initial part of the stream (however
  it was cut) routes exactly the first so many events, and the whole stream all of them.
\<close>

theorem state_stream_exact:
  assumes "\<forall>e \<in> set evs. decode (encode e) = Some e \<and> encode e \<noteq> [] \<and> NL \<notin> set (encode e) \<and> CR \<notin> set (encode e)"
    and "prefix stream (concat (map (\<lambda>e. encode e @ [NL]) evs))"
  shows "\<exists>k \<le> length evs. streamStateFileWith decode now stream rep
           = (foldl (\<lambda>r e. routeStateEvent now e r) rep (take k evs), k) \<and>
         (stream = concat (map (\<lambda>e. encode e @ [NL]) evs) \<longrightarrow> k = length evs)"
  using assms
proof (induction evs arbitrary: stream rep)
  case Nil
  then show ?case by (simp add: streamStateFileWith_def full_lines_def)
next
  case (Cons e evs)
  let ?l = "encode e @ [NL]"
  have e: "decode (encode e) = Some e" "encode e \<noteq> []" "NL \<notin> set (encode e)" "CR \<notin> set (encode e)"
    using Cons.prems(1) by auto
  have line: "state_line decode now ?l r = routeStateEvent now e r" for r
  proof -
    have "TrimRight ?l [NL, CR] = encode e"
      using e(2-4) by (cases "encode e" rule: rev_cases) (auto simp: TrimRight_def)
    then show ?thesis using e by (simp add: state_line_def)
  qed
  consider s where "stream = ?l @ s" "prefix s (concat (map (\<lambda>e. encode e @ [NL]) evs))"
    | "prefix stream (encode e)"
    using Cons.prems(2) by (auto simp: prefix_append prefix_Cons)
  then show ?case
  proof cases
    case (1 s)
    obtain k where "k \<le> length evs" "streamStateFileWith decode now s (routeStateEvent now e rep)
        = (foldl (\<lambda>r e. routeStateEvent now e r) (routeStateEvent now e rep) (take k evs), k)"
      "s = concat (map (\<lambda>e. encode e @ [NL]) evs) \<longrightarrow> k = length evs"
      using Cons.IH [OF _ 1(2), of "routeStateEvent now e rep"] Cons.prems(1) by auto
    then show ?thesis using 1(1) full_lines_lines [of "[encode e]" s] e(3) line
      by (intro exI [of _ "Suc k"]) (simp add: streamStateFileWith_def)
  next
    case 2
    then have "NL \<notin> set stream" using e(3) by (meson set_mono_prefix subsetD)
    then have "full_lines stream = []" by (simp add: full_lines_def Split_single)
    moreover have "stream \<noteq> concat (map (\<lambda>e. encode e @ [NL]) (e # evs))"
      using \<open>NL \<notin> set stream\<close> by auto
    ultimately show ?thesis by (intro exI [of _ 0]) (simp add: streamStateFileWith_def)
  qed
qed

section \<open>The verdict\<close>

lemma runner_result_terminated: "runner_result css = Some res \<Longrightarrow>
    \<exists>cs code reason msg. cs \<in> set css \<and> csName cs = ''runner'' \<and> csState cs = Terminated code reason msg \<and>
      res = (if code = 0 then RESULT_SUCCESS else RESULT_FAILURE)"
  by (induction css rule: runner_result.induct) (force split: if_splits ContainerState.splits)+

text \<open>
  A job is reported successful only on evidence: the watcher returns success only without
  an error, and only when the last look at the pod shows a runner container that terminated
  with exit code zero, and after a poll of the termination wait had seen it end.
\<close>

theorem watch_success_evidence:
  assumes "watchJobWith w = Some (RESULT_SUCCESS, err)"
  shows "err = None \<and>
    (\<exists>pod cs reason msg. jwFinal w = Inr pod \<and> cs \<in> set (podMain pod) \<and> csName cs = ''runner'' \<and>
       csState cs = Terminated 0 reason msg) \<and>
    (\<exists>answer \<in> fst ` set (jwTerminated w). termination_seen ''runner'' answer)"
proof -
  have fin: "getContainerResult (jwFinal w) = (RESULT_SUCCESS, None)" "err = None"
    and wait: "waitForContainerTerminated ''runner'' (jwTerminated w) = Some (Inr ())"
    using assms by (auto simp: watchJobWith_def split: option.splits sum.splits prod.splits)
  obtain pod where pod: "jwFinal w = Inr pod" "runner_result (podMain pod) = Some RESULT_SUCCESS"
    using fin(1) by (auto simp: getContainerResult_def split: sum.splits option.splits)
  have "waitForContainerTerminated name ps = Some (Inr ()) \<Longrightarrow> \<exists>answer \<in> fst ` set ps. termination_seen name answer"
    for name ps
    by (induction name ps rule: waitForContainerTerminated.induct) (auto split: if_splits sleep_end.splits)
  from this [OF wait] fin(2) pod runner_result_terminated [OF pod(2)] show ?thesis
    by (auto split: if_splits)
qed

section \<open>Witnesses\<close>

theorem reported_outcomes_witness:
  "ssResult (tsSteps (rState (Close_begin 9 (run_calls rep_do (SetSecrets (New 1 3) [])
     (CAddLog 1 ''hi'' # concat (map2 route_calls [1, 2, 3, 4, 5] example_events))) RESULT_FAILURE)) ! 2)
   = RESULT_SKIPPED"
proof -
  obtain res where r: "runEntrypoint example_always [] ''/shim'' example_world (\<lambda>_. True) (Some example_manifest)
    = (example_events, Some res, False)" using example_run by blast
  have l: "length [1, 2, 3, 4, 5 :: int] = length example_events" by (simp add: example_events_def)
  have f: "filter is_step_call (CAddLog 1 ''hi'' # concat (map2 route_calls [1, 2, 3, 4, 5] example_events))
      = concat (map2 route_calls [1, 2, 3, 4, 5] example_events)"
    by (simp add: example_events_def route_calls_def event_defs)
  have n: "length (mfSteps example_manifest) = 3" by (simp add: example_manifest_def)
  have o: "outcome example_events 2 = Some RESULT_SKIPPED"
    by (simp add: outcome_def example_events_def event_defs)
  have "2 < length (mfSteps example_manifest)" "RESULT_FAILURE \<noteq> RESULT_SKIPPED" by (simp_all add: n)
  from reported_outcomes [OF r l f this, of 9 1 "[]"] show ?thesis
    unfolding n Let_def o by simp
qed

definition example_event :: StateEvent where
  "example_event = \<lparr>evEvent = ''start'', evStep = 0, evName = [], evExitCode = 0, evTime = []\<rparr>"

theorem state_stream_exact_witness:
  "\<exists>k \<le> 1. streamStateFileWith (\<lambda>s. if s = ''{}'' then Some example_event else None) 7 (''{}'' @ [NL]) (New 1 1)
     = (foldl (\<lambda>r e. routeStateEvent 7 e r) (New 1 1) (take k [example_event]), k)"
  using state_stream_exact [of "[example_event]" "\<lambda>s. if s = ''{}'' then Some example_event else None"
      "\<lambda>_. ''{}''" "''{}'' @ [NL]" 7 "New 1 1"]
  by fastforce

definition example_pod :: Pod where
  "example_pod = \<lparr>podPhase = PodRunning, podReason = [], podInit = [],
     podMain = [\<lparr>csName = ''runner'', csState = Terminated 0 [] [], csLast = NoState\<rparr>]\<rparr>"

theorem watch_success_evidence_witness:
  "\<exists>answer \<in> fst ` set [(Inl GetError, TimerFired), (Inr example_pod, TimerFired)]. termination_seen ''runner'' answer"
proof -
  let ?w = "\<lparr>jwPods = [(Inr [''p''], False)], jwRunning = [(Inr example_pod, False)], jwPrevious = (\<lambda>_. None),
    jwTerminated = [(Inl GetError, TimerFired), (Inr example_pod, TimerFired)], jwFinal = Inr example_pod\<rparr>"
  have "watchJobWith ?w = Some (RESULT_SUCCESS, None)"
    by (simp add: watchJobWith_def example_pod_def termination_seen_def is_terminated_def getContainerResult_def)
  from watch_success_evidence [OF this] show ?thesis by simp
qed

end
