(* ===== verification/CacheDB.thy ===== *)
theory CacheDB
  imports Prelude
begin

text \<open>
  The index of the cache server, from \<^verbatim>\<open>src/pkg/cache/db.go\<close>: one table, as the list of its rows,
  with the counter of \<^verbatim>\<open>AUTOINCREMENT\<close>. SQL statements are modelled by what they select or
  change; errors of the database itself are not modelled.

  \<^verbatim>\<open>ORDER BY created_at DESC LIMIT 1\<close> leaves open which of several newest rows is returned: the
  choice is the parameter \<open>pick\<close>, a function from the selected rows.
\<close>

record Cache =
  cID :: int
  cKey :: string
  cVersion :: string
  cSize :: int
  cComplete :: bool
  cUsedAt :: int
  cCreatedAt :: int

record DB =
  dbRows :: "Cache list"
  dbNext :: int

text \<open>What the query engine promises about its choice.\<close>

definition picks_newest :: "(Cache list \<Rightarrow> Cache option) \<Rightarrow> bool" where
  "picks_newest pick \<longleftrightarrow>
     (\<forall>rows. case pick rows of
        None \<Rightarrow> rows = []
      | Some c \<Rightarrow> c \<in> set rows \<and> (\<forall>d \<in> set rows. cCreatedAt d \<le> cCreatedAt c))"

section \<open>LIKE\<close>

definition likeEscaper :: "(string \<times> string) list" where
  "likeEscaper = [([CHR 0x5C], [CHR 0x5C, CHR 0x5C]), (''%'', CHR 0x5C # ''%''), (''_'', CHR 0x5C # ''_'')]"

text \<open>SQLite's \<^verbatim>\<open>LIKE\<close> with escape character \<^verbatim>\<open>\\<close>: ASCII letters match in either case.\<close>

fun like :: "string \<Rightarrow> string \<Rightarrow> bool" where
  "like [] s = (s = [])"
| "like (p # ps) s =
     (if p = CHR 0x5C then
        (case (ps, s) of
           (q # qs, c # cs) \<Rightarrow> lower_char q = lower_char c \<and> like qs cs
         | _ \<Rightarrow> False)
      else if p = CHR ''%'' then
        (like ps s \<or> (case s of [] \<Rightarrow> False | c # cs \<Rightarrow> like (p # ps) cs))
      else if p = CHR ''_'' then (case s of [] \<Rightarrow> False | c # cs \<Rightarrow> like ps cs)
      else (case s of [] \<Rightarrow> False | c # cs \<Rightarrow> lower_char p = lower_char c \<and> like ps cs))"

section \<open>Operations\<close>

definition select_exact :: "DB \<Rightarrow> string \<Rightarrow> string \<Rightarrow> Cache list" where
  "select_exact db key version = filter (\<lambda>c. cKey c = key \<and> cVersion c = version \<and> cComplete c) (dbRows db)"

definition select_like :: "DB \<Rightarrow> string \<Rightarrow> string \<Rightarrow> Cache list" where
  "select_like db pattern version =
     filter (\<lambda>c. like pattern (cKey c) \<and> cVersion c = version \<and> cComplete c) (dbRows db)"

fun FindCache :: "(Cache list \<Rightarrow> Cache option) \<Rightarrow> DB \<Rightarrow> string list \<Rightarrow> string \<Rightarrow> Cache option" where
  "FindCache pick db [] version = None"
| "FindCache pick db (p # keys) version =
     (case pick (select_exact db p version) of
        Some c \<Rightarrow> Some c
      | None \<Rightarrow>
          (case pick (select_like db (Replace likeEscaper p @ ''%'') version) of
             Some c \<Rightarrow> Some c
           | None \<Rightarrow> FindCache pick db keys version))"

text \<open>\<open>now\<close> is the clock in seconds. The entry gets the next number of the sequence.\<close>

definition InsertCache :: "int \<Rightarrow> DB \<Rightarrow> string \<Rightarrow> string \<Rightarrow> int \<Rightarrow> DB \<times> int" where
  "InsertCache now db key version sz =
     (db\<lparr>dbRows := dbRows db @ [\<lparr>cID = dbNext db, cKey = key, cVersion = version, cSize = sz,
            cComplete = False, cUsedAt = now, cCreatedAt = now\<rparr>],
         dbNext := dbNext db + 1\<rparr>, dbNext db)"

definition GetCache :: "DB \<Rightarrow> int \<Rightarrow> Cache option" where
  "GetCache db i = find (\<lambda>c. cID c = i) (dbRows db)"

definition CompleteCache :: "DB \<Rightarrow> int \<Rightarrow> int \<Rightarrow> DB" where
  "CompleteCache db i sz =
     db\<lparr>dbRows := map (\<lambda>c. if cID c = i then c\<lparr>cComplete := True, cSize := sz\<rparr> else c) (dbRows db)\<rparr>"

definition TouchCache :: "int \<Rightarrow> DB \<Rightarrow> int \<Rightarrow> DB" where
  "TouchCache now db i = db\<lparr>dbRows := map (\<lambda>c. if cID c = i then c\<lparr>cUsedAt := now\<rparr> else c) (dbRows db)\<rparr>"

definition DeleteCache :: "DB \<Rightarrow> int \<Rightarrow> DB" where
  "DeleteCache db i = db\<lparr>dbRows := filter (\<lambda>c. cID c \<noteq> i) (dbRows db)\<rparr>"

definition FindExpired :: "DB \<Rightarrow> (Cache \<Rightarrow> bool) \<Rightarrow> Cache list" where
  "FindExpired db condition = filter condition (dbRows db)"

text \<open>The complete rows of a group (same key and version), and its newest creation time.\<close>

definition group_of :: "DB \<Rightarrow> Cache \<Rightarrow> Cache list" where
  "group_of db c = filter (\<lambda>d. cComplete d \<and> cKey d = cKey c \<and> cVersion d = cVersion c) (dbRows db)"

definition FindDuplicates :: "DB \<Rightarrow> int \<Rightarrow> Cache list" where
  "FindDuplicates db keepOlderThan =
     filter (\<lambda>c. length (group_of db c) > 1 \<and> cCreatedAt c < foldr (\<lambda>d. max (cCreatedAt d)) (group_of db c) (cCreatedAt c)
        \<and> cComplete c \<and> cUsedAt c < keepOlderThan) (dbRows db)"

section \<open>Prefix lookup\<close>

definition escape_char :: "char \<Rightarrow> string" where
  "escape_char c = (if c \<in> {CHR 0x5C, CHR ''%'', CHR ''_''} then [CHR 0x5C, c] else [c])"

lemma Replace_likeEscaper: "Replace likeEscaper p = concat (map escape_char p)"
proof (induction p)
  case (Cons c p)
  have "find (\<lambda>q. fst q \<noteq> [] \<and> prefix (fst q) (c # p)) likeEscaper =
    (if c \<in> {CHR 0x5C, CHR ''%'', CHR ''_''} then Some ([c], [CHR 0x5C, c]) else None)"
    by (auto simp: likeEscaper_def)
  with Cons show ?case by (auto simp: escape_char_def)
qed simp

lemma like_percent: "like ''%'' s"
  by (induction s) auto

text \<open>The escaped pattern matches exactly the keys that start with the text, letter case aside.\<close>

lemma like_prefix: "like (Replace likeEscaper p @ ''%'') s \<longleftrightarrow> prefix (map lower_char p) (map lower_char s)"
  unfolding Replace_likeEscaper
proof (induction p arbitrary: s)
  case Nil
  then show ?case using like_percent by simp
next
  case (Cons c p)
  then show ?case by (cases s) (auto simp: escape_char_def)
qed

lemma lower_char_idem [simp]: "lower_char (lower_char c) = lower_char c"
  by (auto simp: lower_char_def char_in_def)

text \<open>The rows among which a requested key chooses: the exact ones, else those with the prefix.\<close>

definition candidates :: "DB \<Rightarrow> string \<Rightarrow> string \<Rightarrow> Cache list" where
  "candidates db p version =
     (if select_exact db p version \<noteq> [] then select_exact db p version
      else select_like db (Replace likeEscaper p @ ''%'') version)"

lemma candidates_rows: "c \<in> set (candidates db p version) \<Longrightarrow> c \<in> set (dbRows db) \<and> cVersion c = version \<and> cComplete c"
  by (auto simp: candidates_def select_exact_def select_like_def split: if_splits)

lemma FindCache_Some:
  assumes "picks_newest pick" "FindCache pick db keys version = Some c"
  shows "\<exists>pre p post. keys = pre @ p # post \<and> FindCache pick db pre version = None \<and>
    c \<in> set (candidates db p version) \<and> (\<forall>d \<in> set (candidates db p version). cCreatedAt d \<le> cCreatedAt c)"
  using assms(2)
proof (induction keys)
  case (Cons p keys)
  note pk = assms(1) [unfolded picks_newest_def, rule_format]
  let ?e = "select_exact db p version" and ?l = "select_like db (Replace likeEscaper p @ ''%'') version"
  show ?case
  proof (cases "pick ?e = None \<and> pick ?l = None")
    case False
    have "c \<in> set (candidates db p version) \<and> (\<forall>d \<in> set (candidates db p version). cCreatedAt d \<le> cCreatedAt c)"
    proof (cases "pick ?e")
      case None
      with False Cons.prems have "pick ?l = Some c" by auto
      then show ?thesis using None pk [of ?e] pk [of ?l] by (simp add: candidates_def)
    next
      case (Some d)
      with Cons.prems have "c \<in> set ?e \<and> (\<forall>d \<in> set ?e. cCreatedAt d \<le> cCreatedAt c)" using pk [of ?e] by simp
      moreover from this have "?e \<noteq> []" by auto
      ultimately show ?thesis by (simp add: candidates_def)
    qed
    then show ?thesis by (intro exI [of _ "[]"] exI [of _ p] exI [of _ keys]) simp
  next
    case True
    with Cons obtain pre q post where "keys = pre @ q # post" "FindCache pick db pre version = None"
      "c \<in> set (candidates db q version) \<and> (\<forall>d \<in> set (candidates db q version). cCreatedAt d \<le> cCreatedAt c)" by auto
    with True show ?thesis by (intro exI [of _ "p # pre"] exI [of _ q] exI [of _ post]) auto
  qed
qed simp

lemma FindCache_None:
  assumes "picks_newest pick" "FindCache pick db keys version = None" "p \<in> set keys" "c \<in> set (dbRows db)"
    "cVersion c = version" "cComplete c"
  shows "\<not> prefix (map lower_char p) (map lower_char (cKey c))"
  using assms(2,3)
proof (induction keys)
  case (Cons q keys)
  note pk = assms(1) [unfolded picks_newest_def, rule_format]
  from Cons.prems(1) have n: "pick (select_like db (Replace likeEscaper q @ ''%'') version) = None"
    "FindCache pick db keys version = None" by (auto split: option.splits)
  then have "select_like db (Replace likeEscaper q @ ''%'') version = []"
    using pk [of "select_like db (Replace likeEscaper q @ ''%'') version"] by simp
  then have "\<not> like (Replace likeEscaper q @ ''%'') (cKey c)"
    using assms(4-6) by (auto simp: select_like_def filter_empty_conv)
  with Cons n(2) show ?case by (auto simp: like_prefix)
qed simp

end
