(* ===== verification/CacheStorage.thy ===== *)
theory CacheStorage
  imports Paths "HOL-Library.List_Lexorder" "HOL-Library.Char_ord"
begin

text \<open>
  The blob store of the cache server, from \<^verbatim>\<open>src/pkg/cache/storage.go\<close>: chunks of an upload go
  to files of a temporary directory, named by their offset; a commit concatenates them in the
  order of the names. A directory is the list of its files in the order \<^verbatim>\<open>os.ReadDir\<close> gives
  them, sorted by name. Failures of the file system are not modelled, but a request body that
  breaks off is.
\<close>

section \<open>Names\<close>

definition filename :: "string \<Rightarrow> nat \<Rightarrow> string" where
  "filename rootDir i = filepath_Join [rootDir, hex_pad 2 (i mod 256), dec_nat i]"

definition tempDir :: "string \<Rightarrow> nat \<Rightarrow> string" where
  "tempDir rootDir i = filepath_Join [rootDir, ''tmp'', dec_nat i]"

text \<open>\<^verbatim>\<open>fmt.Sprintf("%016x", offset)\<close>.\<close>

definition chunk_name :: "int \<Rightarrow> string" where
  "chunk_name offset =
     (if offset < 0 then CHR ''-'' # hex_pad 15 (nat (- offset)) else hex_pad 16 (nat offset))"

definition tempName :: "string \<Rightarrow> nat \<Rightarrow> int \<Rightarrow> string" where
  "tempName rootDir i offset = filepath_Join [tempDir rootDir i, chunk_name offset]"

section \<open>Operations\<close>

type_synonym dir = "(string \<times> string) list"

fun dir_put :: "string \<Rightarrow> string \<Rightarrow> dir \<Rightarrow> dir" where
  "dir_put n c [] = [(n, c)]"
| "dir_put n c ((m, d) # r) =
     (if n = m then (n, c) # r else if n < m then (n, c) # (m, d) # r else (m, d) # dir_put n c r)"

text \<open>Blobs and temporary directories by entry number.\<close>

record Storage =
  stBlobs :: "int \<rightharpoonup> string"
  stTemp :: "int \<rightharpoonup> dir"

definition Exist :: "Storage \<Rightarrow> int \<Rightarrow> bool" where
  "Exist s i = (stBlobs s i \<noteq> None)"

text \<open>
  \<open>body\<close> is what arrived of the request, \<open>whole\<close> whether it arrived completely; a partial body
  stays in the file and the write reports an error.
\<close>

definition Write :: "Storage \<Rightarrow> int \<Rightarrow> int \<Rightarrow> string \<Rightarrow> bool \<Rightarrow> Storage \<times> bool" where
  "Write s i offset body whole =
     (let d = (case stTemp s i of None \<Rightarrow> [] | Some d \<Rightarrow> d)
      in (s\<lparr>stTemp := (stTemp s)(i \<mapsto> dir_put (chunk_name offset) body d)\<rparr>, whole))"

datatype commit_error = NoChunks | BrokenFile int int

definition Commit :: "Storage \<Rightarrow> int \<Rightarrow> int \<Rightarrow> Storage \<times> (commit_error + int)" where
  "Commit s i sz =
     (case stTemp s i of
        None \<Rightarrow> (s, Inl NoChunks)
      | Some d \<Rightarrow>
          let content = concat (map snd d);
              written = int (length content);
              s' = s\<lparr>stTemp := (stTemp s)(i := None)\<rparr>
          in if sz \<ge> 0 \<and> written \<noteq> sz
             then (s'\<lparr>stBlobs := (stBlobs s)(i := None)\<rparr>, Inl (BrokenFile written sz))
             else (s'\<lparr>stBlobs := (stBlobs s)(i \<mapsto> content)\<rparr>, Inr written))"

text \<open>\<open>None\<close> is a response with status 404.\<close>

definition Serve :: "Storage \<Rightarrow> int \<Rightarrow> string option" where
  "Serve s i = stBlobs s i"

definition Remove :: "Storage \<Rightarrow> int \<Rightarrow> Storage" where
  "Remove s i = s\<lparr>stBlobs := (stBlobs s)(i := None), stTemp := (stTemp s)(i := None)\<rparr>"

section \<open>Order of the chunks\<close>

lemma hex_digit_mono: "a < b \<Longrightarrow> b < 16 \<Longrightarrow> hex_digit a < hex_digit b"
  by (auto simp: hex_digit_def less_char_def)

lemma less_append_same_length: "length a = length b \<Longrightarrow> (a :: string) < b \<Longrightarrow> a @ x < b @ y"
proof (induction a b rule: list_induct2)
  case (Cons p ps q qs)
  then show ?case by (cases "p = q") auto
qed simp

lemma less_append_common: "(x :: string) < y \<Longrightarrow> a @ x < a @ y"
  by (induction a) auto

lemma hex_pad_mono: "m < n \<Longrightarrow> n < 16 ^ w \<Longrightarrow> hex_pad w m < hex_pad w n"
proof (induction w arbitrary: m n)
  case (Suc w)
  show ?case
  proof (cases "m div 16 = n div 16")
    case True
    then have "m mod 16 < n mod 16" using Suc.prems(1) by (metis div_mult_mod_eq nat_add_left_cancel_less)
    then have "hex_digit (m mod 16) < hex_digit (n mod 16)" by (intro hex_digit_mono) auto
    then have "[hex_digit (m mod 16)] < [hex_digit (n mod 16)]" by simp
    with True show ?thesis by (simp add: less_append_common)
  next
    case False
    then have "m div 16 < n div 16" using Suc.prems(1) by (simp add: div_le_mono order_less_le)
    moreover have "n div 16 < 16 ^ w" using Suc.prems(2) by (simp add: less_mult_imp_div_less mult.commute)
    ultimately have "hex_pad w (m div 16) < hex_pad w (n div 16)" by (rule Suc.IH)
    then show ?thesis by (simp add: less_append_same_length)
  qed
qed simp

lemma chunk_name_mono: "0 \<le> a \<Longrightarrow> a < b \<Longrightarrow> b < 2 ^ 63 \<Longrightarrow> chunk_name a < chunk_name b"
proof -
  assume ab: "0 \<le> a" "a < b" "b < 2 ^ 63"
  have "(2 :: int) ^ 63 \<le> int (16 ^ 16)" by simp
  with ab have "nat b < 16 ^ 16" by linarith
  with ab show ?thesis by (simp add: chunk_name_def hex_pad_mono)
qed

definition sorted_dir :: "dir \<Rightarrow> bool" where
  "sorted_dir d \<longleftrightarrow> sorted (map fst d) \<and> distinct (map fst d)"

lemma dir_put_fst: "fst ` set (dir_put n c d) = insert n (fst ` set d)"
  by (induction n c d rule: dir_put.induct) auto

lemma dir_put_sorted: "sorted_dir d \<Longrightarrow> sorted_dir (dir_put n c d)"
  unfolding sorted_dir_def
proof (induction n c d rule: dir_put.induct)
  case (2 n c m d r)
  have "fst ` set (dir_put n c r) = insert n (fst ` set r)" by (rule dir_put_fst)
  with 2 show ?case by (auto simp flip: set_map)
qed simp

lemma dir_put_map: "sorted_dir d \<Longrightarrow> map_of (dir_put n c d) = (map_of d)(n \<mapsto> c)"
  unfolding sorted_dir_def
proof (induction n c d rule: dir_put.induct)
  case (2 n c m d r)
  then show ?case by (auto simp: fun_eq_iff)
qed auto

text \<open>A sorted directory is determined by its set of files.\<close>

lemma sorted_dir_unique: "sorted_dir d \<Longrightarrow> sorted_dir e \<Longrightarrow> map_of d = map_of e \<Longrightarrow> d = e"
  unfolding sorted_dir_def
  by (metis distinct_map inj_onI map_of_inject_set map_sorted_distinct_set_unique sup.idem)

section \<open>Uploading in chunks\<close>

text \<open>The chunks of a blob, given by its parts, with their offsets.\<close>

fun chunks_at :: "int \<Rightarrow> string list \<Rightarrow> (int \<times> string) list" where
  "chunks_at o1 [] = []"
| "chunks_at o1 (p # ps) = (o1, p) # chunks_at (o1 + int (length p)) ps"

definition put_all :: "Storage \<Rightarrow> int \<Rightarrow> (int \<times> string) list \<Rightarrow> Storage" where
  "put_all s i ups = foldl (\<lambda>s (off, body). fst (Write s i off body True)) s ups"

lemma chunks_at_snd [simp]: "map snd (chunks_at off ps) = ps"
  by (induction ps arbitrary: off) auto

lemma chunks_at_bounds: "x \<in> set (chunks_at off ps) \<Longrightarrow> off \<le> fst x \<and> fst x \<le> off + int (length (concat ps))"
  by (induction ps arbitrary: off) force+

lemma chunks_sorted:
  assumes "0 \<le> off" "off + int (length (concat ps)) < 2 ^ 63" "[] \<notin> set ps"
  shows "sorted_dir (map (\<lambda>(off, b). (chunk_name off, b)) (chunks_at off ps))"
  using assms
proof (induction ps arbitrary: off)
  case (Cons p ps)
  have "chunk_name off < chunk_name (fst x)" if "x \<in> set (chunks_at (off + int (length p)) ps)" for x
  proof (rule chunk_name_mono)
    show "off < fst x" using chunks_at_bounds [OF that] Cons.prems(3) by (cases p) auto
    show "fst x < 2 ^ 63" using chunks_at_bounds [OF that] Cons.prems(2) by simp
  qed (rule Cons.prems(1))
  then show ?case using Cons by (fastforce simp: sorted_dir_def)
qed (simp add: sorted_dir_def)

lemma put_all_temp:
  assumes "stTemp s i = None"
  shows "\<exists>d. stTemp (put_all s i ups) i = (if ups = [] then None else Some d) \<and> sorted_dir d \<and>
     map_of d = map_of (rev (map (\<lambda>(off, b). (chunk_name off, b)) ups)) \<and> (ups = [] \<longrightarrow> d = [])"
proof (induction ups rule: rev_induct)
  case Nil
  then show ?case using assms by (simp add: put_all_def sorted_dir_def)
next
  case (snoc u ups)
  obtain off b where u: "u = (off, b)" by fastforce
  from snoc obtain d where d: "stTemp (put_all s i ups) i = (if ups = [] then None else Some d)" "sorted_dir d"
    "map_of d = map_of (rev (map (\<lambda>(off, b). (chunk_name off, b)) ups))" "ups = [] \<longrightarrow> d = []" by blast
  then have "(case stTemp (put_all s i ups) i of None \<Rightarrow> [] | Some d \<Rightarrow> d) = d" by simp
  then have "stTemp (put_all s i (ups @ [u])) i = Some (dir_put (chunk_name off) b d)"
    by (simp add: put_all_def u Write_def)
  then show ?case using d(2,3) by (intro exI [of _ "dir_put (chunk_name off) b d"])
    (simp add: dir_put_sorted dir_put_map u)
qed

lemma map_of_same_set:
  assumes "distinct (map fst ys)" "set xs = set ys"
  shows "map_of xs = map_of ys"
proof
  fix k
  show "map_of xs k = map_of ys k"
  proof (cases "map_of xs k")
    case None
    then have "k \<notin> fst ` set ys" using assms(2) by (metis map_of_eq_None_iff)
    with None show ?thesis by (metis map_of_eq_None_iff)
  next
    case (Some v)
    then have "(k, v) \<in> set ys" using assms(2) map_of_SomeD by fast
    with assms(1) Some show ?thesis by simp
  qed
qed

text \<open>
  An upload in chunks is assembled correctly: when the chunks of a blob arrive in any order,
  each at least once, a commit with the blob's size succeeds, and the stored blob is the parts
  in the order of their offsets; the temporary files are gone.
\<close>

theorem commit_assembles:
  assumes "stTemp s i = None" "set ups = set (chunks_at 0 parts)" "parts \<noteq> []" "[] \<notin> set parts"
    and "int (length (concat parts)) < 2 ^ 63"
  shows "snd (Commit (put_all s i ups) i (int (length (concat parts)))) = Inr (int (length (concat parts))) \<and>
    Serve (fst (Commit (put_all s i ups) i (int (length (concat parts))))) i = Some (concat parts) \<and>
    stTemp (fst (Commit (put_all s i ups) i (int (length (concat parts))))) i = None"
proof -
  let ?name = "\<lambda>(off, b). (chunk_name off, b)"
  let ?target = "map ?name (chunks_at 0 parts)"
  have "ups \<noteq> []" using assms(2,3) by (cases parts) auto
  then obtain d where d: "stTemp (put_all s i ups) i = Some d" "sorted_dir d" "map_of d = map_of (rev (map ?name ups))"
    using put_all_temp [OF assms(1), of ups] by auto
  have t: "sorted_dir ?target" using chunks_sorted [of 0 parts] assms(4,5) by simp
  have "map_of d = map_of ?target"
    unfolding d(3) by (rule map_of_same_set) (use t assms(2) in \<open>auto simp: sorted_dir_def image_image\<close>)
  with d(2) t have "d = ?target" by (intro sorted_dir_unique)
  then have "map snd d = parts" using chunks_at_snd [of 0 parts] by (simp add: case_prod_beta comp_def)
  with d(1) show ?thesis by (simp add: Commit_def Serve_def Let_def)
qed

text \<open>
  What a commit accepts: it succeeds exactly when chunks are there and, if the size was
  announced, they add up to it; the size it reports is that of the stored blob; on any failure
  no blob is left that was not there before.
\<close>

theorem commit_checks_size:
  "case Commit s i sz of
     (s', Inr n) \<Rightarrow> (\<exists>d. stTemp s i = Some d \<and> Serve s' i = Some (concat (map snd d))) \<and>
        n = int (length (the (Serve s' i))) \<and> (sz \<ge> 0 \<longrightarrow> n = sz)
   | (s', Inl e) \<Rightarrow> (stTemp s i = None \<or> sz \<ge> 0) \<and> (Serve s' i = None \<or> Serve s' i = Serve s i)"
  by (auto simp: Commit_def Serve_def Let_def split: option.splits if_splits)

theorem commit_assembles_witness:
  "Serve (fst (Commit (put_all \<lparr>stBlobs = Map.empty, stTemp = Map.empty\<rparr> 7
     [(2, ''c''), (0, ''ab''), (2, ''c'')]) 7 3)) 7 = Some ''abc''"
  using commit_assembles [of "\<lparr>stBlobs = Map.empty, stTemp = Map.empty\<rparr>" 7
      "[(2, ''c''), (0, ''ab''), (2, ''c'')]" "[''ab'', ''c'']"]
  by auto

theorem commit_checks_size_witness:
  "snd (Commit \<lparr>stBlobs = Map.empty, stTemp = [7 \<mapsto> [(chunk_name 0, ''ab'')]]\<rparr> 7 2) = Inr 2"
proof -
  let ?s = "\<lparr>stBlobs = Map.empty, stTemp = [7 \<mapsto> [(chunk_name 0, ''ab'')]]\<rparr>"
  have "\<not> isl (snd (Commit ?s 7 2))" by (simp add: Commit_def)
  then show ?thesis using commit_checks_size [of ?s 7 2]
    by (cases "Commit ?s 7 2"; cases "snd (Commit ?s 7 2)") (simp_all split: prod.splits)
qed

end
