(* ===== verification/CacheHandler.thy ===== *)
theory CacheHandler
  imports Systems CacheDB CacheStorage
begin

text \<open>
  The cache server, from \<^verbatim>\<open>src/pkg/cache/handler.go\<close>: the cache protocol on top of the index and
  the blob store, the garbage collection, and the check of action directory names. The clock is
  in nanoseconds. Requests are handled one after the other; the collection that the middleware
  starts behind every request is a call of its own.
\<close>

definition urlBase :: string where "urlBase = ''/_apis/artifactcache''"

record Handler =
  hDir :: string
  hDB :: DB
  hStore :: Storage
  hOutboundIP :: string
  hPort :: int
  hGcAt :: int

definition unix :: "int \<Rightarrow> int" where "unix now = now div Second"

definition ExternalURL :: "Handler \<Rightarrow> string" where
  "ExternalURL h = ''http://'' @ hOutboundIP h @ '':'' @ Itoa (hPort h)"

section \<open>Requests\<close>

text \<open>\<open>Reserve None\<close> is a request body that is not valid JSON.\<close>

datatype Request =
    Find string string                                   \<comment> \<open>the keys parameter, the version\<close>
  | Reserve "(string \<times> string \<times> int) option"
  | Upload string string string bool                     \<comment> \<open>id, Content-Range, body, whole\<close>
  | CommitUpload string
  | Get string
  | CleanAll

datatype Response =
    Status int
  | Hit string string int                                \<comment> \<open>archive location, key, entry\<close>
  | Reserved int
  | Blob string

definition parseContentRange :: "string \<Rightarrow> (int \<times> int) option" where
  "parseContentRange s0 =
     (let s1 = TrimPrefix s0 ''bytes '';
          s = (case Cut CHR ''/'' s1 of Some (a, _) \<Rightarrow> a | None \<Rightarrow> s1);
          (a, b) = (case Cut CHR ''-'' s of Some (a, b) \<Rightarrow> (a, b) | None \<Rightarrow> (s, []))
      in case ParseInt 64 a of
           None \<Rightarrow> None
         | Some start \<Rightarrow> (case ParseInt 64 b of None \<Rightarrow> None | Some stop \<Rightarrow> Some (start, stop)))"

definition handle_find :: "(Cache list \<Rightarrow> Cache option) \<Rightarrow> Handler \<Rightarrow> string \<Rightarrow> string \<Rightarrow> Handler \<times> Response" where
  "handle_find pick h keysParam version =
     (let keys = map ToLower (Split CHR '','' keysParam) in
      case FindCache pick (hDB h) keys version of
        None \<Rightarrow> (h, Status 204)
      | Some c \<Rightarrow>
          if \<not> Exist (hStore h) (cID c) then (h\<lparr>hDB := DeleteCache (hDB h) (cID c)\<rparr>, Status 204)
          else (h, Hit (ExternalURL h @ urlBase @ ''/artifacts/'' @ Itoa (cID c)) (cKey c) (cID c)))"

definition handle_reserve :: "int \<Rightarrow> Handler \<Rightarrow> (string \<times> string \<times> int) option \<Rightarrow> Handler \<times> Response" where
  "handle_reserve now h req =
     (case req of
        None \<Rightarrow> (h, Status 400)
      | Some (key, version, sz) \<Rightarrow>
          (case InsertCache (unix now) (hDB h) (ToLower key) version (if sz = 0 then - 1 else sz) of
             (db, i) \<Rightarrow> (h\<lparr>hDB := db\<rparr>, Reserved i)))"

definition handle_upload :: "int \<Rightarrow> Handler \<Rightarrow> string \<Rightarrow> string \<Rightarrow> string \<Rightarrow> bool \<Rightarrow> Handler \<times> Response" where
  "handle_upload now h idParam rng body whole =
     (case ParseInt 64 idParam of
        None \<Rightarrow> (h, Status 400)
      | Some i \<Rightarrow>
          (case GetCache (hDB h) i of
             None \<Rightarrow> (h, Status 400)
           | Some c \<Rightarrow>
               if cComplete c then (h, Status 400)
               else (case parseContentRange rng of
                       None \<Rightarrow> (h, Status 400)
                     | Some (start, _) \<Rightarrow>
                         (case Write (hStore h) (cID c) start body whole of
                            (s, ok) \<Rightarrow>
                              if \<not> ok then (h\<lparr>hStore := s\<rparr>, Status 500)
                              else (h\<lparr>hStore := s, hDB := TouchCache (unix now) (hDB h) i\<rparr>, Status 200)))))"

definition handle_commit :: "Handler \<Rightarrow> string \<Rightarrow> Handler \<times> Response" where
  "handle_commit h idParam =
     (case ParseInt 64 idParam of
        None \<Rightarrow> (h, Status 400)
      | Some i \<Rightarrow>
          (case GetCache (hDB h) i of
             None \<Rightarrow> (h, Status 400)
           | Some c \<Rightarrow>
               if cComplete c then (h, Status 400)
               else (case Commit (hStore h) (cID c) (cSize c) of
                       (s, Inl _) \<Rightarrow> (h\<lparr>hStore := s\<rparr>, Status 500)
                     | (s, Inr sz) \<Rightarrow> (h\<lparr>hStore := s, hDB := CompleteCache (hDB h) i sz\<rparr>, Status 200))))"

definition handle_get :: "int \<Rightarrow> Handler \<Rightarrow> string \<Rightarrow> Handler \<times> Response" where
  "handle_get now h idParam =
     (case ParseInt 64 idParam of
        None \<Rightarrow> (h, Status 400)
      | Some i \<Rightarrow>
          (h\<lparr>hDB := TouchCache (unix now) (hDB h) i\<rparr>,
           case Serve (hStore h) i of None \<Rightarrow> Status 404 | Some b \<Rightarrow> Blob b))"

fun handle :: "(Cache list \<Rightarrow> Cache option) \<Rightarrow> int \<Rightarrow> Handler \<Rightarrow> Request \<Rightarrow> Handler \<times> Response" where
  "handle pick now h (Find keys version) = handle_find pick h keys version"
| "handle pick now h (Reserve req) = handle_reserve now h req"
| "handle pick now h (Upload i rng body whole) = handle_upload now h i rng body whole"
| "handle pick now h (CommitUpload i) = handle_commit h i"
| "handle pick now h (Get i) = handle_get now h i"
| "handle pick now h CleanAll = (h, Status 200)"

section \<open>Garbage collection\<close>

definition keepUsed :: int where "keepUsed = 30 * 24 * Hour"
definition keepUnused :: int where "keepUnused = 7 * 24 * Hour"
definition keepTemp :: int where "keepTemp = 5 * Minute"
definition keepOld :: int where "keepOld = 5 * Minute"

definition sweep :: "Handler \<Rightarrow> Cache list \<Rightarrow> Handler" where
  "sweep h caches =
     foldl (\<lambda>h c. h\<lparr>hStore := Remove (hStore h) (cID c), hDB := DeleteCache (hDB h) (cID c)\<rparr>) h caches"

definition gcCache :: "int \<Rightarrow> Handler \<Rightarrow> Handler" where
  "gcCache now h =
     (if now - hGcAt h < Hour then h
      else
        let h0 = h\<lparr>hGcAt := now\<rparr>;
            h1 = sweep h0 (FindExpired (hDB h0) (\<lambda>c. cUsedAt c < unix (now - keepTemp) \<and> \<not> cComplete c));
            h2 = sweep h1 (FindExpired (hDB h1) (\<lambda>c. cUsedAt c < unix (now - keepUnused)));
            h3 = sweep h2 (FindExpired (hDB h2) (\<lambda>c. cCreatedAt c < unix (now - keepUsed)))
        in sweep h3 (FindDuplicates (hDB h3) (unix (now - keepOld))))"

datatype cache_call = Serving int Request | Collect int

fun cache_do :: "(Cache list \<Rightarrow> Cache option) \<Rightarrow> Handler \<Rightarrow> cache_call \<Rightarrow> Handler" where
  "cache_do pick h (Serving now req) = fst (handle pick now h req)"
| "cache_do pick h (Collect now) = gcCache now h"

definition empty_cache :: "string \<Rightarrow> string \<Rightarrow> int \<Rightarrow> Handler" where
  "empty_cache dir ip port =
     \<lparr>hDir = dir, hDB = \<lparr>dbRows = [], dbNext = 1\<rparr>, hStore = \<lparr>stBlobs = Map.empty, stTemp = Map.empty\<rparr>,
      hOutboundIP = ip, hPort = port, hGcAt = 0\<rparr>"

text \<open>
  Starting the server. \<open>start_world\<close> is what the machine answers: the home directory, which
  directories can be made, the index and the blobs found on disk, the address of the machine and
  the listener's port. The collection that runs before the listener is opened finds a time
  stamp that was never set.
\<close>

record start_world =
  swHome :: "string option"
  swMkdirAll :: "string \<Rightarrow> bool"
  swOpenDB :: "string \<Rightarrow> DB option"
  swBlobs :: "string \<Rightarrow> Storage"
  swOutboundIP :: "string option"
  swListen :: "16 word \<Rightarrow> int option"
  swNow :: int

datatype start_error = NoHomeDir | DirNotMade string | DBNotOpened | NoOutboundIP | NotListening

definition zeroTime :: int where "zeroTime = - 62135596800 * Second"

definition NewStorage :: "start_world \<Rightarrow> string \<Rightarrow> start_error + Storage" where
  "NewStorage w rootDir = (if swMkdirAll w rootDir then Inr (swBlobs w rootDir) else Inl (DirNotMade rootDir))"

definition StartHandler :: "start_world \<Rightarrow> string \<Rightarrow> string \<Rightarrow> 16 word \<Rightarrow> start_error + Handler" where
  "StartHandler w dir0 ip0 port =
     (case (if dir0 = [] then map_option (\<lambda>home. filepath_Join [home, ''.cache'', ''actcache'']) (swHome w) else Some dir0) of
        None \<Rightarrow> Inl NoHomeDir
      | Some dir \<Rightarrow>
          if \<not> swMkdirAll w dir then Inl (DirNotMade dir)
          else case swOpenDB w (filepath_Join [dir, ''cache.db'']) of
            None \<Rightarrow> Inl DBNotOpened
          | Some db \<Rightarrow>
              (case NewStorage w (filepath_Join [dir, ''cache'']) of
                 Inl e \<Rightarrow> Inl e
               | Inr store \<Rightarrow>
                   (case (if ip0 = [] then swOutboundIP w else Some ip0) of
                      None \<Rightarrow> Inl NoOutboundIP
                    | Some ip \<Rightarrow>
                        (case swListen w port of
                           None \<Rightarrow> Inl NotListening
                         | Some p \<Rightarrow> Inr (gcCache (swNow w)
                             \<lparr>hDir = dir, hDB = db, hStore = store, hOutboundIP = ip, hPort = p, hGcAt = zeroTime\<rparr>)))))"

section \<open>Action directories\<close>

definition safe_char :: "char \<Rightarrow> bool" where
  "safe_char c = (char_in 97 122 c \<or> char_in 65 90 c \<or> char_in 48 57 c \<or> c = CHR ''-'' \<or> c = CHR ''_'')"

definition isSafeActionDir :: "string \<Rightarrow> bool" where
  "isSafeActionDir s = (s \<noteq> [] \<and> list_all safe_char s)"

text \<open>The directory whose archive \<^verbatim>\<open>serveAction\<close> sends; \<open>None\<close> is the response 400.\<close>

definition serveAction_path :: "Handler \<Rightarrow> string \<Rightarrow> string option" where
  "serveAction_path h dir =
     (if isSafeActionDir dir then Some (filepath_Join [hDir h, ''actions-repo-cache'', dir]) else None)"

section \<open>Consistency of index and store\<close>

definition row_ok :: "Storage \<Rightarrow> Cache \<Rightarrow> bool" where
  "row_ok s c \<longleftrightarrow>
     (if cComplete c then (\<exists>b. stBlobs s (cID c) = Some b \<and> cSize c = int (length b)) else stBlobs s (cID c) = None) \<and>
     map lower_char (cKey c) = cKey c"

definition cache_inv :: "Handler \<Rightarrow> bool" where
  "cache_inv h \<longleftrightarrow>
     distinct (map cID (dbRows (hDB h))) \<and>
     (\<forall>c \<in> set (dbRows (hDB h)). 0 < cID c \<and> cID c < dbNext (hDB h) \<and> row_ok (hStore h) c) \<and>
     0 < dbNext (hDB h) \<and>
     (\<forall>i. stBlobs (hStore h) i \<noteq> None \<or> stTemp (hStore h) i \<noteq> None \<longrightarrow> (\<exists>c \<in> set (dbRows (hDB h)). cID c = i))"

lemma cache_inv_start: "cache_inv (empty_cache dir ip port)"
  by (simp add: cache_inv_def empty_cache_def)

lemma GetCache_SomeD: "GetCache db i = Some c \<Longrightarrow> c \<in> set (dbRows db) \<and> cID c = i"
  by (auto simp: GetCache_def dest: find_SomeD)

lemma distinct_cID: "distinct (map cID rows) \<Longrightarrow> c \<in> set rows \<Longrightarrow> d \<in> set rows \<Longrightarrow> cID c = cID d \<Longrightarrow> c = d"
  by (auto simp: distinct_map dest: inj_onD)

text \<open>The invariant on its parts: rows, next number, store.\<close>

definition consistent :: "Cache list \<Rightarrow> int \<Rightarrow> Storage \<Rightarrow> bool" where
  "consistent rows next s \<longleftrightarrow>
     distinct (map cID rows) \<and> (\<forall>c \<in> set rows. 0 < cID c \<and> cID c < next \<and> row_ok s c) \<and> 0 < next \<and>
     (\<forall>i. stBlobs s i \<noteq> None \<or> stTemp s i \<noteq> None \<longrightarrow> i \<in> cID ` set rows)"

lemma cache_inv_consistent: "cache_inv h \<longleftrightarrow> consistent (dbRows (hDB h)) (dbNext (hDB h)) (hStore h)"
  by (auto simp: cache_inv_def consistent_def image_iff)

lemma consistent_map:
  assumes "consistent rows n s" "\<And>c. c \<in> set rows \<Longrightarrow> cID (f c) = cID c \<and> row_ok s' (f c)"
    and "\<And>i. stBlobs s' i \<noteq> None \<or> stTemp s' i \<noteq> None \<Longrightarrow> i \<in> cID ` set rows"
  shows "consistent (map f rows) n s'"
proof -
  have "map cID (map f rows) = map cID rows" using assms(2) by simp
  moreover from this have "cID ` set (map f rows) = cID ` set rows" by (metis set_map)
  ultimately show ?thesis using assms by (auto simp: consistent_def simp del: map_map)
qed

lemma consistent_touch:
  "consistent rows n s \<Longrightarrow> consistent (map (\<lambda>c. if cID c = i then c\<lparr>cUsedAt := t\<rparr> else c) rows) n s"
  by (rule consistent_map) (auto simp: consistent_def row_ok_def)

lemma consistent_delete:
  "consistent rows n s \<Longrightarrow> consistent (filter (\<lambda>c. cID c \<noteq> i) rows) n (Remove s i)"
  by (auto simp: consistent_def Remove_def row_ok_def distinct_map_filter)

lemma consistent_insert:
  assumes "consistent rows n s" "cID c = n" "\<not> cComplete c" "map lower_char (cKey c) = cKey c"
  shows "consistent (rows @ [c]) (n + 1) s"
proof -
  have "stBlobs s n = None" "n \<notin> cID ` set rows" using assms(1) by (force simp: consistent_def)+
  with assms show ?thesis by (auto simp: consistent_def row_ok_def)
qed

lemma consistent_write:
  assumes "consistent rows n s" "i \<in> cID ` set rows"
  shows "consistent rows n (fst (Write s i off body whole))"
  using assms by (auto simp: consistent_def Write_def row_ok_def)

lemma Commit_other: "j \<noteq> i \<Longrightarrow> stBlobs (fst (Commit s i sz)) j = stBlobs s j \<and> stTemp (fst (Commit s i sz)) j = stTemp s j"
  by (auto simp: Commit_def Let_def split: option.splits)

lemma consistent_commit:
  assumes inv: "consistent rows n s" and c: "c \<in> set rows" "\<not> cComplete c"
  shows "case Commit s (cID c) (cSize c) of
     (s', Inr sz) \<Rightarrow> consistent (map (\<lambda>d. if cID d = cID c then d\<lparr>cComplete := True, cSize := sz\<rparr> else d) rows) n s'
   | (s', Inl _) \<Rightarrow> consistent rows n s'"
proof -
  obtain s' r where cm: "Commit s (cID c) (cSize c) = (s', r)" by fastforce
  have other: "j \<noteq> cID c \<Longrightarrow> stBlobs s' j = stBlobs s j \<and> stTemp s' j = stTemp s j" for j
    using Commit_other [of j "cID c" s "cSize c"] cm by simp
  have dom: "i \<in> cID ` set rows" if "stBlobs s' i \<noteq> None \<or> stTemp s' i \<noteq> None" for i
    using that inv c(1) other [of i] by (cases "i = cID c") (auto simp: consistent_def)
  have same: "d = c" if "d \<in> set rows" "cID d = cID c" for d
    using inv c(1) that by (auto simp: consistent_def intro: distinct_cID)
  have row: "row_ok s c" "stBlobs s (cID c) = None" using inv c by (auto simp: consistent_def row_ok_def)
  show ?thesis
  proof (cases r)
    case (Inl e)
    then have "stBlobs s' (cID c) = None" using cm row by (auto simp: Commit_def Let_def split: option.splits if_splits)
    then have "row_ok s' d" if "d \<in> set rows" for d
      using that inv c(2) same [of d] other [of "cID d"] row
      by (cases "cID d = cID c") (auto simp: consistent_def row_ok_def)
    then have "consistent (map (\<lambda>d. d) rows) n s'" by (intro consistent_map [OF inv]) (use dom in auto)
    with Inl cm show ?thesis by simp
  next
    case (Inr sz)
    then have b: "stBlobs s' (cID c) \<noteq> None" "sz = int (length (the (stBlobs s' (cID c))))"
      using cm by (auto simp: Commit_def Let_def split: option.splits if_splits)
    have "row_ok s' (if cID d = cID c then d\<lparr>cComplete := True, cSize := sz\<rparr> else d)" if "d \<in> set rows" for d
      using that inv same [of d] other [of "cID d"] row b
      by (cases "cID d = cID c") (auto simp: consistent_def row_ok_def)
    then have "consistent (map (\<lambda>d. if cID d = cID c then d\<lparr>cComplete := True, cSize := sz\<rparr> else d) rows) n s'"
      by (intro consistent_map [OF inv]) (use dom in auto)
    with Inr cm show ?thesis by simp
  qed
qed

lemma ToLower_lower: "map lower_char (ToLower s) = ToLower s"
  by (simp add: ToLower_def comp_def)

lemma cache_inv_find: "cache_inv h \<Longrightarrow> picks_newest pick \<Longrightarrow> fst (handle_find pick h keys version) = h"
proof -
  assume inv: "cache_inv h" and pick: "picks_newest pick"
  show ?thesis
  proof (cases "FindCache pick (hDB h) (map ToLower (Split CHR '','' keys)) version")
    case (Some c)
    from FindCache_Some [OF pick Some] have "c \<in> set (dbRows (hDB h))" "cComplete c"
      using candidates_rows by blast+
    moreover from this inv have "row_ok (hStore h) c" by (simp add: cache_inv_def)
    ultimately have "Exist (hStore h) (cID c)" by (auto simp: row_ok_def Exist_def)
    with Some show ?thesis by (simp add: handle_find_def)
  qed (simp add: handle_find_def)
qed

lemma cache_inv_handle: "cache_inv h \<Longrightarrow> picks_newest pick \<Longrightarrow> cache_inv (fst (handle pick now h req))"
proof (cases req)
  case (Find keys version)
  assume "cache_inv h" "picks_newest pick"
  with Find show ?thesis by (simp add: cache_inv_find)
next
  case (Reserve r)
  assume "cache_inv h"
  with Reserve show ?thesis
    by (auto simp: handle_reserve_def InsertCache_def cache_inv_consistent ToLower_lower
        intro: consistent_insert split: option.splits)
next
  case (Upload i rng body whole)
  assume inv: "cache_inv h"
  show ?thesis
  proof (cases "fst (handle_upload now h i rng body whole) = h")
    case False
    then obtain j c st where "GetCache (hDB h) j = Some c"
      "fst (handle_upload now h i rng body whole) =
        (if whole then h\<lparr>hStore := fst (Write (hStore h) (cID c) st body whole), hDB := TouchCache (unix now) (hDB h) j\<rparr>
         else h\<lparr>hStore := fst (Write (hStore h) (cID c) st body whole)\<rparr>)"
      by (auto simp: handle_upload_def Write_def split: option.splits if_splits)
    with inv Upload show ?thesis
      by (auto simp: cache_inv_consistent TouchCache_def dest!: GetCache_SomeD intro!: consistent_touch consistent_write)
  qed (use inv Upload in simp)
next
  case (CommitUpload i)
  assume inv: "cache_inv h"
  show ?thesis
  proof (cases "fst (handle_commit h i) = h")
    case False
    then obtain j c where c: "GetCache (hDB h) j = Some c" "\<not> cComplete c"
      "fst (handle_commit h i) =
        (case Commit (hStore h) (cID c) (cSize c) of
           (s, Inl _) \<Rightarrow> h\<lparr>hStore := s\<rparr>
         | (s, Inr sz) \<Rightarrow> h\<lparr>hStore := s, hDB := CompleteCache (hDB h) j sz\<rparr>)"
      by (auto simp: handle_commit_def split: option.splits if_splits sum.splits prod.splits)
    with inv CommitUpload GetCache_SomeD [OF c(1)]
      consistent_commit [of "dbRows (hDB h)" "dbNext (hDB h)" "hStore h" c] show ?thesis
      by (auto simp: cache_inv_consistent CompleteCache_def split: sum.splits prod.splits)
  qed (use inv CommitUpload in simp)
next
  case (Get i)
  assume "cache_inv h"
  with Get show ?thesis
    by (auto simp: handle_get_def TouchCache_def cache_inv_consistent intro: consistent_touch split: option.splits)
qed simp

lemma cache_inv_sweep: "cache_inv h \<Longrightarrow> cache_inv (sweep h cs)"
  unfolding sweep_def
  by (induction cs arbitrary: h) (simp_all add: cache_inv_consistent DeleteCache_def consistent_delete)

lemma cache_inv_gc: "cache_inv h \<Longrightarrow> cache_inv (gcCache now h)"
proof -
  assume inv: "cache_inv h"
  then have "cache_inv (h\<lparr>hGcAt := now\<rparr>)" by (simp add: cache_inv_consistent)
  with inv show ?thesis by (simp add: gcCache_def Let_def cache_inv_sweep)
qed

lemma cache_inv_call: "cache_inv h \<Longrightarrow> picks_newest pick \<Longrightarrow> cache_inv (cache_do pick h c)"
  by (cases c) (simp_all add: cache_inv_handle cache_inv_gc)

text \<open>
  A server started on the files another one left finds them consistent if that one left them so.
\<close>

lemma cache_inv_restart:
  assumes "StartHandler w dir ip port = Inr h"
    and "\<And>d db. swOpenDB w (filepath_Join [d, ''cache.db'']) = Some db \<Longrightarrow>
      consistent (dbRows db) (dbNext db) (swBlobs w (filepath_Join [d, ''cache'']))"
  shows "cache_inv h"
proof -
  have i: "cache_inv \<lparr>hDir = d, hDB = db, hStore = swBlobs w (filepath_Join [d, ''cache'']), hOutboundIP = a, hPort = p, hGcAt = g\<rparr>"
    if "swOpenDB w (filepath_Join [d, ''cache.db'']) = Some db" for d db a p g
    using assms(2) [OF that] by (simp add: cache_inv_consistent)
  show ?thesis using assms(1) by (auto simp: StartHandler_def NewStorage_def intro!: cache_inv_gc i
    split: option.splits if_splits sum.splits)
qed

interpretation caching: object_invariant "cache_do pick" "\<lambda>_ _. picks_newest pick" cache_inv for pick
  by unfold_locales (rule cache_inv_call)

end
