(* ===== verification/CacheProps.thy ===== *)
theory CacheProps
  imports CacheHandler
begin

text \<open>
  What the cache server guarantees to its clients: what a hit means, that what was stored is what
  is served, which entries the garbage collection removes, and which directories it serves.
\<close>

section \<open>Hits\<close>

lemma select_like_plain:
  assumes "cache_inv h" "map lower_char p = p"
  shows "set (select_like (hDB h) (Replace likeEscaper p @ ''%'') version)
    = {c \<in> set (dbRows (hDB h)). prefix p (cKey c) \<and> cVersion c = version \<and> cComplete c}"
  using assms by (auto simp: select_like_def like_prefix cache_inv_def row_ok_def)

text \<open>
  The rows a requested key may resolve to, in words: complete rows of the version whose key is
  the requested one if there are any, else those whose key starts with it.
\<close>

definition eligible :: "Cache list \<Rightarrow> string \<Rightarrow> string \<Rightarrow> Cache \<Rightarrow> bool" where
  "eligible rows p version c \<longleftrightarrow> c \<in> set rows \<and> cVersion c = version \<and> cComplete c \<and>
     (if \<exists>d \<in> set rows. cKey d = p \<and> cVersion d = version \<and> cComplete d then cKey c = p else prefix p (cKey c))"

lemma candidates_eligible:
  assumes "cache_inv h" "map lower_char p = p"
  shows "c \<in> set (candidates (hDB h) p version) \<longleftrightarrow> eligible (dbRows (hDB h)) p version c"
  using select_like_plain [OF assms, of version]
  by (auto simp: candidates_def eligible_def select_exact_def filter_empty_conv)

lemma run_cache_inv:
  assumes "picks_newest pick"
  shows "cache_inv (run_calls (cache_do pick) (empty_cache dir ip port) cs)"
  by (rule caching.run_calls_inv [OF cache_inv_start]) (simp add: assms)

lemma find_hit:
  assumes inv: "cache_inv h" and pick: "picks_newest pick"
    and hit: "handle_find pick h keysParam version = (h', Hit url key i)"
  shows "h' = h \<and> url = ExternalURL h @ urlBase @ ''/artifacts/'' @ Itoa i \<and>
    (\<exists>c pre p post. map ToLower (Split CHR '','' keysParam) = pre @ p # post \<and>
       (\<forall>q \<in> set pre. \<not> (\<exists>d. eligible (dbRows (hDB h)) q version d)) \<and>
       eligible (dbRows (hDB h)) p version c \<and> (\<forall>d. eligible (dbRows (hDB h)) p version d \<longrightarrow> cCreatedAt d \<le> cCreatedAt c) \<and>
       cID c = i \<and> cKey c = key)"
proof -
  let ?keys = "map ToLower (Split CHR '','' keysParam)"
  obtain c where c: "FindCache pick (hDB h) ?keys version = Some c" "h' = h" "cID c = i" "cKey c = key"
    "url = ExternalURL h @ urlBase @ ''/artifacts/'' @ Itoa i"
    using hit cache_inv_find [OF inv pick, of keysParam version]
    by (auto simp: handle_find_def split: option.splits if_splits)
  obtain pre p post where p: "?keys = pre @ p # post" "FindCache pick (hDB h) pre version = None"
    "c \<in> set (candidates (hDB h) p version)" "\<forall>d \<in> set (candidates (hDB h) p version). cCreatedAt d \<le> cCreatedAt c"
    using FindCache_Some [OF pick c(1)] by blast
  have low: "map lower_char q = q" if "q \<in> set ?keys" for q
    using that by (auto simp: ToLower_lower)
  note el = candidates_eligible [OF inv low, of _ _ version]
  have "\<not> eligible (dbRows (hDB h)) q version d" if q: "q \<in> set pre" for q d
  proof
    assume e: "eligible (dbRows (hDB h)) q version d"
    then have "prefix q (cKey d)" by (auto simp: eligible_def split: if_splits)
    then have "prefix (map lower_char q) (map lower_char (cKey d))" by (rule map_mono_prefix)
    with FindCache_None [OF pick p(2) q] e show False by (auto simp: eligible_def)
  qed
  moreover have "p \<in> set ?keys" using p(1) by simp
  ultimately show ?thesis using c p el [of p] by blast
qed

text \<open>
  C18: What a hit is: in every state the server can reach, a reported hit is a complete entry of
  the requested version, for the first requested key that has any; entries with exactly that
  key come before entries that start with it, and among them a newest one is taken. The
  location it reports serves the stored blob, whose length is the recorded size.
\<close>

theorem cache_hit_sound:
  assumes "picks_newest pick" "h = run_calls (cache_do pick) (empty_cache dir ip port) cs"
    and "handle pick now h (Find keysParam version) = (h', Hit url key i)" "i < 2 ^ 63"
  shows "\<exists>c pre p post b. map ToLower (Split CHR '','' keysParam) = pre @ p # post \<and>
     (\<forall>q \<in> set pre. \<not> (\<exists>d. eligible (dbRows (hDB h)) q version d)) \<and>
     eligible (dbRows (hDB h)) p version c \<and> (\<forall>d. eligible (dbRows (hDB h)) p version d \<longrightarrow> cCreatedAt d \<le> cCreatedAt c) \<and>
     cID c = i \<and> cKey c = key \<and> cSize c = int (length b) \<and>
     url = ExternalURL h @ urlBase @ ''/artifacts/'' @ Itoa i \<and>
     snd (handle pick later h' (Get (Itoa i))) = Blob b"
proof -
  have inv: "cache_inv h" unfolding assms(2) by (rule run_cache_inv [OF assms(1)])
  have "handle_find pick h keysParam version = (h', Hit url key i)" using assms(3) by simp
  note f = find_hit [OF inv assms(1) this]
  then obtain c pre p post where c: "map ToLower (Split CHR '','' keysParam) = pre @ p # post"
    "\<forall>q \<in> set pre. \<not> (\<exists>d. eligible (dbRows (hDB h)) q version d)" "eligible (dbRows (hDB h)) p version c"
    "\<forall>d. eligible (dbRows (hDB h)) p version d \<longrightarrow> cCreatedAt d \<le> cCreatedAt c" "cID c = i" "cKey c = key" by blast
  have "c \<in> set (dbRows (hDB h))" "cComplete c" using c(3) by (auto simp: eligible_def)
  then obtain b where b: "stBlobs (hStore h) i = Some b" "cSize c = int (length b)" "0 < i"
    using inv c(5) unfolding cache_inv_def row_ok_def by (metis (no_types, lifting))
  have "snd (handle pick later h' (Get (Itoa i))) = Blob b"
    using f b assms(4) by (simp add: handle_get_def ParseInt_Itoa Serve_def)
  with c b f show ?thesis by blast
qed

section \<open>Storing and serving\<close>

text \<open>The header of an uploaded chunk.\<close>

definition content_range :: "int \<Rightarrow> string \<Rightarrow> string" where
  "content_range off body = ''bytes '' @ Itoa off @ ''-'' @ Itoa (off + int (length body) - 1) @ ''/*''"

lemma parse_content_range:
  assumes "0 \<le> off" "body \<noteq> []" "off + int (length body) < 2 ^ 63"
  shows "parseContentRange (content_range off body) = Some (off, off + int (length body) - 1)"
proof -
  have ge: "1 \<le> int (length body)" using assms(2) by (cases body) auto
  let ?e = "off + int (length body) - 1"
  have no: "c \<notin> set (Itoa off)" "c \<notin> set (Itoa ?e)" if "\<not> is_digit c" for c
    using dec_nat_no [OF that] assms(1) ge by (auto simp: Itoa_def)
  have "Cut CHR ''/'' (Itoa off @ ''-'' @ Itoa ?e @ ''/*'') = Some (Itoa off @ ''-'' @ Itoa ?e, ''*'')"
    using no [of "CHR ''/''"] by (simp add: Cut_Some_iff is_digit_def char_in_def)
  moreover have "Cut CHR ''-'' (Itoa off @ ''-'' @ Itoa ?e) = Some (Itoa off, Itoa ?e)"
    using no [of "CHR ''-''"] by (simp add: Cut_Some_iff is_digit_def char_in_def)
  moreover have "ParseInt 64 (Itoa off) = Some off" "ParseInt 64 (Itoa ?e) = Some ?e"
    using assms ge by (intro ParseInt_Itoa; simp)+
  ultimately show ?thesis
    by (simp add: parseContentRange_def content_range_def TrimPrefix_def HasPrefix_def)
qed

text \<open>Uploading chunks, each with its clock value.\<close>

definition upload_all :: "(Cache list \<Rightarrow> Cache option) \<Rightarrow> int \<Rightarrow> Handler \<Rightarrow> (int \<times> int \<times> string) list \<Rightarrow> Handler" where
  "upload_all pick i h ups =
     foldl (\<lambda>h (now, off, body). fst (handle pick now h (Upload (Itoa i) (content_range off body) body True))) h ups"

definition touched :: "int \<Rightarrow> Cache \<Rightarrow> Cache \<Rightarrow> bool" where
  "touched i c d \<longleftrightarrow> (\<exists>t. d = (if cID c = i then c\<lparr>cUsedAt := t\<rparr> else c))"

lemma upload_step:
  assumes "GetCache (hDB h) i = Some c" "\<not> cComplete c" "0 \<le> i" "i < 2 ^ 63"
    and "0 \<le> off" "body \<noteq> []" "off + int (length body) < 2 ^ 63"
  shows "handle pick now h (Upload (Itoa i) (content_range off body) body True) =
    (h\<lparr>hStore := fst (Write (hStore h) i off body True), hDB := TouchCache (unix now) (hDB h) i\<rparr>, Status 200)"
  using assms(1,2) ParseInt_Itoa [OF assms(3,4)] parse_content_range [OF assms(5-7)] GetCache_SomeD [OF assms(1)]
  by (simp add: handle_upload_def Write_def)

lemma GetCache_map:
  "(\<And>c. cID (f c) = cID c) \<Longrightarrow> find (\<lambda>c. cID c = i) (map f rows) = map_option f (find (\<lambda>c. cID c = i) rows)"
  by (induction rows) auto

lemma upload_all_state:
  assumes "GetCache (hDB h) i = Some c" "\<not> cComplete c" "0 \<le> i" "i < 2 ^ 63"
    and "\<forall>(now, off, body) \<in> set ups. 0 \<le> off \<and> body \<noteq> [] \<and> off + int (length body) < 2 ^ 63"
  shows "\<exists>f. (\<forall>d. touched i d (f d)) \<and> hDB (upload_all pick i h ups) = (hDB h)\<lparr>dbRows := map f (dbRows (hDB h))\<rparr> \<and>
    hStore (upload_all pick i h ups) = put_all (hStore h) i (map snd ups)"
  using assms(5)
proof (induction ups rule: rev_induct)
  case Nil
  have "touched i d d" for d unfolding touched_def by (intro exI [of _ "cUsedAt d"]) simp
  then show ?case by (intro exI [of _ id]) (simp add: upload_all_def put_all_def)
next
  case (snoc u ups)
  obtain now off body where u: "u = (now, off, body)" by (cases u)
  from snoc obtain f where f: "\<forall>d. touched i d (f d)"
    "hDB (upload_all pick i h ups) = (hDB h)\<lparr>dbRows := map f (dbRows (hDB h))\<rparr>"
    "hStore (upload_all pick i h ups) = put_all (hStore h) i (map snd ups)" by auto
  have fid: "cID (f d) = cID d" "cComplete (f d) = cComplete d" for d
    using f(1) [rule_format, of d] by (auto simp: touched_def split: if_splits)
  have g: "GetCache (hDB (upload_all pick i h ups)) i = Some (f c)"
    using assms(1) GetCache_map [of f i "dbRows (hDB h)"] fid by (simp add: f(2) GetCache_def)
  have fc: "\<not> cComplete (f c)" "0 \<le> off" "body \<noteq> []" "off + int (length body) < 2 ^ 63"
    using fid assms(2) snoc.prems u by auto
  let ?h = "upload_all pick i h ups"
  have "upload_all pick i h (ups @ [u]) = fst (handle pick now ?h (Upload (Itoa i) (content_range off body) body True))"
    by (simp add: upload_all_def u del: handle.simps)
  then have e: "upload_all pick i h (ups @ [u])
      = ?h\<lparr>hStore := fst (Write (hStore ?h) i off body True), hDB := TouchCache (unix now) (hDB ?h) i\<rparr>"
    unfolding upload_step [OF g fc(1) assms(3,4) fc(2-4)] by simp
  let ?f = "\<lambda>d. if cID (f d) = i then (f d)\<lparr>cUsedAt := unix now\<rparr> else f d"
  have "touched i d (?f d)" for d
  proof -
    obtain t where "f d = (if cID d = i then d\<lparr>cUsedAt := t\<rparr> else d)" using f(1) by (auto simp: touched_def)
    then show ?thesis unfolding touched_def by (intro exI [of _ "unix now"]) (cases "cID d = i"; simp)
  qed
  moreover have "hDB (upload_all pick i h (ups @ [u])) = (hDB h)\<lparr>dbRows := map ?f (dbRows (hDB h))\<rparr>"
    unfolding e by (simp add: f(2) TouchCache_def comp_def)
  moreover have "hStore (upload_all pick i h (ups @ [u])) = put_all (hStore h) i (map snd (ups @ [u]))"
    unfolding e by (simp add: f(3) put_all_def u)
  ultimately show ?case by (intro exI [of _ ?f]) blast
qed

lemma chunk_bounds: "(off, body) \<in> set (chunks_at o1 ps) \<Longrightarrow>
    o1 \<le> off \<and> off + int (length body) \<le> o1 + int (length (concat ps)) \<and> body \<in> set ps"
  by (induction ps arbitrary: o1) force+

lemma upload_all_inv: "cache_inv h \<Longrightarrow> picks_newest pick \<Longrightarrow> cache_inv (upload_all pick i h ups)"
  unfolding upload_all_def
  by (induction ups arbitrary: h) (auto intro!: cache_inv_handle simp del: handle.simps)

lemma eligible_exact:
  assumes "c \<in> set rows" "cKey c = key" "cVersion c = version" "cComplete c"
  shows "eligible rows key version d \<longleftrightarrow> d \<in> set rows \<and> cKey d = key \<and> cVersion d = version \<and> cComplete d"
  using assms by (auto simp: eligible_def)

lemma find_newest:
  assumes inv: "cache_inv h" and pick: "picks_newest pick" and key: "CHR '','' \<notin> set key"
    and c: "c \<in> set (dbRows (hDB h))" "cKey c = ToLower key" "cVersion c = version" "cComplete c"
    and newest: "\<And>d. d \<in> set (dbRows (hDB h)) \<Longrightarrow> cKey d = ToLower key \<Longrightarrow> cVersion d = version \<Longrightarrow> cComplete d \<Longrightarrow>
      d \<noteq> c \<Longrightarrow> cCreatedAt d < cCreatedAt c"
  shows "handle_find pick h key version
    = (h, Hit (ExternalURL h @ urlBase @ ''/artifacts/'' @ Itoa (cID c)) (ToLower key) (cID c))"
proof -
  have keys: "map ToLower (Split CHR '','' key) = [ToLower key]" using key by (simp add: Split_single)
  have sel: "c \<in> set (select_exact (hDB h) (ToLower key) version)" using c by (simp add: select_exact_def)
  then obtain d where d: "pick (select_exact (hDB h) (ToLower key) version) = Some d"
    "d \<in> set (select_exact (hDB h) (ToLower key) version)" "cCreatedAt c \<le> cCreatedAt d"
    using pick [unfolded picks_newest_def, rule_format, of "select_exact (hDB h) (ToLower key) version"]
    by (auto split: option.splits)
  from d(2,3) have "d = c" using newest [of d] by (auto simp: select_exact_def)
  moreover have "row_ok (hStore h) c" using inv c(1) by (simp add: cache_inv_def)
  then have "Exist (hStore h) (cID c)" using c(4) by (auto simp: row_ok_def Exist_def)
  ultimately show ?thesis using d(1) keys c by (simp add: handle_find_def)
qed

lemma reserve_state:
  "handle pick now h (Reserve (Some (key, version, sz))) =
    (h\<lparr>hDB := (hDB h)\<lparr>dbRows := dbRows (hDB h) @ [\<lparr>cID = dbNext (hDB h), cKey = ToLower key, cVersion = version,
        cSize = (if sz = 0 then - 1 else sz), cComplete = False, cUsedAt = unix now, cCreatedAt = unix now\<rparr>],
      dbNext := dbNext (hDB h) + 1\<rparr>\<rparr>, Reserved (dbNext (hDB h)))"
  by (simp add: handle_reserve_def InsertCache_def)

text \<open>A row after its entry was touched and completed.\<close>

definition completed :: "int \<Rightarrow> int \<Rightarrow> Cache \<Rightarrow> Cache \<Rightarrow> bool" where
  "completed i n c d \<longleftrightarrow> (\<exists>t. d = (if cID c = i then c\<lparr>cUsedAt := t, cComplete := True, cSize := n\<rparr> else c))"

lemma commit_uploaded:
  assumes g: "GetCache (hDB h) i = Some c" "\<not> cComplete c" "cSize c = int (length (concat parts))"
    and temp: "stTemp (hStore h) i = None" and i: "0 \<le> i" "i < 2 ^ 63"
    and parts: "parts \<noteq> []" "[] \<notin> set parts" "int (length (concat parts)) < 2 ^ 63"
    and ups: "set (map snd ups) = set (chunks_at 0 parts)"
  shows "\<exists>h3 f. handle pick t (upload_all pick i h ups) (CommitUpload (Itoa i)) = (h3, Status 200) \<and>
    stBlobs (hStore h3) i = Some (concat parts) \<and> dbRows (hDB h3) = map f (dbRows (hDB h)) \<and>
    (\<forall>d. completed i (int (length (concat parts))) d (f d))"
proof -
  let ?n = "int (length (concat parts))" and ?h = "upload_all pick i h ups"
  have bounds: "\<forall>(now, off, body) \<in> set ups. 0 \<le> off \<and> body \<noteq> [] \<and> off + int (length body) < 2 ^ 63"
  proof (clarify)
    fix now off body assume "(now, off, body) \<in> set ups"
    then have "(off, body) \<in> set (chunks_at 0 parts)" using ups by force
    from chunk_bounds [OF this] parts(2,3) show "0 \<le> off \<and> body \<noteq> [] \<and> off + int (length body) < 2 ^ 63" by auto
  qed
  obtain f where f: "\<forall>d. touched i d (f d)" "hDB ?h = (hDB h)\<lparr>dbRows := map f (dbRows (hDB h))\<rparr>"
    "hStore ?h = put_all (hStore h) i (map snd ups)"
    using upload_all_state [OF g(1,2) i bounds, of pick] by blast
  have fid: "cID (f d) = cID d" "cComplete (f d) = cComplete d" "cSize (f d) = cSize d" for d
    using f(1) [rule_format, of d] by (auto simp: touched_def split: if_splits)
  have g': "GetCache (hDB ?h) i = Some (f c)"
    using g(1) GetCache_map [of f i "dbRows (hDB h)"] fid by (simp add: f(2) GetCache_def)
  have ci: "cID c = i" using GetCache_SomeD [OF g(1)] by simp
  obtain s where s: "Commit (hStore ?h) i ?n = (s, Inr ?n)" "stBlobs s i = Some (concat parts)"
    using commit_assembles [OF temp ups parts] unfolding f(3) Serve_def by (metis prod.collapse)
  let ?g = "\<lambda>d. if cID (f d) = i then (f d)\<lparr>cComplete := True, cSize := ?n\<rparr> else f d"
  have "handle pick t ?h (CommitUpload (Itoa i)) = (?h\<lparr>hStore := s, hDB := CompleteCache (hDB ?h) i ?n\<rparr>, Status 200)"
    using ParseInt_Itoa [OF i] g' g(2,3) fid ci s(1) by (simp add: handle_commit_def)
  moreover have "dbRows (CompleteCache (hDB ?h) i ?n) = map ?g (dbRows (hDB h))"
    by (simp add: CompleteCache_def f(2) comp_def)
  moreover have "completed i ?n d (?g d)" for d
  proof -
    obtain t where "f d = (if cID d = i then d\<lparr>cUsedAt := t\<rparr> else d)" using f(1) by (auto simp: touched_def)
    then show ?thesis unfolding completed_def by (intro exI [of _ t]) (cases "cID d = i"; simp)
  qed
  ultimately show ?thesis using s(2) by (intro exI conjI) auto
qed

text \<open>
  C9: What was stored is what is served: from any reachable state, reserving an entry, uploading
  the chunks of a blob (in any order, chunks possibly repeated) and committing succeeds; a
  search for the key then reports this entry, unless another complete entry with the same key
  and version is at least as new, and fetching the reported entry yields the blob.
\<close>

theorem cache_roundtrip:
  assumes pick: "picks_newest pick" and h: "h = run_calls (cache_do pick) (empty_cache dir ip port) cs"
    and rsv: "handle pick now h (Reserve (Some (key, version, int (length (concat parts))))) = (h1, Reserved i)"
    and parts: "parts \<noteq> []" "[] \<notin> set parts" "int (length (concat parts)) < 2 ^ 63" "i < 2 ^ 63"
    and ups: "set (map snd ups) = set (chunks_at 0 parts)"
    and key: "CHR '','' \<notin> set key"
    and older: "\<forall>d \<in> set (dbRows (hDB h)). cKey d = ToLower key \<and> cVersion d = version \<and> cComplete d \<longrightarrow> cCreatedAt d < unix now"
  shows "\<exists>h3 url. handle pick t (upload_all pick i h1 ups) (CommitUpload (Itoa i)) = (h3, Status 200) \<and>
    handle pick t' h3 (Find key version) = (h3, Hit url (ToLower key) i) \<and>
    snd (handle pick t'' h3 (Get (Itoa i))) = Blob (concat parts)"
proof -
  have inv: "cache_inv h" unfolding h by (rule run_cache_inv [OF pick])
  let ?n = "int (length (concat parts))"
  let ?c = "\<lparr>cID = i, cKey = ToLower key, cVersion = version, cSize = ?n, cComplete = False,
    cUsedAt = unix now, cCreatedAt = unix now\<rparr>"
  have n: "0 < ?n" using parts(1,2) by (cases parts; cases "hd parts") auto
  have i: "i = dbNext (hDB h)" and h1: "h1 = h\<lparr>hDB := (hDB h)\<lparr>dbRows := dbRows (hDB h) @ [?c], dbNext := dbNext (hDB h) + 1\<rparr>\<rparr>"
    using rsv n unfolding reserve_state by auto
  have inv1: "cache_inv h1" using cache_inv_handle [OF inv pick, of now "Reserve (Some (key, version, ?n))"] rsv by simp
  have i0: "0 < i" and fresh: "i \<notin> cID ` set (dbRows (hDB h))" using inv i by (auto simp: cache_inv_def)
  have g: "GetCache (hDB h1) i = Some ?c"
  proof -
    have "find (\<lambda>c. cID c = i) (dbRows (hDB h)) = None" using fresh by (auto simp: find_None_iff)
    then show ?thesis by (simp add: h1 GetCache_def find_append)
  qed
  have temp: "stTemp (hStore h1) i = None" using inv fresh h1 by (auto simp: cache_inv_def)
  obtain h3 f where h3: "handle pick t (upload_all pick i h1 ups) (CommitUpload (Itoa i)) = (h3, Status 200)"
    "stBlobs (hStore h3) i = Some (concat parts)" "dbRows (hDB h3) = map f (dbRows (hDB h1))"
    "\<forall>d. completed i ?n d (f d)"
    using commit_uploaded [OF g _ _ temp _ parts(4,1-3) ups, of pick t] i0 by auto
  have inv3: "cache_inv h3"
    using cache_inv_handle [OF upload_all_inv [OF inv1 pick] pick, of t i ups "CommitUpload (Itoa i)"] h3(1) by simp
  have fc: "cID (f ?c) = i" "cKey (f ?c) = ToLower key" "cVersion (f ?c) = version" "cComplete (f ?c)"
    "cCreatedAt (f ?c) = unix now" using h3(4) [rule_format, of ?c] by (auto simp: completed_def)
  have "cCreatedAt d < unix now"
    if "d \<in> set (dbRows (hDB h3))" "cKey d = ToLower key" "cVersion d = version" "cComplete d" "d \<noteq> f ?c" for d
  proof -
    from that(1,5) obtain e where e: "e \<in> set (dbRows (hDB h))" "d = f e" unfolding h3(3) h1 by auto
    then have "cID e \<noteq> i" using fresh by auto
    then have "d = e" using h3(4) [rule_format, of e] e(2) by (simp add: completed_def)
    with older that e(1) show ?thesis by blast
  qed
  moreover have "f ?c \<in> set (dbRows (hDB h3))" unfolding h3(3) h1 by simp
  ultimately have "handle pick t' h3 (Find key version)
      = (h3, Hit (ExternalURL h3 @ urlBase @ ''/artifacts/'' @ Itoa i) (ToLower key) i)"
    using find_newest [OF inv3 pick key, of "f ?c" version] fc by simp
  moreover have "snd (handle pick t'' h3 (Get (Itoa i))) = Blob (concat parts)"
    using ParseInt_Itoa [of i] i0 parts(4) h3(2) by (simp add: handle_get_def Serve_def)
  ultimately show ?thesis using h3(1) by blast
qed

section \<open>Garbage collection\<close>

lemma sweep_rows:
  "dbRows (hDB (sweep h cs)) = filter (\<lambda>c. cID c \<notin> cID ` set cs) (dbRows (hDB h))"
  unfolding sweep_def by (induction cs arbitrary: h) (auto simp: DeleteCache_def intro!: filter_cong)

lemma sweep_found:
  assumes "distinct (map cID (dbRows (hDB h)))"
  shows "dbRows (hDB (sweep h (filter P (dbRows (hDB h))))) = filter (\<lambda>c. \<not> P c) (dbRows (hDB h))"
  unfolding sweep_rows
proof (rule filter_cong [OF refl])
  fix c assume c: "c \<in> set (dbRows (hDB h))"
  have "P c" if "cID c = cID d" "d \<in> set (dbRows (hDB h))" "P d" for d
    using distinct_cID [OF assms c that(2,1)] that(3) by simp
  with c show "(cID c \<notin> cID ` set (filter P (dbRows (hDB h)))) = (\<not> P c)" by auto
qed

lemma expire_rows:
  assumes "cache_inv k"
  shows "set (dbRows (hDB (sweep k (FindExpired (hDB k) P)))) = {c \<in> set (dbRows (hDB k)). \<not> P c}"
  using assms by (simp add: FindExpired_def sweep_found cache_inv_def)

text \<open>An entry young and recently used enough to survive the first three passes.\<close>

definition fresh_enough :: "int \<Rightarrow> Cache \<Rightarrow> bool" where
  "fresh_enough now c \<longleftrightarrow> (cComplete c \<or> cUsedAt c \<ge> unix (now - keepTemp)) \<and>
     cUsedAt c \<ge> unix (now - keepUnused) \<and> cCreatedAt c \<ge> unix (now - keepUsed)"

lemma max_group: "a < foldr (\<lambda>d. max (cCreatedAt d)) ds a \<longleftrightarrow> (\<exists>d \<in> set ds. a < cCreatedAt d)"
  by (induction ds) auto

lemma group_two: "c \<in> set (group_of db c) \<Longrightarrow> d \<in> set (group_of db c) \<Longrightarrow> d \<noteq> c \<Longrightarrow> length (group_of db c) > 1"
  by (cases "group_of db c" rule: list.exhaust; cases "tl (group_of db c)") auto

lemma duplicate_iff:
  assumes "c \<in> set (dbRows db)" "cComplete c"
  shows "(length (group_of db c) > 1 \<and> cCreatedAt c < foldr (\<lambda>d. max (cCreatedAt d)) (group_of db c) (cCreatedAt c)) \<longleftrightarrow>
    (\<exists>d \<in> set (dbRows db). cComplete d \<and> cKey d = cKey c \<and> cVersion d = cVersion c \<and> cCreatedAt c < cCreatedAt d)"
proof -
  have "c \<in> set (group_of db c)" using assms by (simp add: group_of_def)
  moreover have "d \<noteq> c" if "cCreatedAt c < cCreatedAt d" for d using that by auto
  ultimately show ?thesis using group_two [of c db] unfolding max_group by (auto simp: group_of_def)
qed

lemma gc_rows:
  assumes inv: "cache_inv h" and due: "now - hGcAt h \<ge> Hour"
  shows "c \<in> set (dbRows (hDB (gcCache now h))) \<longleftrightarrow> c \<in> set (dbRows (hDB h)) \<and> fresh_enough now c \<and>
    \<not> (cComplete c \<and> cUsedAt c < unix (now - keepOld) \<and>
       (\<exists>d \<in> set (dbRows (hDB h)). fresh_enough now d \<and> cComplete d \<and> cKey d = cKey c \<and> cVersion d = cVersion c \<and>
          cCreatedAt c < cCreatedAt d))"
proof -
  let ?h0 = "h\<lparr>hGcAt := now\<rparr>"
  let ?h1 = "sweep ?h0 (FindExpired (hDB ?h0) (\<lambda>c. cUsedAt c < unix (now - keepTemp) \<and> \<not> cComplete c))"
  let ?h2 = "sweep ?h1 (FindExpired (hDB ?h1) (\<lambda>c. cUsedAt c < unix (now - keepUnused)))"
  let ?h3 = "sweep ?h2 (FindExpired (hDB ?h2) (\<lambda>c. cCreatedAt c < unix (now - keepUsed)))"
  have i0: "cache_inv ?h0" using inv by (simp add: cache_inv_consistent)
  have i1: "cache_inv ?h1" and i2: "cache_inv ?h2" and i3: "cache_inv ?h3" using i0 by (simp_all only: cache_inv_sweep)
  have d: "distinct (map cID (dbRows (hDB k)))" if "cache_inv k" for k using that by (simp add: cache_inv_def)
  have r: "set (dbRows (hDB ?h3)) = {c \<in> set (dbRows (hDB h)). fresh_enough now c}"
    unfolding expire_rows [OF i2] expire_rows [OF i1] expire_rows [OF i0]
    by (auto simp: fresh_enough_def)
  have g: "gcCache now h = sweep ?h3 (FindDuplicates (hDB ?h3) (unix (now - keepOld)))"
    using due by (simp add: gcCache_def Let_def)
  show ?thesis
    unfolding g FindDuplicates_def sweep_found [OF d [OF i3]] using duplicate_iff [of c "hDB ?h3"] r
    by auto
qed

text \<open>
  C23: Exactly what a collection removes: an entry survives a collection that is due exactly when
  it is complete or was written to within five minutes, was used within seven days and created
  within thirty, and is not an older duplicate (unused for five minutes) of a surviving complete
  entry with the same key and version. The blob of a surviving complete entry is still served.
\<close>

theorem gc_exact:
  assumes "picks_newest pick" "h = run_calls (cache_do pick) (empty_cache dir ip port) cs"
    and "now - hGcAt h \<ge> Hour"
  shows "(c \<in> set (dbRows (hDB (gcCache now h))) \<longleftrightarrow> c \<in> set (dbRows (hDB h)) \<and> fresh_enough now c \<and>
      \<not> (cComplete c \<and> cUsedAt c < unix (now - keepOld) \<and>
         (\<exists>d \<in> set (dbRows (hDB h)). fresh_enough now d \<and> cComplete d \<and> cKey d = cKey c \<and> cVersion d = cVersion c \<and>
            cCreatedAt c < cCreatedAt d))) \<and>
    (c \<in> set (dbRows (hDB (gcCache now h))) \<and> cComplete c \<longrightarrow>
      (\<exists>b. Serve (hStore (gcCache now h)) (cID c) = Some b \<and> int (length b) = cSize c))"
proof -
  have inv: "cache_inv h" unfolding assms(2) by (rule run_cache_inv [OF assms(1)])
  have "row_ok (hStore (gcCache now h)) c" if "c \<in> set (dbRows (hDB (gcCache now h)))"
    using cache_inv_gc [OF inv, of now] that by (simp add: cache_inv_def)
  then show ?thesis using gc_rows [OF inv assms(3), of c] by (auto simp: row_ok_def Serve_def)
qed

section \<open>Serving action sources\<close>

lemma safe_elem: "isSafeActionDir dir \<Longrightarrow> normal_elem dir"
  by (auto simp: isSafeActionDir_def normal_elem_def list_all_iff safe_char_def char_in_def)

text \<open>
  Only action directories are served: for a data directory given by its path elements, an
  accepted name denotes a single directory right below the actions' cache, nothing else.
\<close>

theorem serveAction_confined:
  assumes "list_all normal_elem root" "hDir h = abs_dir root" "serveAction_path h dir = Some path"
  shows "path = abs_dir (root @ [''actions-repo-cache'', dir]) \<and> normal_elem dir"
proof -
  have safe: "isSafeActionDir dir" and p: "path = filepath_Join (abs_dir root # [''actions-repo-cache'', dir])"
    using assms(2,3) by (auto simp: serveAction_path_def split: if_splits)
  have n: "normal_elem dir" by (rule safe_elem [OF safe])
  moreover have "normal_elem ''actions-repo-cache''" by (simp add: normal_elem_def)
  ultimately have e: "concat (map (Split CHR ''/'') [''actions-repo-cache'', dir]) = [''actions-repo-cache'', dir]"
    "list_all normal_elem [''actions-repo-cache'', dir]"
    by (simp_all add: Split_single normal_elem_def)
  have "path = abs_dir (root @ [''actions-repo-cache'', dir])"
    unfolding p Join_under [OF assms(1)] e(1) clean_elems_normal [OF e(2)] by simp
  with n show ?thesis by simp
qed

section \<open>Witnesses\<close>

text \<open>A query engine that takes the first of the newest rows.\<close>

fun newest :: "Cache list \<Rightarrow> Cache option" where
  "newest [] = None"
| "newest (c # cs) =
     (case newest cs of None \<Rightarrow> Some c | Some d \<Rightarrow> if cCreatedAt c < cCreatedAt d then Some d else Some c)"

lemma newest_picks: "picks_newest newest"
  unfolding picks_newest_def
proof
  fix rows
  show "case newest rows of None \<Rightarrow> rows = [] | Some c \<Rightarrow> c \<in> set rows \<and> (\<forall>d \<in> set rows. cCreatedAt d \<le> cCreatedAt c)"
    by (induction rows) (fastforce split: option.splits)+
qed

definition example_calls :: "cache_call list" where
  "example_calls =
     [Serving (5 * Second) (Reserve (Some (''K'', ''v'', 2))), Serving (6 * Second) (Upload ''1'' ''bytes 0-1/*'' ''ab'' True),
      Serving (7 * Second) (CommitUpload ''1'')]"

definition example_cache :: Handler where
  "example_cache = run_calls (cache_do newest) (empty_cache ''/d'' ''ip'' 80) example_calls"

lemma example_rows:
  "dbRows (hDB example_cache) = [\<lparr>cID = 1, cKey = ''k'', cVersion = ''v'', cSize = 2, cComplete = True,
     cUsedAt = 6, cCreatedAt = 5\<rparr>]"
  by code_simp

lemma example_find: "\<exists>url. handle newest 9 example_cache (Find ''k'' ''v'') = (example_cache, Hit url ''k'' 1)"
proof -
  have "cache_inv example_cache" unfolding example_cache_def by (rule run_cache_inv [OF newest_picks])
  from find_newest [OF this newest_picks, of "''k''" "hd (dbRows (hDB example_cache))" "''v''"]
  show ?thesis by (auto simp: example_rows ToLower_def lower_char_def char_in_def)
qed

theorem cache_hit_sound_witness: "\<exists>b. snd (handle newest 10 example_cache (Get (Itoa 1))) = Blob b"
proof -
  obtain url where u: "handle newest 9 example_cache (Find ''k'' ''v'') = (example_cache, Hit url ''k'' 1)"
    using example_find by blast
  show ?thesis using cache_hit_sound [OF newest_picks example_cache_def u, of 10] by auto
qed

theorem cache_roundtrip_witness:
  "\<exists>h1 h3 url. handle newest 5 (empty_cache ''/d'' ''ip'' 80) (Reserve (Some (''k'', ''v'', int (length (concat [''a'', ''b'']))))) = (h1, Reserved 1) \<and>
    handle newest 8 (upload_all newest 1 h1 [(7, 1, ''b''), (6, 0, ''a'')]) (CommitUpload (Itoa 1)) = (h3, Status 200) \<and>
    handle newest 9 h3 (Find ''k'' ''v'') = (h3, Hit url (ToLower ''k'') 1) \<and>
    snd (handle newest 10 h3 (Get (Itoa 1))) = Blob (concat [''a'', ''b''])"
proof -
  let ?h = "empty_cache ''/d'' ''ip'' 80"
  obtain h1 where r: "handle newest 5 ?h (Reserve (Some (''k'', ''v'', int (length (concat [''a'', ''b'']))))) = (h1, Reserved 1)"
    by (simp add: handle_reserve_def InsertCache_def empty_cache_def)
  have "\<exists>h3 url. handle newest 8 (upload_all newest 1 h1 [(7, 1, ''b''), (6, 0, ''a'')]) (CommitUpload (Itoa 1)) = (h3, Status 200) \<and>
    handle newest 9 h3 (Find ''k'' ''v'') = (h3, Hit url (ToLower ''k'') 1) \<and>
    snd (handle newest 10 h3 (Get (Itoa 1))) = Blob (concat [''a'', ''b''])"
    by (rule cache_roundtrip [OF newest_picks _ r, of "''/d''" "''ip''" 80 "[]"]) (auto simp: empty_cache_def)
  with r show ?thesis by blast
qed

theorem gc_exact_witness:
  "dbRows (hDB (gcCache (8 * 24 * Hour) example_cache)) = []"
proof -
  have "hGcAt example_cache = 0" by code_simp
  then have due: "8 * 24 * Hour - hGcAt example_cache \<ge> Hour" by simp
  have "c \<notin> set (dbRows (hDB (gcCache (8 * 24 * Hour) example_cache)))" for c
  proof
    assume "c \<in> set (dbRows (hDB (gcCache (8 * 24 * Hour) example_cache)))"
    then have "c \<in> set (dbRows (hDB example_cache))" "fresh_enough (8 * 24 * Hour) c"
      using gc_exact [OF newest_picks example_cache_def due, of c] by blast+
    then show False unfolding example_rows by (simp add: fresh_enough_def unix_def keepUnused_def)
  qed
  then show ?thesis by (cases "dbRows (hDB (gcCache (8 * 24 * Hour) example_cache))") auto
qed

theorem serveAction_confined_witness:
  "serveAction_path (empty_cache ''/data'' ''ip'' 80) ''checkout-v4'' = Some ''/data/actions-repo-cache/checkout-v4''"
proof -
  have s: "isSafeActionDir ''checkout-v4''"
    by (simp add: isSafeActionDir_def safe_char_def char_in_def)
  let ?h = "empty_cache ''/data'' ''ip'' 80"
  obtain path where p: "serveAction_path ?h ''checkout-v4'' = Some path" using s by (simp add: serveAction_path_def)
  have "path = abs_dir ([''data''] @ [''actions-repo-cache'', ''checkout-v4'']) \<and> normal_elem ''checkout-v4''"
    by (rule serveAction_confined [OF _ _ p]) (simp_all add: normal_elem_def empty_cache_def abs_dir_def)
  with p show ?thesis by (simp add: abs_dir_def)
qed

end
