(* ===== verification/CacheServer.thy ===== *)
theory CacheServer
  imports CacheProps
begin

text \<open>
  The cache server with its goroutines, from \<^verbatim>\<open>src/pkg/cache/handler.go\<close>, \<^verbatim>\<open>db.go\<close> and
  \<^verbatim>\<open>storage.go\<close>: any number of requests and collections are in progress at once. A thread is where a
  goroutine stands; one turn of it is one SQL statement (the database has a single connection) or
  one call of the file system, and the turns of all threads interleave. The middleware turns a
  request that was answered into a collection.
\<close>

section \<open>Threads\<close>

datatype thread =
    AtQuery bool "string list" string                  \<comment> \<open>find: prefix query next, keys, version\<close>
  | AtExist Cache
  | AtForget Cache
  | AtInsert "(string \<times> string \<times> int) option"
  | AtUpload string string string bool
  | AtWrite int Cache int string bool
  | AtChunk int Cache int string bool
  | AtBody int Cache int string bool
  | AtTouch int
  | AtCommit string
  | AtList int Cache
  | AtCreate int Cache "string list"
  | AtCopy int Cache "string list" int                 \<comment> \<open>chunks left, bytes written\<close>
  | AtUnlink int
  | AtAbort int
  | AtSeal int int
  | AtComplete int int
  | AtGet string
  | AtServe int
  | AtClean
  | AtGc
  | AtGcTime
  | AtGcFind nat
  | AtGcRemove nat "Cache list"
  | AtGcDelete nat "Cache list"

datatype progress = Next thread | Reply Response | Ended

fun start_request :: "Request \<Rightarrow> thread" where
  "start_request (Find keysParam version) = AtQuery False (map ToLower (Split CHR '','' keysParam)) version"
| "start_request (Reserve req) = AtInsert req"
| "start_request (Upload i rng body whole) = AtUpload i rng body whole"
| "start_request (CommitUpload i) = AtCommit i"
| "start_request (Get i) = AtGet i"
| "start_request CleanAll = AtClean"

text \<open>
  \<^verbatim>\<open>find\<close>: two queries for each key, then the check of the blob.
\<close>

definition find_turn :: "(Cache list \<Rightarrow> Cache option) \<Rightarrow> Handler \<Rightarrow> bool \<Rightarrow> string list \<Rightarrow> string \<Rightarrow> progress" where
  "find_turn pick h byPrefix keys version =
     (case keys of
        [] \<Rightarrow> Reply (Status 204)
      | p # rest \<Rightarrow>
          (case pick (if byPrefix then select_like (hDB h) (Replace likeEscaper p @ ''%'') version
                      else select_exact (hDB h) p version) of
             Some c \<Rightarrow> Next (AtExist c)
           | None \<Rightarrow> Next (if byPrefix then AtQuery False rest version else AtQuery True keys version)))"

definition exist_turn :: "Handler \<Rightarrow> Cache \<Rightarrow> progress" where
  "exist_turn h c =
     (if Exist (hStore h) (cID c) then Reply (Hit (ExternalURL h @ urlBase @ ''/artifacts/'' @ Itoa (cID c)) (cKey c) (cID c))
      else Next (AtForget c))"

text \<open>\<^verbatim>\<open>upload\<close> up to the first write, and \<^verbatim>\<open>commit\<close> up to the assembly.\<close>

definition upload_turn :: "Handler \<Rightarrow> string \<Rightarrow> string \<Rightarrow> string \<Rightarrow> bool \<Rightarrow> progress" where
  "upload_turn h idParam rng body whole =
     (case ParseInt 64 idParam of
        None \<Rightarrow> Reply (Status 400)
      | Some i \<Rightarrow>
          (case GetCache (hDB h) i of
             None \<Rightarrow> Reply (Status 400)
           | Some c \<Rightarrow>
               if cComplete c then Reply (Status 400)
               else (case parseContentRange rng of
                       None \<Rightarrow> Reply (Status 400)
                     | Some (start, _) \<Rightarrow> Next (AtWrite i c start body whole))))"

definition commit_turn :: "Handler \<Rightarrow> string \<Rightarrow> progress" where
  "commit_turn h idParam =
     (case ParseInt 64 idParam of
        None \<Rightarrow> Reply (Status 400)
      | Some i \<Rightarrow>
          (case GetCache (hDB h) i of
             None \<Rightarrow> Reply (Status 400)
           | Some c \<Rightarrow> if cComplete c then Reply (Status 400) else Next (AtList i c)))"

text \<open>
  \<^verbatim>\<open>Storage.Commit\<close>, one call of the file system after the other. The blob is opened once: bytes
  written after it was removed by name are lost. A chunk that cannot be opened ends the commit and
  leaves what was written. Whatever happens, the directory of the chunks is removed last.
\<close>

definition open_chunk :: "Storage \<Rightarrow> int \<Rightarrow> string \<Rightarrow> string option" where
  "open_chunk s i n = (case stTemp s i of None \<Rightarrow> None | Some d \<Rightarrow> map_of d n)"

definition put_bytes :: "int \<Rightarrow> string \<Rightarrow> string \<Rightarrow> string" where
  "put_bytes off new old =
     take (nat off) (old @ replicate (nat off - length old) (CHR 0x00)) @ new @ drop (nat off + length new) old"

definition write_blob :: "Storage \<Rightarrow> int \<Rightarrow> int \<Rightarrow> string \<Rightarrow> Storage" where
  "write_blob s i off new = s\<lparr>stBlobs := (stBlobs s)(i := map_option (put_bytes off new) (stBlobs s i))\<rparr>"

definition remove_chunks :: "Storage \<Rightarrow> int \<Rightarrow> Storage" where
  "remove_chunks s i = s\<lparr>stTemp := (stTemp s)(i := None)\<rparr>"

definition list_turn :: "Storage \<Rightarrow> int \<Rightarrow> Cache \<Rightarrow> progress" where
  "list_turn s i c = (case stTemp s (cID c) of None \<Rightarrow> Next (AtAbort i) | Some d \<Rightarrow> Next (AtCreate i c (map fst d)))"

definition copy_turn :: "Storage \<Rightarrow> int \<Rightarrow> Cache \<Rightarrow> string list \<Rightarrow> int \<Rightarrow> Storage \<times> progress" where
  "copy_turn s i c names written =
     (case names of
        n # ns \<Rightarrow>
          (case open_chunk s (cID c) n of
             None \<Rightarrow> (s, Next (AtAbort i))
           | Some new \<Rightarrow> (write_blob s (cID c) written new, Next (AtCopy i c ns (written + int (length new)))))
      | [] \<Rightarrow> (s, Next (if cSize c \<ge> 0 \<and> written \<noteq> cSize c then AtUnlink i else AtSeal i written)))"

text \<open>
  \<^verbatim>\<open>Storage.Write\<close>: make the directory, create or truncate the chunk, copy the body. A directory that was removed
  meanwhile makes the second fail, a chunk that was removed takes the bytes of the third with it.
\<close>

definition make_temp :: "Storage \<Rightarrow> int \<Rightarrow> Storage" where
  "make_temp s i = s\<lparr>stTemp := (stTemp s)(i \<mapsto> (case stTemp s i of None \<Rightarrow> [] | Some d \<Rightarrow> d))\<rparr>"

definition create_chunk :: "Storage \<Rightarrow> int \<Rightarrow> int \<Rightarrow> Storage option" where
  "create_chunk s i start =
     (case stTemp s i of None \<Rightarrow> None | Some d \<Rightarrow> Some (s\<lparr>stTemp := (stTemp s)(i \<mapsto> dir_put (chunk_name start) [] d)\<rparr>))"

definition fill_chunk :: "Storage \<Rightarrow> int \<Rightarrow> int \<Rightarrow> string \<Rightarrow> Storage" where
  "fill_chunk s i start body =
     (case stTemp s i of
        None \<Rightarrow> s
      | Some d \<Rightarrow> if chunk_name start \<in> fst ` set d
                 then s\<lparr>stTemp := (stTemp s)(i \<mapsto> dir_put (chunk_name start) body d)\<rparr> else s)"

lemma temp_frame [simp]: "stBlobs (make_temp s i) = stBlobs s" "stBlobs (fill_chunk s i start body) = stBlobs s"
    "create_chunk s i start = Some s' \<Longrightarrow> stBlobs s' = stBlobs s"
  by (auto simp: make_temp_def fill_chunk_def create_chunk_def split: option.splits)

lemma dir_put_put: "dir_put n c (dir_put n b d) = dir_put n c d"
  by (induction n b d rule: dir_put.induct) auto

text \<open>Without interruption the three are \<^verbatim>\<open>Write\<close>.\<close>

lemma write_in_turns:
  "\<exists>s1. create_chunk (make_temp s i) i start = Some s1 \<and> fill_chunk s1 i start body = fst (Write s i start body whole)"
proof -
  define d where "d = (case stTemp s i of None \<Rightarrow> [] | Some d \<Rightarrow> d)"
  let ?s = "s\<lparr>stTemp := (stTemp s)(i \<mapsto> dir_put (chunk_name start) [] d)\<rparr>"
  have "create_chunk (make_temp s i) i start = Some ?s" by (simp add: make_temp_def create_chunk_def d_def)
  moreover have "fill_chunk ?s i start body = fst (Write s i start body whole)"
    by (simp only: fill_chunk_def Write_def Let_def d_def [symmetric]) (simp add: dir_put_fst dir_put_put)
  ultimately show ?thesis by blast
qed

text \<open>The four queries of a collection.\<close>

definition gc_query :: "int \<Rightarrow> DB \<Rightarrow> nat \<Rightarrow> Cache list" where
  "gc_query now db k =
     (if k = 0 then FindExpired db (\<lambda>c. cUsedAt c < unix (now - keepTemp) \<and> \<not> cComplete c)
      else if k = 1 then FindExpired db (\<lambda>c. cUsedAt c < unix (now - keepUnused))
      else if k = 2 then FindExpired db (\<lambda>c. cCreatedAt c < unix (now - keepUsed))
      else FindDuplicates db (unix (now - keepOld)))"

text \<open>
  One turn of a thread: the shared state is the handler and the flag \<^verbatim>\<open>gcing\<close>.
\<close>

fun turn :: "(Cache list \<Rightarrow> Cache option) \<Rightarrow> int \<Rightarrow> Handler \<Rightarrow> bool \<Rightarrow> thread \<Rightarrow> Handler \<times> bool \<times> progress" where
  "turn pick now h g (AtQuery b keys version) = (h, g, find_turn pick h b keys version)"
| "turn pick now h g (AtExist c) = (h, g, exist_turn h c)"
| "turn pick now h g (AtForget c) = (h\<lparr>hDB := DeleteCache (hDB h) (cID c)\<rparr>, g, Reply (Status 204))"
| "turn pick now h g (AtInsert req) = (case handle_reserve now h req of (h', r) \<Rightarrow> (h', g, Reply r))"
| "turn pick now h g (AtUpload i rng body whole) = (h, g, upload_turn h i rng body whole)"
| "turn pick now h g (AtWrite i c start body whole) =
     (h\<lparr>hStore := make_temp (hStore h) (cID c)\<rparr>, g, Next (AtChunk i c start body whole))"
| "turn pick now h g (AtChunk i c start body whole) =
     (case create_chunk (hStore h) (cID c) start of
        None \<Rightarrow> (h, g, Reply (Status 500))
      | Some s \<Rightarrow> (h\<lparr>hStore := s\<rparr>, g, Next (AtBody i c start body whole)))"
| "turn pick now h g (AtBody i c start body whole) =
     (h\<lparr>hStore := fill_chunk (hStore h) (cID c) start body\<rparr>, g, if whole then Next (AtTouch i) else Reply (Status 500))"
| "turn pick now h g (AtTouch i) = (h\<lparr>hDB := TouchCache (unix now) (hDB h) i\<rparr>, g, Reply (Status 200))"
| "turn pick now h g (AtCommit i) = (h, g, commit_turn h i)"
| "turn pick now h g (AtList i c) = (h, g, list_turn (hStore h) i c)"
| "turn pick now h g (AtCreate i c names) =
     (h\<lparr>hStore := (hStore h)\<lparr>stBlobs := (stBlobs (hStore h))(cID c \<mapsto> [])\<rparr>\<rparr>, g, Next (AtCopy i c names 0))"
| "turn pick now h g (AtCopy i c names w) =
     (case copy_turn (hStore h) i c names w of (s, p) \<Rightarrow> (h\<lparr>hStore := s\<rparr>, g, p))"
| "turn pick now h g (AtUnlink i) =
     (h\<lparr>hStore := (hStore h)\<lparr>stBlobs := (stBlobs (hStore h))(i := None)\<rparr>\<rparr>, g, Next (AtAbort i))"
| "turn pick now h g (AtAbort i) = (h\<lparr>hStore := remove_chunks (hStore h) i\<rparr>, g, Reply (Status 500))"
| "turn pick now h g (AtSeal i w) = (h\<lparr>hStore := remove_chunks (hStore h) i\<rparr>, g, Next (AtComplete i w))"
| "turn pick now h g (AtComplete i w) = (h\<lparr>hDB := CompleteCache (hDB h) i w\<rparr>, g, Reply (Status 200))"
| "turn pick now h g (AtGet i) =
     (case ParseInt 64 i of
        None \<Rightarrow> (h, g, Reply (Status 400))
      | Some j \<Rightarrow> (h\<lparr>hDB := TouchCache (unix now) (hDB h) j\<rparr>, g, Next (AtServe j)))"
| "turn pick now h g (AtServe i) = (h, g, Reply (case Serve (hStore h) i of None \<Rightarrow> Status 404 | Some b \<Rightarrow> Blob b))"
| "turn pick now h g AtClean = (h, g, Reply (Status 200))"
| "turn pick now h g AtGc = (h, True, if g then Ended else Next AtGcTime)"
| "turn pick now h g AtGcTime =
     (if now - hGcAt h < Hour then (h, False, Ended) else (h\<lparr>hGcAt := now\<rparr>, g, Next (AtGcFind 0)))"
| "turn pick now h g (AtGcFind k) =
     (if k < 4 then (h, g, Next (AtGcRemove k (gc_query now (hDB h) k))) else (h, False, Ended))"
| "turn pick now h g (AtGcRemove k []) = (h, g, Next (AtGcFind (Suc k)))"
| "turn pick now h g (AtGcRemove k (c # cs)) = (h\<lparr>hStore := Remove (hStore h) (cID c)\<rparr>, g, Next (AtGcDelete k (c # cs)))"
| "turn pick now h g (AtGcDelete k []) = (h, g, Next (AtGcRemove k []))"
| "turn pick now h g (AtGcDelete k (c # cs)) = (h\<lparr>hDB := DeleteCache (hDB h) (cID c)\<rparr>, g, Next (AtGcRemove k cs))"

text \<open>The middleware: a request that was answered becomes a collection.\<close>

fun middleware :: "progress \<Rightarrow> thread list" where
  "middleware (Next t) = [t]"
| "middleware (Reply r) = [AtGc]"
| "middleware Ended = []"

text \<open>The server: the shared state and the threads. Requests arrive at any time; nothing is assumed of the clients.\<close>

record server =
  svH :: Handler
  svGcing :: bool
  svThreads :: "thread list"

inductive server_step :: "(Cache list \<Rightarrow> Cache option) \<Rightarrow> server \<Rightarrow> server \<Rightarrow> bool" for pick where
  arrives: "server_step pick s (s\<lparr>svThreads := svThreads s @ [start_request req]\<rparr>)"
| works: "svThreads s = xs @ t # ys \<Longrightarrow> turn pick now (svH s) (svGcing s) t = (h, g, p) \<Longrightarrow>
    server_step pick s (s\<lparr>svH := h, svGcing := g, svThreads := xs @ middleware p @ ys\<rparr>)"

text \<open>A server starts on a consistent index and store, as a restarted one finds them.\<close>

definition server_init :: "server \<Rightarrow> bool" where
  "server_init s \<longleftrightarrow> cache_inv (svH s) \<and> \<not> svGcing s \<and> svThreads s = []"

text \<open>
  Closing the server: the listener is closed twice, by the HTTP server and directly, so that its
  answer that it was closed before is no error; the last error is returned. The answers of the three
  calls are arguments.
\<close>

datatype close_error = ErrClosed | CloseFailed string

definition Close_handler :: "close_error option \<Rightarrow> close_error option \<Rightarrow> close_error option \<Rightarrow> close_error option" where
  "Close_handler srv listener db =
     (let e1 = srv;
          e2 = (if listener \<noteq> None \<and> listener \<noteq> Some ErrClosed then listener else e1)
      in if db \<noteq> None then db else e2)"

section \<open>What holds between turns\<close>

text \<open>
  \<open>writes\<close>: the entry whose blob a thread is about to write, from where it has found the entry incomplete. \<open>drops\<close>: the entry whose row it is about
  to delete after its blob was found missing or removed.
\<close>

fun writes :: "thread \<Rightarrow> int list" where
  "writes (AtList i c) = [i]"
| "writes (AtCreate i c ns) = [i]"
| "writes (AtCopy i c ns w) = [i]"
| "writes (AtUnlink i) = [i]"
| "writes (AtSeal i w) = [i]"
| "writes (AtComplete i w) = [i]"
| "writes _ = []"

fun drops :: "thread \<Rightarrow> int set" where
  "drops (AtForget c) = {cID c}"
| "drops (AtGcDelete k (c # cs)) = {cID c}"
| "drops _ = {}"

fun collects :: "thread \<Rightarrow> nat" where
  "collects AtGcTime = 1"
| "collects (AtGcFind k) = 1"
| "collects (AtGcRemove k cs) = 1"
| "collects (AtGcDelete k cs) = 1"
| "collects _ = 0"

definition writing :: "thread list \<Rightarrow> int list" where "writing ts = concat (map writes ts)"

text \<open>No two commits of one entry are behind that point at once.\<close>

definition commits_apart :: "server \<Rightarrow> bool" where
  "commits_apart s \<longleftrightarrow> distinct (writing (svThreads s))"

definition live :: "DB \<Rightarrow> thread list \<Rightarrow> int set" where
  "live db ts = cID ` set (dbRows db) - (\<Union>t \<in> set ts. drops t)"

text \<open>The blob of an entry has the size; it may be missing once nobody can find it any more.\<close>

definition settled :: "(int \<rightharpoonup> string) \<Rightarrow> int set \<Rightarrow> int \<Rightarrow> int \<Rightarrow> bool" where
  "settled B L i n \<longleftrightarrow> (case B i of None \<Rightarrow> i \<notin> L | Some b \<Rightarrow> int (length b) = n)"

text \<open>
  What a thread relies on, given the blobs, the entries that can be found, the next number, and the
  entries that were completed at some time.
\<close>

fun relies :: "(int \<rightharpoonup> string) \<Rightarrow> int set \<Rightarrow> int \<Rightarrow> int set \<Rightarrow> thread \<Rightarrow> bool" where
  "relies B L N C (AtExist c) \<longleftrightarrow> cID c \<in> C \<and> (\<forall>b. B (cID c) = Some b \<longrightarrow> int (length b) = cSize c)"
| "relies B L N C (AtList i c) \<longleftrightarrow> i < N \<and> cID c = i"
| "relies B L N C (AtCreate i c ns) \<longleftrightarrow> i < N \<and> cID c = i"
| "relies B L N C (AtCopy i c ns w) \<longleftrightarrow> i < N \<and> cID c = i \<and> 0 \<le> w \<and> settled B L i w"
| "relies B L N C (AtUnlink i) \<longleftrightarrow> i < N"
| "relies B L N C (AtSeal i w) \<longleftrightarrow> i < N \<and> settled B L i w"
| "relies B L N C (AtComplete i w) \<longleftrightarrow> i < N \<and> settled B L i w"
| "relies B L N C _ \<longleftrightarrow> True"

definition row_relies :: "(int \<rightharpoonup> string) \<Rightarrow> int set \<Rightarrow> int \<Rightarrow> int set \<Rightarrow> Cache \<Rightarrow> bool" where
  "row_relies B L N C c \<longleftrightarrow> cID c < N \<and> (cComplete c \<longleftrightarrow> cID c \<in> C) \<and> (cComplete c \<longrightarrow> settled B L (cID c) (cSize c))"

definition server_inv :: "Handler \<Rightarrow> bool \<Rightarrow> thread list \<Rightarrow> int set \<Rightarrow> bool" where
  "server_inv h g ts C \<longleftrightarrow>
     distinct (map cID (dbRows (hDB h))) \<and>
     (\<forall>c \<in> set (dbRows (hDB h)). row_relies (stBlobs (hStore h)) (live (hDB h) ts) (dbNext (hDB h)) C c) \<and>
     (\<forall>t \<in> set ts. relies (stBlobs (hStore h)) (live (hDB h) ts) (dbNext (hDB h)) C t) \<and>
     distinct (writing ts) \<and> set (writing ts) \<inter> C = {} \<and> (\<forall>i \<in> C. i < dbNext (hDB h)) \<and>
     sum_list (map collects ts) = (if g then 1 else 0)"

text \<open>The entries whose blob matters to a thread.\<close>

fun subject :: "thread \<Rightarrow> int set" where
  "subject (AtExist c) = {cID c}"
| "subject t = set (writes t)"

text \<open>
  Interference: a change keeps what a thread relies on if the blobs of its entries are the same, or
  are gone for entries that cannot be found any more, and no entry below the next number comes back.
\<close>

definition quiet :: "(int \<rightharpoonup> string) \<Rightarrow> int set \<Rightarrow> int \<Rightarrow> (int \<rightharpoonup> string) \<Rightarrow> int set \<Rightarrow> int \<Rightarrow> int set \<Rightarrow> bool" where
  "quiet B L N B' L' N' S \<longleftrightarrow> N \<le> N' \<and> (\<forall>i \<in> L'. i < N \<longrightarrow> i \<in> L) \<and>
     (\<forall>i \<in> S. B' i = B i \<or> (B' i = None \<and> i \<notin> L'))"

lemma settled_quiet: "settled B L i n \<Longrightarrow> quiet B L N B' L' N' S \<Longrightarrow> i \<in> S \<Longrightarrow> i < N \<Longrightarrow> settled B' L' i n"
  by (force simp: settled_def quiet_def split: option.splits)

lemma relies_quiet:
  assumes "relies B L N C t" "quiet B L N B' L' N' (subject t)" "C \<subseteq> C'"
  shows "relies B' L' N' C' t"
proof -
  have n: "N \<le> N'" using assms(2) by (simp add: quiet_def)
  note s = settled_quiet [OF _ assms(2)]
  show ?thesis using assms(1)
  proof (cases t)
    case (AtExist c)
    with assms have "\<forall>b. B' (cID c) = Some b \<longrightarrow> int (length b) = cSize c" "cID c \<in> C'"
      by (auto simp: quiet_def)
    with AtExist show ?thesis by simp
  qed (use assms(1) n s in auto)
qed

lemma row_relies_quiet:
  assumes "row_relies B L N C c" "quiet B L N B' L' N' (if cComplete c then {cID c} else {})" "cID c \<in> C' \<longleftrightarrow> cID c \<in> C"
  shows "row_relies B' L' N' C' c"
  using assms settled_quiet [of B L "cID c" "cSize c" N B' L' N' "{cID c}"]
  by (auto simp: row_relies_def quiet_def)

text \<open>The effect of one turn of a thread on the others: what has to be shown of it.\<close>

lemma writing_parts [simp]: "writing (xs @ ys) = writing xs @ writing ys" "writing (t # ts) = writes t @ writing ts" "writing [] = []"
  by (simp_all add: writing_def)

lemma in_writing: "u \<in> set ts \<Longrightarrow> set (writes u) \<subseteq> set (writing ts)"
  by (auto simp: writing_def)

lemma subject_other:
  assumes "relies B L N C u" "u \<in> set (xs @ ys)" "distinct (writing (xs @ t # ys))" "set (writing (xs @ t # ys)) \<inter> C = {}"
  shows "subject u \<inter> set (writes t) = {}"
proof -
  have "set (writes u) \<inter> set (writes t) = {}" using assms(2,3) in_writing [of u xs] in_writing [of u ys] by auto
  with assms(1,4) show ?thesis by (cases u) auto
qed

lemma turn_frame_gen:
  fixes h h' :: Handler
  defines "rows \<equiv> dbRows (hDB h)" and "rows' \<equiv> dbRows (hDB h')" and "B \<equiv> stBlobs (hStore h)" and "B' \<equiv> stBlobs (hStore h')"
    and "N \<equiv> dbNext (hDB h)" and "N' \<equiv> dbNext (hDB h')"
  assumes inv: "server_inv h g (xs @ t # ys) C"
    and d: "distinct (map cID rows')" and n: "N \<le> N'"
    and w: "distinct (writing (xs @ r @ ys))" "set (writing (xs @ r @ ys)) \<inter> C' = {}"
    and c: "C \<subseteq> C'" "\<And>i. i \<in> C' \<Longrightarrow> i < N'"
    and l: "\<And>i. i \<in> cID ` set rows' \<Longrightarrow> i < N \<Longrightarrow> i \<in> cID ` set rows \<and> (i \<in> drops t \<longrightarrow> (\<exists>u \<in> set r. i \<in> drops u))"
    and b: "\<And>i. B' i = B i \<or> (B' i = None \<and> (\<exists>u \<in> set r. i \<in> drops u)) \<or> i \<in> set (writes t)"
    and rs: "\<And>e. e \<in> set rows' \<Longrightarrow>
      (\<exists>c \<in> set rows. cID e = cID c \<and> cComplete e = cComplete c \<and> cSize e = cSize c \<and> (cID e \<in> C' \<longleftrightarrow> cID e \<in> C)) \<or>
      row_relies B' (live (hDB h') (xs @ r @ ys)) N' C' e"
    and ts: "\<And>u. u \<in> set r \<Longrightarrow> relies B' (live (hDB h') (xs @ r @ ys)) N' C' u"
    and k: "sum_list (map collects r) + (if g then 1 else 0) = collects t + (if g' then 1 else 0)"
  shows "server_inv h' g' (xs @ r @ ys) C'"
proof -
  let ?ts = "xs @ t # ys" and ?ts' = "xs @ r @ ys"
  let ?L = "live (hDB h) ?ts" and ?L' = "live (hDB h') ?ts'"
  have i: "\<forall>c \<in> set rows. row_relies B ?L N C c" "\<forall>u \<in> set ?ts. relies B ?L N C u"
    "distinct (writing ?ts)" "set (writing ?ts) \<inter> C = {}" "sum_list (map collects ?ts) = (if g then 1 else 0)"
    using inv by (simp_all add: server_inv_def rows_def B_def N_def)
  have L: "\<forall>i \<in> ?L'. i < N \<longrightarrow> i \<in> ?L" using l by (fastforce simp: live_def rows_def rows'_def)
  have B: "B' i = B i \<or> (B' i = None \<and> i \<notin> ?L')" if "i \<notin> set (writes t)" for i
    using b [of i] that by (auto simp: live_def)
  have q: "quiet B ?L N B' ?L' N' S" if "S \<inter> set (writes t) = {}" for S
    unfolding quiet_def using n L B that by blast
  have "row_relies B' ?L' N' C' e" if e: "e \<in> set rows'" for e
    using rs [OF e]
  proof
    assume "\<exists>c \<in> set rows. cID e = cID c \<and> cComplete e = cComplete c \<and> cSize e = cSize c \<and> (cID e \<in> C' \<longleftrightarrow> cID e \<in> C)"
    then obtain c where c: "c \<in> set rows" "cID e = cID c" "cComplete e = cComplete c" "cSize e = cSize c" "cID e \<in> C' \<longleftrightarrow> cID e \<in> C" by blast
    with i(1) have r: "row_relies B ?L N C e" by (auto simp: row_relies_def)
    then have "(if cComplete e then {cID e} else {}) \<inter> set (writes t) = {}" using i(4) by (auto simp: row_relies_def)
    from row_relies_quiet [OF r q [OF this] c(5)] show ?thesis .
  qed
  moreover have "relies B' ?L' N' C' u" if "u \<in> set ?ts'" for u
  proof (cases "u \<in> set r")
    case False
    with that have u: "u \<in> set (xs @ ys)" by auto
    then have "relies B ?L N C u" using i(2) by auto
    from relies_quiet [OF this q [OF subject_other [OF this u i(3,4)]] c(1)] show ?thesis .
  qed (rule ts)
  moreover have "sum_list (map collects ?ts') = (if g' then 1 else 0)" using i(5) k by (simp split: if_splits)
  ultimately show ?thesis using d w c by (simp add: server_inv_def rows'_def B'_def N'_def)
qed

text \<open>A turn that completes no entry and starts no writing.\<close>

lemma turn_frame:
  assumes inv: "server_inv h g (xs @ t # ys) C"
    and d: "distinct (map cID (dbRows (hDB h')))" and n: "dbNext (hDB h) \<le> dbNext (hDB h')"
    and w: "set (writing r) \<subseteq> set (writes t)" "distinct (writing r)"
    and l: "\<And>i. i \<in> cID ` set (dbRows (hDB h')) \<Longrightarrow> i < dbNext (hDB h) \<Longrightarrow>
      i \<in> cID ` set (dbRows (hDB h)) \<and> (i \<in> drops t \<longrightarrow> (\<exists>u \<in> set r. i \<in> drops u))"
    and b: "\<And>i. stBlobs (hStore h') i = stBlobs (hStore h) i \<or> (stBlobs (hStore h') i = None \<and> (\<exists>u \<in> set r. i \<in> drops u)) \<or> i \<in> set (writes t)"
    and rs: "\<And>e. e \<in> set (dbRows (hDB h')) \<Longrightarrow>
      (\<exists>c \<in> set (dbRows (hDB h)). cID e = cID c \<and> cComplete e = cComplete c \<and> cSize e = cSize c) \<or>
      row_relies (stBlobs (hStore h')) (live (hDB h') (xs @ r @ ys)) (dbNext (hDB h')) C e"
    and ts: "\<And>u. u \<in> set r \<Longrightarrow> relies (stBlobs (hStore h')) (live (hDB h') (xs @ r @ ys)) (dbNext (hDB h')) C u"
    and k: "sum_list (map collects r) + (if g then 1 else 0) = collects t + (if g' then 1 else 0)"
  shows "server_inv h' g' (xs @ r @ ys) C"
proof (rule turn_frame_gen [OF inv d n _ _ subset_refl _ l b _ ts k])
  have i: "distinct (writing (xs @ t # ys))" "set (writing (xs @ t # ys)) \<inter> C = {}" "\<forall>i \<in> C. i < dbNext (hDB h)"
    using inv by (simp_all add: server_inv_def)
  show "distinct (writing (xs @ r @ ys))" "set (writing (xs @ r @ ys)) \<inter> C = {}" using i w by auto
  show "i < dbNext (hDB h')" if "i \<in> C" for i using i(3) n that by fastforce
qed (use rs in auto)

text \<open>Turns that change neither rows nor blobs, that touch a row, and that delete one.\<close>

lemma turn_same:
  assumes inv: "server_inv h g (xs @ t # ys) C"
    and same: "hDB h' = hDB h" "stBlobs (hStore h') = stBlobs (hStore h)"
    and w: "set (writing r) \<subseteq> set (writes t)" "distinct (writing r)" and l: "drops t \<subseteq> (\<Union>u \<in> set r. drops u)"
    and ts: "\<And>u. u \<in> set r \<Longrightarrow>
      relies (stBlobs (hStore h)) (live (hDB h) (xs @ r @ ys)) (dbNext (hDB h)) C u"
    and k: "sum_list (map collects r) + (if g then 1 else 0) = collects t + (if g' then 1 else 0)"
  shows "server_inv h' g' (xs @ r @ ys) C"
proof (rule turn_frame [OF inv _ _ w _ _ _ _ k])
  show "distinct (map cID (dbRows (hDB h')))" using inv same by (simp add: server_inv_def)
qed (use same l ts in auto)

lemma turn_touch:
  assumes inv: "server_inv h g (xs @ t # ys) C"
    and r: "writing r = []" "drops t = {}" "\<And>B L N u. u \<in> set r \<Longrightarrow> relies B L N C u"
    and k: "sum_list (map collects r) = 0" "collects t = 0"
  shows "server_inv (h\<lparr>hDB := TouchCache now (hDB h) i\<rparr>) g (xs @ r @ ys) C"
proof (rule turn_frame [OF inv])
  let ?f = "\<lambda>c. if cID c = i then c\<lparr>cUsedAt := now\<rparr> else c"
  have "map cID (map ?f cs) = map cID cs" for cs :: "Cache list" by simp
  then show "distinct (map cID (dbRows (hDB (h\<lparr>hDB := TouchCache now (hDB h) i\<rparr>))))"
    using inv by (simp add: server_inv_def TouchCache_def del: map_map)
  show "j \<in> cID ` set (dbRows (hDB h)) \<and> (j \<in> drops t \<longrightarrow> (\<exists>u \<in> set r. j \<in> drops u))"
    if "j \<in> cID ` set (dbRows (hDB (h\<lparr>hDB := TouchCache now (hDB h) i\<rparr>)))" for j
    using that r(2) by (auto simp: TouchCache_def)
qed (use r k in \<open>auto simp: TouchCache_def\<close>)

lemma turn_delete:
  assumes inv: "server_inv h g (xs @ t # ys) C"
    and r: "writing r = []" "drops t \<subseteq> {i}" "\<And>B L N u. u \<in> set r \<Longrightarrow> relies B L N C u"
    and k: "sum_list (map collects r) = collects t"
  shows "server_inv (h\<lparr>hDB := DeleteCache (hDB h) i\<rparr>) g (xs @ r @ ys) C"
proof (rule turn_frame [OF inv])
  show "distinct (map cID (dbRows (hDB (h\<lparr>hDB := DeleteCache (hDB h) i\<rparr>))))"
    using inv by (simp add: server_inv_def DeleteCache_def distinct_map_filter)
  show "j \<in> cID ` set (dbRows (hDB h)) \<and> (j \<in> drops t \<longrightarrow> (\<exists>u \<in> set r. j \<in> drops u))"
    if "j \<in> cID ` set (dbRows (hDB (h\<lparr>hDB := DeleteCache (hDB h) i\<rparr>)))" for j
    using that r(2) by (auto simp: DeleteCache_def)
qed (use r k in \<open>auto simp: DeleteCache_def\<close>)

text \<open>Turns of a commit: they change the blob of their own entry only, and complete its row at the end.\<close>

lemma turn_blob:
  assumes inv: "server_inv h g (xs @ t # ys) C"
    and i: "writes t = [i]" "drops t = {}" "collects t = 0" and u: "set (writes u) \<subseteq> {i}" "distinct (writes u)" "collects u = 0"
    and s: "\<And>j. j \<noteq> i \<Longrightarrow> stBlobs s j = stBlobs (hStore h) j"
    and rel: "relies (stBlobs s) (live (hDB h) (xs @ t # ys)) (dbNext (hDB h)) C u"
    and d: "drops u = {}"
  shows "server_inv (h\<lparr>hStore := s\<rparr>) g (xs @ [u] @ ys) C"
proof (rule turn_frame [OF inv])
  show "distinct (map cID (dbRows (hDB (h\<lparr>hStore := s\<rparr>))))" using inv by (simp add: server_inv_def)
  show "stBlobs (hStore (h\<lparr>hStore := s\<rparr>)) j = stBlobs (hStore h) j \<or>
    stBlobs (hStore (h\<lparr>hStore := s\<rparr>)) j = None \<and> (\<exists>u \<in> set [u]. j \<in> drops u) \<or> j \<in> set (writes t)" for j
    using s i(1) by auto
  have "live (hDB h) (xs @ [u] @ ys) = live (hDB h) (xs @ t # ys)" using d i(2) by (auto simp: live_def)
  then show "relies (stBlobs (hStore (h\<lparr>hStore := s\<rparr>))) (live (hDB (h\<lparr>hStore := s\<rparr>)) (xs @ [u] @ ys))
    (dbNext (hDB (h\<lparr>hStore := s\<rparr>))) C v" if "v \<in> set [u]" for v
    using rel that by simp
qed (use i u in auto)

lemma put_bytes_end [simp]: "put_bytes (int (length old)) new old = old @ new"
  by (simp add: put_bytes_def)

lemma settled_write:
  assumes "settled (stBlobs s) L i w" "0 \<le> w"
  shows "settled (stBlobs (write_blob s i w new)) L i (w + int (length new))"
proof (cases "stBlobs s i")
  case (Some b)
  with assms have "w = int (length b)" by (simp add: settled_def)
  with Some show ?thesis by (simp add: settled_def write_blob_def)
qed (use assms in \<open>simp add: settled_def write_blob_def\<close>)

lemma server_inv_thread:
  assumes "server_inv h g (xs @ t # ys) C"
  shows "relies (stBlobs (hStore h)) (live (hDB h) (xs @ t # ys)) (dbNext (hDB h)) C t"
  using assms by (simp add: server_inv_def)

lemma server_inv_row:
  assumes "server_inv h g ts C" "c \<in> set (dbRows (hDB h))"
  shows "row_relies (stBlobs (hStore h)) (live (hDB h) ts) (dbNext (hDB h)) C c"
  using assms by (simp add: server_inv_def)

lemma server_inv_C: "server_inv h g ts C \<Longrightarrow> i \<in> C \<Longrightarrow> i < dbNext (hDB h)"
  by (simp add: server_inv_def)

lemma turn_find:
  assumes inv: "server_inv h g (xs @ AtQuery b keys version # ys) C" and pick: "picks_newest pick"
  shows "server_inv h g (xs @ middleware (find_turn pick h b keys version) @ ys) C"
proof -
  have "relies (stBlobs (hStore h)) L N C (AtExist c)"
    if "c \<in> set (dbRows (hDB h))" "cComplete c" for c L N
    using server_inv_row [OF inv that(1)] that(2) by (auto simp: row_relies_def settled_def)
  then have "relies (stBlobs (hStore h)) L N C u"
    if "u \<in> set (middleware (find_turn pick h b keys version))" for u L N
    using that pick [unfolded picks_newest_def, rule_format, of "select_like (hDB h) (Replace likeEscaper (hd keys) @ ''%'') version"]
      pick [unfolded picks_newest_def, rule_format, of "select_exact (hDB h) (hd keys) version"]
    by (auto simp: find_turn_def select_like_def select_exact_def split: list.splits option.splits if_splits)
  moreover have "writing (middleware (find_turn pick h b keys version)) = []"
    "sum_list (map collects (middleware (find_turn pick h b keys version))) = 0"
    by (auto simp: find_turn_def split: list.split option.split)
  ultimately show ?thesis by (intro turn_same [OF inv]) auto
qed

lemma turn_insert:
  assumes inv: "server_inv h g (xs @ AtInsert req # ys) C"
  shows "server_inv (fst (handle_reserve now h req)) g (xs @ [AtGc] @ ys) C"
proof (cases req)
  case None
  then show ?thesis by (intro turn_same [OF inv]) (simp_all add: handle_reserve_def)
next
  case (Some r)
  let ?h = "fst (handle_reserve now h req)"
  obtain c where c: "dbRows (hDB ?h) = dbRows (hDB h) @ [c]" "dbNext (hDB ?h) = dbNext (hDB h) + 1" "hStore ?h = hStore h"
    "cID c = dbNext (hDB h)" "\<not> cComplete c"
    using Some by (cases r) (simp add: handle_reserve_def InsertCache_def)
  have lt: "cID e < dbNext (hDB h)" if "e \<in> set (dbRows (hDB h))" for e
    using server_inv_row [OF inv that] by (simp add: row_relies_def)
  then have "dbNext (hDB h) \<notin> cID ` set (dbRows (hDB h))" by fastforce
  with inv c(1,4) have "distinct (map cID (dbRows (hDB ?h)))" by (simp add: server_inv_def)
  moreover have "row_relies B L (dbNext (hDB ?h)) C c" for B L using c server_inv_C [OF inv] by (force simp: row_relies_def)
  ultimately show ?thesis by (intro turn_frame [OF inv]) (use c in auto)
qed

lemma turn_complete:
  assumes inv: "server_inv h g (xs @ AtComplete i w # ys) C"
  shows "server_inv (h\<lparr>hDB := CompleteCache (hDB h) i w\<rparr>) g (xs @ [AtGc] @ ys) (insert i C)"
proof (rule turn_frame_gen [OF inv])
  let ?f = "\<lambda>c. if cID c = i then c\<lparr>cComplete := True, cSize := w\<rparr> else c" and ?h = "h\<lparr>hDB := CompleteCache (hDB h) i w\<rparr>"
  have ids: "map cID (map ?f cs) = map cID cs" for cs :: "Cache list" by simp
  then show "distinct (map cID (dbRows (hDB ?h)))"
    using inv by (simp add: server_inv_def CompleteCache_def del: map_map)
  show "j \<in> cID ` set (dbRows (hDB h)) \<and> (j \<in> drops (AtComplete i w) \<longrightarrow> (\<exists>u \<in> set [AtGc]. j \<in> drops u))"
    if "j \<in> cID ` set (dbRows (hDB ?h))" for j
    using that by (auto simp: CompleteCache_def)
  have rows: "dbRows (hDB ?h) = map ?f (dbRows (hDB h))" by (simp add: CompleteCache_def)
  then have "set (map cID (dbRows (hDB ?h))) = set (map cID (dbRows (hDB h)))" by (simp only: ids)
  then have l: "live (hDB ?h) (xs @ [AtGc] @ ys) = live (hDB h) (xs @ AtComplete i w # ys)" by (simp add: live_def)
  have i: "i < dbNext (hDB h)" "settled (stBlobs (hStore h)) (live (hDB h) (xs @ AtComplete i w # ys)) i w"
    using server_inv_thread [OF inv] by simp_all
  then show "j < dbNext (hDB ?h)" if "j \<in> insert i C" for j
    using that server_inv_C [OF inv] by (auto simp: CompleteCache_def)
  show "distinct (writing (xs @ [AtGc] @ ys))" "set (writing (xs @ [AtGc] @ ys)) \<inter> insert i C = {}"
    using inv by (auto simp: server_inv_def)
  show "(\<exists>c \<in> set (dbRows (hDB h)). cID e = cID c \<and> cComplete e = cComplete c \<and> cSize e = cSize c \<and> (cID e \<in> insert i C \<longleftrightarrow> cID e \<in> C)) \<or>
      row_relies (stBlobs (hStore ?h)) (live (hDB ?h) (xs @ [AtGc] @ ys)) (dbNext (hDB ?h)) (insert i C) e" if e: "e \<in> set (dbRows (hDB ?h))" for e
  proof (cases "cID e = i")
    case False
    with e have "e \<in> set (dbRows (hDB h))" by (auto simp: CompleteCache_def)
    with False show ?thesis by blast
  next
    case True
    have "e \<in> ?f ` set (dbRows (hDB h))" using e by (simp only: rows list.set_map)
    then obtain c where c: "e = ?f c" by (rule imageE)
    with True have "cID c = i" by (metis (full_types))
    with c have "cComplete e" "cSize e = w" by simp_all
    moreover have "dbNext (hDB ?h) = dbNext (hDB h)" "hStore ?h = hStore h" by (simp_all add: CompleteCache_def)
    ultimately show ?thesis using True i unfolding row_relies_def l by simp
  qed
qed (auto simp: CompleteCache_def)

lemma turn_remove:
  assumes inv: "server_inv h g (xs @ AtGcRemove k (c # cs) # ys) C"
  shows "server_inv (h\<lparr>hStore := Remove (hStore h) (cID c)\<rparr>) g (xs @ [AtGcDelete k (c # cs)] @ ys) C"
proof (rule turn_frame [OF inv])
  show "distinct (map cID (dbRows (hDB (h\<lparr>hStore := Remove (hStore h) (cID c)\<rparr>))))" using inv by (simp add: server_inv_def)
qed (auto simp: Remove_def)

lemma turn_copy:
  assumes inv: "server_inv h g (xs @ AtCopy i c ns w # ys) C"
  shows "server_inv (h\<lparr>hStore := fst (copy_turn (hStore h) i c ns w)\<rparr>) g
    (xs @ middleware (snd (copy_turn (hStore h) i c ns w)) @ ys) C"
proof (cases "ns \<noteq> [] \<and> open_chunk (hStore h) i (hd ns) \<noteq> None")
  let ?L = "live (hDB h) (xs @ AtCopy i c ns w # ys)"
  have c: "cID c = i" and w: "0 \<le> w" "settled (stBlobs (hStore h)) ?L i w" and i: "i < dbNext (hDB h)"
    using server_inv_thread [OF inv] by auto
  {
    case True
    then obtain n ms new where n: "ns = n # ms" "open_chunk (hStore h) i n = Some new" by (cases ns) auto
    have "server_inv (h\<lparr>hStore := write_blob (hStore h) i w new\<rparr>) g (xs @ [AtCopy i c ms (w + int (length new))] @ ys) C"
      by (rule turn_blob [OF inv, of i]) (use c w(1) i settled_write [OF w(2,1)] in \<open>auto simp: write_blob_def\<close>)
    with n c show ?thesis by (simp add: copy_turn_def)
  next
    case False
    then have same: "fst (copy_turn (hStore h) i c ns w) = hStore h"
      using c by (auto simp: copy_turn_def split: list.splits option.splits)
    have "snd (copy_turn (hStore h) i c ns w) \<in> {Next (AtAbort i), Next (AtUnlink i), Next (AtSeal i w)}"
      using c False by (auto simp: copy_turn_def split: list.splits option.splits)
    then obtain u where u: "snd (copy_turn (hStore h) i c ns w) = Next u" "u = AtAbort i \<or> u = AtUnlink i \<or> u = AtSeal i w" by blast
    have l: "live (hDB h) (xs @ [u] @ ys) = ?L" using u(2) by (auto simp: live_def)
    have "server_inv h g (xs @ [u] @ ys) C"
    proof (rule turn_same [OF inv])
      show "relies (stBlobs (hStore h)) (live (hDB h) (xs @ [u] @ ys)) (dbNext (hDB h)) C v"
        if "v \<in> set [u]" for v using that u(2) i w l by auto
    qed (use u(2) in auto)
    with same u(1) show ?thesis by simp
  }
qed

text \<open>A commit that has found its entry incomplete: nobody has completed the entry before.\<close>

lemma turn_check:
  assumes inv: "server_inv h g (xs @ AtCommit q # ys) C" and apart: "distinct (writing (xs @ middleware (commit_turn h q) @ ys))"
  shows "server_inv h g (xs @ middleware (commit_turn h q) @ ys) C"
proof (cases "\<exists>i c. commit_turn h q = Next (AtList i c)")
  case True
  then obtain i c where c: "commit_turn h q = Next (AtList i c)" "c \<in> set (dbRows (hDB h))" "cID c = i" "\<not> cComplete c"
    by (auto simp: commit_turn_def dest: GetCache_SomeD split: option.splits if_splits)
  have i: "i < dbNext (hDB h)" "i \<notin> C" using server_inv_row [OF inv c(2)] c(3,4) by (auto simp: row_relies_def)
  have w: "set (writing (xs @ ys)) \<inter> C = {}" "distinct (map cID (dbRows (hDB h)))" using inv by (auto simp: server_inv_def)
  show ?thesis unfolding c(1) middleware.simps
  proof (rule turn_frame_gen [OF inv w(2) order_refl])
    show "distinct (writing (xs @ [AtList i c] @ ys))" using apart c(1) by simp
    show "set (writing (xs @ [AtList i c] @ ys)) \<inter> C = {}" using w i by auto
  qed (use c(3) i server_inv_C [OF inv] in auto)
next
  case False
  then obtain code where "commit_turn h q = Reply code" by (auto simp: commit_turn_def split: option.splits if_splits)
  then show ?thesis by (intro turn_same [OF inv]) auto
qed

lemma turn_commit:
  assumes inv: "server_inv h g (xs @ t # ys) C" and t: "writes t \<noteq> []" "\<And>i w. t \<noteq> AtComplete i w"
    and turn: "turn pick now h g t = (h', g', p)"
  shows "server_inv h' g' (xs @ middleware p @ ys) C"
proof -
  note rel = server_inv_thread [OF inv]
  show ?thesis
  proof (cases t)
    case (AtList i c)
    have "h' = h" "g' = g" "p = list_turn (hStore h) i c" using turn AtList by auto
    moreover have "server_inv h g (xs @ middleware (list_turn (hStore h) i c) @ ys) C"
      by (rule turn_same [OF inv]) (use rel AtList in \<open>auto simp: list_turn_def split: option.splits\<close>)
    ultimately show ?thesis by simp
  next
    case (AtCopy i c ns w)
    note turn_copy [OF inv [unfolded AtCopy]]
    with turn AtCopy show ?thesis by (auto split: prod.splits)
  next
    case (AtCreate i c ns)
    let ?s = "(hStore h)\<lparr>stBlobs := (stBlobs (hStore h))(cID c \<mapsto> [])\<rparr>"
    have "server_inv (h\<lparr>hStore := ?s\<rparr>) g (xs @ [AtCopy i c ns 0] @ ys) C"
      by (rule turn_blob [OF inv, of i]) (use AtCreate rel in \<open>auto simp: settled_def\<close>)
    with turn AtCreate show ?thesis by auto
  next
    case (AtUnlink i)
    let ?s = "(hStore h)\<lparr>stBlobs := (stBlobs (hStore h))(i := None)\<rparr>"
    have "server_inv (h\<lparr>hStore := ?s\<rparr>) g (xs @ [AtAbort i] @ ys) C"
      by (rule turn_blob [OF inv, of i]) (use AtUnlink in auto)
    with turn AtUnlink show ?thesis by auto
  next
    case (AtSeal i w)
    have "server_inv (h\<lparr>hStore := remove_chunks (hStore h) i\<rparr>) g (xs @ [AtComplete i w] @ ys) C"
      by (rule turn_blob [OF inv, of i]) (use AtSeal rel in \<open>auto simp: remove_chunks_def\<close>)
    with turn AtSeal show ?thesis by auto
  qed (use t in auto)
qed

lemma turn_inv:
  assumes inv: "server_inv h g (xs @ t # ys) C" and turn: "turn pick now h g t = (h', g', p)" and pick: "picks_newest pick"
    and apart: "distinct (writing (xs @ middleware p @ ys))"
  shows "\<exists>C'. server_inv h' g' (xs @ middleware p @ ys) C'"
proof (cases "writes t = []")
  case False
  show ?thesis
  proof (cases "\<exists>i w. t = AtComplete i w")
    case True
    then obtain i w where t: "t = AtComplete i w" by blast
    from turn_complete [OF inv [unfolded this]] turn t show ?thesis by auto
  qed (use turn_commit [OF inv False _ turn] in blast)
next
  case True
  have "server_inv h' g' (xs @ middleware p @ ys) C"
  proof (cases t)
    case (AtCommit q)
    then show ?thesis using turn_check [OF inv [unfolded AtCommit]] apart turn by auto
  next
    case (AtQuery b keys version)
    then show ?thesis using turn_find [OF inv [unfolded AtQuery] pick] turn by auto
  next
    case (AtInsert req)
    then show ?thesis using turn_insert [OF inv [unfolded AtInsert], of now] turn by (auto split: prod.splits)
  next
    case (AtGcRemove k cs)
    show ?thesis
    proof (cases cs)
      case Nil
      have "server_inv h g (xs @ [AtGcFind (Suc k)] @ ys) C" by (rule turn_same [OF inv]) (use AtGcRemove Nil in auto)
      with turn AtGcRemove Nil show ?thesis by auto
    next
      case (Cons c ds)
      from turn_remove [OF inv [unfolded AtGcRemove Cons]] turn AtGcRemove Cons show ?thesis by auto
    qed
  next
    case (AtGcDelete k cs)
    have "server_inv h g (xs @ [AtGcRemove k []] @ ys) C" if "cs = []"
      by (rule turn_same [OF inv]) (use AtGcDelete that in auto)
    moreover have "server_inv (h\<lparr>hDB := DeleteCache (hDB h) (cID c)\<rparr>) g (xs @ [AtGcRemove k ds] @ ys) C" if "cs = c # ds" for c ds
      by (rule turn_delete [OF inv]) (use AtGcDelete that in auto)
    ultimately show ?thesis using turn AtGcDelete by (cases cs) auto
  next
    case (AtGet q)
    have "server_inv h g (xs @ [AtGc] @ ys) C" by (rule turn_same [OF inv]) (use AtGet in auto)
    moreover have "server_inv (h\<lparr>hDB := TouchCache (unix now) (hDB h) i\<rparr>) g (xs @ [AtServe i] @ ys) C" for i
      by (rule turn_touch [OF inv]) (use AtGet in auto)
    ultimately show ?thesis using turn AtGet by (auto split: option.splits)
  next
    case (AtUpload i rng body whole)
    have "server_inv h g (xs @ middleware (upload_turn h i rng body whole) @ ys) C"
      by (rule turn_same [OF inv]) (use AtUpload in \<open>auto simp: upload_turn_def split: option.splits if_splits prod.splits\<close>)
    with turn AtUpload show ?thesis by auto
  next
    case (AtForget c)
    have "server_inv (h\<lparr>hDB := DeleteCache (hDB h) (cID c)\<rparr>) g (xs @ [AtGc] @ ys) C"
      by (rule turn_delete [OF inv]) (use AtForget in auto)
    with turn AtForget show ?thesis by auto
  next
    case (AtTouch i)
    have "server_inv (h\<lparr>hDB := TouchCache (unix now) (hDB h) i\<rparr>) g (xs @ [AtGc] @ ys) C"
      by (rule turn_touch [OF inv]) (use AtTouch in auto)
    with turn AtTouch show ?thesis by auto
  next
    case AtGcTime
    have "g" using inv AtGcTime by (auto simp: server_inv_def split: if_splits)
    then show ?thesis by (intro turn_same [OF inv]) (use turn AtGcTime in \<open>auto split: if_splits\<close>)
  next
    case (AtGcFind k)
    have "g" using inv AtGcFind by (auto simp: server_inv_def split: if_splits)
    then show ?thesis by (intro turn_same [OF inv]) (use turn AtGcFind in \<open>auto split: if_splits\<close>)
  qed (rule turn_same [OF inv]; use turn True in \<open>auto simp: exist_turn_def remove_chunks_def split: if_splits option.splits\<close>)+
  then show ?thesis by blast
qed

lemma server_inv_init:
  assumes "server_init s"
  shows "server_inv (svH s) (svGcing s) (svThreads s) {cID c |c. c \<in> set (dbRows (hDB (svH s))) \<and> cComplete c}"
proof -
  have "c = d" if "c \<in> set (dbRows (hDB (svH s)))" "d \<in> set (dbRows (hDB (svH s)))" "cID c = cID d" for c d
    using assms that by (auto simp: server_init_def cache_inv_def distinct_map inj_on_def)
  then show ?thesis using assms
    by (fastforce simp: server_init_def server_inv_def row_relies_def settled_def cache_inv_def row_ok_def split: option.splits)
qed

lemma request_inv:
  assumes inv: "server_inv h g ts C"
  shows "server_inv h g (ts @ [start_request req]) C"
proof -
  let ?t = "start_request req"
  have t: "writes ?t = []" "drops ?t = {}" "collects ?t = 0" "relies B L N C ?t" for B L N by (cases req; simp)+
  have "live (hDB h) (ts @ [?t]) = live (hDB h) ts" using t(2) by (simp add: live_def)
  with inv t show ?thesis by (simp add: server_inv_def)
qed

definition server_ok :: "(Cache list \<Rightarrow> Cache option) \<Rightarrow> server \<Rightarrow> bool" where
  "server_ok pick s \<longleftrightarrow> (picks_newest pick \<longrightarrow> (\<exists>C. server_inv (svH s) (svGcing s) (svThreads s) C))"

text \<open>The runs in which commits of one entry do not overlap.\<close>

definition apart_step :: "(Cache list \<Rightarrow> Cache option) \<Rightarrow> server \<Rightarrow> server \<Rightarrow> bool" where
  "apart_step pick s s' \<longleftrightarrow> server_step pick s s' \<and> commits_apart s'"

lemma server_inv_step:
  assumes "picks_newest pick" "server_step pick s s'" "commits_apart s'" "server_inv (svH s) (svGcing s) (svThreads s) C"
  shows "\<exists>C. server_inv (svH s') (svGcing s') (svThreads s') C"
  using assms(2)
proof cases
  case (works xs t ys now h g p)
  then show ?thesis using turn_inv [of "svH s" "svGcing s" xs t ys C pick now h g p] assms(1,3,4) by (simp add: commits_apart_def)
next
  case (arrives req)
  then show ?thesis using request_inv [OF assms(4)] by auto
qed

interpretation serving: invariant_system server_init "apart_step pick" "server_ok pick" for pick
  by unfold_locales (auto simp: server_ok_def apart_step_def intro: server_inv_init server_inv_step)

end
