(* ===== verification/CacheServer_Props.thy ===== *)
theory CacheServer_Props
  imports CacheServer
begin

text \<open>
  What the concurrent cache server guarantees: which answers and states are possible under every
  interleaving, that a request that is not interrupted behaves as the sequential handler
  says, and what an unlucky interleaving with a collection leaves behind.
\<close>

section \<open>Every interleaving\<close>

lemma hit_turn:
  assumes "turn pick now h g t = (h', g', Reply (Hit url key i))"
  shows "\<exists>c b. t = AtExist c \<and> i = cID c \<and> key = cKey c \<and> stBlobs (hStore h) i = Some b"
  using assms
  by (cases "(pick, now, h, g, t)" rule: turn.cases) (auto simp: find_turn_def exist_turn_def Exist_def handle_reserve_def
    upload_turn_def commit_turn_def list_turn_def copy_turn_def split: list.splits option.splits if_splits prod.splits)

text \<open>
  C19: The cache under concurrency: however requests and collections interleave, as long as no two commits of
  one entry overlap, in every reachable state the blob of a complete entry has the recorded
  size, unless it is gone and a thread is about to delete the entry's row; a hit is only reported
  for a blob that is there with its recorded size; and at most one collection runs. (Two commits overlap when
  both have found the entry incomplete and neither has ended; the server does nothing against that, see below.)
\<close>

theorem concurrent_cache:
  assumes "picks_newest pick" "reach server_init (apart_step pick) s"
  shows "(\<forall>c \<in> set (dbRows (hDB (svH s))). cComplete c \<longrightarrow>
       (case Serve (hStore (svH s)) (cID c) of
          Some b \<Rightarrow> cSize c = int (length b)
        | None \<Rightarrow> \<exists>t \<in> set (svThreads s). cID c \<in> drops t)) \<and>
     (\<forall>t \<in> set (svThreads s). \<forall>now h g url key i.
        turn pick now (svH s) (svGcing s) t = (h, g, Reply (Hit url key i)) \<longrightarrow>
        (\<exists>c b. t = AtExist c \<and> i = cID c \<and> key = cKey c \<and> Serve (hStore (svH s)) i = Some b \<and> cSize c = int (length b))) \<and>
     sum_list (map collects (svThreads s)) = (if svGcing s then 1 else 0)"
proof -
  obtain C where inv: "server_inv (svH s) (svGcing s) (svThreads s) C"
    using serving.reach_inv [OF assms(2)] assms(1) by (auto simp: server_ok_def)
  have "cSize c = int (length b)" if "AtExist c \<in> set (svThreads s)" "stBlobs (hStore (svH s)) (cID c) = Some b" for c b
    using inv that by (force simp: server_inv_def)
  then have "\<exists>c b. t = AtExist c \<and> i = cID c \<and> key = cKey c \<and> Serve (hStore (svH s)) i = Some b \<and> cSize c = int (length b)"
    if "t \<in> set (svThreads s)" "turn pick now (svH s) (svGcing s) t = (h, g, Reply (Hit url key i))" for t now h g url key i
    using that hit_turn [OF that(2)] by (auto simp: Serve_def)
  moreover have "case Serve (hStore (svH s)) (cID c) of Some b \<Rightarrow> cSize c = int (length b)
      | None \<Rightarrow> \<exists>t \<in> set (svThreads s). cID c \<in> drops t" if "c \<in> set (dbRows (hDB (svH s)))" "cComplete c" for c
    using server_inv_row [OF inv that(1)] that by (auto simp: row_relies_def settled_def Serve_def live_def split: option.splits)
  ultimately show ?thesis using inv by (simp add: server_inv_def)
qed

section \<open>No interleaving\<close>

text \<open>A thread that has all turns to itself, at one moment: the state and the answer it ends with.\<close>

inductive finishes :: "(Cache list \<Rightarrow> Cache option) \<Rightarrow> int \<Rightarrow> Handler \<Rightarrow> bool \<Rightarrow> thread \<Rightarrow> Handler \<Rightarrow> bool \<Rightarrow> Response option \<Rightarrow> bool"
  for pick now where
  replies: "turn pick now h g t = (h', g', Reply r) \<Longrightarrow> finishes pick now h g t h' g' (Some r)"
| ends: "turn pick now h g t = (h', g', Ended) \<Longrightarrow> finishes pick now h g t h' g' None"
| goes_on: "turn pick now h g t = (h1, g1, Next u) \<Longrightarrow> finishes pick now h1 g1 u h' g' r \<Longrightarrow> finishes pick now h g t h' g' r"

lemma find_alone:
  "finishes pick now h g (AtQuery False keys version) h' g' r \<longleftrightarrow>
     (case FindCache pick (hDB h) keys version of
        None \<Rightarrow> h' = h \<and> g' = g \<and> r = Some (Status 204)
      | Some c \<Rightarrow> finishes pick now h g (AtExist c) h' g' r)"
proof (induction keys)
  case Nil
  then show ?case by (auto simp: find_turn_def finishes.simps [of _ _ _ _ "AtQuery _ _ _"])
next
  case (Cons p keys)
  have "finishes pick now h g (AtQuery b (p # keys) version) h' g' r \<longleftrightarrow>
      (case pick (if b then select_like (hDB h) (Replace likeEscaper p @ ''%'') version else select_exact (hDB h) p version) of
         Some c \<Rightarrow> finishes pick now h g (AtExist c) h' g' r
       | None \<Rightarrow> finishes pick now h g (if b then AtQuery False keys version else AtQuery True (p # keys) version) h' g' r)" for b
    by (subst finishes.simps) (auto simp: find_turn_def split: option.splits)
  from this [of False] this [of True] Cons show ?case by (auto split: option.splits)
qed

lemma exist_alone:
  "finishes pick now h g (AtExist c)
     (if Exist (hStore h) (cID c) then h else h\<lparr>hDB := DeleteCache (hDB h) (cID c)\<rparr>) g
     (Some (if Exist (hStore h) (cID c) then Hit (ExternalURL h @ urlBase @ ''/artifacts/'' @ Itoa (cID c)) (cKey c) (cID c) else Status 204))"
proof (cases "Exist (hStore h) (cID c)")
  case False
  then show ?thesis by (intro goes_on [of pick now h g "AtExist c" h g "AtForget c"]) (auto simp: exist_turn_def intro: replies)
qed (auto simp: exist_turn_def intro: replies)

text \<open>Copying the chunks one by one writes their concatenation.\<close>

lemma copy_alone:
  assumes "distinct (map fst (d1 @ d2))" "stTemp s i = Some (d1 @ d2)" "cID c = i"
    and "finishes pick now (h\<lparr>hStore := s\<lparr>stBlobs := (stBlobs s)(i \<mapsto> concat (map snd (d1 @ d2)))\<rparr>\<rparr>) g
      (AtCopy i c [] (int (length (concat (map snd (d1 @ d2)))))) h' g' r"
  shows "finishes pick now (h\<lparr>hStore := s\<lparr>stBlobs := (stBlobs s)(i \<mapsto> concat (map snd d1))\<rparr>\<rparr>) g
    (AtCopy i c (map fst d2) (int (length (concat (map snd d1))))) h' g' r"
  using assms(1,2,4)
proof (induction d2 arbitrary: d1)
  case (Cons e d2)
  obtain n new where e: "e = (n, new)" by fastforce
  let ?s = "s\<lparr>stBlobs := (stBlobs s)(i \<mapsto> concat (map snd d1))\<rparr>"
  have "map_of (d1 @ e # d2) n = Some new" using Cons.prems(1) by (subst map_of_eq_Some_iff) (auto simp: e)
  then have "open_chunk ?s i n = Some new" using Cons.prems(2) by (simp add: open_chunk_def)
  moreover have "write_blob ?s i (int (length (concat (map snd d1)))) new = s\<lparr>stBlobs := (stBlobs s)(i \<mapsto> concat (map snd (d1 @ [e])))\<rparr>"
    using put_bytes_end [of "concat (map snd d1)" new] by (simp add: write_blob_def e)
  ultimately have "turn pick now (h\<lparr>hStore := ?s\<rparr>) g (AtCopy i c (map fst (e # d2)) (int (length (concat (map snd d1))))) =
    (h\<lparr>hStore := s\<lparr>stBlobs := (stBlobs s)(i \<mapsto> concat (map snd (d1 @ [e])))\<rparr>\<rparr>, g, Next (AtCopy i c (map fst d2) (int (length (concat (map snd (d1 @ [e])))))))"
    using assms(3) by (simp add: copy_turn_def e)
  then show ?case by (rule goes_on) (rule Cons.IH; use Cons.prems in simp)
qed (use assms in simp)

lemma sweep_alone:
  "finishes pick now (sweep h cs) g (AtGcFind (Suc k)) h' g' r \<Longrightarrow> finishes pick now h g (AtGcRemove k cs) h' g' r"
proof (induction cs arbitrary: h)
  case Nil
  then show ?case by (auto simp: sweep_def intro: goes_on)
next
  case (Cons c cs)
  show ?case
    by (rule goes_on [OF turn.simps(25)], rule goes_on [OF turn.simps(27)]) (use Cons in \<open>simp add: sweep_def\<close>)
qed

lemma gc_alone: "finishes pick now h False AtGc (gcCache now h) False None"
proof (rule goes_on [of pick now h False AtGc h True AtGcTime])
  show "finishes pick now h True AtGcTime (gcCache now h) False None"
  proof (cases "now - hGcAt h < Hour")
    case True
    then show ?thesis by (intro ends) (simp add: gcCache_def)
  next
    case False
    have stage: "finishes pick now h g (AtGcFind k) h' g' r"
      if "k < 4" "finishes pick now (sweep h (gc_query now (hDB h) k)) g (AtGcFind (Suc k)) h' g' r" for h g k h' g' r
      using that(1) sweep_alone [OF that(2)] by (auto intro: goes_on)
    have e: "finishes pick now h True (AtGcFind 4) h False None" for h by (rule ends) simp
    let ?s = "\<lambda>h k. sweep h (gc_query now (hDB h) k)"
    have "finishes pick now h True (AtGcFind 3) (?s h 3) False None" for h by (rule stage) (simp_all add: e)
    then have "finishes pick now h True (AtGcFind 2) (?s (?s h 2) 3) False None" for h by - (rule stage, simp_all)
    then have "finishes pick now h True (AtGcFind 1) (?s (?s (?s h 1) 2) 3) False None" for h by - (rule stage, simp_all add: numeral_2_eq_2)
    then have "finishes pick now h True (AtGcFind 0) (?s (?s (?s (?s h 0) 1) 2) 3) False None" for h by - (rule stage, simp_all)
    from this [of "h\<lparr>hGcAt := now\<rparr>"] False show ?thesis
      by (intro goes_on [of pick now h True AtGcTime "h\<lparr>hGcAt := now\<rparr>" True "AtGcFind 0"]) (simp_all add: gcCache_def gc_query_def Let_def)
  qed
qed simp

lemma commit_alone:
  assumes "\<And>d. stTemp (hStore h) i = Some d \<Longrightarrow> distinct (map fst d)" "cID c = i"
  shows "finishes pick now h g (AtList i c)
    (case Commit (hStore h) i (cSize c) of (s, Inl _) \<Rightarrow> h\<lparr>hStore := s\<rparr> | (s, Inr sz) \<Rightarrow> h\<lparr>hStore := s, hDB := CompleteCache (hDB h) i sz\<rparr>) g
    (Some (Status (if isl (snd (Commit (hStore h) i (cSize c))) then 500 else 200)))"
proof (cases "stTemp (hStore h) i")
  case None
  then have "remove_chunks (hStore h) i = hStore h" by (simp add: remove_chunks_def fun_upd_idem)
  then have "turn pick now h g (AtAbort i) = (h, g, Reply (Status 500))" by simp
  then show ?thesis using None assms(2)
    by (intro goes_on [of pick now h g "AtList i c" h g "AtAbort i"]) (auto simp: list_turn_def Commit_def intro: replies)
next
  case (Some d)
  let ?s = "hStore h" and ?w = "int (length (concat (map snd d)))"
  let ?s' = "?s\<lparr>stBlobs := (stBlobs ?s)(i \<mapsto> concat (map snd d))\<rparr>"
  let ?res = "case Commit ?s i (cSize c) of (s, Inl _) \<Rightarrow> h\<lparr>hStore := s\<rparr> | (s, Inr sz) \<Rightarrow> h\<lparr>hStore := s, hDB := CompleteCache (hDB h) i sz\<rparr>"
  let ?code = "Some (Status (if isl (snd (Commit ?s i (cSize c))) then 500 else 200))"
  have "finishes pick now (h\<lparr>hStore := ?s'\<rparr>) g (AtCopy i c [] ?w) ?res g ?code"
  proof (cases "cSize c \<ge> 0 \<and> ?w \<noteq> cSize c")
    case True
    have "turn pick now (h\<lparr>hStore := ?s'\<rparr>) g (AtCopy i c [] ?w) = (h\<lparr>hStore := ?s'\<rparr>, g, Next (AtUnlink i))"
      using True by (simp add: copy_turn_def)
    then show ?thesis
      by (rule goes_on) (rule goes_on, simp, rule replies, use Some True in \<open>simp add: Commit_def remove_chunks_def Let_def\<close>)
  next
    case False
    then have "turn pick now (h\<lparr>hStore := ?s'\<rparr>) g (AtCopy i c [] ?w) = (h\<lparr>hStore := ?s'\<rparr>, g, Next (AtSeal i ?w))"
      by (auto simp: copy_turn_def)
    then show ?thesis
      by (rule goes_on) (rule goes_on, simp, rule replies, use Some False in \<open>auto simp: Commit_def remove_chunks_def Let_def\<close>)
  qed
  then have "finishes pick now (h\<lparr>hStore := ?s\<lparr>stBlobs := (stBlobs ?s)(i \<mapsto> [])\<rparr>\<rparr>) g (AtCopy i c (map fst d) 0) ?res g ?code"
    using copy_alone [of "[]" d ?s i c] assms Some by simp
  then show ?thesis using Some assms(2)
    by (intro goes_on [of pick now h g "AtList i c" h g "AtCreate i c (map fst d)"] goes_on [of pick now h g "AtCreate i c (map fst d)"])
      (auto simp: list_turn_def)
qed

lemma upload_alone:
  "finishes pick now h g (AtUpload q rng body whole) (fst (handle_upload now h q rng body whole)) g
     (Some (snd (handle_upload now h q rng body whole)))"
proof (cases "\<exists>u. upload_turn h q rng body whole = Next u")
  case True
  then obtain i c start stop where c: "ParseInt 64 q = Some i" "GetCache (hDB h) i = Some c" "\<not> cComplete c"
    "parseContentRange rng = Some (start, stop)" by (auto simp: upload_turn_def split: option.splits if_splits)
  let ?h = "h\<lparr>hStore := fst (Write (hStore h) (cID c) start body whole)\<rparr>"
  have r: "handle_upload now h q rng body whole =
      (if whole then (?h\<lparr>hDB := TouchCache (unix now) (hDB h) i\<rparr>, Status 200) else (?h, Status 500))"
    using c by (simp add: handle_upload_def Write_def)
  obtain s1 where s1: "create_chunk (make_temp (hStore h) (cID c)) (cID c) start = Some s1"
    "fill_chunk s1 (cID c) start body = fst (Write (hStore h) (cID c) start body whole)" using write_in_turns by blast
  have "finishes pick now (h\<lparr>hStore := s1\<rparr>) g (AtBody i c start body whole) (fst (handle_upload now h q rng body whole)) g
     (Some (snd (handle_upload now h q rng body whole)))"
  proof (cases whole)
    case True
    have "finishes pick now ?h g (AtTouch i) (?h\<lparr>hDB := TouchCache (unix now) (hDB h) i\<rparr>) g (Some (Status 200))"
      by (rule replies) simp
    then show ?thesis unfolding r using True s1(2) by (auto intro: goes_on)
  next
    case False
    then show ?thesis unfolding r using s1(2) by (auto intro: replies)
  qed
  then have "finishes pick now (h\<lparr>hStore := make_temp (hStore h) (cID c)\<rparr>) g (AtChunk i c start body whole)
     (fst (handle_upload now h q rng body whole)) g (Some (snd (handle_upload now h q rng body whole)))"
    by (rule goes_on [rotated]) (simp add: s1(1))
  then have "finishes pick now h g (AtWrite i c start body whole)
     (fst (handle_upload now h q rng body whole)) g (Some (snd (handle_upload now h q rng body whole)))"
    by (rule goes_on [rotated]) simp
  then show ?thesis by (rule goes_on [rotated]) (use c in \<open>simp add: upload_turn_def\<close>)
qed (auto simp: upload_turn_def handle_upload_def intro!: replies split: option.splits if_splits)

text \<open>
  C20: Requests and collections that are not interrupted: the turns of a request, taken one after the
  other, end with the state and the answer of the sequential handler, and those of a collection
  with the state of the sequential one; both leave the flag \<^verbatim>\<open>gcing\<close> as it was.
\<close>

theorem uninterrupted:
  assumes "\<And>i d. stTemp (hStore h) i = Some d \<Longrightarrow> distinct (map fst d)"
  shows "finishes pick now h g (start_request req) (fst (handle pick now h req)) g (Some (snd (handle pick now h req))) \<and>
    finishes pick now h False AtGc (gcCache now h) False None"
proof -
  have "finishes pick now h g (start_request req) (fst (handle pick now h req)) g (Some (snd (handle pick now h req)))"
  proof (cases req)
    case (Find keysParam version)
    show ?thesis
    proof (cases "FindCache pick (hDB h) (map ToLower (Split CHR '','' keysParam)) version")
      case (Some c)
      with Find exist_alone [of pick now h g c] show ?thesis by (auto simp: find_alone handle_find_def)
    qed (use Find in \<open>simp add: find_alone handle_find_def\<close>)
  next
    case (Upload q rng body whole)
    then show ?thesis using upload_alone by simp
  next
    case (CommitUpload q)
    show ?thesis
    proof (cases "\<exists>u. commit_turn h q = Next u")
      case True
      then obtain i c where c: "ParseInt 64 q = Some i" "GetCache (hDB h) i = Some c" "\<not> cComplete c"
        by (auto simp: commit_turn_def split: option.splits if_splits)
      then have "cID c = i" by (auto dest: GetCache_SomeD)
      have "finishes pick now h g (AtList i c) (fst (handle pick now h req)) g (Some (snd (handle pick now h req)))"
        using commit_alone [of h i c pick now g, OF assms \<open>cID c = i\<close>] c CommitUpload \<open>cID c = i\<close>
        by (auto simp: handle_commit_def split: prod.splits sum.splits)
      then show ?thesis by (rule goes_on [rotated]) (use c CommitUpload in \<open>simp add: commit_turn_def\<close>)
    qed (use CommitUpload in \<open>auto simp: commit_turn_def handle_commit_def intro!: replies split: option.splits if_splits\<close>)
  next
    case (Get q)
    show ?thesis
    proof (cases "ParseInt 64 q")
      case (Some i)
      have "finishes pick now (fst (handle pick now h req)) g (AtServe i) (fst (handle pick now h req)) g (Some (snd (handle pick now h req)))"
        by (rule replies) (use Get Some in \<open>simp add: handle_get_def\<close>)
      then show ?thesis by (rule goes_on [rotated]) (use Get Some in \<open>simp add: handle_get_def\<close>)
    qed (use Get in \<open>auto simp: handle_get_def intro: replies\<close>)
  qed (auto intro!: replies split: prod.split)
  then show ?thesis using gc_alone by blast
qed

section \<open>Schedules\<close>

text \<open>A schedule names the next event: a request that arrives, or the thread that takes a turn and the time.\<close>

datatype event = Arrive Request | Turn nat int

fun happen :: "(Cache list \<Rightarrow> Cache option) \<Rightarrow> server \<Rightarrow> event \<Rightarrow> server option" where
  "happen pick s (Arrive req) = Some (s\<lparr>svThreads := svThreads s @ [start_request req]\<rparr>)"
| "happen pick s (Turn i now) =
     (if i < length (svThreads s)
      then case turn pick now (svH s) (svGcing s) (svThreads s ! i) of
        (h, g, p) \<Rightarrow> Some (s\<lparr>svH := h, svGcing := g, svThreads := take i (svThreads s) @ middleware p @ drop (Suc i) (svThreads s)\<rparr>)
      else None)"

fun schedule :: "(Cache list \<Rightarrow> Cache option) \<Rightarrow> server \<Rightarrow> event list \<Rightarrow> server option" where
  "schedule pick s [] = Some s"
| "schedule pick s (e # es) = (case happen pick s e of None \<Rightarrow> None | Some t \<Rightarrow> schedule pick t es)"

lemma happen_step: "happen pick s e = Some t \<Longrightarrow> server_step pick s t"
  by (cases e) (auto intro: server_step.intros id_take_nth_drop split: if_splits prod.splits)

lemma schedule_reach: "reach init (server_step pick) s \<Longrightarrow> schedule pick s es = Some t \<Longrightarrow> reach init (server_step pick) t"
proof (induction es arbitrary: s)
  case (Cons e es)
  from Cons.prems(2) obtain u where u: "happen pick s e = Some u" "schedule pick u es = Some t" by (auto split: option.splits)
  from reach_step [OF Cons.prems(1) happen_step [OF u(1)]] u(2) show ?case by (rule Cons.IH)
qed simp

text \<open>The same, watching that commits of one entry stay apart.\<close>

fun schedule_apart :: "(Cache list \<Rightarrow> Cache option) \<Rightarrow> server \<Rightarrow> event list \<Rightarrow> server option" where
  "schedule_apart pick s [] = Some s"
| "schedule_apart pick s (e # es) =
     (case happen pick s e of None \<Rightarrow> None | Some t \<Rightarrow> if commits_apart t then schedule_apart pick t es else None)"

lemma schedule_apart_reach:
  "reach init (apart_step pick) s \<Longrightarrow> schedule_apart pick s es = Some t \<Longrightarrow> reach init (apart_step pick) t"
proof (induction es arbitrary: s)
  case (Cons e es)
  from Cons.prems(2) obtain u where u: "happen pick s e = Some u" "commits_apart u" "schedule_apart pick u es = Some t"
    by (auto split: option.splits if_splits)
  then have "apart_step pick s u" using happen_step by (simp add: apart_step_def)
  from reach_step [OF Cons.prems(1) this] u(3) show ?case by (rule Cons.IH)
qed simp

definition fresh_server :: server where
  "fresh_server = \<lparr>svH = empty_cache ''/d'' ''ip'' 80, svGcing = False, svThreads = []\<rparr>"

lemma fresh_init: "server_init fresh_server"
  using cache_inv_start by (auto simp: server_init_def fresh_server_def empty_cache_def)

lemmas fresh_reach = schedule_reach [OF reach_init [of server_init, OF fresh_init]]
lemmas fresh_apart = schedule_apart_reach [OF reach_init [of server_init, OF fresh_init]]

text \<open>
  What an unlucky interleaving leaves behind. An upload finds the row of its entry; a collection that
  has found the same entry expired removes its files; the upload writes its chunk; the collection
  deletes the row. The chunk stays on disk and no row names it, so no later collection removes it; the
  client was told that the upload succeeded.
\<close>

definition leak_schedule :: "event list" where
  "leak_schedule =
     [Arrive (Reserve (Some (''k'', ''v'', 2))), Turn 0 0, Turn 0 0, Turn 0 0,
      Arrive (Upload ''1'' ''bytes 0-1/*'' ''ab'' True), Turn 0 (2 * Hour),
      Arrive CleanAll, Turn 1 (2 * Hour), Turn 1 (2 * Hour), Turn 1 (2 * Hour), Turn 1 (2 * Hour), Turn 1 (2 * Hour),
      Turn 0 (2 * Hour), Turn 0 (2 * Hour), Turn 0 (2 * Hour), Turn 0 (2 * Hour), Turn 0 (2 * Hour),
      Turn 0 (2 * Hour), Turn 0 (2 * Hour), Turn 0 (2 * Hour), Turn 0 (2 * Hour), Turn 0 (2 * Hour), Turn 0 (2 * Hour),
      Turn 0 (2 * Hour), Turn 0 (2 * Hour), Turn 0 (2 * Hour)]"

theorem collection_leaks_chunk:
  "\<exists>s. reach server_init (server_step newest) s \<and> svThreads s = [] \<and> dbRows (hDB (svH s)) = [] \<and>
     stTemp (hStore (svH s)) 1 = Some [(chunk_name 0, ''ab'')]"
proof -
  have "map_option (\<lambda>s. (svThreads s, dbRows (hDB (svH s)), stTemp (hStore (svH s)) 1)) (schedule newest fresh_server leak_schedule) =
    Some ([], [], Some [(chunk_name 0, ''ab'')])" by code_simp
  then show ?thesis using fresh_reach by fastforce
qed

text \<open>
  Why commits of one entry have to stay apart: a second commit of the same entry that has
  listed the chunks before the first one removed them truncates the finished blob and then
  finds no chunk to copy. The entry is complete, its recorded size is two, and what is served is empty.
\<close>

definition uploaded :: Handler where
  "uploaded = (fst (handle newest 0 (empty_cache ''/d'' ''ip'' 80) (Reserve (Some (''k'', ''v'', 2)))))
     \<lparr>hStore := \<lparr>stBlobs = Map.empty, stTemp = [1 \<mapsto> [(chunk_name 0, ''a''), (chunk_name 1, ''b'')]]\<rparr>\<rparr>"

definition double_commit :: "event list" where
  "double_commit =
     [Arrive (Reserve (Some (''k'', ''v'', 2))), Turn 0 0, Turn 0 0, Turn 0 0,
      Arrive (Upload ''1'' ''bytes 0-1/*'' ''ab'' True), Turn 0 0, Turn 0 0, Turn 0 0, Turn 0 0, Turn 0 0, Turn 0 0, Turn 0 0,
      Arrive (CommitUpload ''1''), Arrive (CommitUpload ''1'')] @
     map (\<lambda>i. Turn i 0) [1, 1, 0, 0, 0, 0, 0, 0, 0, 1, 1, 1]"

theorem double_commit_truncates:
  "\<exists>s. reach server_init (server_step newest) s \<and>
     map (\<lambda>c. (cComplete c, cSize c)) (dbRows (hDB (svH s))) = [(True, 2)] \<and> Serve (hStore (svH s)) 1 = Some [] \<and>
     svThreads s = [AtGc, AtGc]"
proof -
  have "map_option (\<lambda>s. (map (\<lambda>c. (cComplete c, cSize c)) (dbRows (hDB (svH s))), Serve (hStore (svH s)) 1, svThreads s))
      (schedule newest fresh_server double_commit) = Some ([(True, 2)], Some [], [AtGc, AtGc])"
    by code_simp
  then show ?thesis using fresh_reach by fastforce
qed

section \<open>Witnesses\<close>

text \<open>An entry is stored; while a request looks for it, it is complete and its blob is there.\<close>

definition hit_schedule :: "event list" where
  "hit_schedule =
     [Arrive (Reserve (Some (''k'', ''v'', 2))), Turn 0 0, Turn 0 0, Turn 0 0,
      Arrive (Upload ''1'' ''bytes 0-1/*'' ''ab'' True), Turn 0 0, Turn 0 0, Turn 0 0, Turn 0 0, Turn 0 0, Turn 0 0, Turn 0 0,
      Arrive (CommitUpload ''1''), Turn 0 0, Turn 0 0, Turn 0 0, Turn 0 0, Turn 0 0, Turn 0 0, Turn 0 0,
      Arrive (Find ''k'' ''v''), Turn 1 0]"

theorem concurrent_cache_witness:
  "\<exists>s c. schedule_apart newest fresh_server hit_schedule = Some s \<and> svThreads s = [AtGc, AtExist c] \<and>
     (\<exists>b. Serve (hStore (svH s)) 1 = Some b \<and> cSize c = int (length b))"
proof -
  let ?f = "\<lambda>s. (svThreads s, map (\<lambda>t. case turn newest 0 (svH s) (svGcing s) t of (h, g, p) \<Rightarrow> p) (svThreads s))"
  let ?c = "\<lparr>cID = 1, cKey = ''k'', cVersion = ''v'', cSize = 2, cComplete = True, cUsedAt = 0, cCreatedAt = 0\<rparr>"
  have "map_option ?f (schedule_apart newest fresh_server hit_schedule) =
    Some ([AtGc, AtExist ?c], [Next AtGcTime, Reply (Hit ''http://ip:80/_apis/artifactcache/artifacts/1'' ''k'' 1)])"
    by code_simp
  then obtain s where s: "schedule_apart newest fresh_server hit_schedule = Some s" "svThreads s = [AtGc, AtExist ?c]"
    "exist_turn (svH s) ?c = Reply (Hit ''http://ip:80/_apis/artifactcache/artifacts/1'' ''k'' 1)" by auto
  have "turn newest 0 (svH s) (svGcing s) (AtExist ?c) =
    (svH s, svGcing s, Reply (Hit ''http://ip:80/_apis/artifactcache/artifacts/1'' ''k'' 1))" using s(3) by simp
  moreover have "AtExist ?c \<in> set (svThreads s)" using s(2) by simp
  ultimately have "\<exists>c b. AtExist ?c = AtExist c \<and> 1 = cID c \<and> ''k'' = cKey c \<and> Serve (hStore (svH s)) 1 = Some b \<and> cSize c = int (length b)"
    using concurrent_cache [OF newest_picks fresh_apart [OF s(1)]] by blast
  with s show ?thesis by blast
qed

theorem uninterrupted_witness:
  "\<exists>h. finishes newest 9 uploaded False (AtCommit ''1'') h False (Some (Status 200))"
proof -
  have n: "chunk_name 0 \<noteq> chunk_name 1" using chunk_name_mono [of 0 1] by auto
  have d: "distinct (map fst d)" if "stTemp (hStore uploaded) i = Some d" for i d
    using that n by (auto simp: uploaded_def split: if_splits)
  have "snd (handle newest 9 uploaded (CommitUpload ''1'')) = Status 200" by code_simp
  then show ?thesis using uninterrupted [of uploaded newest 9 False "CommitUpload ''1''"] d by auto
qed

end
