(* ===== verification/FileSystem.thy ===== *)
theory FileSystem
  imports Paths "HOL-Library.AList" "HOL-Library.List_Lexorder" "HOL-Library.Char_ord"
begin

text \<open>
  The file-system calls of package \<^verbatim>\<open>os\<close> that the entrypoint and the cache server make, on Unix. A
  file system is the finite table of its nodes, each under its canonical path (the names on the way
  from the root, none of them a link). Permissions, time stamps and hard links are left out, and the
  calls fail only for reasons visible in the table. Paths are absolute.
\<close>

datatype node = DirNode | FileNode string | LinkNode string

datatype fs_error = ENOENT | ENOTDIR | EEXIST | ELOOP | EISDIR | ENOTEMPTY | EINVAL

type_synonym fpath = "string list"
type_synonym fs = "(fpath \<times> node) list"

definition node_at :: "fs \<Rightarrow> fpath \<Rightarrow> node option" where
  "node_at fs p = (if p = [] then Some DirNode else map_of fs p)"

definition set_node :: "fs \<Rightarrow> fpath \<Rightarrow> node \<Rightarrow> fs" where
  "set_node fs p nd = AList.update p nd fs"

text \<open>Removal of a node with all that is below it.\<close>

definition prune :: "fs \<Rightarrow> fpath \<Rightarrow> fs" where
  "prune fs p = filter (\<lambda>(q, _). \<not> prefix p q) fs"

lemma node_at_root [simp]: "node_at fs [] = Some DirNode"
  by (simp add: node_at_def)

lemma node_at_set_node: "p \<noteq> [] \<Longrightarrow> node_at (set_node fs p nd) q = (if q = p then Some nd else node_at fs q)"
  by (simp add: node_at_def set_node_def update_conv')

lemma node_at_prune: "p \<noteq> [] \<Longrightarrow> node_at (prune fs p) q = (if prefix p q then None else node_at fs q)"
proof (cases "prefix p q")
  case True
  assume "p \<noteq> []"
  with True have "q \<noteq> []" by auto
  moreover have "map_of (prune fs p) q = None" using True by (auto simp: prune_def map_of_eq_None_iff)
  ultimately show ?thesis using True by (simp add: node_at_def)
next
  case False
  then have "map_of (filter (\<lambda>(q, _). \<not> prefix p q) fs) q = map_of fs q" by (induction fs) auto
  then show ?thesis using False by (simp add: node_at_def prune_def)
qed

text \<open>A table is well formed when every node other than the root lies in a directory.\<close>

definition fs_ok :: "fs \<Rightarrow> bool" where
  "fs_ok fs \<longleftrightarrow> (\<forall>p e. node_at fs (p @ [e]) \<noteq> None \<longrightarrow> node_at fs p = Some DirNode)"

lemma fs_okD: "fs_ok fs \<Longrightarrow> node_at fs (p @ [e]) \<noteq> None \<Longrightarrow> node_at fs p = Some DirNode"
  unfolding fs_ok_def by blast

lemma fs_ok_below: "fs_ok fs \<Longrightarrow> node_at fs p \<noteq> Some DirNode \<Longrightarrow> r \<noteq> [] \<Longrightarrow> node_at fs (p @ r) = None"
proof (induction r rule: rev_induct)
  case (snoc e r)
  have "node_at fs (p @ r) \<noteq> Some DirNode" using snoc by (cases "r = []") auto
  then show ?case using snoc.prems(1) fs_okD [of fs "p @ r" e] by fastforce
qed simp

lemma absent_below: "fs_ok fs \<Longrightarrow> node_at fs p = None \<Longrightarrow> prefix p q \<Longrightarrow> node_at fs q = None"
  using fs_ok_below [of fs p "drop (length p) q"] by (cases "drop (length p) q = []") (auto elim!: prefixE)

lemma fs_ok_above: "fs_ok fs \<Longrightarrow> node_at fs (p @ r) \<noteq> None \<Longrightarrow> r \<noteq> [] \<Longrightarrow> node_at fs p = Some DirNode"
  by (rule ccontr) (simp add: fs_ok_below)

lemma fs_ok_set_node:
  assumes "fs_ok fs" "node_at fs p = Some DirNode" "node_at fs (p @ [e]) \<noteq> Some DirNode"
  shows "fs_ok (set_node fs (p @ [e]) nd)"
  unfolding fs_ok_def
proof (intro allI impI)
  fix q x assume a: "node_at (set_node fs (p @ [e]) nd) (q @ [x]) \<noteq> None"
  have n: "node_at (set_node fs (p @ [e]) nd) r = (if r = p @ [e] then Some nd else node_at fs r)" for r
    by (simp add: node_at_set_node)
  have "q = p \<or> node_at fs q = Some DirNode" using a fs_okD [OF assms(1), of q x] by (auto simp: n split: if_splits)
  then show "node_at (set_node fs (p @ [e]) nd) q = Some DirNode" using assms(2,3) by (auto simp: n)
qed

section \<open>Resolution of paths\<close>

text \<open>
  The walk of the kernel over the names of a path: \<open>..\<close> goes to the parent, a link is replaced by its
  target, at most \<open>n\<close> times, and the last name is followed only on demand. The last name may be missing.
\<close>

function walk :: "fs \<Rightarrow> bool \<Rightarrow> nat \<Rightarrow> fpath \<Rightarrow> string list \<Rightarrow> fs_error + fpath" where
  "walk fs follow n cur [] = Inr cur"
| "walk fs follow n cur (e # es) =
     (if e = [] \<or> e = ''.'' then walk fs follow n cur es
      else if e = ''..'' then walk fs follow n (butlast cur) es
      else case node_at fs (cur @ [e]) of
          None \<Rightarrow> if es = [] then Inr (cur @ [e]) else Inl ENOENT
        | Some DirNode \<Rightarrow> walk fs follow n (cur @ [e]) es
        | Some (FileNode _) \<Rightarrow> if es = [] then Inr (cur @ [e]) else Inl ENOTDIR
        | Some (LinkNode t) \<Rightarrow>
            if es = [] \<and> \<not> follow then Inr (cur @ [e])
            else case n of
                0 \<Rightarrow> Inl ELOOP
              | Suc n' \<Rightarrow> walk fs follow n' (if IsAbs t then [] else cur) (Split CHR ''/'' t @ es))"
  by pat_completeness auto
termination
  by (relation "measures [\<lambda>(fs, follow, n, cur, es). n, \<lambda>(fs, follow, n, cur, es). length es]") auto

definition maxLinks :: nat where "maxLinks = 40"

definition locate :: "fs \<Rightarrow> bool \<Rightarrow> string \<Rightarrow> fs_error + fpath" where
  "locate fs follow p = walk fs follow maxLinks [] (Split CHR ''/'' p)"

section \<open>Calls\<close>

definition os_Stat :: "fs \<Rightarrow> string \<Rightarrow> fs_error + node" where
  "os_Stat fs p =
     (case locate fs True p of Inl e \<Rightarrow> Inl e
      | Inr q \<Rightarrow> (case node_at fs q of None \<Rightarrow> Inl ENOENT | Some nd \<Rightarrow> Inr nd))"

definition os_Lstat :: "fs \<Rightarrow> string \<Rightarrow> fs_error + node" where
  "os_Lstat fs p =
     (case locate fs False p of Inl e \<Rightarrow> Inl e
      | Inr q \<Rightarrow> (case node_at fs q of None \<Rightarrow> Inl ENOENT | Some nd \<Rightarrow> Inr nd))"

text \<open>Making a directory ignores a slash at the end of its name.\<close>

definition os_Mkdir :: "fs \<Rightarrow> string \<Rightarrow> fs_error + fs" where
  "os_Mkdir fs p =
     (case locate fs False (TrimRight p ''/'') of Inl e \<Rightarrow> Inl e
      | Inr q \<Rightarrow> (if node_at fs q \<noteq> None then Inl EEXIST else Inr (set_node fs q DirNode)))"

text \<open>The part of a path that \<^verbatim>\<open>os.MkdirAll\<close> takes for its parent; it ends with a slash.\<close>

definition parent_part :: "string \<Rightarrow> string" where
  "parent_part p = rev (dropWhile (\<lambda>c. c \<noteq> CHR ''/'') (dropWhile (\<lambda>c. c = CHR ''/'') (rev p)))"

lemma parent_part_shorter: "parent_part p \<noteq> [] \<Longrightarrow> length (parent_part p) < length p"
proof -
  assume ne: "parent_part p \<noteq> []"
  define r where "r = dropWhile (\<lambda>c. c = CHR ''/'') (rev p)"
  have p: "parent_part p = rev (dropWhile (\<lambda>c. c \<noteq> CHR ''/'') r)" by (simp add: parent_part_def r_def)
  with ne have "r \<noteq> []" by auto
  moreover from this have "hd r \<noteq> CHR ''/''" unfolding r_def by (rule hd_dropWhile)
  ultimately have "length (parent_part p) < length r"
    unfolding p by (cases r) (simp_all add: length_dropWhile_le le_imp_less_Suc)
  also have "length r \<le> length p" using length_dropWhile_le [of _ "rev p"] by (simp add: r_def)
  finally show ?thesis .
qed

text \<open>The calls below return the error that stopped them, if any, and the file system they leave.\<close>

function os_MkdirAll :: "fs \<Rightarrow> string \<Rightarrow> fs_error option \<times> fs" where
  "os_MkdirAll fs p =
     (case os_Stat fs p of
        Inr DirNode \<Rightarrow> (None, fs)
      | Inr _ \<Rightarrow> (Some ENOTDIR, fs)
      | Inl _ \<Rightarrow>
          (case (if parent_part p \<noteq> [] then os_MkdirAll fs (parent_part p) else (None, fs)) of
             (Some e, fs1) \<Rightarrow> (Some e, fs1)
           | (None, fs1) \<Rightarrow>
               (case os_Mkdir fs1 p of
                  Inr fs2 \<Rightarrow> (None, fs2)
                | Inl e \<Rightarrow> (if os_Lstat fs1 p = Inr DirNode then (None, fs1) else (Some e, fs1)))))"
  by pat_completeness auto
termination by (relation "measure (\<lambda>(fs, p). length p)") (auto intro: parent_part_shorter)

declare os_MkdirAll.simps [simp del]

definition os_Symlink :: "fs \<Rightarrow> string \<Rightarrow> string \<Rightarrow> fs_error + fs" where
  "os_Symlink fs t p =
     (if t = [] then Inl ENOENT
      else case locate fs False p of Inl e \<Rightarrow> Inl e
        | Inr q \<Rightarrow> (if node_at fs q \<noteq> None then Inl EEXIST else Inr (set_node fs q (LinkNode t))))"

definition os_Readlink :: "fs \<Rightarrow> string \<Rightarrow> fs_error + string" where
  "os_Readlink fs p = (case os_Lstat fs p of Inl e \<Rightarrow> Inl e | Inr (LinkNode t) \<Rightarrow> Inr t | Inr _ \<Rightarrow> Inl EINVAL)"

text \<open>
  Opening for writing with \<^verbatim>\<open>O_CREATE|O_TRUNC|O_NOFOLLOW\<close> and writing \<open>content\<close> to the open file.
\<close>

definition write_nofollow :: "fs \<Rightarrow> string \<Rightarrow> string \<Rightarrow> fs_error + fs" where
  "write_nofollow fs p content =
     (case locate fs False p of Inl e \<Rightarrow> Inl e
      | Inr q \<Rightarrow>
          (case node_at fs q of
             Some DirNode \<Rightarrow> Inl EISDIR
           | Some (LinkNode _) \<Rightarrow> Inl ELOOP
           | _ \<Rightarrow> Inr (set_node fs q (FileNode content))))"

definition read_file :: "fs \<Rightarrow> string \<Rightarrow> fs_error + string" where
  "read_file fs p = (case os_Stat fs p of Inl e \<Rightarrow> Inl e | Inr (FileNode c) \<Rightarrow> Inr c | Inr _ \<Rightarrow> Inl EISDIR)"

text \<open>The names in a directory, sorted, as \<^verbatim>\<open>os.ReadDir\<close> returns them.\<close>

definition entries :: "fs \<Rightarrow> fpath \<Rightarrow> string list" where
  "entries fs p = sort (remdups (map last (filter (\<lambda>q. q \<noteq> [] \<and> butlast q = p) (map fst fs))))"

definition os_ReadDir :: "fs \<Rightarrow> string \<Rightarrow> fs_error + string list" where
  "os_ReadDir fs p =
     (case locate fs True p of Inl e \<Rightarrow> Inl e
      | Inr q \<Rightarrow> (case node_at fs q of None \<Rightarrow> Inl ENOENT | Some DirNode \<Rightarrow> Inr (entries fs q) | Some _ \<Rightarrow> Inl ENOTDIR))"

definition os_Remove :: "fs \<Rightarrow> string \<Rightarrow> fs_error + fs" where
  "os_Remove fs p =
     (case locate fs False p of Inl e \<Rightarrow> Inl e
      | Inr q \<Rightarrow>
          (case node_at fs q of
             None \<Rightarrow> Inl ENOENT
           | Some DirNode \<Rightarrow> (if q = [] \<or> entries fs q \<noteq> [] then Inl ENOTEMPTY else Inr (prune fs q))
           | Some _ \<Rightarrow> Inr (prune fs q)))"

definition os_RemoveAll :: "fs \<Rightarrow> string \<Rightarrow> fs_error option \<times> fs" where
  "os_RemoveAll fs p =
     (case locate fs False p of
        Inl ENOENT \<Rightarrow> (None, fs)
      | Inl e \<Rightarrow> (Some e, fs)
      | Inr q \<Rightarrow> (if q = [] then (Some EINVAL, fs) else (None, prune fs q)))"

text \<open>Moving a node with all that is below it; an empty directory may be replaced by a directory.\<close>

definition move :: "fs \<Rightarrow> fpath \<Rightarrow> fpath \<Rightarrow> fs" where
  "move fs a b =
     map (\<lambda>(q, nd). (b @ drop (length a) q, nd)) (filter (\<lambda>(q, _). prefix a q) fs) @ prune (prune fs b) a"

definition os_Rename :: "fs \<Rightarrow> string \<Rightarrow> string \<Rightarrow> fs_error + fs" where
  "os_Rename fs old new =
     (case (locate fs False old, locate fs False new) of
        (Inl e, _) \<Rightarrow> Inl e
      | (_, Inl e) \<Rightarrow> Inl e
      | (Inr a, Inr b) \<Rightarrow>
          (case node_at fs a of
             None \<Rightarrow> Inl ENOENT
           | Some nd \<Rightarrow>
               if prefix a b \<and> a \<noteq> b \<or> a = [] \<or> b = [] then Inl EINVAL
               else if a = b then Inr fs
               else case node_at fs b of
                   None \<Rightarrow> Inr (move fs a b)
                 | Some DirNode \<Rightarrow>
                     (if nd \<noteq> DirNode then Inl EISDIR else if entries fs b \<noteq> [] \<or> prefix b a then Inl ENOTEMPTY else Inr (move fs a b))
                 | Some _ \<Rightarrow> (if nd = DirNode then Inl ENOTDIR else Inr (move fs a b))))"

lemma snoc_image: "{q \<in> A. q \<noteq> [] \<and> butlast q = p} = (\<lambda>e. p @ [e]) ` {e. p @ [e] \<in> A}"
proof (intro equalityI subsetI)
  fix q assume q: "q \<in> {q \<in> A. q \<noteq> [] \<and> butlast q = p}"
  then have "q = p @ [last q]" using append_butlast_last_id [of q] by simp
  with q show "q \<in> (\<lambda>e. p @ [e]) ` {e. p @ [e] \<in> A}" by (intro image_eqI [of _ _ "last q"]) simp_all
qed auto

lemma entries_set: "set (entries fs p) = {e. node_at fs (p @ [e]) \<noteq> None}"
proof -
  have "set (entries fs p) = last ` {q \<in> fst ` set fs. q \<noteq> [] \<and> butlast q = p}"
    by (simp add: entries_def Collect_conj_eq Int_commute)
  also have "\<dots> = {e. p @ [e] \<in> fst ` set fs}" by (simp add: snoc_image image_image)
  finally show ?thesis by (simp add: node_at_def map_of_eq_None_iff)
qed

lemma node_at_move:
  assumes "\<not> prefix a b" "\<not> prefix b a"
  shows "node_at (move fs a b) q =
    (if prefix b q then node_at fs (a @ drop (length b) q) else if prefix a q then None else node_at fs q)"
proof -
  have ne: "a \<noteq> []" "b \<noteq> []" using assms by auto
  let ?m = "map (\<lambda>(q, nd). (b @ drop (length a) q, nd)) (filter (\<lambda>(q, _). prefix a q) fs)"
  have hit: "map_of ?m (b @ r) = map_of fs (a @ r)" for r
  proof (induction fs)
    case (Cons x fs)
    then show ?case by (cases x; cases "prefix a (fst x)") (auto elim!: prefixE)
  qed simp
  have miss: "\<not> prefix b q \<Longrightarrow> map_of ?m q = None" by (auto simp: map_of_eq_None_iff)
  have off: "map_of (prune (prune fs b) a) q = (if prefix a q \<or> prefix b q then None else map_of fs q)" if "q \<noteq> []"
    using node_at_prune [OF ne(1), of "prune fs b" q] node_at_prune [OF ne(2), of fs q] that by (auto simp: node_at_def split: if_splits)
  show ?thesis
  proof (cases "prefix b q")
    case True
    then obtain r where q: "q = b @ r" by (auto simp: prefix_def)
    with ne have "q \<noteq> []" by simp
    then have "map_of (prune (prune fs b) a) q = None" using off True by simp
    then show ?thesis using q ne hit [of r] by (simp add: node_at_def move_def map_add_def split: option.splits)
  next
    case False
    then show ?thesis using miss off ne by (cases "q = []") (simp_all add: node_at_def move_def map_add_def)
  qed
qed

section \<open>Names of a path\<close>

definition names :: "string \<Rightarrow> string list" where
  "names p = filter (\<lambda>e. e \<noteq> []) (Split CHR ''/'' p)"

lemma names_Nil [simp]: "names [] = []"
  by (simp add: names_def)

lemma Split_slash: "Split c (a @ c # b) = Split c a @ Split c b"
  using Split_Join_gen [of "[a, b]" c] by simp

lemma names_slash: "names (a @ CHR ''/'' # b) = names a @ names b"
  by (simp add: names_def Split_slash)

lemma names_single: "CHR ''/'' \<notin> set e \<Longrightarrow> e \<noteq> [] \<Longrightarrow> names e = [e]"
  by (simp add: names_def Split_single)

lemma names_abs_dir [simp]: "list_all normal_elem es \<Longrightarrow> names (abs_dir es) = es"
  by (auto simp: names_def Split_abs_dir filter_id_conv list_all_iff normal_elem_def)

lemma names_slashes: "list_all (\<lambda>c. c = CHR ''/'') s \<Longrightarrow> names s = []"
  by (induction s) (use names_slash [of "[]"] in auto)

lemma names_trailing: "list_all (\<lambda>c. c = CHR ''/'') s \<Longrightarrow> names (p @ s) = names p"
  by (cases s) (auto simp: names_slash names_slashes)

lemma names_TrimRight [simp]: "names (TrimRight p ''/'') = names p"
proof -
  have "p = TrimRight p ''/'' @ rev (takeWhile (\<lambda>c. c \<in> set ''/'') (rev p))"
    unfolding TrimRight_def by (metis rev_append rev_rev_ident takeWhile_dropWhile_id)
  moreover have "list_all (\<lambda>c. c = CHR ''/'') (rev (takeWhile (\<lambda>c. c \<in> set ''/'') (rev p)))"
    by (auto simp: list_all_iff dest: set_takeWhileD)
  ultimately show ?thesis by (metis names_trailing)
qed

lemma names_parent: "names (parent_part p) = butlast (names p)"
proof -
  define s where "s = rev (takeWhile (\<lambda>c. c = CHR ''/'') (rev p))"
  define r where "r = dropWhile (\<lambda>c. c = CHR ''/'') (rev p)"
  define e where "e = rev (takeWhile (\<lambda>c. c \<noteq> CHR ''/'') r)"
  have p: "p = rev r @ s" unfolding r_def s_def by (metis rev_append rev_rev_ident takeWhile_dropWhile_id)
  have r: "rev r = parent_part p @ e"
    unfolding parent_part_def r_def [symmetric] e_def by (metis rev_append takeWhile_dropWhile_id)
  have "names (rev r @ s) = names (rev r)"
    by (rule names_trailing) (auto simp: s_def list_all_iff dest: set_takeWhileD)
  then have np: "names p = names (parent_part p @ e)" by (metis p r)
  show ?thesis
  proof (cases "r = []")
    case True
    with np r show ?thesis by simp
  next
    case False
    then have "hd r \<noteq> CHR ''/''" unfolding r_def by (rule hd_dropWhile)
    with False have "e \<noteq> []" by (cases r) (auto simp: e_def)
    moreover have "CHR ''/'' \<notin> set e" by (auto simp: e_def dest: set_takeWhileD)
    ultimately have e: "names e = [e]" by (rule names_single [rotated])
    show ?thesis
    proof (cases "parent_part p = []")
      case True
      with np e show ?thesis by simp
    next
      case ne: False
      define x where "x = dropWhile (\<lambda>c. c \<noteq> CHR ''/'') r"
      have px: "parent_part p = rev x" by (simp add: parent_part_def r_def x_def)
      with ne have "x \<noteq> []" by simp
      moreover from this have "hd x = CHR ''/''" unfolding x_def using hd_dropWhile by blast
      ultimately have "parent_part p = rev (tl x) @ [CHR ''/'']" unfolding px by (cases x) simp_all
      then obtain d where "parent_part p = d @ [CHR ''/'']" by blast
      then show ?thesis using np e names_slash [of d e] names_slash [of d "[]"] by simp
    qed
  qed
qed

end
