(* ===== verification/Jail.thy ===== *)
theory Jail
  imports FileSystem
begin

text \<open>
  Confinement of file-system calls. A directory is a \<^emph>\<open>jail\<close> when the way to it has no links and every
  link below it has a relative target without \<open>..\<close>; then no path that goes through it leads out of it, and
  calls on such paths change nothing elsewhere.
\<close>

definition safe_target :: "string \<Rightarrow> bool" where
  "safe_target t \<longleftrightarrow> \<not> IsAbs t \<and> ''..'' \<notin> set (Split CHR ''/'' t)"

definition jail :: "fpath \<Rightarrow> fs \<Rightarrow> bool" where
  "jail T fs \<longleftrightarrow> list_all normal_elem T \<and> (\<forall>p. prefix p T \<longrightarrow> node_at fs p = Some DirNode) \<and>
     (\<forall>q t. prefix T q \<longrightarrow> node_at fs q = Some (LinkNode t) \<longrightarrow> safe_target t)"

definition untouched :: "fpath \<Rightarrow> fs \<Rightarrow> fs \<Rightarrow> bool" where
  "untouched T fs fs' \<longleftrightarrow> (\<forall>q. \<not> prefix T q \<longrightarrow> node_at fs' q = node_at fs q)"

text \<open>What a confined call keeps.\<close>

definition stays :: "fpath \<Rightarrow> fs \<Rightarrow> fs \<Rightarrow> bool" where
  "stays T fs fs' \<longleftrightarrow> jail T fs' \<and> fs_ok fs' \<and> untouched T fs fs'"

text \<open>A path that leads through the directory, or to a directory on the way to it.\<close>

definition path_in :: "fpath \<Rightarrow> string \<Rightarrow> bool" where
  "path_in T p \<longleftrightarrow> prefix (names p) T \<or> (\<exists>r. names p = T @ r \<and> ''..'' \<notin> set r)"

lemma stays_refl: "jail T fs \<Longrightarrow> fs_ok fs \<Longrightarrow> stays T fs fs"
  by (simp add: stays_def untouched_def)

lemma stays_trans: "stays T fs fs1 \<Longrightarrow> stays T fs1 fs2 \<Longrightarrow> stays T fs fs2"
  by (simp add: stays_def untouched_def)

lemma path_in_parent: "path_in T p \<Longrightarrow> path_in T (parent_part p)"
proof -
  assume "path_in T p"
  then consider "prefix (names p) T" | r where "names p = T @ r" "''..'' \<notin> set r" unfolding path_in_def by blast
  then show ?thesis
  proof cases
    case 1
    then have "prefix (butlast (names p)) T" using prefixeq_butlast prefix_order.trans by blast
    then show ?thesis by (simp add: path_in_def names_parent)
  next
    case (2 r)
    then show ?thesis
      by (cases "r = []") (auto simp: path_in_def names_parent butlast_append prefixeq_butlast dest: in_set_butlastD)
  qed
qed

lemma path_in_abs_dir: "list_all normal_elem T \<Longrightarrow> list_all normal_elem r \<Longrightarrow> path_in T (abs_dir (T @ r))"
proof -
  assume "list_all normal_elem T" and r: "list_all normal_elem r"
  then have "names (abs_dir (T @ r)) = T @ r" by simp
  moreover have "''..'' \<notin> set r" using r by (auto simp: list_all_iff normal_elem_def)
  ultimately show ?thesis unfolding path_in_def by blast
qed

section \<open>Walks\<close>

lemma walk_jail:
  "jail T fs \<Longrightarrow> prefix T cur \<Longrightarrow> ''..'' \<notin> set es \<Longrightarrow> walk fs follow n cur es = Inr q \<Longrightarrow> prefix T q"
proof (induction fs follow n cur es rule: walk.induct)
  case (2 fs follow n cur e es)
  have pe: "prefix T (cur @ [e])" using "2.prems"(2) by (simp add: prefix_append)
  show ?case
  proof (cases "e = [] \<or> e = ''.''")
    case True
    with 2 show ?thesis by auto
  next
    case e: False
    have up: "e \<noteq> ''..''" "''..'' \<notin> set es" using "2.prems"(3) by auto
    show ?thesis
    proof (cases "node_at fs (cur @ [e])")
      case None
      with e up pe "2.prems"(4) show ?thesis by (auto split: if_splits)
    next
      case (Some nd)
      show ?thesis
      proof (cases nd)
        case DirNode
        with e up Some pe "2.prems" "2.IH"(3) show ?thesis by auto
      next
        case (FileNode c)
        with e up Some pe "2.prems"(4) show ?thesis by (auto split: if_splits)
      next
        case (LinkNode t)
        then have t: "safe_target t" using "2.prems"(1) Some pe unfolding jail_def by blast
        with e up Some pe LinkNode "2.prems" "2.IH"(4) show ?thesis
          by (auto simp: safe_target_def split: if_splits nat.splits)
      qed
    qed
  qed
qed simp

lemma walk_above:
  "\<forall>p. prefix p (cur @ us) \<longrightarrow> node_at fs p = Some DirNode \<Longrightarrow> list_all normal_elem us \<Longrightarrow>
   filter (\<lambda>e. e \<noteq> []) es = us \<Longrightarrow> walk fs follow n cur es = Inr (cur @ us)"
proof (induction es arbitrary: cur us)
  case (Cons e es)
  then show ?case
  proof (cases "e = []")
    case False
    then obtain us' where us: "us = e # us'" using Cons.prems(3) by auto
    have "node_at fs (cur @ [e]) = Some DirNode" using Cons.prems(1) us by (auto simp: prefix_append prefix_def)
    moreover have "walk fs follow n (cur @ [e]) es = Inr ((cur @ [e]) @ us')"
      using Cons us False by (intro Cons.IH) (auto simp: append_assoc)
    ultimately show ?thesis using us Cons.prems(2) by (auto simp: normal_elem_def)
  qed simp
qed simp

lemma walk_through:
  "jail T fs \<Longrightarrow> cur @ us = T \<Longrightarrow> filter (\<lambda>e. e \<noteq> []) es = us @ r \<Longrightarrow> ''..'' \<notin> set r \<Longrightarrow>
   walk fs follow n cur es = Inr q \<Longrightarrow> prefix T q"
proof (induction es arbitrary: cur us)
  case (Cons e es)
  show ?case
  proof (cases "e = [] \<or> us = []")
    case True
    then show ?thesis
    proof
      assume us: "us = []"
      have "set (e # es) \<subseteq> insert [] (set r)" using Cons.prems(3) us
        by (auto simp del: filter.simps dest!: arg_cong [of _ _ set])
      then have "''..'' \<notin> set (e # es)" using Cons.prems(4) by auto
      then show ?thesis using walk_jail [OF Cons.prems(1) _ _ Cons.prems(5)] Cons.prems(2) us by simp
    qed (use Cons in simp)
  next
    case False
    then obtain us' where us: "us = e # us'" using Cons.prems(3) by (cases us) auto
    have "prefix (cur @ [e]) T" using Cons.prems(2) us by (auto simp: prefix_def)
    then have "node_at fs (cur @ [e]) = Some DirNode" using Cons.prems(1) by (simp add: jail_def)
    moreover have "normal_elem e" using Cons.prems(1,2) us by (auto simp: jail_def)
    ultimately have "walk fs follow n (cur @ [e]) es = Inr q" using Cons.prems(5) by (auto simp: normal_elem_def)
    then show ?thesis using Cons.IH [of "cur @ [e]" us'] Cons.prems us False by auto
  qed
qed auto

lemma walk_parent:
  "fs_ok fs \<Longrightarrow> node_at fs cur = Some DirNode \<Longrightarrow> walk fs follow n cur es = Inr q \<Longrightarrow>
    q = [] \<or> node_at fs (butlast q) = Some DirNode"
proof (induction fs follow n cur es rule: walk.induct)
  case (1 fs follow n cur)
  then show ?case using fs_okD [of fs "butlast cur" "last cur"] by (cases "cur = []") auto
next
  case (2 fs follow n cur e es)
  have up: "node_at fs (butlast cur) = Some DirNode"
    using "2.prems"(1,2) fs_okD [of fs "butlast cur" "last cur"] by (cases "cur = []") auto
  show ?case
  proof (cases "e = [] \<or> e = ''.'' \<or> e = ''..''")
    case True
    with 2 up show ?thesis by (auto split: if_splits)
  next
    case False
    with 2 show ?thesis by (auto split: if_splits option.splits node.splits nat.splits)
  qed
qed

lemma locate_in:
  assumes "jail T fs" "fs_ok fs" "path_in T p" "locate fs follow p = Inr q" "node_at fs q \<noteq> Some DirNode"
  shows "prefix T q \<and> q \<noteq> T \<and> node_at fs (butlast q) = Some DirNode"
proof -
  have w: "walk fs follow maxLinks [] (Split CHR ''/'' p) = Inr q" using assms(4) by (simp add: locate_def)
  have T: "node_at fs T = Some DirNode" "list_all normal_elem T" using assms(1) by (auto simp: jail_def)
  have "prefix T q"
  proof (cases "prefix (names p) T")
    case True
    then have "list_all normal_elem (names p)" using T(2) by (auto simp: prefix_def)
    moreover have "\<forall>u. prefix u (names p) \<longrightarrow> node_at fs u = Some DirNode"
      using assms(1) True prefix_order.trans [of _ "names p" T] by (simp add: jail_def)
    ultimately have "walk fs follow maxLinks [] (Split CHR ''/'' p) = Inr ([] @ names p)"
      by (intro walk_above) (simp_all only: append_Nil names_def)
    then have "q = names p" using w by simp
    then show ?thesis using True assms(1,5) by (auto simp: jail_def)
  next
    case False
    then show ?thesis using assms(3) walk_through [OF assms(1) _ _ _ w, of T] by (auto simp: path_in_def names_def)
  qed
  moreover have "q \<noteq> []" using assms(5) by auto
  ultimately show ?thesis using T(1) assms(5) walk_parent [OF assms(2) _ w] by auto
qed

section \<open>Confined calls\<close>

lemma stays_set_node:
  assumes "jail T fs" "fs_ok fs" "prefix T q" "q \<noteq> T" "node_at fs (butlast q) = Some DirNode" "node_at fs q \<noteq> Some DirNode"
    and "\<And>t. nd = LinkNode t \<Longrightarrow> safe_target t"
  shows "stays T fs (set_node fs q nd)"
proof -
  have ne: "q \<noteq> []" using assms(3,4) by auto
  note n = node_at_set_node [OF ne, of fs nd]
  have "jail T (set_node fs q nd)"
    using assms(1,3,4,7) by (auto simp: jail_def n dest: prefix_order.antisym)
  moreover have "fs_ok (set_node fs q nd)"
    using fs_ok_set_node [OF assms(2,5), of "last q" nd] assms(6) ne by simp
  moreover have "untouched T fs (set_node fs q nd)" using assms(3) by (auto simp: untouched_def n)
  ultimately show ?thesis by (simp add: stays_def)
qed

lemma stays_Mkdir: "jail T fs \<Longrightarrow> fs_ok fs \<Longrightarrow> path_in T p \<Longrightarrow> os_Mkdir fs p = Inr fs' \<Longrightarrow> stays T fs fs'"
  using locate_in [of T fs "TrimRight p ''/''" False]
  by (auto simp: os_Mkdir_def path_in_def split: sum.splits if_splits intro!: stays_set_node)

lemma stays_Symlink:
  "jail T fs \<Longrightarrow> fs_ok fs \<Longrightarrow> path_in T p \<Longrightarrow> safe_target t \<Longrightarrow> os_Symlink fs t p = Inr fs' \<Longrightarrow> stays T fs fs'"
  using locate_in [of T fs p False]
  by (auto simp: os_Symlink_def split: sum.splits if_splits intro!: stays_set_node)

lemma stays_write:
  "jail T fs \<Longrightarrow> fs_ok fs \<Longrightarrow> path_in T p \<Longrightarrow> write_nofollow fs p c = Inr fs' \<Longrightarrow> stays T fs fs'"
  using locate_in [of T fs p False]
  by (auto simp: write_nofollow_def split: sum.splits option.splits node.splits intro!: stays_set_node)

lemma stays_MkdirAll:
  "jail T fs \<Longrightarrow> fs_ok fs \<Longrightarrow> path_in T p \<Longrightarrow> os_MkdirAll fs p = (r, fs') \<Longrightarrow> stays T fs fs'"
proof (induction fs p arbitrary: r fs' rule: os_MkdirAll.induct)
  case (1 fs p)
  show ?case
  proof (cases "\<exists>nd. os_Stat fs p = Inr nd")
    case True
    then have "fs' = fs" using "1.prems"(4) by (auto simp: os_MkdirAll.simps [of fs p] split: node.splits)
    then show ?thesis using "1.prems" by (simp add: stays_refl)
  next
    case False
    then obtain e where e: "os_Stat fs p = Inl e" by (cases "os_Stat fs p") auto
    obtain r1 fs1 where m: "(if parent_part p \<noteq> [] then os_MkdirAll fs (parent_part p) else (None, fs)) = (r1, fs1)" by fastforce
    have s1: "stays T fs fs1"
      using m 1 e path_in_parent by (auto split: if_splits intro: stays_refl)
    have "stays T fs1 fs2" if "os_Mkdir fs1 p = Inr fs2" for fs2
      using stays_Mkdir s1 that "1.prems"(3) by (auto simp: stays_def)
    then have "stays T fs1 fs'"
      using "1.prems"(4) s1 stays_refl [of T fs1]
      by (auto simp: os_MkdirAll.simps [of fs p] e m stays_def split: option.splits sum.splits if_splits)
    with s1 show ?thesis by (rule stays_trans)
  qed
qed

end
