(* ===== verification/ActionRef.thy ===== *)
theory ActionRef
  imports Paths CacheHandler
begin

text \<open>
  References to actions (\<^verbatim>\<open>uses:\<close>), from \<^verbatim>\<open>src/pkg/actions/resolve.go\<close>: parsing, the clone URL, and
  the name of the directory an action is kept in, with its 32-bit FNV-1a hash.
\<close>

record ActionRef =
  arOrg :: string
  arRepo :: string
  arPath :: string
  arRef :: string
  arURL :: string

datatype ref_error =
    EmptyReference
  | NotRemote string
  | MissingRef string
  | InvalidURL string
  | InvalidReference string
  | PathTraversal string

definition has_dotdot :: "string \<Rightarrow> bool" where
  "has_dotdot p = (''..'' \<in> set (Split CHR ''/'' p))"

definition validateActionPath :: "string \<Rightarrow> bool" where
  "validateActionPath p = (p = [] \<or> \<not> has_dotdot p)"

definition checked :: "ActionRef \<Rightarrow> ref_error + ActionRef" where
  "checked a = (if validateActionPath (arPath a) then Inr a else Inl (PathTraversal (arPath a)))"

definition ParseActionRef :: "string \<Rightarrow> ref_error + ActionRef" where
  "ParseActionRef uses0 =
     (let uses = TrimSpace uses0 in
      if uses = [] then Inl EmptyReference
      else if HasPrefix uses ''./'' \<or> HasPrefix uses ''docker://'' then Inl (NotRemote uses)
      else case SplitN 2 CHR ''@'' uses of
        [repoPath, ref] \<Rightarrow>
          if ref = [] then Inl (MissingRef uses)
          else if Contains repoPath ''://'' then
            (let idx = nat (Index repoPath ''://'');
                 parts = SplitN 4 CHR ''/'' (drop (idx + 3) repoPath)
             in if length parts < 3 then Inl (InvalidURL uses)
                else checked \<lparr>arOrg = parts ! 1, arRepo = parts ! 2,
                       arPath = (if length parts > 3 then parts ! 3 else []), arRef = ref,
                       arURL = take (idx + 3) repoPath @ parts ! 0\<rparr>)
          else
            (let parts = SplitN 3 CHR ''/'' repoPath
             in if length parts < 2 then Inl (InvalidReference uses)
                else checked \<lparr>arOrg = parts ! 0, arRepo = parts ! 1,
                       arPath = (if length parts > 2 then parts ! 2 else []), arRef = ref, arURL = []\<rparr>)
      | _ \<Rightarrow> Inl (MissingRef uses))"

definition CloneURL :: "ActionRef \<Rightarrow> string \<Rightarrow> string" where
  "CloneURL a defaultActionsURL =
     TrimRight (if arURL a \<noteq> [] then arURL a else defaultActionsURL) ''/'' @ ''/'' @ arOrg a @ ''/'' @ arRepo a @ ''.git''"

text \<open>\<^verbatim>\<open>fnv.New32a\<close>: the hash of a byte string.\<close>

definition fnv32a :: "string \<Rightarrow> 32 word" where
  "fnv32a s = foldl (\<lambda>h c. (xor h (of_nat (of_char c))) * 16777619) 2166136261 s"

text \<open>One rune of the name: kept if it is a safe ASCII character, else a dash.\<close>

definition safe_rune :: "string \<Rightarrow> char" where
  "safe_rune r = (if length r = 1 \<and> safe_char (hd r) then hd r else CHR ''-'')"

definition ActionDir :: "ActionRef \<Rightarrow> string" where
  "ActionDir a =
     map safe_rune (runes (arOrg a @ ''-'' @ arRepo a @ ''-'' @ arRef a)) @ ''-'' @
     hex_pad 8 (unat (fnv32a (arOrg a @ ''/'' @ arRepo a @ ''@'' @ arRef a)))"

definition ref_String :: "ActionRef \<Rightarrow> string" where
  "ref_String a = arOrg a @ ''/'' @ arRepo a @ (if arPath a \<noteq> [] then ''/'' @ arPath a else []) @ ''@'' @ arRef a"

section \<open>Directory names\<close>

lemma safe_hex_digit: "n < 16 \<Longrightarrow> safe_char (hex_digit n)"
  by (cases "n < 10") (simp_all add: hex_digit_def safe_char_def char_in_def)

lemma safe_hex_pad: "list_all safe_char (hex_pad w n)"
  by (induction w arbitrary: n) (auto simp: safe_hex_digit)

lemma safe_ActionDir: "isSafeActionDir (ActionDir a)"
proof -
  have "list_all safe_char (map safe_rune rs)" for rs
    by (auto simp: list_all_iff safe_rune_def safe_char_def)
  then show ?thesis using safe_hex_pad by (simp add: isSafeActionDir_def ActionDir_def safe_char_def)
qed

lemma checked_path: "checked a = Inr b \<Longrightarrow> b = a \<and> \<not> has_dotdot (arPath b)"
  by (auto simp: checked_def validateActionPath_def has_dotdot_def split: if_splits)

lemma ParseActionRef_path: "ParseActionRef uses = Inr a \<Longrightarrow> \<not> has_dotdot (arPath a)"
  unfolding ParseActionRef_def Let_def
  by (auto split: if_splits list.splits dest!: checked_path)

text \<open>
  An action stays in its own directory: for every accepted reference the directory name
  passes the cache server's check, and the path of the action's files, below a cache directory
  given by its elements, lies inside that directory.
\<close>

theorem action_confined:
  assumes "ParseActionRef uses = Inr a" "list_all normal_elem root"
  shows "isSafeActionDir (ActionDir a) \<and>
    inside (root @ [ActionDir a]) (filepath_Join [abs_dir (root @ [ActionDir a]), arPath a])"
proof -
  have "normal_elem (ActionDir a)" using safe_ActionDir [of a]
    by (auto simp: isSafeActionDir_def normal_elem_def list_all_iff safe_char_def char_in_def)
  then have "list_all normal_elem (root @ [ActionDir a])" using assms(2) by simp
  from Join_inside [OF this, of "[arPath a]"] ParseActionRef_path [OF assms(1)] safe_ActionDir
  show ?thesis by (simp add: has_dotdot_def)
qed

section \<open>Printing and parsing\<close>

definition ref_ok :: "ActionRef \<Rightarrow> bool" where
  "ref_ok a \<longleftrightarrow> arURL a = [] \<and> CHR ''/'' \<notin> set (arOrg a @ arRepo a) \<and> CHR ''@'' \<notin> set (arOrg a @ arRepo a @ arPath a) \<and>
     \<not> has_dotdot (arPath a) \<and> arRef a \<noteq> [] \<and> TrimSpace (ref_String a) = ref_String a \<and>
     \<not> HasPrefix (ref_String a) ''./'' \<and> \<not> Contains (arOrg a @ ''/'' @ arRepo a @ ''/'' @ arPath a) ''://''"

lemma prefix_before: "prefix p (q @ c # r) \<Longrightarrow> c \<notin> set p \<Longrightarrow> prefix p q"
  by (induction q arbitrary: p) (case_tac p; auto)+

text \<open>
  A reference is read back from its printed form: for every well-formed reference without a
  host, parsing what \<^verbatim>\<open>String\<close> prints gives the reference.
\<close>

theorem action_ref_roundtrip:
  assumes "ref_ok a"
  shows "ParseActionRef (ref_String a) = Inr a"
proof -
  let ?rp = "arOrg a @ ''/'' @ arRepo a @ (if arPath a \<noteq> [] then ''/'' @ arPath a else [])"
  have s: "ref_String a = ?rp @ CHR ''@'' # arRef a" by (simp add: ref_String_def)
  have at: "CHR ''@'' \<notin> set ?rp" using assms by (simp add: ref_ok_def)
  have split: "SplitN 2 CHR ''@'' (ref_String a) = [?rp, arRef a]"
    unfolding s numeral_2_eq_2 using Cut_append [OF at, of "arRef a"] by simp
  have no: "\<not> Contains ?rp ''://''"
  proof
    assume "Contains ?rp ''://''"
    moreover have "sublist ?rp (arOrg a @ ''/'' @ arRepo a @ ''/'' @ arPath a)"
      by (cases "arPath a = []") (auto intro!: sublist_append_rightI [of "arOrg a @ ''/'' @ arRepo a" "''/''", simplified])
    ultimately show False using assms unfolding ref_ok_def Contains_def by (meson sublist_order.order_trans)
  qed
  have dock: "\<not> HasPrefix (ref_String a) ''docker://''"
  proof
    assume "HasPrefix (ref_String a) ''docker://''"
    then have "prefix ''docker://'' (?rp @ CHR ''@'' # arRef a)" unfolding s HasPrefix_def .
    then have "prefix ''docker://'' ?rp" by (rule prefix_before) simp
    then have "sublist ''docker://'' ?rp" by (rule prefix_imp_sublist)
    moreover have "sublist ''://'' ''docker://''" by (simp add: sublist_Cons_right)
    ultimately show False using no unfolding Contains_def by (meson sublist_order.order_trans)
  qed
  have "Cut CHR ''/'' ?rp = Some (arOrg a, arRepo a @ (if arPath a \<noteq> [] then ''/'' @ arPath a else []))"
    using assms by (simp add: ref_ok_def Cut_Some_iff)
  moreover have "Cut CHR ''/'' (arRepo a @ (if arPath a \<noteq> [] then ''/'' @ arPath a else []))
      = (if arPath a \<noteq> [] then Some (arRepo a, arPath a) else None)"
    using assms by (auto simp: ref_ok_def Cut_Some_iff Cut_None_iff)
  ultimately have "SplitN 3 CHR ''/'' ?rp = (if arPath a \<noteq> [] then [arOrg a, arRepo a, arPath a] else [arOrg a, arRepo a])"
    by (simp add: numeral_3_eq_3)
  moreover have "TrimSpace (ref_String a) = ref_String a" "ref_String a \<noteq> []" "\<not> HasPrefix (ref_String a) ''./''"
    "arRef a \<noteq> []" "arURL a = []" "validateActionPath (arPath a)"
    using assms by (auto simp: ref_ok_def ref_String_def validateActionPath_def)
  ultimately show ?thesis using split no dock by (auto simp: ParseActionRef_def checked_def Let_def)
qed

section \<open>Witnesses\<close>

definition example_ref :: ActionRef where
  "example_ref = \<lparr>arOrg = ''actions'', arRepo = ''cache'', arPath = ''save'', arRef = ''v4'', arURL = []\<rparr>"

lemma example_ref_ok: "ref_ok example_ref"
  by (simp add: ref_ok_def example_ref_def has_dotdot_def ref_String_def strings_simps char_in_def HasPrefix_def
      Contains_def sublist_Cons_right)

lemma example_ref_string: "ref_String example_ref = ''actions/cache/save@v4''"
  by (simp add: ref_String_def example_ref_def)

theorem action_ref_roundtrip_witness: "ParseActionRef ''actions/cache/save@v4'' = Inr example_ref"
  using action_ref_roundtrip [OF example_ref_ok] unfolding example_ref_string .

lemma example_parse: "ParseActionRef ''a/b@c'' = Inr \<lparr>arOrg = ''a'', arRepo = ''b'', arPath = [], arRef = ''c'', arURL = []\<rparr>"
  by (simp add: ParseActionRef_def checked_def validateActionPath_def strings_simps char_in_def HasPrefix_def
      Contains_def sublist_Cons_right numeral_2_eq_2 numeral_3_eq_3)

theorem action_confined_witness:
  "inside ([''actions''] @ [ActionDir \<lparr>arOrg = ''a'', arRepo = ''b'', arPath = [], arRef = ''c'', arURL = []\<rparr>])
     (filepath_Join [abs_dir ([''actions''] @ [ActionDir \<lparr>arOrg = ''a'', arRepo = ''b'', arPath = [], arRef = ''c'', arURL = []\<rparr>]), []])"
  using action_confined [OF example_parse, of "[''actions'']"] by (simp add: normal_elem_def)

end
