(* ===== verification/Setup.thy ===== *)
theory Setup
  imports Jail Types ActionRef
begin

text \<open>
  The setup command of the entrypoint (\<^verbatim>\<open>cmd/entrypoint/setup.go\<close>): fetching action archives and
  extracting them below the actions directory. A tar stream is the list of the entries its reader
  returns, an answer of the cache server is an argument for every attempt, and so are the random bytes.
\<close>

section \<open>Extraction\<close>

datatype tar_type = TypeDir | TypeReg | TypeSymlink | TypeOther

text \<open>The body may break off after the bytes given.\<close>

record tar_header =
  thName :: string
  thType :: tar_type
  thLinkname :: string
  thBody :: string
  thBroken :: bool

datatype tar_item = Entry tar_header | Damaged

datatype setup_error =
    TarDamaged
  | EntryEscapes string
  | UnsafeLink string string
  | BodyBroken string
  | FSFailed fs_error
  | HTTPFailed
  | HTTPStatus nat
  | FetchNotFound
  | NoRandom
  | SuffixesExhausted
  | ManifestUnreadable

definition extract_entry :: "fs \<Rightarrow> tar_header \<Rightarrow> string \<Rightarrow> setup_error option \<times> fs" where
  "extract_entry fs h dest =
     (case thType h of
        TypeDir \<Rightarrow> (case os_MkdirAll fs dest of (r, fs1) \<Rightarrow> (map_option FSFailed r, fs1))
      | TypeReg \<Rightarrow>
          (case os_MkdirAll fs (Dir dest) of
             (Some e, fs1) \<Rightarrow> (Some (FSFailed e), fs1)
           | (None, fs1) \<Rightarrow>
               (case write_nofollow fs1 dest (thBody h) of
                  Inl e \<Rightarrow> (Some (FSFailed e), fs1)
                | Inr fs2 \<Rightarrow> (if thBroken h then Some (BodyBroken dest) else None, fs2)))
      | TypeSymlink \<Rightarrow>
          (case os_MkdirAll fs (Dir dest) of
             (Some e, fs1) \<Rightarrow> (Some (FSFailed e), fs1)
           | (None, fs1) \<Rightarrow>
               if IsAbs (thLinkname h) \<or> Contains (thLinkname h) ''..'' then (Some (UnsafeLink (thName h) (thLinkname h)), fs1)
               else (case os_Symlink fs1 (thLinkname h) dest of Inl e \<Rightarrow> (Some (FSFailed e), fs1) | Inr fs2 \<Rightarrow> (None, fs2)))
      | TypeOther \<Rightarrow> (None, fs))"

definition dest_of :: "string \<Rightarrow> string \<Rightarrow> string" where
  "dest_of target name = filepath_Join [target, TrimPrefix (Clean (''/'' @ name)) ''/'']"

fun untar_loop :: "fs \<Rightarrow> string \<Rightarrow> tar_item list \<Rightarrow> setup_error option \<times> fs" where
  "untar_loop fs target [] = (None, fs)"
| "untar_loop fs target (Damaged # items) = (Some TarDamaged, fs)"
| "untar_loop fs target (Entry h # items) =
     (let dest = dest_of target (thName h)
      in if ''..'' \<in> set (Split CHR ''/'' (thName h)) then (Some (EntryEscapes (thName h)), fs)
         else if \<not> HasPrefix (dest @ ''/'') target \<and> dest \<noteq> TrimSuffix target ''/'' then (Some (EntryEscapes (thName h)), fs)
         else case extract_entry fs h dest of
             (Some e, fs1) \<Rightarrow> (Some e, fs1)
           | (None, fs1) \<Rightarrow> untar_loop fs1 target items)"

definition untarInto :: "fs \<Rightarrow> tar_item list \<Rightarrow> string \<Rightarrow> setup_error option \<times> fs" where
  "untarInto fs items target = untar_loop fs (Clean target @ ''/'') items"

section \<open>One attempt\<close>

datatype http_result = NoResponse | Response nat "tar_item list"

definition tryFetch :: "fs \<Rightarrow> http_result \<Rightarrow> string \<Rightarrow> setup_error option \<times> fs" where
  "tryFetch fs resp target =
     (case resp of
        NoResponse \<Rightarrow> (Some HTTPFailed, fs)
      | Response status body \<Rightarrow>
          if status = 200 then untarInto fs body target
          else if status = 404 then (Some FetchNotFound, fs)
          else (Some (HTTPStatus status), fs))"

definition EncodeToString :: "string \<Rightarrow> string" where
  "EncodeToString bytes = concat (map (\<lambda>c. hex_pad 2 (of_char c)) bytes)"

text \<open>The random bytes of the attempts that are left, \<open>None\<close> when there are none to be had.\<close>

fun partial_loop :: "fs \<Rightarrow> string \<Rightarrow> string option list \<Rightarrow> setup_error + (string \<times> fs)" where
  "partial_loop fs target [] = Inl SuffixesExhausted"
| "partial_loop fs target (None # rolls) = Inl NoRandom"
| "partial_loop fs target (Some bytes # rolls) =
     (let tmp = target @ ''.partial.'' @ EncodeToString bytes
      in case os_Mkdir fs tmp of
           Inr fs1 \<Rightarrow> Inr (tmp, fs1)
         | Inl e \<Rightarrow> (if e = EEXIST then partial_loop fs target rolls else Inl (FSFailed e)))"

definition makePartialDir :: "fs \<Rightarrow> string \<Rightarrow> (nat \<Rightarrow> string option) \<Rightarrow> setup_error + (string \<times> fs)" where
  "makePartialDir fs target rnd = partial_loop fs target (map rnd [0..<5])"

definition promote :: "fs \<Rightarrow> string \<Rightarrow> string \<Rightarrow> setup_error option \<times> fs" where
  "promote fs tmp target =
     (case (case os_Lstat fs target of
              Inr _ \<Rightarrow> os_RemoveAll fs target
            | Inl e \<Rightarrow> (if e = ENOENT then None else Some e, fs)) of
        (Some e, fs1) \<Rightarrow> (Some (FSFailed e), fs1)
      | (None, fs1) \<Rightarrow> (case os_Rename fs1 tmp target of Inl e \<Rightarrow> (Some (FSFailed e), fs1) | Inr fs2 \<Rightarrow> (None, fs2)))"

definition tryFetchAndPromote :: "fs \<Rightarrow> http_result \<Rightarrow> (nat \<Rightarrow> string option) \<Rightarrow> string \<Rightarrow> setup_error option \<times> fs" where
  "tryFetchAndPromote fs resp rnd target =
     (case makePartialDir fs target rnd of
        Inl e \<Rightarrow> (Some e, fs)
      | Inr (tmp, fs1) \<Rightarrow>
          (case (case tryFetch fs1 resp tmp of
                   (Some e, fs2) \<Rightarrow> (Some e, fs2)
                 | (None, fs2) \<Rightarrow> promote fs2 tmp target) of
             (r, fs3) \<Rightarrow> (r, snd (os_RemoveAll fs3 tmp))))"

section \<open>Retries\<close>

definition setupMaxAttempts :: nat where "setupMaxAttempts = 3"

definition setupRetryBackoff :: int where "setupRetryBackoff = 1 * Second"

text \<open>What the surroundings give to an attempt.\<close>

type_synonym attempts = "nat \<Rightarrow> http_result \<times> (nat \<Rightarrow> string option)"

text \<open>The result, the file system and the waits, over the numbers of the attempts that are left.\<close>

fun fetch_loop :: "fs \<Rightarrow> attempts \<Rightarrow> string \<Rightarrow> setup_error option \<Rightarrow> nat list \<Rightarrow> setup_error option \<times> fs \<times> int list" where
  "fetch_loop fs world target lastErr [] = (lastErr, fs, [])"
| "fetch_loop fs world target lastErr (attempt # left) =
     (case tryFetchAndPromote fs (fst (world attempt)) (snd (world attempt)) target of
        (None, fs1) \<Rightarrow> (None, fs1, [])
      | (Some e, fs1) \<Rightarrow>
          if e = FetchNotFound then (Some e, fs1, [])
          else case fetch_loop fs1 world target (Some e) left of
              (r, fs2, waits) \<Rightarrow>
                (r, fs2, (if attempt < setupMaxAttempts then [int attempt * setupRetryBackoff] else []) @ waits))"

definition fetchAction :: "fs \<Rightarrow> attempts \<Rightarrow> ActionFetch \<Rightarrow> string \<Rightarrow> setup_error option \<times> fs \<times> int list" where
  "fetchAction fs world a actionsDir =
     (case os_MkdirAll fs actionsDir of
        (Some e, fs1) \<Rightarrow> (Some (FSFailed e), fs1, [])
      | (None, fs1) \<Rightarrow> fetch_loop fs1 world (filepath_Join [actionsDir, afDir a]) None [1..<Suc setupMaxAttempts])"

text \<open>\<^verbatim>\<open>os.WriteFile\<close> follows links.\<close>

definition os_WriteFile :: "fs \<Rightarrow> string \<Rightarrow> string \<Rightarrow> fs_error + fs" where
  "os_WriteFile fs p content =
     (case locate fs True p of Inl e \<Rightarrow> Inl e
      | Inr q \<Rightarrow> (if node_at fs q = Some DirNode then Inl EISDIR else Inr (set_node fs q (FileNode content))))"

definition askpass_script :: string where
  "askpass_script = ''#!/bin/sh'' @ [NL] @ ''echo '' @ [CHR 0x22] @ ''$GIT_AUTH_TOKEN'' @ [CHR 0x22, NL]"

definition writeAskpassShim :: "fs \<Rightarrow> string \<Rightarrow> fs_error option \<times> fs" where
  "writeAskpassShim fs p =
     (case os_MkdirAll fs (Dir p) of
        (Some e, fs1) \<Rightarrow> (Some e, fs1)
      | (None, fs1) \<Rightarrow> (case os_WriteFile fs1 p askpass_script of Inl e \<Rightarrow> (Some e, fs1) | Inr fs2 \<Rightarrow> (None, fs2)))"

fun fetch_all :: "fs \<Rightarrow> (ActionFetch \<Rightarrow> attempts) \<Rightarrow> string \<Rightarrow> ActionFetch list \<Rightarrow> setup_error option \<times> fs" where
  "fetch_all fs world actionsDir [] = (None, fs)"
| "fetch_all fs world actionsDir (a # as) =
     (case fetchAction fs (world a) a actionsDir of
        (Some e, fs1, _) \<Rightarrow> (Some e, fs1)
      | (None, fs1, _) \<Rightarrow> fetch_all fs1 world actionsDir as)"

definition runSetup :: "fs \<Rightarrow> (ActionFetch \<Rightarrow> attempts) \<Rightarrow> Manifest option \<Rightarrow> string \<Rightarrow> string \<Rightarrow> setup_error option \<times> fs" where
  "runSetup fs world manifest actionsDir shimDir =
     (case manifest of
        None \<Rightarrow> (Some ManifestUnreadable, fs)
      | Some m \<Rightarrow>
          (case writeAskpassShim fs (filepath_Join [shimDir, ''askpass.sh'']) of
             (Some e, fs1) \<Rightarrow> (Some (FSFailed e), fs1)
           | (None, fs1) \<Rightarrow>
               (case os_MkdirAll fs1 actionsDir of
                  (Some e, fs2) \<Rightarrow> (Some (FSFailed e), fs2)
                | (None, fs2) \<Rightarrow> fetch_all fs2 world actionsDir (mfActions m))))"

end
