(* ===== verification/Setup_Props.thy ===== *)
theory Setup_Props
  imports Setup
begin

text \<open>
  What the setup command guarantees: extraction stays below its directory whatever the archive contains,
  an action directory is replaced as a whole or not at all, and what the archive describes is what
  is found there.
\<close>

section \<open>Destinations\<close>

definition vis :: "string \<Rightarrow> string list" where
  "vis s = filter (\<lambda>e. e \<noteq> [] \<and> e \<noteq> ''.'') (Split CHR ''/'' s)"

lemma vis_slash: "vis (a @ CHR ''/'' # b) = vis a @ vis b"
  by (simp add: vis_def Split_slash)

lemma vis_Nil [simp]: "vis [] = []"
  by (simp add: vis_def)

lemma vis_normal: "''..'' \<notin> set (Split CHR ''/'' s) \<Longrightarrow> list_all normal_elem (vis s)"
  using Split_no_sep by (fastforce simp: vis_def list_all_iff normal_elem_def)

lemma vis_abs_dir [simp]: "list_all normal_elem es \<Longrightarrow> vis (abs_dir es) = es"
  by (auto simp: vis_def Split_abs_dir filter_id_conv list_all_iff normal_elem_def)

lemma vis_Join [simp]: "list_all normal_elem es \<Longrightarrow> vis (Join ''/'' es) = es"
  using vis_abs_dir [of es] vis_slash [of "[]" "Join ''/'' es"] by (simp add: abs_dir_def)

lemma Clean_no_up: "IsAbs p \<Longrightarrow> ''..'' \<notin> set (Split CHR ''/'' p) \<Longrightarrow> Clean p = abs_dir (vis p)"
  by (simp add: Clean_rooted clean_list_def clean_elems_no_up vis_def)

lemma IsAbs_slash [simp]: "IsAbs (CHR ''/'' # s)"
  by (simp add: IsAbs_def HasPrefix_def)

lemma TrimPrefix_abs_dir: "TrimPrefix (abs_dir es) ''/'' = Join ''/'' es"
  by (simp add: TrimPrefix_def HasPrefix_def abs_dir_def)

lemma no_up_normal: "list_all normal_elem es \<Longrightarrow> ''..'' \<notin> set (Split CHR ''/'' (Join ''/'' es))"
  by (cases "es = []") (auto simp: Split_Join_normal list_all_iff normal_elem_def)

lemma no_up_abs_dir: "list_all normal_elem es \<Longrightarrow> ''..'' \<notin> set (Split CHR ''/'' (abs_dir es))"
  by (auto simp: Split_abs_dir list_all_iff normal_elem_def)

lemma dest_of_eq:
  assumes "list_all normal_elem T" "''..'' \<notin> set (Split CHR ''/'' name)"
  shows "dest_of (abs_dir T @ ''/'') name = abs_dir (T @ vis name)"
proof -
  let ?p = "(abs_dir T @ ''/'') @ CHR ''/'' # Join ''/'' (vis name)"
  have v: "list_all normal_elem (vis name)" using assms(2) by (rule vis_normal)
  have "Clean (''/'' @ name) = abs_dir (vis name)"
    using Clean_no_up [of "''/'' @ name"] assms(2) vis_slash [of "[]" name] Split_slash [of "CHR ''/''" "[]" name] by simp
  then have "dest_of (abs_dir T @ ''/'') name = Clean ?p"
    by (simp add: dest_of_def filepath_Join_def TrimPrefix_abs_dir)
  also have "\<dots> = abs_dir (vis ?p)"
    using no_up_abs_dir [OF assms(1)] no_up_normal [OF v]
    by (intro Clean_no_up) (auto simp: abs_dir_def Split_slash simp del: append_assoc)
  also have "vis ?p = T @ vis name" using assms(1) v vis_slash [of "abs_dir T" "[]"] by (simp only: vis_slash vis_Join) simp
  finally show ?thesis .
qed

lemma Join_snoc: "xs \<noteq> [] \<Longrightarrow> Join sep (xs @ [x]) = Join sep xs @ sep @ x"
  by (induction xs rule: induct_list012) auto

lemma Dir_abs_dir: "list_all normal_elem es \<Longrightarrow> Dir (abs_dir es) = abs_dir (butlast es)"
proof (cases es rule: rev_cases)
  case Nil
  then show ?thesis by (simp add: Dir_def abs_dir_def Clean_def IsAbs_def HasPrefix_def clean_list_def)
next
  case (snoc ds e)
  assume n: "list_all normal_elem es"
  with snoc have e: "normal_elem e" "list_all normal_elem ds" by simp_all
  have sp: "abs_dir (ds @ [e]) = (if ds = [] then [] else abs_dir ds) @ CHR ''/'' # e"
    using Join_snoc [of ds "''/''" e] by (simp add: abs_dir_def)
  have "rev (dropWhile (\<lambda>c. c \<noteq> CHR ''/'') (rev (a @ CHR ''/'' # e))) = a @ ''/''" for a
    using e(1) by (subst rev_append, subst rev.simps, subst append_assoc, subst dropWhile_append2) (auto simp: normal_elem_def)
  then have "Dir (abs_dir es) = Clean ((if ds = [] then [] else abs_dir ds) @ ''/'')"
    by (simp add: Dir_def snoc sp)
  also have "\<dots> = abs_dir ds"
    using e(2) Clean_no_up [of "abs_dir ds @ ''/''"] no_up_abs_dir [OF e(2)] vis_slash [of "abs_dir ds" "[]"]
      Split_slash [of "CHR ''/''" "abs_dir ds" "[]"] Clean_abs_dir [of "[]"] vis_abs_dir [OF e(2)]
    by (auto simp: abs_dir_def IsAbs_def HasPrefix_def)
  finally show ?thesis by (simp add: snoc)
qed

section \<open>Confinement\<close>

lemma sublist_Join: "x \<in> set xs \<Longrightarrow> sublist x (Join sep xs)"
  by (induction sep xs rule: Join.induct) (auto simp: sublist_append)

lemma Contains_up: "\<not> Contains t ''..'' \<Longrightarrow> ''..'' \<notin> set (Split CHR ''/'' t)"
  using sublist_Join [of "''..''" "Split CHR ''/'' t" "''/''"] by (auto simp: Contains_def Join_Split)

lemma path_in_dest:
  assumes "list_all normal_elem T" "list_all normal_elem r"
  shows "path_in T (Dir (abs_dir (T @ r)))"
proof (cases "r = []")
  case True
  have "list_all normal_elem (butlast T)" using assms(1) by (auto simp: list_all_iff dest: in_set_butlastD)
  then have "names (Dir (abs_dir (T @ r))) = butlast T" using True assms by (simp add: Dir_abs_dir)
  then show ?thesis by (simp add: path_in_def prefixeq_butlast)
next
  case False
  have "list_all normal_elem (butlast r)" using assms(2) by (auto simp: list_all_iff dest: in_set_butlastD)
  then show ?thesis using path_in_abs_dir [OF assms(1)] False assms by (simp add: Dir_abs_dir butlast_append)
qed

lemma extract_stays:
  assumes "jail T fs" "fs_ok fs" "list_all normal_elem r" "extract_entry fs h (abs_dir (T @ r)) = (res, fs')"
  shows "stays T fs fs'"
proof -
  have n: "list_all normal_elem T" using assms(1) by (simp add: jail_def)
  note p = path_in_abs_dir [OF n assms(3)] path_in_dest [OF n assms(3)]
  obtain r1 fs1 where m: "os_MkdirAll fs (Dir (abs_dir (T @ r))) = (r1, fs1)" by fastforce
  have s1: "stays T fs fs1" using stays_MkdirAll [OF assms(1,2) p(2) m] .
  then have j: "jail T fs1" "fs_ok fs1" by (simp_all add: stays_def)
  have "stays T fs1 fs2" if "write_nofollow fs1 (abs_dir (T @ r)) c = Inr fs2" for fs2 c
    using stays_write [OF j p(1) that] .
  moreover have "stays T fs1 fs2" if "os_Symlink fs1 t (abs_dir (T @ r)) = Inr fs2" "\<not> IsAbs t" "\<not> Contains t ''..''" for fs2 t
    using stays_Symlink [OF j p(1) _ that(1)] that Contains_up by (simp add: safe_target_def)
  ultimately show ?thesis
    using assms(4) m s1 stays_trans [OF s1] stays_refl [OF assms(1,2)] stays_MkdirAll [OF assms(1,2) p(1)]
    by (auto simp: extract_entry_def split: tar_type.splits prod.splits option.splits sum.splits if_splits)
qed

lemma untar_stays:
  "jail T fs \<Longrightarrow> fs_ok fs \<Longrightarrow> untar_loop fs (abs_dir T @ ''/'') items = (res, fs') \<Longrightarrow> stays T fs fs'"
proof (induction fs "abs_dir T @ ''/''" items rule: untar_loop.induct)
  case (3 fs h items)
  have n: "list_all normal_elem T" using "3.prems"(1) by (simp add: jail_def)
  show ?case
  proof (cases "''..'' \<in> set (Split CHR ''/'' (thName h))")
    case True
    with 3 show ?thesis by (auto simp: Let_def intro: stays_refl)
  next
    case False
    note d = dest_of_eq [OF n False] and v = vis_normal [OF False]
    obtain r1 fs1 where x: "extract_entry fs h (abs_dir (T @ vis (thName h))) = (r1, fs1)" by fastforce
    note s = extract_stays [OF "3.prems"(1,2) v x]
    then have "jail T fs1" "fs_ok fs1" by (simp_all add: stays_def)
    then show ?thesis
      using 3 s x False stays_trans [OF s] stays_refl [OF "3.prems"(1,2)]
      by (auto simp: Let_def d split: if_splits option.splits)
  qed
qed (auto intro: stays_refl)

text \<open>
  C13: Extraction never leaves its directory: whatever the archive contains, also one made to
  escape through links, parent steps or absolute names, and whether or not extraction
  succeeds, every node of the file system outside of the target directory is as before,
  provided that the target is a real directory in which all links there are point to relative
  places without parent steps (a fresh directory has none).
\<close>

theorem extraction_confined:
  assumes "fs_ok fs" "jail T fs" "untarInto fs items (abs_dir T) = (res, fs')"
  shows "(\<forall>q. \<not> prefix T q \<longrightarrow> node_at fs' q = node_at fs q) \<and> jail T fs' \<and> fs_ok fs'"
proof -
  have "Clean (abs_dir T) = abs_dir T" using assms(2) by (simp add: jail_def)
  then show ?thesis using untar_stays [OF assms(2,1), of items res fs'] assms(3)
    by (simp add: untarInto_def stays_def untouched_def)
qed

section \<open>One attempt\<close>

definition real_dir :: "fs \<Rightarrow> fpath \<Rightarrow> bool" where
  "real_dir fs A \<longleftrightarrow> list_all normal_elem A \<and> (\<forall>p. prefix p A \<longrightarrow> node_at fs p = Some DirNode)"

lemma fs_ok_cong: "fs_ok fs \<Longrightarrow> node_at fs' = node_at fs \<Longrightarrow> fs_ok fs'"
  by (simp add: fs_ok_def)

lemma real_dir_cong: "real_dir fs A \<Longrightarrow> node_at fs' = node_at fs \<Longrightarrow> real_dir fs' A"
  by (simp add: real_dir_def)

lemma walk_real_dir:
  "\<forall>p. prefix p (cur @ us) \<longrightarrow> node_at fs p = Some DirNode \<Longrightarrow> list_all normal_elem us \<Longrightarrow>
    walk fs follow n cur (us @ es) = walk fs follow n (cur @ us) es"
proof (induction us arbitrary: cur)
  case (Cons u us)
  have "node_at fs (cur @ [u]) = Some DirNode" using Cons.prems(1) by (auto simp: prefix_def)
  moreover have "walk fs follow n (cur @ [u]) (us @ es) = walk fs follow n ((cur @ [u]) @ us) es"
    using Cons by (intro Cons.IH) auto
  ultimately show ?case using Cons.prems(2) by (auto simp: normal_elem_def)
qed simp

lemma locate_child:
  assumes "real_dir fs A" "normal_elem e"
  shows "locate fs False (abs_dir (A @ [e])) = Inr (A @ [e])"
proof -
  have "list_all normal_elem (A @ [e])" using assms by (simp add: real_dir_def)
  then have "locate fs False (abs_dir (A @ [e])) = walk fs False maxLinks [] (A @ [e])"
    by (simp add: locate_def Split_abs_dir)
  also have "\<dots> = walk fs False maxLinks ([] @ A) [e]"
    using assms(1) by (intro walk_real_dir) (simp_all add: real_dir_def)
  also have "\<dots> = Inr (A @ [e])"
    using assms(2) by (auto simp: normal_elem_def split: option.splits node.splits)
  finally show ?thesis .
qed

lemma TrimRight_id: "p \<noteq> [] \<Longrightarrow> last p \<noteq> CHR ''/'' \<Longrightarrow> TrimRight p ''/'' = p"
  by (cases p rule: rev_cases) (simp_all add: TrimRight_def)

lemma last_abs_dir: "normal_elem e \<Longrightarrow> last (abs_dir (A @ [e])) \<noteq> CHR ''/''"
proof -
  assume e: "normal_elem e"
  then have "last e \<noteq> CHR ''/''" by (metis last_in_set normal_elem_def)
  then show ?thesis using e Join_snoc [of A "''/''" e] by (cases "A = []") (simp_all add: abs_dir_def normal_elem_def)
qed

lemma Mkdir_child:
  assumes "real_dir fs A" "normal_elem e"
  shows "os_Mkdir fs (abs_dir (A @ [e])) =
    (if node_at fs (A @ [e]) = None then Inr (set_node fs (A @ [e]) DirNode) else Inl EEXIST)"
proof -
  have "abs_dir (A @ [e]) \<noteq> []" by (simp add: abs_dir_def)
  then have "TrimRight (abs_dir (A @ [e])) ''/'' = abs_dir (A @ [e])" using last_abs_dir [OF assms(2)] by (rule TrimRight_id)
  then show ?thesis using locate_child [OF assms] by (simp add: os_Mkdir_def)
qed

lemma RemoveAll_child:
  assumes "real_dir fs A" "normal_elem e"
  shows "os_RemoveAll fs (abs_dir (A @ [e])) = (None, prune fs (A @ [e]))"
  using locate_child [OF assms] by (simp add: os_RemoveAll_def)

definition partial_name :: "string \<Rightarrow> string \<Rightarrow> string" where
  "partial_name d bytes = d @ ''.partial.'' @ EncodeToString bytes"

lemma abs_dir_append: "abs_dir (A @ [d]) @ s = abs_dir (A @ [d @ s])"
  using Join_snoc [of A "''/''"] by (cases "A = []") (simp_all add: abs_dir_def)

lemma partial_name_normal: "normal_elem d \<Longrightarrow> normal_elem (partial_name d bytes)"
proof -
  assume d: "normal_elem d"
  have "CHR ''/'' \<notin> set (EncodeToString bytes)"
    using safe_hex_pad by (fastforce simp: EncodeToString_def list_all_iff safe_char_def char_in_def)
  moreover have "length (partial_name d bytes) > 2" by (simp add: partial_name_def)
  ultimately show ?thesis using d by (auto simp: normal_elem_def partial_name_def)
qed

lemma partial_name_other: "partial_name d bytes \<noteq> d"
  by (simp add: partial_name_def)

lemma makePartialDir_cases:
  assumes "real_dir fs A" "normal_elem d" "makePartialDir fs (abs_dir (A @ [d])) rnd = Inr (tmp, fs1)"
  obtains bytes where "tmp = abs_dir (A @ [partial_name d bytes])" "node_at fs (A @ [partial_name d bytes]) = None"
    "fs1 = set_node fs (A @ [partial_name d bytes]) DirNode"
proof -
  have "\<exists>bytes. tmp = abs_dir (A @ [partial_name d bytes]) \<and> node_at fs (A @ [partial_name d bytes]) = None \<and>
      fs1 = set_node fs (A @ [partial_name d bytes]) DirNode"
    if "partial_loop fs (abs_dir (A @ [d])) rolls = Inr (tmp, fs1)" for rolls
    using that
  proof (induction rolls)
    case (Cons roll rolls)
    show ?case
    proof (cases roll)
      case (Some bytes)
      have tmp: "abs_dir (A @ [d]) @ ''.partial.'' @ EncodeToString bytes = abs_dir (A @ [partial_name d bytes])"
        by (simp only: abs_dir_append partial_name_def)
      show ?thesis
        using Cons Mkdir_child [OF assms(1) partial_name_normal [OF assms(2)], of bytes]
        by (auto simp del: append.simps simp: Some Let_def tmp split: if_splits)
    qed (use Cons in simp)
  qed simp
  with assms(3) that show thesis by (auto simp: makePartialDir_def)
qed

lemma jail_fresh:
  assumes "fs_ok fs" "real_dir fs A" "normal_elem e" "node_at fs (A @ [e]) = None"
  shows "jail (A @ [e]) (set_node fs (A @ [e]) DirNode) \<and> fs_ok (set_node fs (A @ [e]) DirNode) \<and>
    untouched (A @ [e]) fs (set_node fs (A @ [e]) DirNode)"
proof -
  have n: "node_at (set_node fs (A @ [e]) DirNode) q = (if q = A @ [e] then Some DirNode else node_at fs q)" for q
    by (simp add: node_at_set_node)
  have below: "node_at fs q = None" if "prefix (A @ [e]) q" for q
    using assms(1,4) that by (rule absent_below)
  have "jail (A @ [e]) (set_node fs (A @ [e]) DirNode)"
    using assms(2,3) below by (auto simp: jail_def n real_dir_def prefix_snoc)
  moreover have "fs_ok (set_node fs (A @ [e]) DirNode)"
    using assms by (intro fs_ok_set_node) (simp_all add: real_dir_def)
  ultimately show ?thesis by (simp add: untouched_def n)
qed

text \<open>The state an attempt leaves: that before it, or the extracted tree in place of the target.\<close>

definition installed :: "fs \<Rightarrow> tar_item list \<Rightarrow> fpath \<Rightarrow> string \<Rightarrow> fs \<Rightarrow> bool" where
  "installed fs body A d fs' \<longleftrightarrow>
     (\<exists>fs0 e fs1. node_at fs0 = node_at fs \<and> normal_elem e \<and> node_at fs (A @ [e]) = None \<and>
        untarInto (set_node fs0 (A @ [e]) DirNode) body (abs_dir (A @ [e])) = (None, fs1) \<and>
        (\<forall>q. node_at fs' q = (if prefix (A @ [d]) q then node_at fs1 (A @ [e] @ drop (length (A @ [d])) q) else node_at fs q)))"

lemma promote_installs:
  assumes "fs_ok fs" "real_dir fs A" "normal_elem d" "normal_elem e" "e \<noteq> d" "node_at fs (A @ [e]) = Some DirNode"
  shows "\<exists>fs'. promote fs (abs_dir (A @ [e])) (abs_dir (A @ [d])) = (None, fs') \<and> real_dir fs' A \<and>
    (\<forall>q. node_at fs' q = (if prefix (A @ [d]) q then node_at fs (A @ [e] @ drop (length (A @ [d])) q)
       else if prefix (A @ [e]) q then None else node_at fs q))"
proof -
  let ?a = "A @ [e]" and ?b = "A @ [d]"
  have np: "\<not> prefix ?a ?b" "\<not> prefix ?b ?a" using assms(5) by (auto simp: prefix_def)
  define fs1 where "fs1 = (if node_at fs ?b = None then fs else prune fs ?b)"
  have b: "node_at fs q = None" if "node_at fs ?b = None" "prefix ?b q" for q
    using assms(1) that by (rule absent_below)
  have n1: "node_at fs1 q = (if prefix ?b q then None else node_at fs q)" for q
    using b by (simp add: fs1_def node_at_prune)
  have r1: "real_dir fs1 A" using assms(2) by (auto simp: real_dir_def n1 prefix_def)
  have pre: "(case os_Lstat fs (abs_dir ?b) of Inr _ \<Rightarrow> os_RemoveAll fs (abs_dir ?b)
      | Inl e \<Rightarrow> (if e = ENOENT then None else Some e, fs)) = (None, fs1)"
    using locate_child [OF assms(2,3)] RemoveAll_child [OF assms(2,3)] by (simp add: os_Lstat_def fs1_def split: option.splits)
  have "os_Rename fs1 (abs_dir ?a) (abs_dir ?b) = Inr (move fs1 ?a ?b)"
    using locate_child [OF r1 assms(3)] locate_child [OF r1 assms(4)] np assms(5,6) by (simp add: os_Rename_def n1)
  then have "promote fs (abs_dir ?a) (abs_dir ?b) = (None, move fs1 ?a ?b)" by (simp add: promote_def pre)
  moreover have m: "node_at (move fs1 ?a ?b) q = (if prefix ?b q then node_at fs (?a @ drop (length ?b) q)
      else if prefix ?a q then None else node_at fs q)" for q
    using np(2) by (simp add: node_at_move [OF np] n1)
  moreover have "real_dir (move fs1 ?a ?b) A" using assms(2) by (auto simp: real_dir_def m prefix_def)
  ultimately show ?thesis by auto
qed

lemma attempt_atomic:
  assumes "fs_ok fs" "real_dir fs A" "normal_elem d"
    and "tryFetchAndPromote fs resp rnd (abs_dir (A @ [d])) = (r, fs')"
  shows "(r \<noteq> None \<longrightarrow> node_at fs' = node_at fs) \<and> (r = None \<longrightarrow> (\<exists>body. resp = Response 200 body \<and> installed fs body A d fs'))"
proof (cases "makePartialDir fs (abs_dir (A @ [d])) rnd")
  case (Inl e)
  then show ?thesis using assms(4) by (auto simp: tryFetchAndPromote_def)
next
  case (Inr p)
  then obtain tmp fs1 where p: "makePartialDir fs (abs_dir (A @ [d])) rnd = Inr (tmp, fs1)" by (cases p) auto
  from makePartialDir_cases [OF assms(2,3) p] obtain bytes where
    tmp: "tmp = abs_dir (A @ [partial_name d bytes])" "node_at fs (A @ [partial_name d bytes]) = None"
    "fs1 = set_node fs (A @ [partial_name d bytes]) DirNode" by blast
  define e where "e = partial_name d bytes"
  have e: "normal_elem e" "e \<noteq> d" "node_at fs (A @ [e]) = None" "tmp = abs_dir (A @ [e])"
    using partial_name_normal [OF assms(3)] partial_name_other tmp by (simp_all add: e_def)
  note fresh = jail_fresh [OF assms(1,2) e(1,3)]
  obtain r2 fs2 where f: "tryFetch fs1 resp tmp = (r2, fs2)" by fastforce
  have st: "stays (A @ [e]) fs1 fs2"
    using f fresh untar_stays [of "A @ [e]" fs1] stays_refl [of "A @ [e]" fs1] tmp(3) e(4) assms(2)
    by (auto simp: tryFetch_def untarInto_def e_def real_dir_def jail_def split: http_result.splits if_splits)
  then have out: "node_at fs2 q = node_at fs q" if "\<not> prefix (A @ [e]) q" for q
    using that fresh tmp(3) by (simp add: stays_def untouched_def e_def)
  have r2d: "real_dir fs2 A" using assms(2) out by (auto simp: real_dir_def prefix_def)
  have gone: "node_at fs q = None" if "prefix (A @ [e]) q" for q
    using assms(1) e(3) that by (rule absent_below)
  show ?thesis
  proof (cases r2)
    case (Some x)
    then have "r = Some x" "fs' = prune fs2 (A @ [e])"
      using assms(4) p f RemoveAll_child [OF r2d e(1)] by (auto simp: tryFetchAndPromote_def e(4))
    then show ?thesis using out gone by (auto simp: fun_eq_iff node_at_prune)
  next
    case None
    then obtain body where body: "resp = Response 200 body" "untarInto fs1 body tmp = (None, fs2)"
      using f by (auto simp: tryFetch_def split: http_result.splits if_splits)
    have "node_at fs2 (A @ [e]) = Some DirNode" "fs_ok fs2" using st by (simp_all add: stays_def jail_def)
    from promote_installs [OF this(2) r2d assms(3) e(1,2) this(1)] obtain fs3 where
      fs3: "promote fs2 tmp (abs_dir (A @ [d])) = (None, fs3)" "real_dir fs3 A"
      "\<And>q. node_at fs3 q = (if prefix (A @ [d]) q then node_at fs2 (A @ [e] @ drop (length (A @ [d])) q)
         else if prefix (A @ [e]) q then None else node_at fs2 q)" by (auto simp: e(4))
    then have "r = None" "fs' = prune fs3 (A @ [e])"
      using assms(4) p f None RemoveAll_child [OF fs3(2) e(1)] by (auto simp: tryFetchAndPromote_def e(4))
    moreover have "node_at fs' q = (if prefix (A @ [d]) q then node_at fs2 (A @ [e] @ drop (length (A @ [d])) q) else node_at fs q)" for q
      using \<open>fs' = prune fs3 (A @ [e])\<close> fs3(3) [of q] out [of q] gone [of q] e(2) by (auto simp: node_at_prune prefix_def)
    ultimately show ?thesis using body e tmp(3) by (auto simp: installed_def e_def)
  qed
qed

section \<open>All attempts\<close>

lemma fetch_loop_atomic:
  assumes "fs_ok fs" "real_dir fs A" "normal_elem d" "fetch_loop fs world (abs_dir (A @ [d])) lastErr ks = (r, fs', waits)"
    and "lastErr \<noteq> None \<or> ks \<noteq> []"
  shows "(r \<noteq> None \<longrightarrow> node_at fs' = node_at fs) \<and>
    (r = None \<longrightarrow> (\<exists>k \<in> set ks. \<exists>body. fst (world k) = Response 200 body \<and> installed fs body A d fs'))"
  using assms
proof (induction ks arbitrary: fs lastErr waits)
  case (Cons k ks)
  obtain r1 fs1 where t: "tryFetchAndPromote fs (fst (world k)) (snd (world k)) (abs_dir (A @ [d])) = (r1, fs1)" by fastforce
  note a = attempt_atomic [OF Cons.prems(1-3) t]
  show ?case
  proof (cases r1)
    case None
    then have "r = None" "fs' = fs1" using Cons.prems(4) t by auto
    then show ?thesis using a None by auto
  next
    case (Some e)
    then have same: "node_at fs1 = node_at fs" using a by simp
    then have inst: "installed fs1 body A d fs' \<longleftrightarrow> installed fs body A d fs'" for body by (simp add: installed_def)
    show ?thesis
    proof (cases "e = FetchNotFound")
      case True
      then show ?thesis using Cons.prems(4) t Some same by auto
    next
      case False
      then obtain waits' where "fetch_loop fs1 world (abs_dir (A @ [d])) (Some e) ks = (r, fs', waits')"
        using Cons.prems(4) t Some by (auto split: prod.splits)
      from Cons.IH [OF fs_ok_cong [OF Cons.prems(1) same] real_dir_cong [OF Cons.prems(2) same] Cons.prems(3) this]
      show ?thesis using same inst by auto
    qed
  qed
qed auto

lemma fetch_loop_waits:
  "fetch_loop fs world target lastErr ks = (r, fs', waits) \<Longrightarrow>
    prefix waits (map (\<lambda>k. int k * setupRetryBackoff) (filter (\<lambda>k. k < setupMaxAttempts) ks))"
  by (induction fs world target lastErr ks arbitrary: r fs' waits rule: fetch_loop.induct)
    (fastforce split: prod.splits option.splits if_splits)+

lemma Stat_real_dir: "real_dir fs A \<Longrightarrow> os_Stat fs (abs_dir A) = Inr DirNode"
proof -
  assume r: "real_dir fs A"
  then have "names (abs_dir A) = A" by (simp add: real_dir_def)
  then have "walk fs True maxLinks [] (Split CHR ''/'' (abs_dir A)) = Inr ([] @ A)"
    using r by (intro walk_above) (simp_all add: real_dir_def names_def)
  then show ?thesis using r by (simp add: os_Stat_def locate_def real_dir_def)
qed

lemma MkdirAll_real_dir: "real_dir fs A \<Longrightarrow> os_MkdirAll fs (abs_dir A) = (None, fs)"
  by (subst os_MkdirAll.simps) (simp add: Stat_real_dir)

lemma Join_child: "list_all normal_elem A \<Longrightarrow> normal_elem d \<Longrightarrow> filepath_Join [abs_dir A, d] = abs_dir (A @ [d])"
  using Join_under [of A "[d]"] Split_single [of "CHR ''/''" d] clean_elems_normal [of "[d]" True "rev A"]
  by (auto simp: normal_elem_def)

text \<open>
  C16: An action directory is replaced as a whole or not at all: when fetching an action fails, whatever the
  server sent on every attempt, the file system is as it was before, without leftovers; when it succeeds, the action's directory holds exactly
  what one of the archives the server sent extracts to in a fresh directory, and nothing else has
  changed. There are at most three attempts, with waits of one and two seconds between them.
\<close>

theorem fetch_atomic:
  assumes "fs_ok fs" "real_dir fs A" "normal_elem (afDir a)"
    and "fetchAction fs world a (abs_dir A) = (r, fs', waits)"
  shows "(r \<noteq> None \<longrightarrow> node_at fs' = node_at fs) \<and>
    (r = None \<longrightarrow> (\<exists>k \<in> {1, 2, 3}. \<exists>body. fst (world k) = Response 200 body \<and> installed fs body A (afDir a) fs')) \<and>
    prefix waits [1 * Second, 2 * Second]"
proof -
  have A: "list_all normal_elem A" using assms(2) by (simp add: real_dir_def)
  have ks: "[1..<Suc setupMaxAttempts] = [1, 2, 3]" by (simp add: setupMaxAttempts_def upt_rec)
  have f: "fetch_loop fs world (abs_dir (A @ [afDir a])) None [1, 2, 3] = (r, fs', waits)"
    using assms(4) by (simp only: fetchAction_def MkdirAll_real_dir [OF assms(2)] Join_child [OF A assms(3)] ks prod.case option.case)
  then show ?thesis using fetch_loop_atomic [OF assms(1-3) f] fetch_loop_waits [OF f]
    by (simp add: setupMaxAttempts_def setupRetryBackoff_def)
qed

section \<open>Witnesses\<close>

definition example_pod_fs :: fs where
  "example_pod_fs = [([''actions''], DirNode), ([''etc''], DirNode), ([''etc'', ''passwd''], FileNode ''root'')]"

lemma example_pod_fs_ok: "fs_ok example_pod_fs" "real_dir example_pod_fs [''actions'']"
    "node_at example_pod_fs [''actions'', e] = None"
  by (auto simp: fs_ok_def real_dir_def example_pod_fs_def node_at_def normal_elem_def prefix_Cons split: if_splits)

definition example_attack :: "tar_item list" where
  "example_attack = [Entry \<lparr>thName = ''l'', thType = TypeSymlink, thLinkname = ''./x'', thBody = [], thBroken = False\<rparr>,
     Entry \<lparr>thName = ''l/passwd'', thType = TypeReg, thLinkname = [], thBody = ''evil'', thBroken = False\<rparr>,
     Entry \<lparr>thName = ''../etc/passwd'', thType = TypeReg, thLinkname = [], thBody = ''evil'', thBroken = False\<rparr>]"

theorem extraction_confined_witness:
  "node_at (snd (untarInto example_pod_fs example_attack (abs_dir [''actions'']))) [''etc'', ''passwd''] = Some (FileNode ''root'')"
proof -
  obtain res fs' where u: "untarInto example_pod_fs example_attack (abs_dir [''actions'']) = (res, fs')" by fastforce
  have "jail [''actions''] example_pod_fs"
    using example_pod_fs_ok by (auto simp: jail_def real_dir_def example_pod_fs_def node_at_def split: if_splits)
  from extraction_confined [OF example_pod_fs_ok(1) this u]
  have "node_at fs' [''etc'', ''passwd''] = node_at example_pod_fs [''etc'', ''passwd'']" by simp
  also have "\<dots> = Some (FileNode ''root'')" by (simp add: example_pod_fs_def node_at_def)
  finally show ?thesis by (simp add: u)
qed

definition example_fetch :: ActionFetch where "example_fetch = \<lparr>afDir = ''a'', afURL = ''http://cache/a''\<rparr>"

theorem fetch_atomic_witness:
  "fst (fetchAction example_pod_fs (\<lambda>_. (Response 404 [], \<lambda>_. Some ''r'')) example_fetch (abs_dir [''actions''])) = Some FetchNotFound \<and>
   node_at (fst (snd (fetchAction example_pod_fs (\<lambda>_. (Response 404 [], \<lambda>_. Some ''r'')) example_fetch (abs_dir [''actions''])))) = node_at example_pod_fs"
proof -
  obtain r fs' waits where f: "fetchAction example_pod_fs (\<lambda>_. (Response 404 [], \<lambda>_. Some ''r'')) example_fetch (abs_dir [''actions'']) = (r, fs', waits)"
    by (metis prod_cases3)
  moreover have "fst (fetchAction example_pod_fs (\<lambda>_. (Response 404 [], \<lambda>_. Some ''r'')) example_fetch (abs_dir [''actions''])) = Some FetchNotFound"
    by code_simp
  moreover have "normal_elem (afDir example_fetch)" by (simp add: example_fetch_def normal_elem_def)
  ultimately show ?thesis using fetch_atomic [OF example_pod_fs_ok(1,2) _ f] by auto
qed

end
