(* ===== verification/TarDir.thy ===== *)
theory TarDir
  imports Setup_Props
begin

text \<open>
  The archive of an action that the cache server streams (\<^verbatim>\<open>pkg/cache/tar.go\<close> and \<^verbatim>\<open>serveAction\<close>), and the
  round trip through the entrypoint's setup command.
\<close>

section \<open>The walk\<close>

text \<open>Each level has fewer nodes below it.\<close>

definition nodes_below :: "fs \<Rightarrow> fpath \<Rightarrow> nat" where
  "nodes_below fs p = length (filter (\<lambda>(q, _). strict_prefix p q) fs)"

lemma nodes_below_less:
  assumes "node_at fs (p @ [e]) \<noteq> None"
  shows "nodes_below fs (p @ [e]) < nodes_below fs p"
proof -
  let ?P = "\<lambda>(q, _). strict_prefix (p @ [e]) q" and ?Q = "\<lambda>(q, _). strict_prefix p q"
  obtain nd where "(p @ [e], nd) \<in> set fs" using assms by (auto simp: node_at_def dest: map_of_SomeD)
  then have "(p @ [e], nd) \<in> set (filter ?Q fs)" by (auto simp: strict_prefix_def)
  moreover have "\<not> ?P (p @ [e], nd)" by simp
  ultimately have "length (filter ?P (filter ?Q fs)) < length (filter ?Q fs)" by (rule length_filter_less)
  moreover have "filter ?P (filter ?Q fs) = filter ?P fs"
    by (auto simp: filter_filter strict_prefix_def prefix_def intro!: filter_cong)
  ultimately show ?thesis by (simp add: nodes_below_def)
qed

text \<open>
  \<^verbatim>\<open>filepath.WalkDir\<close> below \<open>base\<close>, at the directory \<open>rel\<close>: every entry in the order of the names, a directory
  before its contents, without the excluded names of the top level.
\<close>

function walk_tar :: "fs \<Rightarrow> string list \<Rightarrow> fpath \<Rightarrow> fpath \<Rightarrow> (fpath \<times> node) list" where
  "walk_tar fs excludes base rel =
     concat (map (\<lambda>name.
       if hd (rel @ [name]) \<in> set excludes then []
       else case node_at fs (base @ rel @ [name]) of
           None \<Rightarrow> []
         | Some nd \<Rightarrow> (rel @ [name], nd) # (if nd = DirNode then walk_tar fs excludes base (rel @ [name]) else []))
       (entries fs (base @ rel)))"
  by pat_completeness auto

termination
  by (relation "measure (\<lambda>(fs, excludes, base, rel). nodes_below fs (base @ rel))")
    (auto intro: nodes_below_less [of _ "_ @ _", unfolded append_assoc])

declare walk_tar.simps [simp del]

definition tar_entry :: "fpath \<times> node \<Rightarrow> tar_header" where
  "tar_entry x =
     (case x of (rel, nd) \<Rightarrow>
        (case nd of
           DirNode \<Rightarrow> \<lparr>thName = Join ''/'' rel @ ''/'', thType = TypeDir, thLinkname = [], thBody = [], thBroken = False\<rparr>
         | FileNode c \<Rightarrow> \<lparr>thName = Join ''/'' rel, thType = TypeReg, thLinkname = [], thBody = c, thBroken = False\<rparr>
         | LinkNode t \<Rightarrow> \<lparr>thName = Join ''/'' rel, thType = TypeSymlink, thLinkname = t, thBody = [], thBroken = False\<rparr>))"

text \<open>Only the root itself is visited when it is not a directory, and it is left out.\<close>

definition tarDir :: "fs \<Rightarrow> string \<Rightarrow> string list \<Rightarrow> fs_error + tar_header list" where
  "tarDir fs dir excludes =
     (case locate fs False (Clean dir) of
        Inl e \<Rightarrow> Inl e
      | Inr p \<Rightarrow>
          (case node_at fs p of
             None \<Rightarrow> Inl ENOENT
           | Some DirNode \<Rightarrow> Inr (map tar_entry (walk_tar fs excludes p []))
           | Some _ \<Rightarrow> Inr []))"

text \<open>The answer to a request for an action.\<close>

definition serveAction :: "Handler \<Rightarrow> fs \<Rightarrow> string \<Rightarrow> http_result" where
  "serveAction h fs dir =
     (case serveAction_path h dir of
        None \<Rightarrow> Response 400 []
      | Some actionPath \<Rightarrow>
          if os_Stat fs actionPath = Inr DirNode then
            Response 200 (case tarDir fs actionPath [''.git''] of Inl _ \<Rightarrow> [] | Inr hs \<Rightarrow> map Entry hs)
          else Response 404 [])"

section \<open>What the walk visits\<close>

lemma walk_tar_unfold:
  "x \<in> set (walk_tar fs ex base rel) \<longleftrightarrow>
    (\<exists>name nd. node_at fs (base @ rel @ [name]) = Some nd \<and> hd (rel @ [name]) \<notin> set ex \<and>
      (x = (rel @ [name], nd) \<or> nd = DirNode \<and> x \<in> set (walk_tar fs ex base (rel @ [name]))))"
proof -
  have "x \<in> set (walk_tar fs ex base rel) \<longleftrightarrow>
      (\<exists>name \<in> {e. node_at fs (base @ rel @ [e]) \<noteq> None}. x \<in> set (if hd (rel @ [name]) \<in> set ex then []
        else case node_at fs (base @ rel @ [name]) of None \<Rightarrow> []
          | Some nd \<Rightarrow> (rel @ [name], nd) # (if nd = DirNode then walk_tar fs ex base (rel @ [name]) else [])))"
    by (subst walk_tar.simps) (simp only: set_concat set_map entries_set append_assoc UN_iff image_iff bex_simps Bex_def mem_Collect_eq, blast)
  also have "\<dots> \<longleftrightarrow> (\<exists>name nd. node_at fs (base @ rel @ [name]) = Some nd \<and> hd (rel @ [name]) \<notin> set ex \<and>
      (x = (rel @ [name], nd) \<or> nd = DirNode \<and> x \<in> set (walk_tar fs ex base (rel @ [name]))))"
    by (rule iffI; auto split: if_splits; blast)
  finally show ?thesis .
qed

lemma hd_snoc: "hd (xs @ x # ys) = hd (xs @ [x])"
  by (cases xs) simp_all

lemma walk_tar_iff:
  "fs_ok fs \<Longrightarrow> (r, nd) \<in> set (walk_tar fs ex base rel) \<longleftrightarrow>
    (\<exists>s. r = rel @ s \<and> s \<noteq> [] \<and> node_at fs (base @ r) = Some nd \<and> hd r \<notin> set ex)"
proof (induction fs ex base rel rule: walk_tar.induct)
  case (1 fs ex base rel)
  have IH: "(r, nd) \<in> set (walk_tar fs ex base (rel @ [name])) \<longleftrightarrow>
      (\<exists>s. r = rel @ name # s \<and> s \<noteq> [] \<and> node_at fs (base @ r) = Some nd \<and> hd r \<notin> set ex)"
    if "node_at fs (base @ rel @ [name]) = Some DirNode" "hd (rel @ [name]) \<notin> set ex" for name
    using "1.IH" [of name DirNode] that "1.prems" by (auto simp: entries_set)
  show ?case
  proof
    assume "(r, nd) \<in> set (walk_tar fs ex base rel)"
    then show "\<exists>s. r = rel @ s \<and> s \<noteq> [] \<and> node_at fs (base @ r) = Some nd \<and> hd r \<notin> set ex"
      by (subst (asm) walk_tar_unfold) (auto simp: IH)
  next
    assume "\<exists>s. r = rel @ s \<and> s \<noteq> [] \<and> node_at fs (base @ r) = Some nd \<and> hd r \<notin> set ex"
    then obtain name s where r: "r = rel @ name # s" "node_at fs (base @ r) = Some nd" "hd (rel @ [name]) \<notin> set ex"
      by (metis hd_snoc neq_Nil_conv)
    then have "s \<noteq> [] \<Longrightarrow> node_at fs (base @ rel @ [name]) = Some DirNode"
      using fs_ok_above [OF "1.prems", of "base @ rel @ [name]" s] by simp
    then show "(r, nd) \<in> set (walk_tar fs ex base rel)"
      using r IH [of name] hd_snoc [of rel name s] by (subst walk_tar_unfold) (cases "s = []"; auto)
  qed
qed

text \<open>Parents first, nothing twice: \<open>D\<close> holds what was visited before.\<close>

fun parents_first :: "fpath set \<Rightarrow> fpath list \<Rightarrow> bool" where
  "parents_first D [] = True"
| "parents_first D (r # rs) \<longleftrightarrow> r \<noteq> [] \<and> r \<notin> D \<and> butlast r \<in> D \<and> parents_first (insert r D) rs"

lemma parents_first_append: "parents_first D (xs @ ys) \<longleftrightarrow> parents_first D xs \<and> parents_first (D \<union> set xs) ys"
  by (induction xs arbitrary: D) auto

lemma distinct_entries: "distinct (entries fs p)"
  by (simp add: entries_def)

lemma parents_first_concat:
  assumes "distinct ns" "rel \<in> D" "\<forall>n \<in> set ns. \<forall>s. rel @ n # s \<notin> D"
    and "\<forall>n \<in> set ns. \<forall>r \<in> set (f n). \<exists>s. r = rel @ n # s"
    and "\<forall>n \<in> set ns. \<forall>D. rel \<in> D \<longrightarrow> (\<forall>s. rel @ n # s \<notin> D) \<longrightarrow> parents_first D (f n)"
  shows "parents_first D (concat (map f ns))"
  using assms
proof (induction ns arbitrary: D)
  case (Cons n ns)
  have "parents_first (D \<union> set (f n)) (concat (map f ns))"
    by (rule Cons.IH) (use Cons.prems in fastforce)+
  then show ?case using Cons.prems by (auto simp: parents_first_append)
qed simp

lemma walk_parents_first:
  "fs_ok fs \<Longrightarrow> rel \<in> D \<Longrightarrow> \<forall>s. s \<noteq> [] \<longrightarrow> rel @ s \<notin> D \<Longrightarrow> parents_first D (map fst (walk_tar fs ex base rel))"
proof (induction fs ex base rel arbitrary: D rule: walk_tar.induct)
  case (1 fs ex base rel)
  let ?f = "\<lambda>name. if hd (rel @ [name]) \<in> set ex then []
       else case node_at fs (base @ rel @ [name]) of
           None \<Rightarrow> []
         | Some nd \<Rightarrow> (rel @ [name], nd) # (if nd = DirNode then walk_tar fs ex base (rel @ [name]) else [])"
  have "parents_first D (concat (map (\<lambda>name. map fst (?f name)) (entries fs (base @ rel))))"
  proof (rule parents_first_concat [where rel = rel])
    show "\<forall>n \<in> set (entries fs (base @ rel)). \<forall>r \<in> set (map fst (?f n)). \<exists>s. r = rel @ n # s"
      using walk_tar_iff [OF "1.prems"(1)] by (auto split: option.splits)
    show "\<forall>n \<in> set (entries fs (base @ rel)). \<forall>D. rel \<in> D \<longrightarrow> (\<forall>s. rel @ n # s \<notin> D) \<longrightarrow> parents_first D (map fst (?f n))"
    proof (intro ballI allI impI)
      fix n D' assume n: "n \<in> set (entries fs (base @ rel))" and D': "rel \<in> D'" "\<forall>s. rel @ n # s \<notin> D'"
      have "parents_first (insert (rel @ [n]) D') (map fst (walk_tar fs ex base (rel @ [n])))"
        if "node_at fs (base @ rel @ [n]) = Some DirNode" "hd (rel @ [n]) \<notin> set ex"
        using "1.IH" [of n DirNode "insert (rel @ [n]) D'"] n that "1.prems"(1) D' by auto
      then show "parents_first D' (map fst (?f n))" using D' by (auto split: option.splits)
    qed
  qed (use "1.prems" distinct_entries in auto)
  then show ?case by (subst walk_tar.simps) (simp add: map_concat comp_def)
qed

section \<open>Extraction of an archive\<close>

definition link_ok :: "node \<Rightarrow> bool" where
  "link_ok nd = (case nd of LinkNode t \<Rightarrow> t \<noteq> [] \<and> \<not> IsAbs t \<and> \<not> Contains t ''..'' | _ \<Rightarrow> True)"

lemma Stat_missing:
  assumes "real_dir fs A" "normal_elem e" "node_at fs (A @ [e]) = None"
  shows "os_Stat fs (abs_dir (A @ [e])) = Inl ENOENT"
proof -
  have "list_all normal_elem (A @ [e])" using assms by (simp add: real_dir_def)
  then have "locate fs True (abs_dir (A @ [e])) = walk fs True maxLinks [] (A @ [e])"
    by (simp add: locate_def Split_abs_dir)
  also have "\<dots> = walk fs True maxLinks ([] @ A) [e]"
    using assms(1) by (intro walk_real_dir) (simp_all add: real_dir_def)
  also have "\<dots> = Inr (A @ [e])" using assms(2,3) by (auto simp: normal_elem_def)
  finally show ?thesis using assms(3) by (simp add: os_Stat_def)
qed

lemma MkdirAll_names:
  assumes "real_dir fs A" "names p = A"
  shows "os_MkdirAll fs p = (None, fs)"
proof -
  have "walk fs True maxLinks [] (Split CHR ''/'' p) = Inr ([] @ A)"
    using assms by (intro walk_above) (simp_all add: real_dir_def names_def)
  then have "os_Stat fs p = Inr DirNode" using assms(1) by (simp add: os_Stat_def locate_def real_dir_def)
  then show ?thesis by (subst os_MkdirAll.simps) simp
qed

lemma MkdirAll_child:
  assumes "real_dir fs A" "normal_elem e" "node_at fs (A @ [e]) = None"
  shows "os_MkdirAll fs (abs_dir (A @ [e])) = (None, set_node fs (A @ [e]) DirNode)"
proof -
  have "names (parent_part (abs_dir (A @ [e]))) = A" using assms by (simp add: names_parent real_dir_def)
  then have "(if parent_part (abs_dir (A @ [e])) \<noteq> [] then os_MkdirAll fs (parent_part (abs_dir (A @ [e]))) else (None, fs)) = (None, fs)"
    using MkdirAll_names [OF assms(1)] by auto
  then show ?thesis using Stat_missing [OF assms] Mkdir_child [OF assms(1,2)] assms(3)
    by (subst os_MkdirAll.simps) simp
qed

lemma extract_tar_entry:
  assumes "real_dir fs A" "normal_elem e" "node_at fs (A @ [e]) = None" "link_ok nd"
  shows "extract_entry fs (tar_entry (r, nd)) (abs_dir (A @ [e])) = (None, set_node fs (A @ [e]) nd)"
proof -
  have "list_all normal_elem (A @ [e])" using assms by (simp add: real_dir_def)
  then have "Dir (abs_dir (A @ [e])) = abs_dir A" by (simp add: Dir_abs_dir)
  then show ?thesis
    using assms MkdirAll_child [OF assms(1-3)] MkdirAll_real_dir [OF assms(1)] locate_child [OF assms(1,2)]
    by (cases nd) (simp_all add: extract_entry_def tar_entry_def link_ok_def write_nofollow_def os_Symlink_def)
qed

lemma real_dirI: "fs_ok fs \<Longrightarrow> node_at fs A = Some DirNode \<Longrightarrow> list_all normal_elem A \<Longrightarrow> real_dir fs A"
  using fs_ok_above [of fs _ "_ :: fpath"] by (fastforce simp: real_dir_def prefix_def)

lemma tar_name:
  assumes "list_all normal_elem r" "r \<noteq> []"
  shows "vis (thName (tar_entry (r, nd))) = r" "''..'' \<notin> set (Split CHR ''/'' (thName (tar_entry (r, nd))))"
  using assms vis_slash [of "Join ''/'' r" "[]"] no_up_normal [OF assms(1)] Split_slash [of "CHR ''/''" "Join ''/'' r" "[]"]
  by (cases nd; simp add: tar_entry_def)+

lemma dest_inside:
  assumes "T \<noteq> []" "r \<noteq> []"
  shows "HasPrefix (abs_dir (T @ r) @ ''/'') (abs_dir T @ ''/'')"
proof -
  have "Join sep (xs @ ys) = Join sep xs @ sep @ Join sep ys" if "xs \<noteq> []" "ys \<noteq> []" for sep and xs ys :: "string list"
    using that by (induction xs rule: induct_list012) (auto simp: Join_Cons)
  then show ?thesis using assms by (simp add: HasPrefix_def abs_dir_def)
qed

lemma untar_walk:
  assumes "fs_ok S" "T \<noteq> []" "list_all normal_elem T"
  shows "parents_first D (map fst xs) \<Longrightarrow>
    \<forall>(r, nd) \<in> set xs. node_at S (B @ r) = Some nd \<and> list_all normal_elem r \<and> link_ok nd \<Longrightarrow>
    fs_ok fs \<Longrightarrow> \<forall>r. node_at fs (T @ r) = (if r \<in> D then node_at S (B @ r) else None) \<Longrightarrow>
    \<exists>fs'. untar_loop fs (abs_dir T @ ''/'') (map (\<lambda>x. Entry (tar_entry x)) xs) = (None, fs') \<and>
      (\<forall>r. node_at fs' (T @ r) = (if r \<in> D \<union> fst ` set xs then node_at S (B @ r) else None))"
proof (induction xs arbitrary: D fs)
  case (Cons x xs)
  obtain r nd where x: "x = (r, nd)" by (cases x)
  then obtain r0 e where r: "r = r0 @ [e]" using Cons.prems(1) by (cases r rule: rev_cases) auto
  have n: "list_all normal_elem r" "link_ok nd" "node_at S (B @ r) = Some nd" using Cons.prems(2) x by auto
  have D: "r \<notin> D" "r0 \<in> D" using Cons.prems(1) x r by auto
  have "node_at S (B @ r0) = Some DirNode" using fs_okD [OF assms(1), of "B @ r0" e] n(3) r by simp
  then have d: "node_at fs (T @ r0) = Some DirNode" "node_at fs ((T @ r0) @ [e]) = None" using Cons.prems(4) D r by auto
  have rd: "real_dir fs (T @ r0)" using real_dirI [OF Cons.prems(3) d(1)] n(1) r assms(3) by simp
  define fs1 where "fs1 = set_node fs ((T @ r0) @ [e]) nd"
  have "extract_entry fs (tar_entry x) (abs_dir (T @ r)) = (None, fs1)"
    using extract_tar_entry [OF rd _ d(2) n(2), of r] n(1) r x by (simp add: fs1_def)
  then have step: "untar_loop fs (abs_dir T @ ''/'') (map (\<lambda>x. Entry (tar_entry x)) (x # xs))
      = untar_loop fs1 (abs_dir T @ ''/'') (map (\<lambda>x. Entry (tar_entry x)) xs)"
    using tar_name [OF n(1), of nd] dest_of_eq [OF assms(3), of "thName (tar_entry x)"] dest_inside [OF assms(2), of r] r x
    by (simp add: Let_def)
  have "fs_ok fs1" unfolding fs1_def using d by (intro fs_ok_set_node [OF Cons.prems(3)]) simp_all
  moreover have "\<forall>q. node_at fs1 (T @ q) = (if q \<in> insert r D then node_at S (B @ q) else None)"
    using Cons.prems(4) n(3) r by (auto simp: fs1_def node_at_set_node)
  moreover have "parents_first (insert r D) (map fst xs)" using Cons.prems(1) x by simp
  ultimately show ?case using Cons.IH [of "insert r D" fs1] Cons.prems(2) step x by auto
qed simp

section \<open>From the cache server to the pod\<close>

definition names_ok :: "fs \<Rightarrow> bool" where
  "names_ok fs \<longleftrightarrow> (\<forall>q. node_at fs q \<noteq> None \<longrightarrow> list_all normal_elem q)"

lemma names_okD: "names_ok fs \<Longrightarrow> node_at fs q = Some nd \<Longrightarrow> list_all normal_elem q"
  by (simp add: names_ok_def)

lemma locate_real_dir: "real_dir fs A \<Longrightarrow> locate fs follow (abs_dir A) = Inr A"
  using walk_above [of "[]" A fs "Split CHR ''/'' (abs_dir A)" follow maxLinks] names_abs_dir [of A]
  by (simp add: real_dir_def locate_def names_def)

lemma safe_dir_normal: "isSafeActionDir d \<Longrightarrow> normal_elem d"
  by (auto simp: isSafeActionDir_def normal_elem_def list_all_iff safe_char_def char_in_def)

lemma serveAction_answer:
  assumes "fs_ok S" "hDir h = abs_dir H" "list_all normal_elem H" "isSafeActionDir d"
    and "B = H @ [''actions-repo-cache'', d]" "node_at S B = Some DirNode"
  shows "serveAction h S d = Response 200 (map (\<lambda>x. Entry (tar_entry x)) (walk_tar S [''.git''] B []))"
proof -
  have n: "list_all normal_elem [''actions-repo-cache'', d]"
    using safe_dir_normal [OF assms(4)] by (simp add: normal_elem_def)
  then have "Split CHR ''/'' d = [d]" by (simp add: Split_single normal_elem_def)
  then have p: "filepath_Join [abs_dir H, ''actions-repo-cache'', d] = abs_dir B"
    using Join_under [OF assms(3), of "[''actions-repo-cache'', d]"] clean_elems_normal [OF n, of True "rev H"] assms(5) by simp
  have B: "list_all normal_elem B" using n assms(3,5) by simp
  then have r: "real_dir S B" using real_dirI [OF assms(1,6)] by simp
  show ?thesis
    using assms(2,4,6) B locate_real_dir [OF r] Stat_real_dir [OF r]
    by (simp add: serveAction_def serveAction_path_def p tarDir_def)
qed

lemma attempt_succeeds:
  assumes "fs_ok fs" "real_dir fs A" "normal_elem d" "rnd 0 = Some bytes" "node_at fs (A @ [partial_name d bytes]) = None"
    and "untarInto (set_node fs (A @ [partial_name d bytes]) DirNode) body (abs_dir (A @ [partial_name d bytes])) = (None, fs1)"
  shows "\<exists>fs'. tryFetchAndPromote fs (Response 200 body) rnd (abs_dir (A @ [d])) = (None, fs')"
proof -
  define e where "e = partial_name d bytes"
  have e: "normal_elem e" "e \<noteq> d" using partial_name_normal [OF assms(3)] partial_name_other by (simp_all add: e_def)
  have "makePartialDir fs (abs_dir (A @ [d])) rnd = Inr (abs_dir (A @ [e]), set_node fs (A @ [e]) DirNode)"
    using Mkdir_child [OF assms(2) e(1)] assms(4,5) abs_dir_append [of A d "''.partial.'' @ EncodeToString bytes"]
    by (simp add: makePartialDir_def upt_conv_Cons Let_def e_def partial_name_def)
  moreover have "stays (A @ [e]) (set_node fs (A @ [e]) DirNode) fs1"
    using assms(6) jail_fresh [OF assms(1,2) e(1)] assms(5) untar_stays [of "A @ [e]"] assms(2) e(1)
    by (auto simp: e_def untarInto_def real_dir_def)
  then have "fs_ok fs1" "node_at fs1 (A @ [e]) = Some DirNode" "real_dir fs1 A"
    using assms(2) by (auto simp: stays_def jail_def real_dir_def)
  then have "\<exists>fs3. promote fs1 (abs_dir (A @ [e])) (abs_dir (A @ [d])) = (None, fs3)"
    using promote_installs [of fs1 A d e] assms(3) e by blast
  ultimately show ?thesis using assms(6) by (auto simp: tryFetchAndPromote_def tryFetch_def e_def)
qed

definition clone_ok :: "fs \<Rightarrow> fpath \<Rightarrow> bool" where
  "clone_ok S B \<longleftrightarrow> fs_ok S \<and> names_ok S \<and> node_at S B = Some DirNode \<and>
     (\<forall>r nd. r \<noteq> [] \<longrightarrow> hd r \<noteq> ''.git'' \<longrightarrow> node_at S (B @ r) = Some nd \<longrightarrow> link_ok nd)"

lemma untar_clone:
  assumes S: "clone_ok S B" and fs: "fs_ok fs" "real_dir fs A" and e: "normal_elem e" "node_at fs (A @ [e]) = None"
  shows "\<exists>fs1. untarInto (set_node fs (A @ [e]) DirNode) (map (\<lambda>x. Entry (tar_entry x)) (walk_tar S [''.git''] B [])) (abs_dir (A @ [e])) = (None, fs1) \<and>
    (\<forall>r. node_at fs1 (A @ [e] @ r) = (if r \<noteq> [] \<and> hd r = ''.git'' then None else node_at S (B @ r)))"
proof -
  let ?xs = "walk_tar S [''.git''] B []"
  have ok: "fs_ok S" "names_ok S" "node_at S B = Some DirNode" using S by (simp_all add: clone_ok_def)
  have xs: "(r, nd) \<in> set ?xs \<longleftrightarrow> r \<noteq> [] \<and> node_at S (B @ r) = Some nd \<and> hd r \<noteq> ''.git''" for r nd
    using walk_tar_iff [OF ok(1), of r nd "[''.git'']" B "[]"] by auto
  have "node_at S (B @ r) = Some nd \<and> list_all normal_elem r \<and> link_ok nd" if "(r, nd) \<in> set ?xs" for r nd
    using that xs [of r nd] S names_okD [OF ok(2), of "B @ r" nd] unfolding clone_ok_def list_all_append by blast
  then have good: "\<forall>(r, nd) \<in> set ?xs. node_at S (B @ r) = Some nd \<and> list_all normal_elem r \<and> link_ok nd" by blast
  have order: "parents_first {[]} (map fst ?xs)" using ok(1) by (intro walk_parents_first) auto
  have T: "list_all normal_elem (A @ [e])" using fs(2) e by (simp add: real_dir_def)
  have "\<forall>r. node_at (set_node fs (A @ [e]) DirNode) ((A @ [e]) @ r) = (if r \<in> {[]} then node_at S (B @ r) else None)"
    using ok(3) absent_below [OF fs(1) e(2)] by (simp add: node_at_set_node)
  from untar_walk [OF ok(1) _ T order good _ this] jail_fresh [OF fs e]
  obtain fs1 where fs1: "untar_loop (set_node fs (A @ [e]) DirNode) (abs_dir (A @ [e]) @ ''/'') (map (\<lambda>x. Entry (tar_entry x)) ?xs) = (None, fs1)"
    "\<forall>r. node_at fs1 ((A @ [e]) @ r) = (if r \<in> {[]} \<union> fst ` set ?xs then node_at S (B @ r) else None)" by auto
  have "r \<in> {[]} \<union> fst ` set ?xs \<longleftrightarrow> r = [] \<or> node_at S (B @ r) \<noteq> None \<and> hd r \<noteq> ''.git''" for r
    using xs by (force simp: image_iff)
  then show ?thesis using T fs1 by (intro exI [of _ fs1]) (auto simp: untarInto_def)
qed

text \<open>
  C14: An action arrives in the pod as the cache server has it: when setup fetches an action from a
  server that answers, the first attempt succeeds, and below the action's directory in the pod
  there is exactly the server's clone without its \<open>.git\<close> directory, file contents and links included; the rest
  of the pod's file system is unchanged. The links of the clone must be relative and without \<open>..\<close>.
\<close>

theorem action_delivered:
  assumes server: "hDir h = abs_dir H" "list_all normal_elem H" "isSafeActionDir (afDir a)"
    and clone: "B = H @ [''actions-repo-cache'', afDir a]" "clone_ok S B"
    and pod: "fs_ok fs" "real_dir fs A" "node_at fs (A @ [partial_name (afDir a) bytes]) = None"
    and world: "world 1 = (serveAction h S (afDir a), rnd)" "rnd 0 = Some bytes"
  shows "\<exists>fs'. fetchAction fs world a (abs_dir A) = (None, fs', []) \<and>
    (\<forall>r. node_at fs' (A @ [afDir a] @ r) = (if r \<noteq> [] \<and> hd r = ''.git'' then None else node_at S (B @ r))) \<and>
    (\<forall>q. \<not> prefix (A @ [afDir a]) q \<longrightarrow> node_at fs' q = node_at fs q)"
proof -
  let ?d = "afDir a" and ?body = "map (\<lambda>x. Entry (tar_entry x)) (walk_tar S [''.git''] B [])"
  have d: "normal_elem ?d" using server(3) by (rule safe_dir_normal)
  have A: "list_all normal_elem A" using pod(2) by (simp add: real_dir_def)
  have answer: "serveAction h S ?d = Response 200 ?body"
    using serveAction_answer server clone by (simp add: clone_ok_def)
  obtain fs1 where fs1: "untarInto (set_node fs (A @ [partial_name ?d bytes]) DirNode) ?body (abs_dir (A @ [partial_name ?d bytes])) = (None, fs1)"
    using untar_clone [OF clone(2) pod(1,2) partial_name_normal [OF d] pod(3)] by blast
  obtain fs' where t: "tryFetchAndPromote fs (Response 200 ?body) rnd (abs_dir (A @ [?d])) = (None, fs')"
    using attempt_succeeds [where rnd = rnd, OF pod(1,2) d world(2) pod(3) fs1] by blast
  then have "installed fs ?body A ?d fs'" using attempt_atomic [OF pod(1,2) d t] by auto
  then obtain fs0 e fs2 where inst: "node_at fs0 = node_at fs" "normal_elem e" "node_at fs (A @ [e]) = None"
    "untarInto (set_node fs0 (A @ [e]) DirNode) ?body (abs_dir (A @ [e])) = (None, fs2)"
    "\<forall>q. node_at fs' q = (if prefix (A @ [?d]) q then node_at fs2 (A @ [e] @ drop (length (A @ [?d])) q) else node_at fs q)"
    by (auto simp: installed_def)
  have "\<forall>r. node_at fs2 (A @ [e] @ r) = (if r \<noteq> [] \<and> hd r = ''.git'' then None else node_at S (B @ r))"
    using untar_clone [OF clone(2) fs_ok_cong [OF pod(1) inst(1)] real_dir_cong [OF pod(2) inst(1)] inst(2)] inst(1,3,4) by auto
  moreover have "fetchAction fs world a (abs_dir A) = (None, fs', [])"
    using t world answer MkdirAll_real_dir [OF pod(2)] Join_child [OF A d]
    by (simp add: fetchAction_def upt_conv_Cons setupMaxAttempts_def)
  ultimately show ?thesis using inst(5) by (intro exI [of _ fs']) auto
qed

section \<open>Witnesses\<close>

definition example_server_fs :: fs where
  "example_server_fs = [([''c''], DirNode), ([''c'', ''actions-repo-cache''], DirNode), ([''c'', ''actions-repo-cache'', ''a''], DirNode),
     ([''c'', ''actions-repo-cache'', ''a'', ''.git''], DirNode), ([''c'', ''actions-repo-cache'', ''a'', ''action.yml''], FileNode ''runs'')]"

lemma example_clone_ok: "clone_ok example_server_fs [''c'', ''actions-repo-cache'', ''a'']"
  by (auto simp: clone_ok_def fs_ok_def names_ok_def example_server_fs_def node_at_def normal_elem_def link_ok_def split: if_splits)

theorem action_delivered_witness:
  "\<exists>fs'. fetchAction example_pod_fs (\<lambda>_. (serveAction (empty_cache (abs_dir [''c'']) ''ip'' 80) example_server_fs ''a'', \<lambda>_. Some ''r''))
      example_fetch (abs_dir [''actions'']) = (None, fs', []) \<and>
    node_at fs' [''actions'', ''a'', ''action.yml''] = Some (FileNode ''runs'') \<and> node_at fs' [''actions'', ''a'', ''.git''] = None"
proof -
  let ?w = "\<lambda>_ :: nat. (serveAction (empty_cache (abs_dir [''c'']) ''ip'' 80) example_server_fs ''a'', \<lambda>_ :: nat. Some ''r'')"
  have h: "hDir (empty_cache (abs_dir [''c'']) ''ip'' 80) = abs_dir [''c'']" "list_all normal_elem [''c'']" "isSafeActionDir (afDir example_fetch)"
    "[''c'', ''actions-repo-cache'', ''a''] = [''c''] @ [''actions-repo-cache'', afDir example_fetch]"
    by (simp_all add: empty_cache_def normal_elem_def isSafeActionDir_def safe_char_def char_in_def example_fetch_def)
  obtain fs' where f: "fetchAction example_pod_fs ?w example_fetch (abs_dir [''actions'']) = (None, fs', [])"
    "\<forall>r. node_at fs' ([''actions''] @ [afDir example_fetch] @ r) = (if r \<noteq> [] \<and> hd r = ''.git'' then None
        else node_at example_server_fs ([''c'', ''actions-repo-cache'', ''a''] @ r))"
    using action_delivered [OF h(1-4) example_clone_ok example_pod_fs_ok(1,2), where world = ?w and bytes = "''r''" and rnd = "\<lambda>_. Some ''r''"]
      example_pod_fs_ok(3) by (auto simp: example_fetch_def)
  from f(2) have "node_at fs' [''actions'', ''a'', ''action.yml''] = Some (FileNode ''runs'')" "node_at fs' [''actions'', ''a'', ''.git''] = None"
    by (auto simp: example_fetch_def example_server_fs_def node_at_def dest: spec [of _ "[''action.yml'']"] spec [of _ "[''.git'']"])
  with f(1) show ?thesis by blast
qed

end
