(* ===== verification/CacheMirror.thy ===== *)
theory CacheMirror
  imports TarDir Entrypoint
begin

text \<open>
  The mirroring of cache paths before every step (\<^verbatim>\<open>cmd/entrypoint/cache_mirror.go\<close>): each declared path
  becomes a link into the cache volume, and what a step put there as a directory is merged into the volume first.
  File modes are left out, and every node that is neither a directory nor a link is a regular file. The
  recursion of \<^verbatim>\<open>mergeDir\<close> takes a depth; \<open>None\<close> is a recursion that went deeper.
\<close>

section \<open>Copying a file\<close>

text \<open>
  Opening a file for reading yields its node; the contents are read after the destination was opened
  and truncated.
\<close>

definition os_Open :: "fs \<Rightarrow> string \<Rightarrow> fs_error + fpath" where
  "os_Open fs p =
     (case locate fs True p of Inl e \<Rightarrow> Inl e
      | Inr q \<Rightarrow> (if node_at fs q = None then Inl ENOENT else Inr q))"

definition openNoFollowForWrite :: "fs \<Rightarrow> string \<Rightarrow> fs_error option \<times> fs" where
  "openNoFollowForWrite fs dst =
     (case write_nofollow fs dst [] of
        Inr fs1 \<Rightarrow> (None, fs1)
      | Inl e \<Rightarrow>
          if e \<noteq> ELOOP then (Some e, fs)
          else (case os_Remove fs dst of
                  Inl e \<Rightarrow> (Some e, fs)
                | Inr fs1 \<Rightarrow> (case write_nofollow fs1 dst [] of Inl e \<Rightarrow> (Some e, fs1) | Inr fs2 \<Rightarrow> (None, fs2))))"

definition copyFile :: "fs \<Rightarrow> string \<Rightarrow> string \<Rightarrow> fs_error option \<times> fs" where
  "copyFile fs src dst =
     (case os_Open fs src of
        Inl e \<Rightarrow> (Some e, fs)
      | Inr q \<Rightarrow>
          (case openNoFollowForWrite fs dst of
             (Some e, fs1) \<Rightarrow> (Some e, fs1)
           | (None, fs1) \<Rightarrow>
               (case node_at fs1 q of
                  Some (FileNode c) \<Rightarrow>
                    (case write_nofollow fs1 dst c of Inl e \<Rightarrow> (Some e, fs1) | Inr fs2 \<Rightarrow> (None, fs2))
                | _ \<Rightarrow> (Some EISDIR, fs1))))"

section \<open>Merging\<close>

fun mergeDir :: "nat \<Rightarrow> fs \<Rightarrow> string \<Rightarrow> string \<Rightarrow> (fs_error option \<times> fs) option"
  and merge_entries :: "nat \<Rightarrow> fs \<Rightarrow> string \<Rightarrow> string \<Rightarrow> string list \<Rightarrow> (fs_error option \<times> fs) option"
where
  "mergeDir 0 fs src dst = None"
| "mergeDir (Suc n) fs src dst =
     (case os_ReadDir fs src of Inl e \<Rightarrow> Some (Some e, fs) | Inr es \<Rightarrow> merge_entries n fs src dst es)"
| "merge_entries n fs src dst [] = Some (None, fs)"
| "merge_entries n fs src dst (e # es) =
     (let srcPath = filepath_Join [src, e]; dstPath = filepath_Join [dst, e]
      in case os_Lstat fs srcPath of
           Inl err \<Rightarrow> Some (Some err, fs)
         | Inr (LinkNode t) \<Rightarrow>
             (let fs1 = (case os_Remove fs dstPath of Inl _ \<Rightarrow> fs | Inr fs1 \<Rightarrow> fs1)
              in case os_Symlink fs1 t dstPath of
                   Inl err \<Rightarrow> Some (Some err, fs1)
                 | Inr fs2 \<Rightarrow> merge_entries n fs2 src dst es)
         | Inr DirNode \<Rightarrow>
             (case os_MkdirAll fs dstPath of
                (Some err, fs1) \<Rightarrow> Some (Some err, fs1)
              | (None, fs1) \<Rightarrow>
                  (case mergeDir n fs1 srcPath dstPath of
                     None \<Rightarrow> None
                   | Some (Some err, fs2) \<Rightarrow> Some (Some err, fs2)
                   | Some (None, fs2) \<Rightarrow> merge_entries n fs2 src dst es))
         | Inr (FileNode _) \<Rightarrow>
             (case copyFile fs srcPath dstPath of
                (Some err, fs1) \<Rightarrow> Some (Some err, fs1)
              | (None, fs1) \<Rightarrow> merge_entries n fs1 src dst es))"

section \<open>Mirroring\<close>

datatype mirror_error = EmptyCachePath | HomeRequired | MirrorFailed fs_error

text \<open>Replacing what is at the workspace path by a link.\<close>

definition make_link :: "fs \<Rightarrow> string \<Rightarrow> string \<Rightarrow> mirror_error option \<times> fs" where
  "make_link fs cachePath wsPath =
     (case os_Symlink fs cachePath wsPath of Inl e \<Rightarrow> (Some (MirrorFailed e), fs) | Inr fs1 \<Rightarrow> (None, fs1))"

fun mkdirs :: "fs \<Rightarrow> string list \<Rightarrow> fs_error option \<times> fs" where
  "mkdirs fs [] = (None, fs)"
| "mkdirs fs (p # ps) = (case os_MkdirAll fs p of (Some e, fs1) \<Rightarrow> (Some e, fs1) | (None, fs1) \<Rightarrow> mkdirs fs1 ps)"

definition mirrorOne :: "nat \<Rightarrow> fs \<Rightarrow> string \<Rightarrow> string \<Rightarrow> string \<Rightarrow> string \<Rightarrow> (mirror_error option \<times> fs) option" where
  "mirrorOne n fs workspace cache home rel =
     (if rel = [] then Some (Some EmptyCachePath, fs)
      else case resolvePath workspace cache home rel of
          None \<Rightarrow> Some (Some HomeRequired, fs)
        | Some (wsPath, cachePath) \<Rightarrow>
            (case mkdirs fs [Dir cachePath, cachePath, Dir wsPath] of
               (Some e, fs1) \<Rightarrow> Some (Some (MirrorFailed e), fs1)
             | (None, fs1) \<Rightarrow>
                 (case os_Lstat fs1 wsPath of
                    Inl e \<Rightarrow> (if e = ENOENT then Some (make_link fs1 cachePath wsPath) else Some (Some (MirrorFailed e), fs1))
                  | Inr (LinkNode t) \<Rightarrow>
                      (if t = cachePath then Some (None, fs1)
                       else case os_Remove fs1 wsPath of
                           Inl e \<Rightarrow> Some (Some (MirrorFailed e), fs1)
                         | Inr fs2 \<Rightarrow> Some (make_link fs2 cachePath wsPath))
                  | Inr (FileNode _) \<Rightarrow> Some (None, fs1)
                  | Inr DirNode \<Rightarrow>
                      (case mergeDir n fs1 wsPath cachePath of
                         None \<Rightarrow> None
                       | Some (Some e, fs2) \<Rightarrow> Some (Some (MirrorFailed e), fs2)
                       | Some (None, fs2) \<Rightarrow>
                           (case os_RemoveAll fs2 wsPath of
                              (Some e, fs3) \<Rightarrow> Some (Some (MirrorFailed e), fs3)
                            | (None, fs3) \<Rightarrow> Some (make_link fs3 cachePath wsPath))))))"

fun mirrorCachePaths :: "nat \<Rightarrow> fs \<Rightarrow> string \<Rightarrow> string \<Rightarrow> string \<Rightarrow> string list \<Rightarrow> (mirror_error option \<times> fs) option" where
  "mirrorCachePaths n fs workspace cache home [] = Some (None, fs)"
| "mirrorCachePaths n fs workspace cache home (p # ps) =
     (case mirrorOne n fs workspace cache home p of
        None \<Rightarrow> None
      | Some (r, fs1) \<Rightarrow>
          (if r = Some HomeRequired then Some (r, fs1) else mirrorCachePaths n fs1 workspace cache home ps))"

text \<open>
  The only error that ends a run is the one the model of the step loop uses (\<^const>\<open>mirror_fatal\<close>).
\<close>

lemma make_link_not_fatal: "make_link fs c p \<noteq> (Some HomeRequired, fs')"
  by (simp add: make_link_def split: sum.splits)

lemma mirrorOne_fatal:
  "mirrorOne n fs workspace cache home rel = Some (Some HomeRequired, fs') \<longleftrightarrow>
    rel \<noteq> [] \<and> resolvePath workspace cache home rel = None \<and> fs' = fs"
proof (cases "resolvePath workspace cache home rel")
  case (Some x)
  obtain wsPath cachePath where x: "x = (wsPath, cachePath)" by fastforce
  obtain r fs1 where m: "mkdirs fs [Dir cachePath, cachePath, Dir wsPath] = (r, fs1)" by fastforce
  have "mirrorOne n fs workspace cache home rel \<noteq> Some (Some HomeRequired, fs')"
  proof (cases "os_Lstat fs1 wsPath")
    case (Inr nd)
    then show ?thesis
      using Some x m make_link_not_fatal
      by (cases nd) (auto simp: mirrorOne_def simp del: mkdirs.simps split: option.splits sum.splits prod.splits)
  qed (use Some x m make_link_not_fatal in \<open>auto simp: mirrorOne_def simp del: mkdirs.simps split: option.splits\<close>)
  then show ?thesis using Some by simp
qed (auto simp: mirrorOne_def)

lemma mirrorCachePaths_fatal:
  "mirrorCachePaths n fs workspace cache home ps = Some (r, fs') \<Longrightarrow>
    r = (if mirror_fatal workspace cache home ps then Some HomeRequired else None)"
proof (induction ps arbitrary: fs)
  case (Cons p ps)
  obtain r1 fs1 where m: "mirrorOne n fs workspace cache home p = Some (r1, fs1)"
    using Cons.prems by (auto split: option.splits)
  have "r1 = Some HomeRequired \<longleftrightarrow> p \<noteq> [] \<and> resolvePath workspace cache home p = None"
    using mirrorOne_fatal [of n fs workspace cache home p] m by auto
  then show ?case using Cons m by (auto simp: mirror_fatal_def split: if_splits)
qed (simp add: mirror_fatal_def)

end
