(* ===== verification/CacheMirror_Props.thy ===== *)
theory CacheMirror_Props
  imports CacheMirror
begin

text \<open>
  What mirroring guarantees: the workspace path becomes a link into the cache, everything that was in the
  workspace directory is found there afterwards, and what else was cached is kept. Nested cache
  paths break this.
\<close>

section \<open>Calls on a child of a real directory\<close>

lemma Lstat_child:
  "real_dir fs A \<Longrightarrow> normal_elem e \<Longrightarrow>
    os_Lstat fs (abs_dir (A @ [e])) = (case node_at fs (A @ [e]) of None \<Rightarrow> Inl ENOENT | Some nd \<Rightarrow> Inr nd)"
  by (simp add: os_Lstat_def locate_child)

lemma Remove_child:
  "real_dir fs A \<Longrightarrow> normal_elem e \<Longrightarrow> node_at fs (A @ [e]) \<noteq> Some DirNode \<Longrightarrow>
    os_Remove fs (abs_dir (A @ [e])) = (if node_at fs (A @ [e]) = None then Inl ENOENT else Inr (prune fs (A @ [e])))"
  by (auto simp: os_Remove_def locate_child split: option.splits node.splits)

lemma Symlink_child:
  "real_dir fs A \<Longrightarrow> normal_elem e \<Longrightarrow> node_at fs (A @ [e]) = None \<Longrightarrow> t \<noteq> [] \<Longrightarrow>
    os_Symlink fs t (abs_dir (A @ [e])) = Inr (set_node fs (A @ [e]) (LinkNode t))"
  by (simp add: os_Symlink_def locate_child)

lemma write_child:
  "real_dir fs A \<Longrightarrow> normal_elem e \<Longrightarrow>
    write_nofollow fs (abs_dir (A @ [e])) c =
      (case node_at fs (A @ [e]) of Some DirNode \<Rightarrow> Inl EISDIR | Some (LinkNode _) \<Rightarrow> Inl ELOOP
       | _ \<Rightarrow> Inr (set_node fs (A @ [e]) (FileNode c)))"
  by (simp add: write_nofollow_def locate_child)

lemma Open_child:
  assumes "real_dir fs A" "normal_elem e" "node_at fs (A @ [e]) = Some (FileNode c)"
  shows "os_Open fs (abs_dir (A @ [e])) = Inr (A @ [e])"
proof -
  have "list_all normal_elem (A @ [e])" using assms by (simp add: real_dir_def)
  then have "locate fs True (abs_dir (A @ [e])) = walk fs True maxLinks [] (A @ [e])"
    by (simp add: locate_def Split_abs_dir)
  also have "\<dots> = walk fs True maxLinks ([] @ A) [e]"
    using assms(1) by (intro walk_real_dir) (simp_all add: real_dir_def)
  also have "\<dots> = Inr (A @ [e])" using assms(2,3) by (auto simp: normal_elem_def)
  finally show ?thesis using assms(3) by (simp add: os_Open_def)
qed

lemma ReadDir_real_dir: "real_dir fs A \<Longrightarrow> os_ReadDir fs (abs_dir A) = Inr (entries fs A)"
  by (simp add: os_ReadDir_def locate_real_dir) (simp add: real_dir_def)

lemma fs_ok_prune: "fs_ok fs \<Longrightarrow> p \<noteq> [] \<Longrightarrow> fs_ok (prune fs p)"
  unfolding fs_ok_def by (auto simp: node_at_prune prefix_append split: if_splits)

lemma node_at_prune_leaf:
  assumes "fs_ok fs" "p \<noteq> []" "node_at fs p \<noteq> Some DirNode"
  shows "node_at (prune fs p) q = (if q = p then None else node_at fs q)"
proof (cases "prefix p q \<and> q \<noteq> p")
  case True
  then obtain r where "q = p @ r" "r \<noteq> []" by (auto simp: prefix_def)
  then show ?thesis using assms(2) fs_ok_below [OF assms(1,3), of r] by (simp add: node_at_prune)
qed (use assms(2) in \<open>auto simp: node_at_prune\<close>)

text \<open>A call that puts one node in place.\<close>

definition placed :: "fs \<Rightarrow> fpath \<Rightarrow> node \<Rightarrow> fs \<Rightarrow> bool" where
  "placed fs p nd fs' \<longleftrightarrow> fs_ok fs' \<and> (\<forall>q. node_at fs' q = (if q = p then Some nd else node_at fs q))"

lemma placed_set_node:
  "fs_ok fs \<Longrightarrow> node_at fs A = Some DirNode \<Longrightarrow> node_at fs (A @ [e]) \<noteq> Some DirNode \<Longrightarrow>
    placed fs (A @ [e]) nd (set_node fs (A @ [e]) nd)"
  by (simp add: placed_def node_at_set_node fs_ok_set_node)

lemma placed_trans: "placed fs p nd fs1 \<Longrightarrow> placed fs1 p nd' fs2 \<Longrightarrow> placed fs p nd' fs2"
  by (simp add: placed_def)

lemma real_dir_placed: "placed fs p nd fs' \<Longrightarrow> real_dir fs A \<Longrightarrow> \<not> prefix p A \<Longrightarrow> real_dir fs' A"
  by (auto simp: placed_def real_dir_def)

lemma real_dir_prune: "real_dir fs A \<Longrightarrow> p \<noteq> [] \<Longrightarrow> \<not> prefix p A \<Longrightarrow> real_dir (prune fs p) A"
  using prefix_order.trans by (fastforce simp: real_dir_def node_at_prune)

lemma not_prefix_snoc [simp]: "\<not> prefix (A @ [e]) A"
  by (auto simp: prefix_def)

text \<open>Removing a leaf and putting a node in its place.\<close>

lemma replace_leaf:
  assumes "fs_ok fs" "real_dir fs A" "node_at fs (A @ [e]) \<noteq> Some DirNode"
  shows "fs_ok (prune fs (A @ [e]))" "real_dir (prune fs (A @ [e])) A" "node_at (prune fs (A @ [e])) (A @ [e]) = None"
    "placed (prune fs (A @ [e])) (A @ [e]) nd fs' \<Longrightarrow> placed fs (A @ [e]) nd fs'"
  using assms fs_ok_prune [of fs "A @ [e]"] real_dir_prune [of fs A "A @ [e]"] node_at_prune_leaf [of fs "A @ [e]"]
  by (auto simp: placed_def)

lemma copyFile_child:
  assumes "fs_ok fs" "real_dir fs A" "normal_elem e" "real_dir fs B" "normal_elem f" "A @ [e] \<noteq> B @ [f]"
    and "node_at fs (A @ [e]) = Some (FileNode c)" "node_at fs (B @ [f]) \<noteq> Some DirNode"
  shows "\<exists>fs'. copyFile fs (abs_dir (A @ [e])) (abs_dir (B @ [f])) = (None, fs') \<and> placed fs (B @ [f]) (FileNode c) fs'"
proof -
  have dir: "node_at fs B = Some DirNode" using assms(4) by (simp add: real_dir_def)
  have "\<exists>fs1. openNoFollowForWrite fs (abs_dir (B @ [f])) = (None, fs1) \<and> placed fs (B @ [f]) (FileNode []) fs1"
  proof (cases "\<exists>t. node_at fs (B @ [f]) = Some (LinkNode t)")
    case True
    note r = replace_leaf [OF assms(1,4,8)]
    have "placed fs (B @ [f]) (FileNode []) (set_node (prune fs (B @ [f])) (B @ [f]) (FileNode []))"
      using r(1,2,3) by (intro r(4) placed_set_node) (simp_all add: real_dir_def)
    then show ?thesis using True r(3) write_child [OF assms(4,5)] write_child [OF r(2) assms(5)] Remove_child [OF assms(4,5,8)]
      by (auto simp: openNoFollowForWrite_def)
  next
    case False
    then show ?thesis using placed_set_node [OF assms(1) dir assms(8)] write_child [OF assms(4,5)] assms(8)
      by (auto simp: openNoFollowForWrite_def split: option.splits node.splits)
  qed
  then obtain fs1 where o1: "openNoFollowForWrite fs (abs_dir (B @ [f])) = (None, fs1)" "placed fs (B @ [f]) (FileNode []) fs1" by blast
  have rd: "real_dir fs1 B" using real_dir_placed [OF o1(2) assms(4)] by simp
  have n: "node_at fs1 (A @ [e]) = Some (FileNode c)" "node_at fs1 (B @ [f]) = Some (FileNode [])"
    using o1(2) assms(6,7) by (auto simp: placed_def)
  have "placed fs1 (B @ [f]) (FileNode c) (set_node fs1 (B @ [f]) (FileNode c))"
  proof (rule placed_set_node)
    show "fs_ok fs1" using o1(2) by (simp add: placed_def)
    show "node_at fs1 B = Some DirNode" using rd by (simp add: real_dir_def)
  qed (simp add: n)
  then show ?thesis using o1 n Open_child [OF assms(2,3,7)] write_child [OF rd assms(5)] placed_trans
    by (auto simp: copyFile_def)
qed

section \<open>Merging\<close>

text \<open>
  When a merge can succeed: workspace directory and cache directory lie apart, and no name is a
  directory on one side and something else on the other.
\<close>

definition mergeable :: "fs \<Rightarrow> fpath \<Rightarrow> fpath \<Rightarrow> bool" where
  "mergeable fs W C \<longleftrightarrow> \<not> prefix W C \<and> \<not> prefix C W \<and> names_ok fs \<and>
     (\<forall>r. r \<noteq> [] \<longrightarrow>
        (case node_at fs (W @ r) of
           None \<Rightarrow> True
         | Some DirNode \<Rightarrow> node_at fs (C @ r) \<in> {None, Some DirNode}
         | Some (FileNode _) \<Rightarrow> node_at fs (C @ r) \<noteq> Some DirNode
         | Some (LinkNode t) \<Rightarrow> t \<noteq> [] \<and> node_at fs (C @ r) \<noteq> Some DirNode))"

text \<open>The state while merging: the relative paths of \<open>P\<close> have been copied over.\<close>

definition merged :: "fs \<Rightarrow> fpath \<Rightarrow> fpath \<Rightarrow> fpath set \<Rightarrow> fs \<Rightarrow> bool" where
  "merged fs W C P cur \<longleftrightarrow> fs_ok cur \<and> P \<subseteq> {r. r \<noteq> [] \<and> node_at fs (W @ r) \<noteq> None} \<and>
     (\<forall>r. node_at cur (C @ r) = (if r \<in> P then node_at fs (W @ r) else node_at fs (C @ r))) \<and>
     (\<forall>q. \<not> prefix C q \<longrightarrow> node_at cur q = node_at fs q)"

lemma apart: "\<not> prefix W C \<Longrightarrow> \<not> prefix C W \<Longrightarrow> \<not> prefix C (W @ r)"
  by (auto simp: prefix_append)

lemma merged_W: "mergeable fs W C \<Longrightarrow> merged fs W C P cur \<Longrightarrow> node_at cur (W @ r) = node_at fs (W @ r)"
  using apart [of W C r] by (auto simp: mergeable_def merged_def)

lemma merged_placed:
  assumes "merged fs W C P cur" "placed cur (C @ r) nd cur'" "node_at fs (W @ r) = Some nd" "r \<noteq> []"
  shows "merged fs W C (insert r P) cur'"
  using assms by (auto simp: merged_def placed_def)

lemma placed_present: "fs_ok fs \<Longrightarrow> node_at fs p = Some nd \<Longrightarrow> placed fs p nd fs"
  by (simp add: placed_def)

lemma merged_dir:
  assumes "fs_ok fs" "names_ok fs" "merged fs W C P cur" "node_at cur (C @ rel) = Some DirNode" "list_all normal_elem C"
    "list_all normal_elem rel"
  shows "real_dir cur (C @ rel)"
  using assms by (intro real_dirI) (simp_all add: merged_def)

lemma merge_entry_placed:
  assumes m: "mergeable fs W C" "merged fs W C P cur" and nd: "node_at fs (W @ rel @ [e]) = Some nd"
    and W: "real_dir cur (W @ rel)" and C: "real_dir cur (C @ rel)" and e: "normal_elem e"
  shows "case nd of
      LinkNode t \<Rightarrow> \<exists>cur'. os_Symlink (case os_Remove cur (abs_dir ((C @ rel) @ [e])) of Inl _ \<Rightarrow> cur | Inr fs1 \<Rightarrow> fs1) t (abs_dir ((C @ rel) @ [e])) = Inr cur' \<and>
        placed cur (C @ rel @ [e]) nd cur'
    | FileNode c \<Rightarrow> \<exists>cur'. copyFile cur (abs_dir ((W @ rel) @ [e])) (abs_dir ((C @ rel) @ [e])) = (None, cur') \<and> placed cur (C @ rel @ [e]) nd cur'
    | DirNode \<Rightarrow> \<exists>cur'. os_MkdirAll cur (abs_dir ((C @ rel) @ [e])) = (None, cur') \<and> placed cur (C @ rel @ [e]) nd cur'"
proof -
  have ok: "fs_ok cur" using m(2) by (simp add: merged_def)
  have "rel @ [e] \<noteq> []" by simp
  then have mode: "case node_at fs (W @ rel @ [e]) of None \<Rightarrow> True
         | Some DirNode \<Rightarrow> node_at fs (C @ rel @ [e]) \<in> {None, Some DirNode}
         | Some (FileNode _) \<Rightarrow> node_at fs (C @ rel @ [e]) \<noteq> Some DirNode
         | Some (LinkNode t) \<Rightarrow> t \<noteq> [] \<and> node_at fs (C @ rel @ [e]) \<noteq> Some DirNode"
    using m(1) unfolding mergeable_def by blast
  have cur: "node_at cur ((C @ rel) @ [e]) = (if rel @ [e] \<in> P then Some nd else node_at fs (C @ rel @ [e]))"
    using m(2) nd by (simp add: merged_def)
  have src: "node_at cur ((W @ rel) @ [e]) = Some nd" using merged_W [OF m, of "rel @ [e]"] nd by simp
  have dir: "node_at cur (C @ rel) = Some DirNode" using C by (simp add: real_dir_def)
  show ?thesis
  proof (cases nd)
    case DirNode
    then have "node_at cur ((C @ rel) @ [e]) \<in> {None, Some DirNode}" using mode cur nd by (auto split: if_splits)
    then consider "node_at cur ((C @ rel) @ [e]) = None" | "node_at cur ((C @ rel) @ [e]) = Some DirNode" by auto
    then show ?thesis
    proof cases
      case 1
      then show ?thesis using MkdirAll_child [OF C e] placed_set_node [OF ok dir, of e DirNode] DirNode by simp
    next
      case 2
      have "real_dir cur ((C @ rel) @ [e])" using 2 C e by (intro real_dirI [OF ok]) (simp_all add: real_dir_def)
      then show ?thesis using MkdirAll_real_dir placed_present [OF ok 2] DirNode by (simp add: exI [of _ cur])
    qed
  next
    case (FileNode c)
    then have "node_at cur ((C @ rel) @ [e]) \<noteq> Some DirNode" using mode cur nd by (auto split: if_splits)
    moreover have "(W @ rel) @ [e] \<noteq> (C @ rel) @ [e]" using m(1) by (auto simp: mergeable_def)
    ultimately show ?thesis using copyFile_child [OF ok W e C e] src FileNode by simp
  next
    case (LinkNode t)
    then have n: "node_at cur ((C @ rel) @ [e]) \<noteq> Some DirNode" and t: "t \<noteq> []" using mode cur nd by (auto split: if_splits)
    note r = replace_leaf [OF ok C n]
    show ?thesis
    proof (cases "node_at cur ((C @ rel) @ [e]) = None")
      case True
      then show ?thesis using Remove_child [OF C e n] Symlink_child [OF C e True t] placed_set_node [OF ok dir n] LinkNode by simp
    next
      case False
      have "placed cur ((C @ rel) @ [e]) nd (set_node (prune cur ((C @ rel) @ [e])) ((C @ rel) @ [e]) nd)"
        using r(1-3) by (intro r(4) placed_set_node) (simp_all add: real_dir_def)
      then show ?thesis using False Remove_child [OF C e n] Symlink_child [OF r(2) e r(3) t] LinkNode by auto
    qed
  qed
qed

text \<open>What is below a directory of the workspace, as relative paths.\<close>

definition below :: "fs \<Rightarrow> fpath \<Rightarrow> fpath \<Rightarrow> fpath set" where
  "below fs W rel = {rel @ s | s. s \<noteq> [] \<and> node_at fs (W @ rel @ s) \<noteq> None}"

lemma below_unfold:
  assumes "fs_ok fs" "node_at fs (W @ rel) = Some DirNode"
  shows "below fs W rel = (\<Union>e \<in> {e. node_at fs (W @ rel @ [e]) \<noteq> None}. insert (rel @ [e]) (below fs W (rel @ [e])))"
proof (intro equalityI subsetI)
  fix r assume "r \<in> below fs W rel"
  then obtain e s where r: "r = rel @ e # s" "node_at fs (W @ rel @ e # s) \<noteq> None" by (auto simp: below_def neq_Nil_conv)
  then have "node_at fs (W @ rel @ [e]) \<noteq> None" using fs_ok_above [OF assms(1), of "W @ rel @ [e]" s] by (cases "s = []") auto
  with r show "r \<in> (\<Union>e \<in> {e. node_at fs (W @ rel @ [e]) \<noteq> None}. insert (rel @ [e]) (below fs W (rel @ [e])))"
    by (cases "s = []") (auto simp: below_def)
qed (auto simp: below_def)

lemma below_leaf: "fs_ok fs \<Longrightarrow> node_at fs (W @ rel) \<noteq> Some DirNode \<Longrightarrow> below fs W rel = {}"
  using fs_ok_above [of fs "W @ rel"] by (fastforce simp: below_def)

lemma merged_stays_dir:
  "merged fs W C P cur \<Longrightarrow> merged fs W C Q cur' \<Longrightarrow> P \<subseteq> Q \<Longrightarrow> node_at cur (C @ rel) = Some DirNode \<Longrightarrow>
    node_at fs (W @ rel) = Some DirNode \<Longrightarrow> node_at cur' (C @ rel) = Some DirNode"
  by (auto simp: merged_def split: if_splits)

lemma merge_first:
  assumes fs: "fs_ok fs" "mergeable fs W C" "list_all normal_elem (W @ rel)" "list_all normal_elem (C @ rel)"
    and m: "node_at fs (W @ rel) = Some DirNode" "merged fs W C P cur" "node_at cur (C @ rel) = Some DirNode"
    and nd: "node_at fs (W @ rel @ [e]) = Some nd"
    and sub: "\<And>Q cur1. nd = DirNode \<Longrightarrow> merged fs W C Q cur1 \<Longrightarrow> node_at cur1 (C @ rel @ [e]) = Some DirNode \<Longrightarrow>
      \<exists>cur2. mergeDir n cur1 (abs_dir (W @ rel @ [e])) (abs_dir (C @ rel @ [e])) = Some (None, cur2) \<and>
        merged fs W C (Q \<union> below fs W (rel @ [e])) cur2"
  shows "\<exists>cur1. merge_entries n cur (abs_dir (W @ rel)) (abs_dir (C @ rel)) (e # es)
        = merge_entries n cur1 (abs_dir (W @ rel)) (abs_dir (C @ rel)) es \<and>
      merged fs W C (P \<union> insert (rel @ [e]) (below fs W (rel @ [e]))) cur1"
proof -
  have ok: "fs_ok cur" using m(2) by (simp add: merged_def)
  have e: "normal_elem e" using names_okD [OF _ nd] fs(2) by (simp add: mergeable_def)
  have W: "real_dir cur (W @ rel)" using merged_W [OF fs(2) m(2), of rel] m(1) fs(3) by (intro real_dirI [OF ok]) simp_all
  have C: "real_dir cur (C @ rel)" using m(3) fs(4) by (intro real_dirI [OF ok]) simp_all
  note J = Join_child [OF fs(3) e] Join_child [OF fs(4) e]
  have L: "os_Lstat cur (abs_dir ((W @ rel) @ [e])) = Inr nd"
    using Lstat_child [OF W e] merged_W [OF fs(2) m(2), of "rel @ [e]"] nd by simp
  note one = merge_entry_placed [OF fs(2) m(2) nd W C e]
  have put: "merged fs W C (insert (rel @ [e]) P) cur1" if "placed cur (C @ rel @ [e]) nd cur1" for cur1
    using merged_placed [OF m(2), of "rel @ [e]"] that nd by simp
  have leaf: "nd \<noteq> DirNode \<Longrightarrow> below fs W (rel @ [e]) = {}" using nd by (intro below_leaf [OF fs(1)]) simp
  show ?thesis
  proof (cases nd)
    case DirNode
    then obtain cur1 where c1: "os_MkdirAll cur (abs_dir ((C @ rel) @ [e])) = (None, cur1)" "placed cur (C @ rel @ [e]) nd cur1"
      using one by auto
    obtain cur2 where "mergeDir n cur1 (abs_dir (W @ rel @ [e])) (abs_dir (C @ rel @ [e])) = Some (None, cur2)"
      "merged fs W C (insert (rel @ [e]) P \<union> below fs W (rel @ [e])) cur2"
      using sub [OF DirNode put [OF c1(2)]] c1(2) DirNode by (auto simp: placed_def)
    then show ?thesis using c1(1) L J DirNode by (intro exI [of _ cur2]) (simp add: Let_def)
  next
    case (FileNode c)
    then obtain cur1 where "copyFile cur (abs_dir ((W @ rel) @ [e])) (abs_dir ((C @ rel) @ [e])) = (None, cur1)"
      "placed cur (C @ rel @ [e]) nd cur1" using one by auto
    then show ?thesis using put leaf L J FileNode by (intro exI [of _ cur1]) (simp add: Let_def)
  next
    case (LinkNode t)
    then obtain cur1 where "os_Symlink (case os_Remove cur (abs_dir ((C @ rel) @ [e])) of Inl _ \<Rightarrow> cur | Inr fs1 \<Rightarrow> fs1) t (abs_dir ((C @ rel) @ [e])) = Inr cur1"
      "placed cur (C @ rel @ [e]) nd cur1" using one by auto
    then show ?thesis using put leaf L J LinkNode by (intro exI [of _ cur1]) (simp add: Let_def)
  qed
qed

lemma merge_succeeds:
  assumes fs: "fs_ok fs" "mergeable fs W C" "list_all normal_elem W" "list_all normal_elem C"
  shows "node_at fs (W @ rel) = Some DirNode \<Longrightarrow> list_all normal_elem rel \<Longrightarrow>
    \<forall>s. node_at fs (W @ rel @ s) \<noteq> None \<longrightarrow> length s < n \<Longrightarrow>
    merged fs W C P cur \<Longrightarrow> node_at cur (C @ rel) = Some DirNode \<Longrightarrow>
    \<exists>cur'. mergeDir n cur (abs_dir (W @ rel)) (abs_dir (C @ rel)) = Some (None, cur') \<and>
      merged fs W C (P \<union> below fs W rel) cur'"
proof (induction n arbitrary: rel P cur)
  case 0
  from "0.prems"(3) have "node_at fs (W @ rel @ []) \<noteq> None \<longrightarrow> length ([] :: fpath) < 0" by (rule spec)
  with "0.prems"(1) show ?case by simp
next
  case (Suc n)
  have ln: "list_all normal_elem (W @ rel)" "list_all normal_elem (C @ rel)" using Suc.prems(2) fs(3,4) by simp_all
  have entries: "\<exists>cur'. merge_entries n cur (abs_dir (W @ rel)) (abs_dir (C @ rel)) es = Some (None, cur') \<and>
      merged fs W C (P \<union> (\<Union>e \<in> set es. insert (rel @ [e]) (below fs W (rel @ [e])))) cur'"
    if "\<forall>e \<in> set es. node_at fs (W @ rel @ [e]) \<noteq> None" "merged fs W C P cur" "node_at cur (C @ rel) = Some DirNode"
    for es P cur
    using that
  proof (induction es arbitrary: P cur)
    case (Cons e es)
    obtain nd where nd: "node_at fs (W @ rel @ [e]) = Some nd" using Cons.prems(1) by auto
    have e: "normal_elem e" using names_okD [OF _ nd] fs(2) by (simp add: mergeable_def)
    have deep: "\<forall>s. node_at fs (W @ (rel @ [e]) @ s) \<noteq> None \<longrightarrow> length s < n" using Suc.prems(3) by fastforce
    have "\<exists>cur2. mergeDir n cur1 (abs_dir (W @ rel @ [e])) (abs_dir (C @ rel @ [e])) = Some (None, cur2) \<and>
        merged fs W C (Q \<union> below fs W (rel @ [e])) cur2"
      if "nd = DirNode" "merged fs W C Q cur1" "node_at cur1 (C @ rel @ [e]) = Some DirNode" for Q cur1
      using Suc.IH [OF _ _ deep that(2)] that nd e Suc.prems(2) by simp
    then obtain cur1 where c: "merge_entries n cur (abs_dir (W @ rel)) (abs_dir (C @ rel)) (e # es)
          = merge_entries n cur1 (abs_dir (W @ rel)) (abs_dir (C @ rel)) es"
      "merged fs W C (P \<union> insert (rel @ [e]) (below fs W (rel @ [e]))) cur1"
      using merge_first [OF fs(1,2) ln Suc.prems(1) Cons.prems(2,3) nd] by blast
    have "node_at cur1 (C @ rel) = Some DirNode"
      using merged_stays_dir [OF Cons.prems(2) c(2) _ Cons.prems(3) Suc.prems(1)] by auto
    with Cons.IH [OF _ c(2)] Cons.prems(1) c(1) show ?case by (simp add: Un_assoc)
  qed simp
  have rd: "real_dir cur (W @ rel)"
    using merged_W [OF fs(2) Suc.prems(4), of rel] Suc.prems(1,4) ln(1) by (intro real_dirI) (simp_all add: merged_def)
  have "set (entries cur (W @ rel)) = {e. node_at fs (W @ rel @ [e]) \<noteq> None}"
    using merged_W [OF fs(2) Suc.prems(4), of "rel @ [_]"] by (simp add: entries_set)
  then show ?case
    using entries [of "entries cur (W @ rel)" P cur] Suc.prems(4,5) below_unfold [OF fs(1) Suc.prems(1)] ReadDir_real_dir [OF rd] by simp
qed

section \<open>Making directories\<close>

definition dir_path :: "string \<Rightarrow> fpath \<Rightarrow> bool" where
  "dir_path p C \<longleftrightarrow> list_all normal_elem C \<and> (p = abs_dir C \<or> p = abs_dir C @ ''/'')"

lemma abs_dir_snoc: "abs_dir (A @ [e]) = (if A = [] then [] else abs_dir A) @ CHR ''/'' # e"
  using Join_snoc [of A "''/''" e] by (simp add: abs_dir_def)

lemma parent_dir_path:
  assumes "dir_path p (A @ [e])"
  shows "dir_path (parent_part p) A"
proof -
  have e: "normal_elem e" "list_all normal_elem A" using assms by (simp_all add: dir_path_def)
  have pp: "parent_part (x @ CHR ''/'' # e) = x @ ''/'' \<and> parent_part ((x @ CHR ''/'' # e) @ ''/'') = x @ ''/''" for x
  proof -
    have ne: "e \<noteq> []" and sl: "CHR ''/'' \<notin> set e" using e(1) by (auto simp: normal_elem_def)
    have "dropWhile (\<lambda>c. c = CHR ''/'') (rev e @ ys) = rev e @ ys" for ys
      using ne sl by (cases e rule: rev_cases) auto
    moreover have "dropWhile (\<lambda>c. c \<noteq> CHR ''/'') (rev e @ ys) = dropWhile (\<lambda>c. c \<noteq> CHR ''/'') ys" for ys
      by (rule dropWhile_append2) (use sl in auto)
    ultimately show ?thesis by (simp add: parent_part_def)
  qed
  have "parent_part p = (if A = [] then [] else abs_dir A) @ ''/''"
    using assms pp [of "if A = [] then [] else abs_dir A"] by (auto simp: dir_path_def abs_dir_snoc)
  then show ?thesis using e(2) by (auto simp: dir_path_def abs_dir_def)
qed

lemma walk_missing:
  "\<forall>q. prefix q (cur @ us) \<longrightarrow> node_at fs q \<in> {None, Some DirNode} \<Longrightarrow> node_at fs (cur @ us) = None \<Longrightarrow>
    list_all normal_elem us \<Longrightarrow> us \<noteq> [] \<Longrightarrow> walk fs follow n cur (us @ ts) \<in> {Inl ENOENT, Inr (cur @ us)}"
proof (induction us arbitrary: cur)
  case (Cons u us)
  have "node_at fs (cur @ [u]) \<in> {None, Some DirNode}" using Cons.prems(1) by (auto simp: prefix_def)
  moreover have "u \<noteq> []" "u \<noteq> ''.''" "u \<noteq> ''..''" using Cons.prems(3) by (auto simp: normal_elem_def)
  moreover have "walk fs follow n (cur @ [u]) (us @ ts) \<in> {Inl ENOENT, Inr ((cur @ [u]) @ us)}" if "us \<noteq> []"
    using Cons that by (intro Cons.IH) auto
  ultimately show ?case using Cons.prems(2) by (cases "us = []") auto
qed simp

lemma Stat_missing_dir:
  assumes "dir_path p C" "\<forall>q. prefix q C \<longrightarrow> node_at fs q \<in> {None, Some DirNode}" "node_at fs C = None"
  shows "\<exists>e. os_Stat fs p = Inl e"
proof -
  have C: "list_all normal_elem C" "C \<noteq> []" using assms by (auto simp: dir_path_def)
  have "Split CHR ''/'' p = [] # C @ [] \<or> Split CHR ''/'' p = [] # C @ [[]]"
    using assms(1) C Split_abs_dir [OF C(1)] Split_slash [of "CHR ''/''" "abs_dir C" "[]"] by (auto simp: dir_path_def)
  then have "locate fs True p \<in> {Inl ENOENT, Inr C}"
    using walk_missing [of "[]" C fs True maxLinks "[]"] walk_missing [of "[]" C fs True maxLinks "[[]]"] assms(2,3) C
    by (auto simp: locate_def)
  then show ?thesis using assms(3) by (auto simp: os_Stat_def)
qed

lemma MkdirAll_creates:
  "fs_ok fs \<Longrightarrow> dir_path p C \<Longrightarrow> \<forall>q. prefix q C \<longrightarrow> node_at fs q \<in> {None, Some DirNode} \<Longrightarrow>
    \<exists>fs'. os_MkdirAll fs p = (None, fs') \<and> fs_ok fs' \<and> (\<forall>q. node_at fs' q = (if prefix q C then Some DirNode else node_at fs q))"
proof (induction C arbitrary: p rule: rev_induct)
  case Nil
  then have "real_dir fs []" by (simp add: real_dir_def)
  moreover have "names p = []" using Nil(2) by (auto simp: dir_path_def abs_dir_def names_def)
  ultimately show ?case using MkdirAll_names [of fs "[]" p] Nil by auto
next
  case (snoc e A)
  note pp = parent_dir_path [OF snoc.prems(2)]
  have n: "normal_elem e" "list_all normal_elem A" using snoc.prems(2) by (simp_all add: dir_path_def)
  show ?case
  proof (cases "node_at fs (A @ [e]) = None")
    case False
    then have d: "node_at fs (A @ [e]) = Some DirNode" using snoc.prems(3) by (metis insertE prefix_order.refl singletonD)
    then have r: "real_dir fs (A @ [e])" using n by (intro real_dirI [OF snoc.prems(1)]) simp_all
    moreover have "names p = A @ [e]"
      using snoc.prems(2) names_abs_dir [of "A @ [e]"] names_slash [of "abs_dir (A @ [e])" "[]"] by (auto simp: dir_path_def)
    ultimately have "os_MkdirAll fs p = (None, fs)" by (rule MkdirAll_names)
    then show ?thesis using r snoc.prems(1) by (auto simp: real_dir_def)
  next
    case True
    obtain err where st: "os_Stat fs p = Inl err" using Stat_missing_dir [OF snoc.prems(2,3) True] by blast
    have "\<forall>q. prefix q A \<longrightarrow> node_at fs q \<in> {None, Some DirNode}" using snoc.prems(3) by (simp add: prefix_snoc)
    from snoc.IH [OF snoc.prems(1) pp this] obtain fs1 where fs1: "os_MkdirAll fs (parent_part p) = (None, fs1)" "fs_ok fs1"
      "\<forall>q. node_at fs1 q = (if prefix q A then Some DirNode else node_at fs q)" by blast
    have "parent_part p \<noteq> []" using pp by (auto simp: dir_path_def abs_dir_def)
    moreover have "TrimRight p ''/'' = abs_dir (A @ [e])"
      using snoc.prems(2) last_abs_dir [OF n(1), of A] TrimRight_id [of "abs_dir (A @ [e])"]
      by (auto simp: dir_path_def TrimRight_def abs_dir_def)
    moreover have rd: "real_dir fs1 A" using fs1(3) n(2) by (simp add: real_dir_def)
    moreover have no: "node_at fs1 (A @ [e]) = None" using fs1(3) True by simp
    ultimately have "os_MkdirAll fs p = (None, set_node fs1 (A @ [e]) DirNode)"
      using st fs1(1) locate_child [OF rd n(1)] by (subst os_MkdirAll.simps) (simp add: os_Mkdir_def)
    moreover have "fs_ok (set_node fs1 (A @ [e]) DirNode)" using fs1(2) rd no by (intro fs_ok_set_node) (simp_all add: real_dir_def)
    ultimately show ?thesis using fs1(3) by (auto simp: node_at_set_node prefix_snoc)
  qed
qed

lemma mkdirs_create:
  assumes "fs_ok fs" "list_all normal_elem C" "list_all normal_elem A" "C \<noteq> []"
    and "\<forall>q. prefix q C \<or> prefix q A \<longrightarrow> node_at fs q \<in> {None, Some DirNode}"
  shows "\<exists>fs1. mkdirs fs [Dir (abs_dir C), abs_dir C, abs_dir A] = (None, fs1) \<and> fs_ok fs1 \<and>
    (\<forall>q. node_at fs1 q = (if prefix q C \<or> prefix q A then Some DirNode else node_at fs q))"
proof -
  have b: "list_all normal_elem (butlast C)" using assms(2) by (auto simp: list_all_iff dest: in_set_butlastD)
  have pb: "prefix q (butlast C) \<Longrightarrow> prefix q C" for q using prefixeq_butlast prefix_order.trans by blast
  have "\<forall>q. prefix q (butlast C) \<longrightarrow> node_at fs q \<in> {None, Some DirNode}" using assms(5) pb by blast
  then obtain f1 where f1: "os_MkdirAll fs (Dir (abs_dir C)) = (None, f1)" "fs_ok f1"
    "\<And>q. node_at f1 q = (if prefix q (butlast C) then Some DirNode else node_at fs q)"
    using MkdirAll_creates [OF assms(1), of "abs_dir (butlast C)" "butlast C"] b by (auto simp: dir_path_def Dir_abs_dir [OF assms(2)])
  have "\<forall>q. prefix q C \<longrightarrow> node_at f1 q \<in> {None, Some DirNode}" using assms(5) f1(3) by simp
  then obtain f2 where f2: "os_MkdirAll f1 (abs_dir C) = (None, f2)" "fs_ok f2"
    "\<And>q. node_at f2 q = (if prefix q C then Some DirNode else node_at f1 q)"
    using MkdirAll_creates [OF f1(2), of "abs_dir C" C] assms(2) by (auto simp: dir_path_def)
  have "\<forall>q. prefix q A \<longrightarrow> node_at f2 q \<in> {None, Some DirNode}" using assms(5) f1(3) f2(3) by simp
  then obtain f3 where "os_MkdirAll f2 (abs_dir A) = (None, f3)" "fs_ok f3"
    "\<And>q. node_at f3 q = (if prefix q A then Some DirNode else node_at f2 q)"
    using MkdirAll_creates [OF f2(2), of "abs_dir A" A] assms(3) by (auto simp: dir_path_def)
  then show ?thesis using f1 f2 pb by (intro exI [of _ f3]) auto
qed

section \<open>Mirroring one path\<close>

lemma make_link_child:
  "real_dir fs A \<Longrightarrow> normal_elem w \<Longrightarrow> node_at fs (A @ [w]) = None \<Longrightarrow>
    make_link fs (abs_dir C) (abs_dir (A @ [w])) = (None, set_node fs (A @ [w]) (LinkNode (abs_dir C)))"
  using Symlink_child [of fs A w "abs_dir C"] by (simp add: make_link_def) (simp add: abs_dir_def)

text \<open>What is left to do once the directories exist.\<close>

lemma mirror_rest:
  assumes fs: "fs_ok fs" "mergeable fs W C" "W = A @ [w]" "real_dir fs A" "normal_elem w" "real_dir fs C"
    and fuel: "\<forall>s. node_at fs (W @ s) \<noteq> None \<longrightarrow> length s < n"
    and rel: "rel \<noteq> []" "resolvePath workspace cache home rel = Some (abs_dir W, abs_dir C)"
    and dirs: "mkdirs fs0 [Dir (abs_dir C), abs_dir C, Dir (abs_dir W)] = (None, fs)"
  shows "\<exists>fs'. mirrorOne n fs0 workspace cache home rel = Some (None, fs') \<and>
    node_at fs' W = (case node_at fs W of Some (FileNode c) \<Rightarrow> Some (FileNode c) | _ \<Rightarrow> Some (LinkNode (abs_dir C))) \<and>
    (\<forall>r. r \<noteq> [] \<longrightarrow> node_at fs' (C @ r) = (if node_at fs (W @ r) \<noteq> None then node_at fs (W @ r) else node_at fs (C @ r))) \<and>
    (\<forall>q. \<not> prefix W q \<longrightarrow> \<not> prefix C q \<longrightarrow> node_at fs' q = node_at fs q)"
proof -
  have ap: "\<not> prefix W C" "\<not> prefix C W" using fs(2) by (simp_all add: mergeable_def)
  have CW: "C @ r \<noteq> W" "\<not> prefix W (C @ r)" for r using apart [OF ap(2,1), of r] ap by auto
  have L: "os_Lstat fs (abs_dir W) = (case node_at fs W of None \<Rightarrow> Inl ENOENT | Some nd \<Rightarrow> Inr nd)"
    using Lstat_child [OF fs(4,5)] fs(3) by simp
  have leaf: "node_at fs (W @ r) = None" if "node_at fs W \<noteq> Some DirNode" "r \<noteq> []" for r
    using fs_ok_below [OF fs(1) that] .
  note mo = mirrorOne_def rel dirs L and ne = fs(3) [symmetric]
  have W: "W \<noteq> []" using fs(3) by simp
  show ?thesis
  proof (cases "node_at fs W")
    case None
    then show ?thesis using make_link_child [OF fs(4,5), of C, unfolded ne] leaf CW W
      by (intro exI [of _ "set_node fs W (LinkNode (abs_dir C))"]) (simp add: mo node_at_set_node del: mkdirs.simps)
  next
    case (Some nd)
    show ?thesis
    proof (cases nd)
      case (FileNode c)
      then show ?thesis using Some leaf by (intro exI [of _ fs]) (simp add: mo del: mkdirs.simps)
    next
      case (LinkNode t)
      show ?thesis
      proof (cases "t = abs_dir C")
        case True
        then show ?thesis using Some LinkNode leaf by (intro exI [of _ fs]) (simp add: mo del: mkdirs.simps)
      next
        case False
        have nd: "node_at fs W \<noteq> Some DirNode" using Some LinkNode by simp
        note r = replace_leaf [OF fs(1,4), where e = w, unfolded ne, OF nd]
        show ?thesis using False Some LinkNode leaf CW W Remove_child [OF fs(4,5), unfolded ne, OF nd]
            make_link_child [OF r(2) fs(5), unfolded ne, OF r(3), of C] node_at_prune_leaf [OF fs(1) W nd]
          by (intro exI [of _ "set_node (prune fs W) W (LinkNode (abs_dir C))"]) (simp add: mo node_at_set_node del: mkdirs.simps)
      qed
    next
      case DirNode
      have n: "list_all normal_elem W" "list_all normal_elem C" using fs(3-6) by (simp_all add: real_dir_def)
      have "merged fs W C {} fs" using fs(1) by (simp add: merged_def)
      then obtain fs2 where fs2: "mergeDir n fs (abs_dir W) (abs_dir C) = Some (None, fs2)" "merged fs W C (below fs W []) fs2"
        using merge_succeeds [OF fs(1,2) n, of "[]" n "{}" fs] Some DirNode fs(6) fuel by (auto simp: real_dir_def)
      have rd: "real_dir fs2 A" using fs(3,4) fs2(2) ap
        by (auto simp: real_dir_def merged_def)
      have rp: "real_dir (prune fs2 W) A" using real_dir_prune [OF rd, of W] fs(3) by simp
      have "mirrorOne n fs0 workspace cache home rel = Some (None, set_node (prune fs2 W) W (LinkNode (abs_dir C)))"
        using Some DirNode fs2(1) W RemoveAll_child [OF rd fs(5), unfolded ne] make_link_child [OF rp fs(5), unfolded ne, of C]
        by (simp add: mo node_at_prune del: mkdirs.simps)
      then show ?thesis using fs2(2) Some DirNode CW W
        by (auto simp: node_at_set_node node_at_prune merged_def below_def)
    qed
  qed
qed

text \<open>
  C15: Mirroring one declared cache path keeps its data when the workspace directory and its place in the cache volume lie
  apart (neither inside the other), no link or file stands on the way to either, and no name is a
  directory on one side and something else on the other. Then the path becomes a
  link to its place in the cache (a plain file there is left alone); all that was in the
  workspace directory is found in the cache afterwards, winning over what was cached under the same name, and every other cached
  entry is kept. Nothing else changes but directories on the way that were missing. The depth
  is enough when it exceeds that of the workspace directory. Of two nested cache paths the second has
  a link on its way, and its data is lost (shown below).
\<close>

theorem mirror_keeps:
  assumes rel: "rel \<noteq> []" "resolvePath workspace cache home rel = Some (abs_dir W, abs_dir C)"
    and fs: "fs_ok fs" "mergeable fs W C" "list_all normal_elem W" "list_all normal_elem C"
    and ways: "\<forall>q. prefix q C \<or> prefix q (butlast W) \<longrightarrow> node_at fs q \<in> {None, Some DirNode}"
    and fuel: "\<forall>s. node_at fs (W @ s) \<noteq> None \<longrightarrow> length s < n"
  shows "\<exists>fs'. mirrorOne n fs workspace cache home rel = Some (None, fs') \<and>
    node_at fs' W = (case node_at fs W of Some (FileNode c) \<Rightarrow> Some (FileNode c) | _ \<Rightarrow> Some (LinkNode (abs_dir C))) \<and>
    (\<forall>r. r \<noteq> [] \<longrightarrow> node_at fs' (C @ r) = (if node_at fs (W @ r) \<noteq> None then node_at fs (W @ r) else node_at fs (C @ r))) \<and>
    (\<forall>q. \<not> prefix W q \<longrightarrow> \<not> prefix C q \<longrightarrow> \<not> prefix q C \<longrightarrow> \<not> prefix q (butlast W) \<longrightarrow> node_at fs' q = node_at fs q)"
proof -
  have ap: "\<not> prefix W C" "\<not> prefix C W" using fs(2) by (simp_all add: mergeable_def)
  then obtain A w where W: "W = A @ [w]" by (cases W rule: rev_cases) auto
  have n: "list_all normal_elem A" "normal_elem w" "C \<noteq> []" using fs(3) W ap by auto
  obtain fs1 where fs1: "mkdirs fs [Dir (abs_dir C), abs_dir C, abs_dir A] = (None, fs1)" "fs_ok fs1"
    "\<And>q. node_at fs1 q = (if prefix q C \<or> prefix q A then Some DirNode else node_at fs q)"
    using mkdirs_create [OF fs(1,4) n(1,3)] ways W by auto
  have D: "Dir (abs_dir W) = abs_dir A" using Dir_abs_dir [OF fs(3)] W by simp
  have sameW: "node_at fs1 (W @ r) = node_at fs (W @ r)" for r
    using ap(1) W by (auto simp: fs1(3) prefix_def)
  have sameC: "node_at fs1 (C @ r) = node_at fs (C @ r)" if "r \<noteq> []" for r
    using ap(2) W that by (auto simp: fs1(3) prefix_def)
  have "names_ok fs1" using fs(2,4) n(1) by (auto simp: names_ok_def fs1(3) mergeable_def prefix_def)
  then have "mergeable fs1 W C" using fs(2) by (simp add: mergeable_def sameW sameC cong: node.case_cong option.case_cong)
  moreover have "real_dir fs1 A" "real_dir fs1 C" using n(1) fs(4) by (simp_all add: real_dir_def fs1(3))
  ultimately obtain fs' where fs': "mirrorOne n fs workspace cache home rel = Some (None, fs')"
    "node_at fs' W = (case node_at fs1 W of Some (FileNode c) \<Rightarrow> Some (FileNode c) | _ \<Rightarrow> Some (LinkNode (abs_dir C)))"
    "\<forall>r. r \<noteq> [] \<longrightarrow> node_at fs' (C @ r) = (if node_at fs1 (W @ r) \<noteq> None then node_at fs1 (W @ r) else node_at fs1 (C @ r))"
    "\<forall>q. \<not> prefix W q \<longrightarrow> \<not> prefix C q \<longrightarrow> node_at fs' q = node_at fs1 q"
    using mirror_rest [OF fs1(2) _ W _ n(2) _ _ rel, where n = n and ?fs0.0 = fs] fs1(1) D fuel sameW by auto
  then show ?thesis using sameW [of "[]"] sameW sameC W by (intro exI [of _ fs']) (simp add: fs1(3))
qed

definition example_workspace :: fs where
  "example_workspace = [([''workspace''], DirNode), ([''cache''], DirNode), ([''workspace'', ''target''], DirNode),
     ([''workspace'', ''target'', ''debug''], DirNode), ([''workspace'', ''target'', ''debug'', ''x''], FileNode ''data'')]"

theorem mirror_keeps_witness:
  "\<exists>fs'. mirrorOne 5 example_workspace ''/workspace'' ''/cache'' ''/root'' ''target'' = Some (None, fs') \<and>
    node_at fs' [''workspace'', ''target''] = Some (LinkNode ''/cache/target'') \<and>
    node_at fs' [''cache'', ''target'', ''debug'', ''x''] = Some (FileNode ''data'')"
proof -
  have r: "resolvePath ''/workspace'' ''/cache'' ''/root'' ''target'' = Some (abs_dir [''workspace'', ''target''], abs_dir [''cache'', ''target''])"
    by code_simp
  have ok: "fs_ok example_workspace"
    by (auto simp: fs_ok_def example_workspace_def node_at_def split: if_splits)
  have m: "mergeable example_workspace [''workspace'', ''target''] [''cache'', ''target'']"
    by (auto simp: mergeable_def names_ok_def example_workspace_def node_at_def normal_elem_def split: if_splits option.splits node.splits)
  have w: "\<forall>q. prefix q [''cache'', ''target''] \<or> prefix q (butlast [''workspace'', ''target'']) \<longrightarrow> node_at example_workspace q \<in> {None, Some DirNode}"
    by (auto simp: example_workspace_def node_at_def prefix_Cons)
  have f: "\<forall>s. node_at example_workspace ([''workspace'', ''target''] @ s) \<noteq> None \<longrightarrow> length s < 5"
    by (auto simp: example_workspace_def node_at_def split: if_splits)
  obtain fs' where fs': "mirrorOne 5 example_workspace ''/workspace'' ''/cache'' ''/root'' ''target'' = Some (None, fs')"
    "node_at fs' [''workspace'', ''target''] = (case node_at example_workspace [''workspace'', ''target''] of
        Some (FileNode c) \<Rightarrow> Some (FileNode c) | _ \<Rightarrow> Some (LinkNode (abs_dir [''cache'', ''target''])))"
    "\<forall>r. r \<noteq> [] \<longrightarrow> node_at fs' ([''cache'', ''target''] @ r) = (if node_at example_workspace ([''workspace'', ''target''] @ r) \<noteq> None
        then node_at example_workspace ([''workspace'', ''target''] @ r) else node_at example_workspace ([''cache'', ''target''] @ r))"
    using mirror_keeps [OF _ r ok m _ _ w f] by (auto simp: normal_elem_def)
  from fs'(3) have "node_at fs' ([''cache'', ''target''] @ [''debug'', ''x'']) = Some (FileNode ''data'')"
    by (simp add: example_workspace_def node_at_def)
  then show ?thesis using fs'(1,2) by (auto simp: example_workspace_def node_at_def abs_dir_def)
qed

text \<open>
  Nested cache paths destroy the cache: when a job declares a directory and another one
  below it, the second one is merged onto itself through the link the first one made: its files are
  lost, and a link that points to itself is left in the cache volume, although mirroring reports no error.
\<close>

theorem nested_paths_lose_data:
  "\<exists>fs'. mirrorCachePaths 5 example_workspace ''/workspace'' ''/cache'' ''/root'' [''target'', ''target/debug''] = Some (None, fs') \<and>
    node_at fs' [''cache'', ''target'', ''debug''] = Some (LinkNode ''/cache/target/debug'') \<and>
    node_at fs' [''cache'', ''target'', ''debug'', ''x''] = None"
proof -
  have "map_option (\<lambda>(r, fs'). (r, node_at fs' [''cache'', ''target'', ''debug''], node_at fs' [''cache'', ''target'', ''debug'', ''x'']))
      (mirrorCachePaths 5 example_workspace ''/workspace'' ''/cache'' ''/root'' [''target'', ''target/debug''])
    = Some (None, Some (LinkNode ''/cache/target/debug''), None)"
    by code_simp
  then show ?thesis by auto
qed

end
