(* ===== verification/ActionLoader.thy ===== *)
theory ActionLoader
  imports ActionRef Types
begin

text \<open>
  Loading actions and expanding them into steps, from \<^verbatim>\<open>src/pkg/actions/loader.go\<close>.

  Two outside programs are parameters. \<open>git url ref\<close> is the outcome of \<^verbatim>\<open>git clone\<close>: the files of
  the clone by their path, or none when it fails. \<open>parse\<close> is \<^verbatim>\<open>model.ReadAction\<close>: the action a YAML
  text describes, or none. The directory of cloned repositories is a map from directory names to
  clones. Failures of the local file system are left out. Maps the code ranges over are association
  lists: one order of the iteration. Expansion of nested actions recurses; its depth is bounded
  by a fuel argument and running out of it is a result of its own, which is shown not to happen.
\<close>

section \<open>Actions\<close>

datatype action_using = Node12 | Node16 | Node20 | Node24 | Docker | Composite | GoAction | OtherUsing string

record action_step =
  asName :: string
  asRun :: string
  asUses :: string
  asShell :: string
  asEnv :: "(string \<times> string) list"
  asWith :: "(string \<times> string) list"

record Action =
  acUsing :: action_using
  acMain :: string
  acPre :: string
  acPost :: string
  acEntrypoint :: string
  acImage :: string
  acArgs :: "string list"
  acEnv :: "(string \<times> string) list"
  acInputs :: "(string \<times> string) list"    \<comment> \<open>name and default\<close>
  acSteps :: "action_step list"

record ActionMeta =
  amRef :: ActionRef
  amAction :: Action
  amDir :: string
  amMagic :: bool

datatype load_error =
    CloneFailed string
  | InvalidAction string
  | NoActionFile string
  | EscapesDirectory string
  | UnsupportedType string
  | NoMain string
  | DockerfileBuild string
  | Circular string
  | NestedLoad string load_error
  | NestedExpand string load_error
  | OutOfFuel

section \<open>Loading\<close>

definition magicActions :: "string list" where "magicActions = [''drawbar/cache'']"

definition empty_action :: Action where
  "empty_action = \<lparr>acUsing = OtherUsing [], acMain = [], acPre = [], acPost = [], acEntrypoint = [], acImage = [],
     acArgs = [], acEnv = [], acInputs = [], acSteps = []\<rparr>"

definition loadMagicAction :: "ActionRef \<Rightarrow> ActionMeta" where
  "loadMagicAction ref = \<lparr>amRef = ref, amAction = empty_action, amDir = ActionDir ref, amMagic = True\<rparr>"

definition validatePath :: "string \<Rightarrow> bool" where
  "validatePath value = (value = [] \<or> (\<not> has_dotdot value \<and> \<not> HasPrefix (Clean value) ''..''))"

type_synonym clone = "string \<rightharpoonup> string"
type_synonym repo_cache = "string \<rightharpoonup> clone"

definition tryReadActionFile :: "(string \<Rightarrow> Action option) \<Rightarrow> clone \<Rightarrow> string \<Rightarrow> (load_error + Action) option" where
  "tryReadActionFile parse tree path =
     (case tree path of
        None \<Rightarrow> None
      | Some yaml \<Rightarrow> Some (case parse yaml of None \<Rightarrow> Inl (InvalidAction path) | Some a \<Rightarrow> Inr a))"

definition readActionYml :: "(string \<Rightarrow> Action option) \<Rightarrow> clone \<Rightarrow> string \<Rightarrow> load_error + Action" where
  "readActionYml parse tree dir =
     (case tryReadActionFile parse tree (filepath_Join [dir, ''action.yml'']) of
        Some r \<Rightarrow> r
      | None \<Rightarrow>
          (case tryReadActionFile parse tree (filepath_Join [dir, ''action.yaml'']) of
             Some r \<Rightarrow> r
           | None \<Rightarrow> Inl (NoActionFile dir)))"

text \<open>Find the clone of an action, or make it.\<close>

definition obtain_clone ::
  "(string \<Rightarrow> string \<Rightarrow> clone option) \<Rightarrow> string \<Rightarrow> repo_cache \<Rightarrow> ActionRef \<Rightarrow> (load_error + clone) \<times> repo_cache" where
  "obtain_clone git actionsURL disk ref =
     (let dir = ActionDir ref;
          fresh = (case git (CloneURL ref actionsURL) (arRef ref) of
              None \<Rightarrow> (Inl (CloneFailed (ref_String ref)), disk(dir := None))
            | Some tree \<Rightarrow> (Inr tree, disk(dir \<mapsto> tree)))
      in case disk dir of
           None \<Rightarrow> fresh
         | Some tree \<Rightarrow> if tree ''.git'' \<noteq> None then (Inr tree, disk) else fresh)"

definition LoadAction ::
  "(string \<Rightarrow> string \<Rightarrow> clone option) \<Rightarrow> (string \<Rightarrow> Action option) \<Rightarrow> string \<Rightarrow> repo_cache \<Rightarrow> ActionRef
    \<Rightarrow> (load_error + ActionMeta) \<times> repo_cache" where
  "LoadAction git parse actionsURL disk ref =
     (if arOrg ref @ ''/'' @ arRepo ref \<in> set magicActions then (Inr (loadMagicAction ref), disk)
      else case obtain_clone git actionsURL disk ref of
        (Inl e, disk') \<Rightarrow> (Inl e, disk')
      | (Inr tree, disk') \<Rightarrow>
          (case readActionYml parse tree (arPath ref) of
             Inl e \<Rightarrow> (Inl e, disk')
           | Inr action \<Rightarrow>
               (case find (\<lambda>p. \<not> validatePath p) [acMain action, acPre action, acPost action, acEntrypoint action] of
                  Some p \<Rightarrow> (Inl (EscapesDirectory p), disk')
                | None \<Rightarrow> (Inr \<lparr>amRef = ref, amAction = action, amDir = ActionDir ref, amMagic = False\<rparr>, disk'))))"

section \<open>Environment and steps\<close>

definition put_all_env :: "(string \<Rightarrow> string) \<Rightarrow> env_map \<Rightarrow> (string \<times> string) list \<Rightarrow> env_map" where
  "put_all_env key m kvs = foldl (\<lambda>m (k, v). m(key k \<mapsto> v)) m kvs"

definition input_key :: "string \<Rightarrow> string" where
  "input_key name = ''INPUT_'' @ ToUpper name"

definition actionPath :: "ActionMeta \<Rightarrow> string" where
  "actionPath m = (if arPath (amRef m) \<noteq> [] then amDir m @ ''/'' @ arPath (amRef m) else amDir m)"

definition buildActionEnv :: "ActionMeta \<Rightarrow> (string \<times> string) list \<Rightarrow> env_map \<Rightarrow> env_map" where
  "buildActionEnv m stepWith stepEnv =
     (let env1 = put_all_env id stepEnv (acEnv (amAction m));
          env2 = put_all_env input_key env1 (filter (\<lambda>(_, d). d \<noteq> []) (acInputs (amAction m)));
          env3 = put_all_env input_key env2 stepWith
      in env3(''GITHUB_ACTION_PATH'' \<mapsto> ''/actions/'' @ actionPath m))"

definition empty_spec :: StepSpec where
  "empty_spec = \<lparr>spID = [], spName = [], spShell = [], spScript = [], spArgs = [], spEnv = Map.empty,
     spImage = [], spCmd = [], spActionDir = [], spContinueOnError = False, spIf = [], spTimeoutMinutes = Finite 0\<rparr>"

definition node_spec :: "string \<Rightarrow> ActionMeta \<Rightarrow> string \<Rightarrow> env_map \<Rightarrow> StepSpec" where
  "node_spec label m file env =
     empty_spec\<lparr>spName := label @ ref_String (amRef m),
       spArgs := [''node'', ''/actions/'' @ actionPath m @ ''/'' @ file], spEnv := env\<rparr>"

definition nodeStepSpecs :: "ActionMeta \<Rightarrow> env_map \<Rightarrow> load_error + StepSpec list" where
  "nodeStepSpecs m env =
     (let a = amAction m in
      if acMain a = [] then Inl (NoMain (ref_String (amRef m)))
      else Inr ((if acPre a \<noteq> [] then [node_spec ''Pre '' m (acPre a) env] else []) @
                [node_spec [] m (acMain a) env] @
                (if acPost a \<noteq> [] then [node_spec ''Post '' m (acPost a) env] else [])))"

definition dockerStepSpecs :: "ActionMeta \<Rightarrow> env_map \<Rightarrow> load_error + StepSpec list" where
  "dockerStepSpecs m env =
     (let a = amAction m; image = TrimPrefix (acImage a) ''docker://'' in
      if \<not> HasPrefix (acImage a) ''docker://'' \<and> acImage a = ''Dockerfile''
      then Inl (DockerfileBuild (ref_String (amRef m)))
      else Inr [empty_spec\<lparr>spName := ref_String (amRef m), spImage := image, spEnv := env,
             spCmd := (if acEntrypoint a \<noteq> [] then acEntrypoint a # acArgs a else [])\<rparr>])"

section \<open>Expansion\<close>

text \<open>The context of an expansion; absent when nested actions are not expanded.\<close>

record ExpandCtx =
  exCache :: repo_cache
  exVisited :: "string list"
  exNested :: "ActionMeta list"

type_synonym expansion = "(load_error + StepSpec list) \<times> ExpandCtx option"
type_synonym loader = "repo_cache \<Rightarrow> ActionRef \<Rightarrow> (load_error + ActionMeta) \<times> repo_cache"

definition NewExpandCtx :: "repo_cache \<Rightarrow> ExpandCtx" where
  "NewExpandCtx disk = \<lparr>exCache = disk, exVisited = [], exNested = []\<rparr>"

text \<open>Expanding one \<^verbatim>\<open>uses:\<close> step of a composite action; \<open>rec\<close> expands a nested action.\<close>

definition nested_step ::
  "(ActionMeta \<Rightarrow> (string \<times> string) list \<Rightarrow> env_map \<Rightarrow> ExpandCtx option \<Rightarrow> expansion)
    \<Rightarrow> loader \<Rightarrow> action_step \<Rightarrow> ExpandCtx option \<Rightarrow> expansion" where
  "nested_step rec load step ectx =
     (case ectx of
        None \<Rightarrow> (Inr [], ectx)
      | Some x \<Rightarrow>
          (case ParseActionRef (asUses step) of
             Inl _ \<Rightarrow> (Inr [], ectx)
           | Inr ref \<Rightarrow>
               let refKey = ref_String ref in
               if refKey \<in> set (exVisited x) then (Inl (Circular refKey), ectx)
               else (case load (exCache x) ref of
                 (Inl e, disk) \<Rightarrow> (Inl (NestedLoad refKey e), Some (x\<lparr>exCache := disk, exVisited := refKey # exVisited x\<rparr>))
               | (Inr nested, disk) \<Rightarrow>
                   (case rec nested (asWith step) (put_all_env id Map.empty (asEnv step))
                           (Some (x\<lparr>exCache := disk, exVisited := refKey # exVisited x\<rparr>)) of
                      (r, ectx') \<Rightarrow>
                        (let left = map_option (\<lambda>y. y\<lparr>exVisited := removeAll refKey (exVisited y)\<rparr>) ectx'
                         in case r of
                              Inl e \<Rightarrow> (Inl (NestedExpand refKey e), left)
                            | Inr nestedSpecs \<Rightarrow>
                                (Inr nestedSpecs, map_option (\<lambda>y. y\<lparr>exNested := exNested y @ [nested]\<rparr>) left))))))"

text \<open>The loop over the steps of a composite action.\<close>

fun composite_steps ::
  "(ActionMeta \<Rightarrow> (string \<times> string) list \<Rightarrow> env_map \<Rightarrow> ExpandCtx option \<Rightarrow> expansion)
    \<Rightarrow> loader \<Rightarrow> env_map \<Rightarrow> action_step list \<Rightarrow> StepSpec list \<Rightarrow> ExpandCtx option \<Rightarrow> expansion" where
  "composite_steps rec load stepEnv [] specs ectx = (Inr specs, ectx)"
| "composite_steps rec load stepEnv (step # steps) specs ectx =
     (if asRun step \<noteq> [] then
        composite_steps rec load stepEnv steps
          (specs @ [empty_spec\<lparr>spName := asName step, spShell := asShell step, spScript := asRun step,
             spEnv := put_all_env id stepEnv (asEnv step)\<rparr>]) ectx
      else if asUses step \<noteq> [] then
        (case nested_step rec load step ectx of
           (Inl e, ectx') \<Rightarrow> (Inl e, ectx')
         | (Inr nestedSpecs, ectx') \<Rightarrow> composite_steps rec load stepEnv steps (specs @ nestedSpecs) ectx')
      else composite_steps rec load stepEnv steps specs ectx)"

primrec ToStepSpecs ::
  "nat \<Rightarrow> loader \<Rightarrow> ActionMeta \<Rightarrow> (string \<times> string) list \<Rightarrow> env_map \<Rightarrow> ExpandCtx option \<Rightarrow> expansion" where
  "ToStepSpecs 0 load m stepWith stepEnv ectx = (Inl OutOfFuel, ectx)"
| "ToStepSpecs (Suc n) load m stepWith stepEnv ectx =
     (let env = buildActionEnv m stepWith stepEnv
      in if amMagic m then
           (Inr [empty_spec\<lparr>spName := ref_String (amRef m), spShell := ''sh'', spScript := '':'', spEnv := env\<rparr>], ectx)
         else case acUsing (amAction m) of
           Node12 \<Rightarrow> (nodeStepSpecs m env, ectx)
         | Node16 \<Rightarrow> (nodeStepSpecs m env, ectx)
         | Node20 \<Rightarrow> (nodeStepSpecs m env, ectx)
         | Node24 \<Rightarrow> (nodeStepSpecs m env, ectx)
         | Docker \<Rightarrow> (dockerStepSpecs m env, ectx)
         | Composite \<Rightarrow> composite_steps (ToStepSpecs n load) load stepEnv (acSteps (amAction m)) [] ectx
         | GoAction \<Rightarrow> (Inr [empty_spec\<lparr>spName := ref_String (amRef m),
               spScript := ''cd /actions/'' @ amDir m @ '' && go run .'', spEnv := env\<rparr>], ectx)
         | OtherUsing u \<Rightarrow> (Inl (UnsupportedType u), ectx))"

section \<open>Termination of the expansion\<close>

text \<open>The nested references of one action are in a set of keys.\<close>

definition refs_in :: "string set \<Rightarrow> action_step list \<Rightarrow> bool" where
  "refs_in U steps \<longleftrightarrow> (\<forall>step \<in> set steps. \<forall>ref. ParseActionRef (asUses step) = Inr ref \<longrightarrow> ref_String ref \<in> U)"

fun no_fuel_error :: "load_error \<Rightarrow> bool" where
  "no_fuel_error OutOfFuel = False"
| "no_fuel_error (NestedLoad _ e) = no_fuel_error e"
| "no_fuel_error (NestedExpand _ e) = no_fuel_error e"
| "no_fuel_error _ = True"

text \<open>
  What expansion relies on in a source of actions: on the states that satisfy \<open>inv\<close>, loading
  keeps \<open>inv\<close>, yields actions that only refer to the keys \<open>U\<close>, and never runs out of fuel.
\<close>

locale action_source =
  fixes load :: loader and inv :: "repo_cache \<Rightarrow> bool" and U :: "string set"
  assumes load_inv: "inv disk \<Longrightarrow> inv (snd (load disk ref))"
    and load_refs: "inv disk \<Longrightarrow> load disk ref = (Inr m, disk') \<Longrightarrow> refs_in U (acSteps (amAction m))"
    and load_error: "inv disk \<Longrightarrow> load disk ref = (Inl e, disk') \<Longrightarrow> no_fuel_error e"
begin

text \<open>An expansion that went well: no fuel was missing, and the actions being visited are restored.\<close>

definition result_ok :: "string list \<Rightarrow> expansion \<Rightarrow> bool" where
  "result_ok vis r \<longleftrightarrow>
     (case r of
        (Inl e, ectx) \<Rightarrow> no_fuel_error e
      | (Inr _, ectx) \<Rightarrow> \<exists>y. ectx = Some y \<and> exVisited y = vis \<and> inv (exCache y))"

lemma nested_step_ok:
  assumes rec: "\<And>m w env x k. refs_in U (acSteps (amAction m)) \<Longrightarrow> inv (exCache x) \<Longrightarrow> k \<in> U \<Longrightarrow>
      k \<notin> set vis \<Longrightarrow> exVisited x = k # vis \<Longrightarrow> result_ok (k # vis) (rec m w env (Some x))"
    and step: "refs_in U [step]" and x: "exVisited x = vis" "inv (exCache x)"
  shows "result_ok vis (nested_step rec load step (Some x))"
proof (cases "ParseActionRef (asUses step)")
  case (Inl e)
  then show ?thesis using x by (simp add: nested_step_def result_ok_def)
next
  case (Inr ref)
  let ?k = "ref_String ref"
  have kU: "?k \<in> U" using step Inr by (simp add: refs_in_def)
  obtain r disk where l: "load (exCache x) ref = (r, disk)" by fastforce
  show ?thesis
  proof (cases "?k \<in> set vis \<or> (\<exists>e. r = Inl e)")
    case True
    then show ?thesis using Inr x l load_error [OF x(2), of ref]
      by (cases "?k \<in> set vis") (auto simp: nested_step_def result_ok_def Let_def)
  next
    case False
    then obtain nested where n: "r = Inr nested" and k: "?k \<notin> set vis" by (cases r) auto
    let ?x = "x\<lparr>exCache := disk, exVisited := ?k # exVisited x\<rparr>"
    let ?r = "rec nested (asWith step) (put_all_env id Map.empty (asEnv step)) (Some ?x)"
    have "inv disk" using load_inv [OF x(2), of ref] l by simp
    then have "result_ok (?k # vis) ?r"
      by (intro rec load_refs [OF x(2), of ref _ disk] kU k) (use l n x in simp_all)
    then show ?thesis using Inr x l n k
      by (cases "fst ?r") (auto simp: nested_step_def result_ok_def Let_def split: prod.splits)
  qed
qed

lemma composite_steps_ok:
  assumes rec: "\<And>m w env x k. refs_in U (acSteps (amAction m)) \<Longrightarrow> inv (exCache x) \<Longrightarrow> k \<in> U \<Longrightarrow>
      k \<notin> set vis \<Longrightarrow> exVisited x = k # vis \<Longrightarrow> result_ok (k # vis) (rec m w env (Some x))"
  shows "refs_in U steps \<Longrightarrow> exVisited x = vis \<Longrightarrow> inv (exCache x) \<Longrightarrow>
    result_ok vis (composite_steps rec load stepEnv steps specs (Some x))"
proof (induction steps arbitrary: specs x)
  case Nil
  then show ?case by (simp add: result_ok_def)
next
  case (Cons step steps)
  have step: "refs_in U [step]" and rest: "refs_in U steps" using Cons.prems(1) by (simp_all add: refs_in_def)
  note IH = Cons.IH [OF rest]
  have n: "result_ok vis (nested_step rec load step (Some x))"
    using rec step Cons.prems(2,3) by (rule nested_step_ok)
  show ?case
  proof (cases "fst (nested_step rec load step (Some x))")
    case (Inl e)
    with n IH [OF Cons.prems(2,3)] show ?thesis by (auto simp: result_ok_def split: prod.splits sum.splits)
  next
    case (Inr specs')
    with n obtain y where y: "nested_step rec load step (Some x) = (Inr specs', Some y)" "exVisited y = vis" "inv (exCache y)"
      by (auto simp: result_ok_def split: prod.splits sum.splits)
    with IH [OF y(2,3)] IH [OF Cons.prems(2,3)] show ?thesis by simp
  qed
qed

lemma expansion_ok:
  assumes "finite U"
  shows "card (U - set (exVisited x)) < n \<Longrightarrow> refs_in U (acSteps (amAction m)) \<Longrightarrow> inv (exCache x) \<Longrightarrow>
    result_ok (exVisited x) (ToStepSpecs n load m w env (Some x))"
proof (induction n arbitrary: m w env x)
  case (Suc n)
  have "result_ok (exVisited x) (composite_steps (ToStepSpecs n load) load env (acSteps (amAction m)) [] (Some x))"
  proof (rule composite_steps_ok)
    fix m' :: ActionMeta and w' env' and x' :: ExpandCtx and k
    assume a: "refs_in U (acSteps (amAction m'))" "inv (exCache x')" "k \<in> U" "k \<notin> set (exVisited x)" "exVisited x' = k # exVisited x"
    have "U - set (exVisited x') = U - set (exVisited x) - {k}" using a(5) by auto
    then have "card (U - set (exVisited x')) < card (U - set (exVisited x))"
      using a(3,4) assms by (metis Diff_iff card_Diff1_less finite_Diff)
    with Suc.prems(1) have "card (U - set (exVisited x')) < n" by linarith
    from Suc.IH [OF this a(1,2)] a(5) show "result_ok (k # exVisited x) (ToStepSpecs n load m' w' env' (Some x'))" by simp
  qed (use Suc.prems in auto)
  then show ?case using Suc.prems(3)
    by (auto simp: result_ok_def Let_def nodeStepSpecs_def dockerStepSpecs_def split: action_using.splits)
qed simp

end

text \<open>The repositories reachable by cloning, and those on disk, only refer to the keys \<open>U\<close>.\<close>

definition clone_refs_in :: "string set \<Rightarrow> (string \<Rightarrow> Action option) \<Rightarrow> clone \<Rightarrow> bool" where
  "clone_refs_in U parse tree \<longleftrightarrow> (\<forall>path yaml a. tree path = Some yaml \<and> parse yaml = Some a \<longrightarrow> refs_in U (acSteps a))"

definition repos_in ::
  "string set \<Rightarrow> (string \<Rightarrow> string \<Rightarrow> clone option) \<Rightarrow> (string \<Rightarrow> Action option) \<Rightarrow> repo_cache \<Rightarrow> bool" where
  "repos_in U git parse disk \<longleftrightarrow>
     (\<forall>url ref tree. git url ref = Some tree \<longrightarrow> clone_refs_in U parse tree) \<and>
     (\<forall>dir tree. disk dir = Some tree \<longrightarrow> clone_refs_in U parse tree)"

lemma obtain_clone_disk: "repos_in U git parse disk \<Longrightarrow> obtain_clone git url disk ref = (r, disk') \<Longrightarrow>
    repos_in U git parse disk' \<and> (\<forall>tree. r = Inr tree \<longrightarrow> clone_refs_in U parse tree) \<and>
    (\<forall>e. r = Inl e \<longrightarrow> no_fuel_error e)"
  unfolding obtain_clone_def repos_in_def
  by (auto simp: Let_def split: option.splits if_splits)

lemma readActionYml_refs: "clone_refs_in U parse tree \<Longrightarrow> readActionYml parse tree dir = Inr a \<Longrightarrow> refs_in U (acSteps a)"
  by (auto simp: readActionYml_def tryReadActionFile_def clone_refs_in_def split: option.splits)

lemma readActionYml_error: "readActionYml parse tree dir = Inl e \<Longrightarrow> no_fuel_error e"
  by (auto simp: readActionYml_def tryReadActionFile_def split: option.splits)

interpretation loading: action_source "LoadAction git parse url" "repos_in U git parse" U
proof
  fix disk ref
  assume inv: "repos_in U git parse disk"
  obtain r disk' where o: "obtain_clone git url disk ref = (r, disk')" by fastforce
  note d = obtain_clone_disk [OF inv o]
  then show "repos_in U git parse (snd (LoadAction git parse url disk ref))"
    using inv o by (simp add: LoadAction_def split: sum.splits option.splits)
  show "refs_in U (acSteps (amAction m))" if "LoadAction git parse url disk ref = (Inr m, disk'')" for m disk''
    using that o d readActionYml_refs [of U parse _ "arPath ref"]
    by (auto simp: LoadAction_def loadMagicAction_def empty_action_def refs_in_def split: if_splits sum.splits option.splits)
  show "no_fuel_error e" if "LoadAction git parse url disk ref = (Inl e, disk'')" for e disk''
    using that o d readActionYml_error [of parse _ "arPath ref"]
    by (auto simp: LoadAction_def split: if_splits sum.splits option.splits)
qed

text \<open>
  C39: Expansion of actions ends: when the references that nested actions can reach come from a
  finite set, a recursion depth of one more than its size is enough, whatever cycles there are;
  and after a successful expansion the set of actions being visited is what it was, so that an
  action may be used again by a later step.
\<close>

theorem expansion_terminates:
  assumes "finite U" "repos_in U git parse disk" "LoadAction git parse url disk ref = (Inr m, disk')"
  shows "case ToStepSpecs (Suc (card U)) (LoadAction git parse url) m stepWith stepEnv (Some (NewExpandCtx disk')) of
     (Inl e, ectx) \<Rightarrow> no_fuel_error e
   | (Inr specs, ectx) \<Rightarrow> map_option exVisited ectx = Some []"
proof -
  have "repos_in U git parse disk'" "refs_in U (acSteps (amAction m))"
    using loading.load_inv [OF assms(2), of url ref] loading.load_refs [OF assms(2,3)] assms(3) by simp_all
  then have "loading.result_ok U git parse [] (ToStepSpecs (Suc (card U)) (LoadAction git parse url) m stepWith stepEnv (Some (NewExpandCtx disk')))"
    using loading.expansion_ok [OF assms(1), of "NewExpandCtx disk'" "Suc (card U)" m git parse url stepWith stepEnv]
    by (simp add: NewExpandCtx_def del: ToStepSpecs.simps)
  then show ?thesis by (auto simp: loading.result_ok_def simp del: ToStepSpecs.simps split: prod.splits sum.splits)
qed

section \<open>Reuse of clones\<close>

text \<open>
  A repository is cloned once: after an action was loaded, loading it again gives the same
  action and leaves the disk alone, whatever the repository is by then. The clone is found by
  owner, repository and git reference only, so a reference to another host with the same names
  is answered with the action of the first host as well.
\<close>

theorem loaded_action_reused:
  assumes git: "\<And>u r tree. git u r = Some tree \<Longrightarrow> tree ''.git'' \<noteq> None"
    and load: "LoadAction git parse url disk ref = (Inr m, disk')"
    and same: "arOrg ref' = arOrg ref" "arRepo ref' = arRepo ref" "arPath ref' = arPath ref" "arRef ref' = arRef ref"
  shows "LoadAction git' parse url' disk' ref' = (Inr (m\<lparr>amRef := ref'\<rparr>), disk')"
proof -
  have dir: "ActionDir ref' = ActionDir ref" using same by (simp add: ActionDir_def)
  show ?thesis
  proof (cases "arOrg ref @ ''/'' @ arRepo ref \<in> set magicActions")
    case True
    with load same dir show ?thesis by (auto simp: LoadAction_def loadMagicAction_def)
  next
    case False
    then obtain tree where o: "obtain_clone git url disk ref = (Inr tree, disk')"
      using load by (auto simp: LoadAction_def split: prod.splits sum.splits option.splits)
    then have "disk' (ActionDir ref) = Some tree \<and> tree ''.git'' \<noteq> None"
      using git by (auto simp: obtain_clone_def Let_def split: option.splits if_splits)
    then have "obtain_clone git' url' disk' ref' = (Inr tree, disk')" by (simp add: obtain_clone_def Let_def dir)
    with False load o same dir show ?thesis
      by (auto simp: LoadAction_def split: sum.splits option.splits)
  qed
qed

section \<open>Inputs\<close>

lemma put_all_env_last: "put_all_env key m kvs x
    = (case map_of (rev (map (\<lambda>(k, v). (key k, v)) kvs)) x of None \<Rightarrow> m x | Some v \<Rightarrow> Some v)"
  unfolding put_all_env_def by (induction kvs rule: rev_induct) auto

lemma put_all_env_other: "x \<notin> key ` fst ` set kvs \<Longrightarrow> put_all_env key m kvs x = m x"
  unfolding put_all_env_def by (induction kvs arbitrary: m) auto

lemma put_all_env_distinct:
  "(k, v) \<in> set kvs \<Longrightarrow> distinct (map (key \<circ> fst) kvs) \<Longrightarrow> put_all_env key m kvs (key k) = Some v"
proof -
  assume kv: "(k, v) \<in> set kvs" and d: "distinct (map (key \<circ> fst) kvs)"
  have "map_of (rev (map (\<lambda>(k, v). (key k, v)) kvs)) (key k) = Some v"
    by (rule map_of_is_SomeI) (use kv d in \<open>force simp: rev_map [symmetric] comp_def case_prod_beta\<close>)+
  then show ?thesis by (simp add: put_all_env_last)
qed

lemma input_key_other: "input_key n \<noteq> ''GITHUB_ACTION_PATH''"
  by (simp add: input_key_def)

text \<open>
  What an action finds in its environment: every input the step sets, under its upper-case
  name; else the input's default, unless that is empty; every other variable from the action's
  own settings or else from the step, and the path of its files. (Names that differ only in
  letter case are excluded: which of them wins depends on the iteration order.)
\<close>

theorem action_inputs:
  assumes "distinct (map (input_key \<circ> fst) stepWith)" "distinct (map (input_key \<circ> fst) (acInputs (amAction m)))"
    and "distinct (map fst (acEnv (amAction m)))"
  shows "((k, v) \<in> set stepWith \<longrightarrow> buildActionEnv m stepWith stepEnv (input_key k) = Some v) \<and>
    ((n, d) \<in> set (acInputs (amAction m)) \<and> d \<noteq> [] \<and> input_key n \<notin> input_key ` fst ` set stepWith \<longrightarrow>
       buildActionEnv m stepWith stepEnv (input_key n) = Some d) \<and>
    (\<not> HasPrefix x ''INPUT_'' \<and> x \<noteq> ''GITHUB_ACTION_PATH'' \<longrightarrow>
       buildActionEnv m stepWith stepEnv x =
         (case map_of (acEnv (amAction m)) x of Some v \<Rightarrow> Some v | None \<Rightarrow> stepEnv x)) \<and>
    buildActionEnv m stepWith stepEnv ''GITHUB_ACTION_PATH'' = Some (''/actions/'' @ actionPath m)"
proof -
  let ?ins = "filter (\<lambda>(_, d). d \<noteq> []) (acInputs (amAction m))"
  have d: "distinct (map (input_key \<circ> fst) ?ins)" using assms(2) by (simp add: distinct_map_filter)
  have "buildActionEnv m stepWith stepEnv (input_key k) = Some v" if "(k, v) \<in> set stepWith"
    using put_all_env_distinct [OF that assms(1)] input_key_other [of k] by (simp add: buildActionEnv_def Let_def)
  moreover have "buildActionEnv m stepWith stepEnv (input_key n) = Some d"
    if "(n, d) \<in> set (acInputs (amAction m))" "d \<noteq> []" "input_key n \<notin> input_key ` fst ` set stepWith"
    using put_all_env_distinct [of n d ?ins input_key] d that(1,2) put_all_env_other [OF that(3)] input_key_other [of n]
    by (simp add: buildActionEnv_def Let_def)
  moreover have "buildActionEnv m stepWith stepEnv x
      = (case map_of (acEnv (amAction m)) x of Some v \<Rightarrow> Some v | None \<Rightarrow> stepEnv x)"
    if "\<not> HasPrefix x ''INPUT_''" "x \<noteq> ''GITHUB_ACTION_PATH''"
  proof -
    have no: "x \<notin> input_key ` A" for A using that(1) by (auto simp: input_key_def HasPrefix_def)
    have "map_of (rev (map (\<lambda>(k, v). (id k, v)) (acEnv (amAction m)))) = map_of (acEnv (amAction m))"
      by (rule map_of_same_set) (use assms(3) in \<open>auto simp: image_def\<close>)
    then show ?thesis using no [THEN put_all_env_other] that(2)
      by (simp add: buildActionEnv_def Let_def put_all_env_last [of id] split: option.splits)
  qed
  ultimately show ?thesis by (simp add: buildActionEnv_def Let_def)
qed

section \<open>Witnesses\<close>

text \<open>An action that uses itself.\<close>

definition example_self :: ActionMeta where
  "example_self = \<lparr>amRef = \<lparr>arOrg = ''a'', arRepo = ''b'', arPath = [], arRef = ''c'', arURL = []\<rparr>,
     amAction = empty_action\<lparr>acUsing := Composite, acInputs := [(''key'', ''d'')],
       acSteps := [\<lparr>asName = [], asRun = [], asUses = ''a/b@c'', asShell = [], asEnv = [], asWith = []\<rparr>]\<rparr>,
     amDir = ''x'', amMagic = False\<rparr>"

definition example_git :: "string \<Rightarrow> string \<Rightarrow> clone option" where
  "example_git url ref = Some [''.git'' \<mapsto> [], ''action.yml'' \<mapsto> ''y'']"

definition example_yaml :: "string \<Rightarrow> Action option" where
  "example_yaml yaml = (if yaml = ''y'' then Some (amAction example_self) else None)"

lemma example_refs: "refs_in {''a/b@c''} (acSteps (amAction example_self))"
  by (auto simp: refs_in_def example_self_def example_parse ref_String_def)

lemma example_repos: "repos_in {''a/b@c''} example_git example_yaml Map.empty"
  using example_refs by (auto simp: repos_in_def clone_refs_in_def example_git_def example_yaml_def split: if_splits)

lemma example_join: "filepath_Join [[], ''action.yml''] = ''action.yml''"
  by code_simp

lemma example_load: "LoadAction example_git example_yaml [] Map.empty (amRef example_self)
    = (Inr (example_self\<lparr>amDir := ActionDir (amRef example_self)\<rparr>), [ActionDir (amRef example_self) \<mapsto> [''.git'' \<mapsto> [], ''action.yml'' \<mapsto> ''y'']])"
  by (simp add: LoadAction_def obtain_clone_def readActionYml_def tryReadActionFile_def example_join example_git_def
    example_yaml_def example_self_def magicActions_def Let_def validatePath_def empty_action_def)

theorem expansion_terminates_witness:
  "case ToStepSpecs 2 (LoadAction example_git example_yaml []) (example_self\<lparr>amDir := ActionDir (amRef example_self)\<rparr>) [] Map.empty
      (Some (NewExpandCtx [ActionDir (amRef example_self) \<mapsto> [''.git'' \<mapsto> [], ''action.yml'' \<mapsto> ''y'']])) of
     (Inl e, ectx) \<Rightarrow> no_fuel_error e
   | (Inr specs, ectx) \<Rightarrow> map_option exVisited ectx = Some []"
  using expansion_terminates [OF _ example_repos example_load, of "[]" Map.empty]
  by (simp add: numeral_2_eq_2 del: ToStepSpecs.simps)

theorem loaded_action_reused_witness:
  "fst (LoadAction (\<lambda>_ _. None) example_yaml ''https://other'' [ActionDir (amRef example_self) \<mapsto> [''.git'' \<mapsto> [], ''action.yml'' \<mapsto> ''y'']]
      ((amRef example_self)\<lparr>arURL := ''https://evil''\<rparr>))
    = Inr (example_self\<lparr>amDir := ActionDir (amRef example_self), amRef := (amRef example_self)\<lparr>arURL := ''https://evil''\<rparr>\<rparr>)"
  using loaded_action_reused [OF _ example_load, of "(amRef example_self)\<lparr>arURL := ''https://evil''\<rparr>" "\<lambda>_ _. None" "''https://other''"]
  by (simp add: example_git_def)

theorem action_inputs_witness: "buildActionEnv example_self [] Map.empty (input_key ''key'') = Some ''d''"
  using action_inputs [of "[]" example_self "[]" "[]" Map.empty "''key''" "''d''" "[]"]
  by (simp add: example_self_def empty_action_def)

end
