(* ===== verification/K8sLabels.thy ===== *)
theory K8sLabels
  imports Prelude
begin

text \<open>
  Making strings acceptable to Kubernetes: label values, from \<^verbatim>\<open>src/pkg/k8s/labels.go\<close>, and
  object names (\<^verbatim>\<open>sanitizeK8sName\<close> of \<^verbatim>\<open>src/pkg/k8s/builder.go\<close>).
\<close>

section \<open>Label values\<close>

definition isAlnum :: "char \<Rightarrow> bool" where
  "isAlnum c = (char_in 97 122 c \<or> char_in 65 90 c \<or> char_in 48 57 c)"

definition isLabelChar :: "char \<Rightarrow> bool" where
  "isLabelChar c = (isAlnum c \<or> c = CHR ''-'' \<or> c = CHR ''_'' \<or> c = CHR ''.'')"

text \<open>The two loops of \<^verbatim>\<open>trimNonAlnum\<close>.\<close>

fun trim_front :: "string \<Rightarrow> string" where
  "trim_front [] = []"
| "trim_front (c # b) = (if \<not> isAlnum c then trim_front b else c # b)"

function trim_back :: "string \<Rightarrow> string" where
  "trim_back b = (if b \<noteq> [] \<and> \<not> isAlnum (last b) then trim_back (butlast b) else b)"
  by auto
termination
  by (relation "measure length") auto

declare trim_back.simps [simp del]

definition trimNonAlnum :: "string \<Rightarrow> string" where
  "trimNonAlnum b = trim_back (trim_front b)"

definition SanitizeLabelValue :: "string \<Rightarrow> string" where
  "SanitizeLabelValue s =
     (let b = trimNonAlnum (map (\<lambda>c. if isLabelChar c then c else CHR ''-'') s)
      in if length b > 63 then trimNonAlnum (take 63 b) else b)"

text \<open>What Kubernetes accepts as a label value.\<close>

definition valid_label :: "string \<Rightarrow> bool" where
  "valid_label s \<longleftrightarrow> s = [] \<or> length s \<le> 63 \<and> isAlnum (hd s) \<and> isAlnum (last s) \<and> list_all isLabelChar s"

lemma trim_back_steps:
  "b = [] \<or> isAlnum (last b) \<Longrightarrow> trim_back b = b"
  "b \<noteq> [] \<Longrightarrow> \<not> isAlnum (last b) \<Longrightarrow> trim_back b = trim_back (butlast b)"
  by (subst trim_back.simps, auto)+

lemma trim_front_cases: "trim_front b = [] \<or> isAlnum (hd (trim_front b))"
  by (induction b) auto

lemma trim_front_suffix: "suffix (trim_front b) b"
  by (induction b) (auto intro: suffix_ConsI)

lemma trim_back_cases: "trim_back b = [] \<or> isAlnum (last (trim_back b))"
proof (induction b rule: trim_back.induct)
  case (1 b)
  then show ?case by (cases "b = [] \<or> isAlnum (last b)") (auto simp: trim_back_steps)
qed

lemma trim_back_prefix: "prefix (trim_back b) b"
proof (induction b rule: trim_back.induct)
  case (1 b)
  then show ?case
    by (cases "b = [] \<or> isAlnum (last b)")
      (auto simp: trim_back_steps intro: prefix_order.trans [OF _ prefixeq_butlast])
qed

lemma trim_back_hd: "b \<noteq> [] \<Longrightarrow> isAlnum (hd b) \<Longrightarrow> trim_back b \<noteq> [] \<and> hd (trim_back b) = hd b"
proof (induction b rule: trim_back.induct)
  case (1 b)
  show ?case
  proof (cases "isAlnum (last b)")
    case False
    then obtain c b' where "b = c # b'" "b' \<noteq> []" using "1.prems" by (cases b) (auto split: if_splits)
    with 1 False show ?thesis by (simp add: trim_back_steps(2))
  qed (use 1 in \<open>simp add: trim_back_steps(1)\<close>)
qed

lemma trimNonAlnum_id: "b = [] \<or> isAlnum (hd b) \<and> isAlnum (last b) \<Longrightarrow> trimNonAlnum b = b"
  by (cases b) (auto simp: trimNonAlnum_def trim_back_steps(1))

lemma trim_front_empty: "trim_front b = [] \<longleftrightarrow> list_all (\<lambda>c. \<not> isAlnum c) b"
  by (induction b) auto

lemma trimNonAlnum_ends:
  "trimNonAlnum b = [] \<or> isAlnum (hd (trimNonAlnum b)) \<and> isAlnum (last (trimNonAlnum b))"
  using trim_front_cases [of b] trim_back_cases [of "trim_front b"] trim_back_hd [of "trim_front b"]
  by (cases "trim_front b = []") (auto simp: trimNonAlnum_def trim_back_steps(1))

lemma trimNonAlnum_empty: "trimNonAlnum b = [] \<longleftrightarrow> list_all (\<lambda>c. \<not> isAlnum c) b"
proof -
  have "trim_back (trim_front b) = [] \<longleftrightarrow> trim_front b = []"
    using trim_front_cases [of b] trim_back_hd [of "trim_front b"] by (auto simp: trim_back_steps(1))
  then show ?thesis by (simp add: trimNonAlnum_def trim_front_empty)
qed

lemma trimNonAlnum_set: "set (trimNonAlnum b) \<subseteq> set b" and trimNonAlnum_length: "length (trimNonAlnum b) \<le> length b"
  using trim_front_suffix [of b] trim_back_prefix [of "trim_front b"]
  by (auto simp: trimNonAlnum_def dest: set_mono_prefix set_mono_suffix suffix_length_le prefix_length_le
    intro: order_trans)

text \<open>
  C36: A sanitized label value is always one Kubernetes accepts; a value that is acceptable
  already is not changed; and the result is empty exactly when nothing of the input can be kept.
\<close>

theorem label_value_valid:
  "valid_label (SanitizeLabelValue s) \<and>
   (valid_label s \<longrightarrow> SanitizeLabelValue s = s) \<and>
   (SanitizeLabelValue s = [] \<longleftrightarrow> list_all (\<lambda>c. \<not> isAlnum c) s)"
proof -
  define m where "m = map (\<lambda>c. if isLabelChar c then c else CHR ''-'') s"
  let ?b = "trimNonAlnum m"
  have dash: "isLabelChar CHR ''-''" "\<not> isAlnum CHR ''-''" by (simp_all add: isLabelChar_def isAlnum_def char_in_def)
  have S: "SanitizeLabelValue s = (if length ?b > 63 then trimNonAlnum (take 63 ?b) else ?b)"
    by (simp add: SanitizeLabelValue_def m_def)
  have "list_all isLabelChar m" using dash by (auto simp: m_def list_all_iff)
  then have "list_all isLabelChar ?b" "list_all isLabelChar (trimNonAlnum (take 63 ?b))"
    using trimNonAlnum_set [of m] trimNonAlnum_set [of "take 63 ?b"] by (auto simp: list_all_iff dest: in_set_takeD)
  then have valid: "valid_label (SanitizeLabelValue s)"
    using trimNonAlnum_ends [of m] trimNonAlnum_ends [of "take 63 ?b"] trimNonAlnum_length [of "take 63 ?b"]
    by (auto simp: S valid_label_def)
  have "m = s" if "valid_label s" using that by (auto simp: m_def valid_label_def list_all_iff intro!: map_idI)
  then have id: "SanitizeLabelValue s = s" if "valid_label s"
    using that trimNonAlnum_id [of s] by (auto simp: S valid_label_def)
  have "isLabelChar c" if "isAlnum c" for c using that by (simp add: isLabelChar_def)
  then have m_s: "list_all (\<lambda>c. \<not> isAlnum c) m \<longleftrightarrow> list_all (\<lambda>c. \<not> isAlnum c) s"
    using dash(2) by (auto simp: m_def list_all_iff)
  have cut: "trimNonAlnum (take 63 ?b) \<noteq> []" if "length ?b > 63"
  proof -
    have "isAlnum (hd ?b)" and ne: "?b \<noteq> []" using that trimNonAlnum_ends [of m] by auto
    then have "hd ?b \<in> set (take 63 ?b)" by (cases ?b) auto
    then show ?thesis using \<open>isAlnum (hd ?b)\<close> by (auto simp: trimNonAlnum_empty list_all_iff)
  qed
  have "SanitizeLabelValue s = [] \<longleftrightarrow> ?b = []" using cut by (auto simp: S)
  then show ?thesis using valid id m_s by (simp add: trimNonAlnum_empty)
qed

theorem label_value_valid_witness: "SanitizeLabelValue ''run-42'' = ''run-42''"
  using label_value_valid [of "''run-42''"]
  by (simp add: valid_label_def isLabelChar_def isAlnum_def char_in_def)

section \<open>Object names\<close>

text \<open>
  One rune after \<^verbatim>\<open>strings.ToLower\<close>, as far as the loop tells runes apart: the Kelvin sign and the
  capital I with a dot are the only runes from 128 on whose lower case is an ASCII letter.
\<close>

definition lower_rune :: "string \<Rightarrow> string" where
  "lower_rune r =
     (if r = map char_of [0xE2, 0x84, 0xAA :: nat] then ''k''
      else if r = map char_of [0xC4, 0xB0 :: nat] then ''i''
      else map lower_char r)"

definition name_rune :: "string \<Rightarrow> string" where
  "name_rune r =
     (case r of
        [c] \<Rightarrow> if char_in 97 122 c \<or> char_in 48 57 c \<or> c = CHR ''-'' then [c]
               else if c = CHR '' '' \<or> c = CHR ''_'' then ''-'' else []
      | _ \<Rightarrow> [])"

definition sanitizeK8sName :: "string \<Rightarrow> string" where
  "sanitizeK8sName name = Trim (concat (map (\<lambda>r. name_rune (lower_rune r)) (runes name))) ''-''"

lemma sanitizeK8sName_chars:
  "c \<in> set (sanitizeK8sName name) \<Longrightarrow> char_in 97 122 c \<or> char_in 48 57 c \<or> c = CHR ''-''"
proof -
  assume "c \<in> set (sanitizeK8sName name)"
  then have "c \<in> set (concat (map (\<lambda>r. name_rune (lower_rune r)) (runes name)))"
    by (auto simp: sanitizeK8sName_def Trim_def TrimRight_def TrimLeft_def dest!: set_dropWhileD)
  then show ?thesis by (auto simp: name_rune_def split: list.splits if_splits)
qed

end
