(* ===== verification/JobBuilder.thy ===== *)
theory JobBuilder
  imports K8sLabels Types
begin

text \<open>
  The Kubernetes Job that runs a task, from \<^verbatim>\<open>src/pkg/k8s/builder.go\<close>: volumes, the containers in
  their order, their security settings, and the manifest that the entrypoint reads.

  The objects of the Kubernetes API are records with the fields the sources set. Two inputs are
  arguments: \<open>marshal\<close>, the JSON encoding of the manifest (which fails for a number JSON cannot
  express), and \<open>rnd\<close>, the 16 random bytes of the delimiter, or none when reading them fails.
  Maps the code ranges over are association lists: one order of the iteration.
\<close>

section \<open>Objects\<close>

record SecurityContext =
  secAllowEscalation :: bool
  secDrop :: "string list"
  secAdd :: "string list"
  secSeccomp :: "string option"

record ServiceSpec =
  svName :: string
  svImage :: string
  svEnv :: "(string \<times> string) list"
  svPorts :: "int list"
  svCmd :: "string list"
  svArgs :: "string list"
  svSecurity :: "SecurityContext option"

record JobSecretMount =
  jsName :: string
  jsMountPath :: string

record JobConfig =
  jcTaskID :: int
  jcRunID :: string
  jcJobName :: string
  jcNamespace :: string
  jcImage :: string
  jcControllerImage :: string
  jcSteps :: "StepSpec list"
  jcBaseEnv :: env_map
  jcServices :: "ServiceSpec list"
  jcTimeout :: int
  jcActions :: "ActionFetch list"
  jcSecrets :: "JobSecretMount list"
  jcEvalContext :: "EvalContext option"
  jcPVC :: string
  jcPaths :: "string list"

datatype VolumeSource = EmptyDir | ClaimSource string | SecretSource string

record VolumeMount =
  vmName :: string
  vmPath :: string
  vmReadOnly :: bool

record Container =
  ctName :: string
  ctImage :: string
  ctCommand :: "string list"
  ctArgs :: "string list"
  ctEnv :: "(string \<times> string) list"
  ctEnvFrom :: "string list"
  ctPorts :: "int list"
  ctWorkingDir :: string
  ctMounts :: "VolumeMount list"
  ctRestartAlways :: bool
  ctSecurity :: SecurityContext

record Job =
  jbName :: string
  jbNamespace :: string
  jbLabels :: "(string \<times> string) list"
  jbCompletions :: int
  jbParallelism :: int
  jbBackoffLimit :: int
  jbTTL :: int
  jbDeadline :: "int option"
  jbHostUsers :: bool
  jbRestartPolicy :: string
  jbInit :: "Container list"
  jbContainers :: "Container list"
  jbVolumes :: "(string \<times> VolumeSource) list"

datatype build_error = MarshalFailed | NoRandomness

section \<open>Ports\<close>

definition ParseContainerPort :: "string \<Rightarrow> int option" where
  "ParseContainerPort portSpec = ParseInt 32 (last (Split CHR '':'' (hd (Split CHR ''/'' portSpec))))"

definition wait_script_head :: "string list" where
  "wait_script_head =
    [[],
     ''check_port() {'',
     ''  if command -v node >/dev/null 2>&1; then'',
     ''    node -e '' @ [CHR 0x22] @ ''const s=require('' @ [CHR 0x27] @ ''net'' @ [CHR 0x27] @ '').connect($1,'' @ [CHR 0x27] @ ''localhost'' @ [CHR 0x27] @
       '',()=>{s.end();process.exit(0)});s.on('' @ [CHR 0x27] @ ''error'' @ [CHR 0x27] @
       '',()=>process.exit(1));setTimeout(()=>process.exit(1),1000)'' @ [CHR 0x22] @ '' 2>/dev/null'',
     ''  elif command -v nc >/dev/null 2>&1; then'',
     ''    nc -z localhost $1 2>/dev/null'',
     ''  elif command -v bash >/dev/null 2>&1; then'',
     ''    bash -c '' @ [CHR 0x22] @ ''echo > /dev/tcp/localhost/$1'' @ [CHR 0x22] @ '' 2>/dev/null'',
     ''  else'',
     ''    python3 -c '' @ [CHR 0x22] @ ''import socket; s=socket.socket(); s.settimeout(1); s.connect(('' @ [CHR 0x27] @ ''localhost'' @ [CHR 0x27] @
       '',$1)); s.close()'' @ [CHR 0x22] @ '' 2>/dev/null'',
     ''  fi'',
     ''}'',
     [],
     ''for i in $(seq 1 60); do'',
     ''  all_ready=true'']"

definition wait_script_tail :: "string list" where
  "wait_script_tail =
    [''    if ! check_port $port; then'',
     ''      all_ready=false'',
     ''      break'',
     ''    fi'',
     ''  done'',
     ''  if $all_ready; then'',
     ''    echo '' @ [CHR 0x22] @ ''All services ready'' @ [CHR 0x22],
     ''    exit 0'',
     ''  fi'',
     ''  echo '' @ [CHR 0x22] @ ''Waiting... ($i/60)'' @ [CHR 0x22],
     ''  sleep 1'',
     ''done'',
     ''echo '' @ [CHR 0x22] @ ''Services failed to start within 60s'' @ [CHR 0x22],
     ''exit 1'']"

definition generateWaitScript :: "ServiceSpec list \<Rightarrow> string" where
  "generateWaitScript services =
     (let ports = concat (map svPorts services); portsStr = Join '' '' (map Itoa ports)
      in if ports = [] then []
         else Join [NL]
           ([''#!/bin/sh'', ''set -e'',
             ''echo '' @ [CHR 0x22] @ ''Waiting for services on ports: '' @ portsStr @ [CHR 0x22]] @
            wait_script_head @ [''  for port in '' @ portsStr @ ''; do''] @ wait_script_tail))"

section \<open>The manifest\<close>

definition manifest_step :: "StepSpec \<Rightarrow> ManifestStep" where
  "manifest_step s =
     \<lparr>msID = spID s, msName = spName s, msCommand = spScript s, msArgs = spArgs s, msShell = spShell s,
      msEnv = spEnv s, msWorkDir = ''/workspace'', msContinueOnError = spContinueOnError s, msIf = spIf s,
      msTimeoutMinutes = spTimeoutMinutes s\<rparr>"

definition buildManifest :: "JobConfig \<Rightarrow> Manifest" where
  "buildManifest cfg =
     \<lparr>mfSteps = map manifest_step (jcSteps cfg), mfBaseEnv = jcBaseEnv cfg, mfContext = jcEvalContext cfg,
      mfActions = jcActions cfg, mfCachePaths = (if jcPVC cfg \<noteq> [] then jcPaths cfg else [])\<rparr>"

section \<open>The job\<close>

definition containerSecurity :: SecurityContext where
  "containerSecurity =
     \<lparr>secAllowEscalation = False, secDrop = [''ALL''],
      secAdd = [''SETUID'', ''SETGID'', ''CHOWN'', ''FOWNER'', ''DAC_OVERRIDE''], secSeccomp = None\<rparr>"

definition empty_container :: Container where
  "empty_container =
     \<lparr>ctName = [], ctImage = [], ctCommand = [], ctArgs = [], ctEnv = [], ctEnvFrom = [], ctPorts = [],
      ctWorkingDir = [], ctMounts = [], ctRestartAlways = False, ctSecurity = containerSecurity\<rparr>"

definition mount :: "string \<Rightarrow> string \<Rightarrow> bool \<Rightarrow> VolumeMount" where
  "mount name path ro = \<lparr>vmName = name, vmPath = path, vmReadOnly = ro\<rparr>"

definition secret_volume :: "JobSecretMount \<Rightarrow> string" where
  "secret_volume s = ''secret-'' @ sanitizeK8sName (jsName s)"

definition has_snapshot :: "JobConfig \<Rightarrow> bool" where
  "has_snapshot cfg = (jcPVC cfg \<noteq> [] \<and> jcPaths cfg \<noteq> [])"

definition job_labels :: "JobConfig \<Rightarrow> (string \<times> string) list" where
  "job_labels cfg =
     [(''app.kubernetes.io/managed-by'', ''drawbar''), (''drawbar.dev/task-id'', Itoa (jcTaskID cfg))] @
     (let runID = SanitizeLabelValue (jcRunID cfg) in if runID \<noteq> [] then [(''drawbar.dev/run-id'', runID)] else [])"

definition job_volumes :: "JobConfig \<Rightarrow> (string \<times> VolumeSource) list" where
  "job_volumes cfg =
     [(''workspace'', EmptyDir), (''shim'', EmptyDir), (''actions'', EmptyDir)] @
     (if has_snapshot cfg then [(''snapshot-cache'', ClaimSource (jcPVC cfg))] else []) @
     map (\<lambda>s. (secret_volume s, SecretSource (jsName s))) (filter (\<lambda>s. jsMountPath s \<noteq> []) (jcSecrets cfg))"

definition service_container :: "ServiceSpec \<Rightarrow> Container" where
  "service_container svc =
     empty_container\<lparr>ctName := ''svc-'' @ sanitizeK8sName (svName svc), ctImage := svImage svc,
       ctRestartAlways := True,
       ctSecurity := (case svSecurity svc of None \<Rightarrow> containerSecurity | Some sc \<Rightarrow> sc),
       ctEnv := svEnv svc, ctPorts := svPorts svc, ctCommand := svCmd svc, ctArgs := svArgs svc\<rparr>"

definition delimiter :: "string \<Rightarrow> string" where
  "delimiter rnd = ''MANIFEST_'' @ concat (map (\<lambda>c. hex_pad 2 (of_char c)) rnd)"

definition setupCmd :: "string \<Rightarrow> string \<Rightarrow> string" where
  "setupCmd delim manifestJSON =
     ''cp /entrypoint /shim/entrypoint && chmod +x /shim/entrypoint && '' @
     ''touch /shim/state.jsonl && '' @
     ''cat > /shim/manifest.json << '' @ [CHR 0x27] @ delim @ [CHR 0x27] @ [NL] @ manifestJSON @ [NL] @ delim @ [NL] @
     ''exec /shim/entrypoint setup /shim/manifest.json''"

definition init_containers :: "JobConfig \<Rightarrow> string \<Rightarrow> string \<Rightarrow> Container list" where
  "init_containers cfg delim manifestJSON =
     (let waitScript = generateWaitScript (jcServices cfg);
          controllerImage = (if jcControllerImage cfg = [] then ''ghcr.io/myers/drawbar:latest'' else jcControllerImage cfg)
      in map service_container (jcServices cfg) @
         (if waitScript \<noteq> [] then
            [empty_container\<lparr>ctName := ''wait-for-services'', ctImage := jcImage cfg,
               ctCommand := [''/bin/sh'', ''-e'', ''-c''], ctArgs := [waitScript]\<rparr>] else []) @
         [empty_container\<lparr>ctName := ''setup-shim'', ctImage := controllerImage, ctCommand := [''/bin/sh'', ''-c''],
            ctArgs := [setupCmd delim manifestJSON],
            ctMounts := [mount ''shim'' ''/shim'' False, mount ''actions'' ''/actions'' False]\<rparr>,
          empty_container\<lparr>ctName := ''state-agent'', ctImage := controllerImage, ctRestartAlways := True,
            ctCommand := [''/shim/entrypoint'', ''tail'', ''/shim/state.jsonl''],
            ctMounts := [mount ''shim'' ''/shim'' False]\<rparr>])"

definition runner_container :: "JobConfig \<Rightarrow> Container" where
  "runner_container cfg =
     empty_container\<lparr>ctName := ''runner'', ctImage := jcImage cfg,
       ctCommand := [''/shim/entrypoint'', ''run'', ''/shim/manifest.json''], ctWorkingDir := ''/workspace'',
       ctMounts :=
         [mount ''workspace'' ''/workspace'' False, mount ''shim'' ''/shim'' False, mount ''actions'' ''/actions'' True] @
         (if has_snapshot cfg then [mount ''snapshot-cache'' ''/cache'' False] else []) @
         map (\<lambda>s. mount (secret_volume s) (jsMountPath s) True) (filter (\<lambda>s. jsMountPath s \<noteq> []) (jcSecrets cfg)),
       ctEnvFrom := map jsName (filter (\<lambda>s. jsMountPath s = []) (jcSecrets cfg))\<rparr>"

definition BuildJob :: "(Manifest \<Rightarrow> string option) \<Rightarrow> string option \<Rightarrow> JobConfig \<Rightarrow> build_error + Job" where
  "BuildJob marshal rnd cfg =
     (case marshal (buildManifest cfg) of
        None \<Rightarrow> Inl MarshalFailed
      | Some manifestJSON \<Rightarrow>
          (case rnd of
             None \<Rightarrow> Inl NoRandomness
           | Some bytes \<Rightarrow>
               Inr \<lparr>jbName = ''drawbar-run-'' @ Itoa (jcTaskID cfg), jbNamespace = jcNamespace cfg,
                 jbLabels = job_labels cfg, jbCompletions = 1, jbParallelism = 1, jbBackoffLimit = 0, jbTTL = 300,
                 jbDeadline = (if jcTimeout cfg > 0 then Some (jcTimeout cfg) else None),
                 jbHostUsers = False, jbRestartPolicy = ''Never'',
                 jbInit = init_containers cfg (delimiter bytes) manifestJSON,
                 jbContainers = [runner_container cfg], jbVolumes = job_volumes cfg\<rparr>))"

section \<open>The manifest reaches the entrypoint\<close>

text \<open>The here-document a shell reads after the first line of a script, up to the delimiter line.\<close>

definition here_document :: "string \<Rightarrow> string \<Rightarrow> string list" where
  "here_document delim script = takeWhile (\<lambda>l. l \<noteq> delim) (tl (Split NL script))"

lemma hex_digit_no_newline: "n < 16 \<Longrightarrow> hex_digit n \<noteq> NL"
proof
  assume "n < 16" "hex_digit n = NL"
  then have "of_char (hex_digit n) = (10 :: nat)" by simp
  with \<open>n < 16\<close> show False by (auto simp: hex_digit_def split: if_splits)
qed

lemma hex_pad_no_newline: "NL \<notin> set (hex_pad w n)"
  using hex_digit_no_newline [of "_ mod 16"] by (induction w arbitrary: n) (auto dest: sym)

lemma delimiter_no_newline: "NL \<notin> set (delimiter rnd)"
  using hex_pad_no_newline by (auto simp: delimiter_def)

lemma setup_lines:
  "NL \<notin> set json \<Longrightarrow> NL \<notin> set delim \<Longrightarrow>
    tl (Split NL (setupCmd delim json)) = [json, delim, ''exec /shim/entrypoint setup /shim/manifest.json'']"
proof -
  assume n: "NL \<notin> set json" "NL \<notin> set delim"
  define l1 where "l1 = ''cp /entrypoint /shim/entrypoint && chmod +x /shim/entrypoint && '' @
     ''touch /shim/state.jsonl && '' @ ''cat > /shim/manifest.json << '' @ [CHR 0x27] @ delim @ [CHR 0x27]"
  have "setupCmd delim json = l1 @ NL # (json @ NL # (delim @ NL # ''exec /shim/entrypoint setup /shim/manifest.json''))"
    by (simp add: setupCmd_def l1_def)
  moreover have "NL \<notin> set l1" using n by (simp add: l1_def)
  ultimately show ?thesis using n by (simp add: Split_append Split_single)
qed

lemma setup_writes_manifest:
  assumes "NL \<notin> set json" "json \<noteq> []" "hd json = CHR ''{''"
  shows "here_document (delimiter bytes) (setupCmd (delimiter bytes) json) = [json]"
proof -
  have "json \<noteq> delimiter bytes" using assms(2,3) by (auto simp: delimiter_def)
  then show ?thesis using setup_lines [OF assms(1) delimiter_no_newline] by (simp add: here_document_def)
qed

text \<open>
  The setup script delivers the manifest: the here-document its shell writes to the manifest
  file is exactly the encoded manifest, whatever the random delimiter. JSON encodings have no
  line breaks and start with a brace.
\<close>

theorem manifest_delivered:
  assumes json: "marshal (buildManifest cfg) = Some json" "NL \<notin> set json" "json \<noteq> []" "hd json = CHR ''{''"
    and job: "BuildJob marshal (Some bytes) cfg = Inr job"
  shows "\<exists>c. c \<in> set (jbInit job) \<and> ctName c = ''setup-shim'' \<and>
    here_document (delimiter bytes) (hd (ctArgs c)) = [json]"
proof -
  note h = setup_writes_manifest [OF json(2-4), of bytes]
  have "jbInit job = init_containers cfg (delimiter bytes) json" using job json(1) by (auto simp: BuildJob_def)
  then show ?thesis using h
    by (intro exI [of _ "empty_container\<lparr>ctName := ''setup-shim'',
        ctImage := (if jcControllerImage cfg = [] then ''ghcr.io/myers/drawbar:latest'' else jcControllerImage cfg),
        ctCommand := [''/bin/sh'', ''-c''], ctArgs := [setupCmd (delimiter bytes) json],
        ctMounts := [mount ''shim'' ''/shim'' False, mount ''actions'' ''/actions'' False]\<rparr>"])
      (simp add: init_containers_def Let_def)
qed

section \<open>Shape of the pod\<close>

lemma BuildJob_fields:
  assumes "BuildJob marshal rnd cfg = Inr job"
  shows "\<exists>bytes json. jbInit job = init_containers cfg (delimiter bytes) json" "jbContainers job = [runner_container cfg]"
    "jbVolumes job = job_volumes cfg" "\<not> jbHostUsers job" "jbBackoffLimit job = 0" "jbRestartPolicy job = ''Never''"
    "jbName job = ''drawbar-run-'' @ Itoa (jcTaskID cfg)"
  using assms by (fastforce simp: BuildJob_def split: option.splits)+

text \<open>What a container reaches through its mounts: the sources of the volumes they name.\<close>

definition sources :: "Job \<Rightarrow> Container \<Rightarrow> VolumeSource list" where
  "sources job c = concat (map (\<lambda>m. map snd (filter (\<lambda>v. fst v = vmName m) (jbVolumes job))) (ctMounts c))"

lemma set_sources: "set (sources job c) = {src. \<exists>m \<in> set (ctMounts c). (vmName m, src) \<in> set (jbVolumes job)}"
  by (force simp: sources_def)

lemma init_containers_cases:
  assumes "c \<in> set (init_containers cfg delim json)"
  shows "c \<in> service_container ` set (jcServices cfg) \<or>
    ctSecurity c = containerSecurity \<and> ctEnvFrom c = [] \<and>
    set (ctMounts c) \<subseteq> {mount ''shim'' ''/shim'' False, mount ''actions'' ''/actions'' False} \<and>
    (mount ''actions'' ''/actions'' False \<in> set (ctMounts c) \<longrightarrow> ctName c = ''setup-shim'')"
  using assms unfolding init_containers_def
  by (auto simp: Let_def empty_container_def mount_def split: if_splits)

lemma container_cases:
  assumes "BuildJob marshal rnd cfg = Inr job" "c \<in> set (jbInit job @ jbContainers job)"
  obtains (service) svc where "svc \<in> set (jcServices cfg)" "c = service_container svc"
    | (own) "ctSecurity c = containerSecurity" "ctEnvFrom c = []"
        "set (ctMounts c) \<subseteq> {mount ''shim'' ''/shim'' False, mount ''actions'' ''/actions'' False}"
        "mount ''actions'' ''/actions'' False \<in> set (ctMounts c) \<longrightarrow> ctName c = ''setup-shim''"
    | (runner) "c = runner_container cfg"
proof -
  note f = BuildJob_fields [OF assms(1)]
  obtain bytes json where i: "jbInit job = init_containers cfg (delimiter bytes) json" using f(1) by blast
  consider "c \<in> set (init_containers cfg (delimiter bytes) json)" | "c = runner_container cfg"
    using assms(2) i f(2) by auto
  then show thesis using init_containers_cases [of c cfg "delimiter bytes" json] that by cases blast+
qed

lemma runner_mounts_volumes: "map vmName (ctMounts (runner_container cfg)) = map fst (job_volumes cfg)"
  by (simp add: runner_container_def job_volumes_def mount_def comp_def)

text \<open>The shim and the actions are empty directories: no secret's volume takes one of their names.\<close>

lemma job_volume_source:
  "(n, src) \<in> set (job_volumes cfg) \<Longrightarrow> n \<in> {''workspace'', ''shim'', ''actions''} \<Longrightarrow> src = EmptyDir"
  by (auto simp: job_volumes_def secret_volume_def split: if_splits)

lemma mounts_declared:
  assumes "BuildJob marshal rnd cfg = Inr job" "c \<in> set (jbInit job @ jbContainers job)"
  shows "vmName ` set (ctMounts c) \<subseteq> fst ` set (jbVolumes job)"
  using assms
proof (cases rule: container_cases)
  case (service svc)
  then show ?thesis by (simp add: service_container_def empty_container_def)
next
  case own
  have "vmName ` set (ctMounts c) \<subseteq> {''shim'', ''actions''}" using image_mono [OF own(3), of vmName] by (simp add: mount_def)
  also have "\<dots> \<subseteq> fst ` set (job_volumes cfg)" by (auto simp: job_volumes_def)
  finally show ?thesis using BuildJob_fields(3) [OF assms(1)] by simp
next
  case runner
  then show ?thesis using arg_cong [OF runner_mounts_volumes [of cfg], of set] BuildJob_fields(3) [OF assms(1)] by simp
qed

lemma helpers_see_nothing:
  assumes "BuildJob marshal rnd cfg = Inr job" "c \<in> set (jbInit job @ jbContainers job)" "c \<notin> set (jbContainers job)"
  shows "set (sources job c) \<subseteq> {EmptyDir}" "ctEnvFrom c = []"
proof -
  note f = BuildJob_fields [OF assms(1)]
  have "set (sources job c) \<subseteq> {EmptyDir} \<and> ctEnvFrom c = []"
    using assms(1,2)
  proof (cases rule: container_cases)
    case (service svc)
    then show ?thesis by (simp add: service_container_def empty_container_def sources_def)
  next
    case own
    then show ?thesis using job_volume_source [of _ _ cfg] f(3) by (fastforce simp: set_sources mount_def)
  next
    case runner
    then show ?thesis using assms(3) f(2) by simp
  qed
  then show "set (sources job c) \<subseteq> {EmptyDir}" "ctEnvFrom c = []" by auto
qed

lemma runner_writes:
  assumes "m \<in> set (ctMounts (runner_container cfg))" "\<not> vmReadOnly m" "(vmName m, src) \<in> set (job_volumes cfg)"
  shows "vmName m \<noteq> ''actions'' \<and> (src = EmptyDir \<or> src = ClaimSource (jcPVC cfg))"
  using assms by (auto simp: runner_container_def empty_container_def mount_def job_volumes_def secret_volume_def split: if_splits)

lemma runner_gets_secrets:
  assumes "BuildJob marshal rnd cfg = Inr job" "s \<in> set (jcSecrets cfg)" "c \<in> set (jbContainers job)"
  shows "jsName s \<in> set (ctEnvFrom c) \<or> SecretSource (jsName s) \<in> set (sources job c)"
proof (cases "jsMountPath s = []")
  case True
  then show ?thesis using assms(2,3) BuildJob_fields(2) [OF assms(1)] by (auto simp: runner_container_def)
next
  case False
  with assms(2) have "mount (secret_volume s) (jsMountPath s) True \<in> set (ctMounts (runner_container cfg))"
    "(secret_volume s, SecretSource (jsName s)) \<in> set (job_volumes cfg)"
    by (auto simp: runner_container_def job_volumes_def)
  then show ?thesis using assms(3) BuildJob_fields(2,3) [OF assms(1)] by (force simp: set_sources mount_def)
qed

text \<open>
  Volumes are named after their secrets with all but letters, digits and dashes removed, so two
  secrets of different names may ask for one volume name, which the cluster refuses.
\<close>

theorem secret_volumes_clash:
  "map (secret_volume \<circ> (\<lambda>n. \<lparr>jsName = n, jsMountPath = ''/run/x''\<rparr>)) [''db.prod'', ''dbprod''] = [''secret-dbprod'', ''secret-dbprod'']"
  by code_simp

section \<open>Witnesses\<close>

definition example_service :: ServiceSpec where
  "example_service = \<lparr>svName = ''db'', svImage = ''pg'', svEnv = [], svPorts = [5432], svCmd = [], svArgs = [], svSecurity = None\<rparr>"

definition example_job_config :: JobConfig where
  "example_job_config =
     \<lparr>jcTaskID = 7, jcRunID = ''1'', jcJobName = ''build'', jcNamespace = ''ci'', jcImage = ''node'', jcControllerImage = [], jcSteps = [],
      jcBaseEnv = Map.empty, jcServices = [example_service], jcTimeout = 0, jcActions = [],
      jcSecrets = [\<lparr>jsName = ''reg'', jsMountPath = ''/run/reg''\<rparr>], jcEvalContext = None, jcPVC = ''cache-7'', jcPaths = [''target'']\<rparr>"

theorem manifest_delivered_witness:
  "case BuildJob (\<lambda>_. Some ''{}'') (Some ''x'') example_job_config of
     Inl e \<Rightarrow> False
   | Inr job \<Rightarrow> (\<exists>c. c \<in> set (jbInit job) \<and> ctName c = ''setup-shim'' \<and> here_document (delimiter ''x'') (hd (ctArgs c)) = [''{}''])"
  using manifest_delivered [of "\<lambda>_. Some ''{}''" example_job_config "''{}''" "''x''"]
  by (simp add: BuildJob_def)

end
