(* ===== verification/TaskSteps.thy ===== *)
theory TaskSteps
  imports ActionLoader JobBuilder Labels
begin

text \<open>
  From a task to the steps of its job: parsing the workflow, from \<^verbatim>\<open>src/pkg/workflow/parser.go\<close>, and
  the loop of \<^verbatim>\<open>makeTaskHandler\<close> (\<^verbatim>\<open>src/cmd/controller/main.go\<close>) that turns workflow steps into step
  specifications, expanding actions on the way.

  The YAML reader (\<^verbatim>\<open>model.ReadWorkflow\<close>, third-party) is the parameter \<open>read\<close>; a workflow is what the
  sources ask of it: its job identifiers and the job of an identifier. Reading a decimal number
  (\<^verbatim>\<open>strconv.ParseFloat\<close>) is the parameter \<open>ParseFloat\<close>.
\<close>

section \<open>Workflows\<close>

record wf_step =
  wsID :: string
  wsName :: string
  wsIf :: string
  wsRun :: string
  wsUses :: string
  wsShell :: string
  wsEnv :: "(string \<times> string) list"
  wsWith :: "(string \<times> string) list"
  wsContinueOnError :: string
  wsTimeoutMinutes :: string

record ContainerSpec =
  csImage :: string
  csEnv :: "(string \<times> string) list"
  csPorts :: "string list"
  csCmd :: "string list"

record wf_job =
  wjName :: string
  wjRunsOn :: "string list"
  wjSteps :: "wf_step list"
  wjEnv :: env_map
  wjContainer :: "ContainerSpec option"
  wjServices :: "(string \<times> ContainerSpec option) list"

record Workflow =
  wfJobIDs :: "string list"
  wfGetJob :: "string \<Rightarrow> wf_job option"

record ParsedJob =
  pjJobID :: string
  pjJob :: wf_job

datatype parse_error = EmptyPayload | BadWorkflow | NoJobs | ManyJobs "string list" | JobMissing string

definition ParseTask :: "(string \<Rightarrow> Workflow option) \<Rightarrow> Task \<Rightarrow> parse_error + ParsedJob" where
  "ParseTask read task =
     (if tkPayload task = [] then Inl EmptyPayload
      else case read (tkPayload task) of
        None \<Rightarrow> Inl BadWorkflow
      | Some flow \<Rightarrow>
          let jobIDs = wfJobIDs flow in
          if jobIDs = [] then Inl NoJobs
          else if length jobIDs \<noteq> 1 then Inl (ManyJobs jobIDs)
          else (case wfGetJob flow (jobIDs ! 0) of
             None \<Rightarrow> Inl (JobMissing (jobIDs ! 0))
           | Some job \<Rightarrow> Inr \<lparr>pjJobID = jobIDs ! 0, pjJob = job\<rparr>))"

lemma ParseTask_single: "ParseTask read task = Inr p \<Longrightarrow>
    \<exists>flow. read (tkPayload task) = Some flow \<and> wfJobIDs flow = [pjJobID p] \<and> wfGetJob flow (pjJobID p) = Some (pjJob p)"
  by (auto simp: ParseTask_def Let_def length_Suc_conv split: if_splits option.splits)

section \<open>One workflow step\<close>

definition parseTimeoutMinutes :: "(string \<Rightarrow> float64 option) \<Rightarrow> string \<Rightarrow> float64" where
  "parseTimeoutMinutes ParseFloat s =
     (if s = [] then Finite 0
      else case ParseFloat s of
        None \<Rightarrow> Finite 0
      | Some v \<Rightarrow>
          (case v of
             Finite q \<Rightarrow> if q \<le> 0 then Finite 0 else v
           | Infinite neg \<Rightarrow> if neg then Finite 0 else v
           | NotANumber \<Rightarrow> v))"

text \<open>A rune converted back to bytes: a byte that is not UTF-8 has become the replacement character.\<close>

definition rune_text :: "string \<Rightarrow> string" where
  "rune_text r =
     (if length r = 1 \<and> of_char (hd r) \<ge> (0x80 :: nat) then map char_of [0xEF, 0xBF, 0xBD :: nat] else r)"

definition truncate_runes :: "string \<Rightarrow> nat \<Rightarrow> string" where
  "truncate_runes s n =
     (let rs = runes s in if length rs \<le> n then s else concat (map rune_text (take n rs)) @ ''...'')"

datatype prep_error = ActionLoadFailed string load_error | ActionBuildFailed string load_error

record expander =
  xpLoad :: loader
  xpDepth :: nat
  xpParseFloat :: "string \<Rightarrow> float64 option"

definition step_id :: "nat \<Rightarrow> wf_step \<Rightarrow> string" where
  "step_id workflowIdx step = (if wsID step = [] then ''step-'' @ dec_nat workflowIdx else wsID step)"

definition continues_on_error :: "wf_step \<Rightarrow> bool" where
  "continues_on_error step = (ToLower (wsContinueOnError step) = ''true'')"

definition run_spec ::
  "('e, 'v) interpreter \<Rightarrow> EvaluationEnvironment \<Rightarrow> expander \<Rightarrow> nat \<Rightarrow> wf_step \<Rightarrow> StepSpec" where
  "run_spec interp env xp workflowIdx step =
     empty_spec\<lparr>spID := step_id workflowIdx step,
       spName := (if wsName step = [] then ''Run '' @ truncate_runes (wsRun step) 40 else wsName step),
       spShell := wsShell step, spScript := Interpolate interp env (wsRun step),
       spEnv := InterpolateMap interp env (map_of (wsEnv step)), spIf := wsIf step,
       spContinueOnError := continues_on_error step,
       spTimeoutMinutes := parseTimeoutMinutes (xpParseFloat xp) (wsTimeoutMinutes step)\<rparr>"

text \<open>The specification of the \<open>j\<close>-th step \<open>as\<close> an action was expanded to.\<close>

definition action_spec ::
  "('e, 'v) interpreter \<Rightarrow> EvaluationEnvironment \<Rightarrow> expander \<Rightarrow> nat \<Rightarrow> wf_step \<Rightarrow> string \<Rightarrow> nat \<Rightarrow> StepSpec \<Rightarrow> StepSpec" where
  "action_spec interp env xp workflowIdx step dir j as =
     empty_spec\<lparr>spID := (if j > 0 then step_id workflowIdx step @ ''-'' @ dec_nat j else step_id workflowIdx step),
       spName := spName as, spShell := spShell as, spScript := spScript as, spArgs := spArgs as,
       spEnv := InterpolateMap interp env (spEnv as), spActionDir := dir,
       spIf := (if j = 0 then wsIf step else []), spContinueOnError := continues_on_error step,
       spTimeoutMinutes := parseTimeoutMinutes (xpParseFloat xp) (wsTimeoutMinutes step)\<rparr>"

definition interpolate_values :: "('e, 'v) interpreter \<Rightarrow> EvaluationEnvironment \<Rightarrow> (string \<times> string) list \<Rightarrow> (string \<times> string) list" where
  "interpolate_values interp env kvs = map (\<lambda>(k, v). (k, Interpolate interp env v)) kvs"

text \<open>The specifications of one workflow step, with the actions its pod needs.\<close>

definition workflow_step ::
  "('e, 'v) interpreter \<Rightarrow> EvaluationEnvironment \<Rightarrow> expander \<Rightarrow> nat \<Rightarrow> wf_step \<Rightarrow> ExpandCtx
    \<Rightarrow> (prep_error + StepSpec list \<times> ActionMeta list) \<times> ExpandCtx" where
  "workflow_step interp env xp workflowIdx step ectx =
     (if wsRun step \<noteq> [] then (Inr ([run_spec interp env xp workflowIdx step], []), ectx)
      else if wsUses step \<noteq> [] then
        (case ParseActionRef (wsUses step) of
           Inl _ \<Rightarrow> (Inr ([], []), ectx)
         | Inr ref \<Rightarrow>
             (case xpLoad xp (exCache ectx) ref of
                (Inl e, disk) \<Rightarrow> (Inl (ActionLoadFailed (ref_String ref) e), ectx\<lparr>exCache := disk\<rparr>)
              | (Inr meta, disk) \<Rightarrow>
                  (case ToStepSpecs (xpDepth xp) (xpLoad xp) meta (interpolate_values interp env (wsWith step))
                          (InterpolateMap interp env (map_of (wsEnv step))) (Some (ectx\<lparr>exCache := disk\<rparr>)) of
                     (Inl e, ectx') \<Rightarrow> (Inl (ActionBuildFailed (ref_String ref) e), the ectx')
                   | (Inr actionSpecs, ectx') \<Rightarrow>
                       (Inr (map (\<lambda>(j, as). action_spec interp env xp workflowIdx step (amDir meta) j as)
                               (enumerate 0 actionSpecs),
                             meta # exNested (the ectx')),
                        (the ectx')\<lparr>exNested := []\<rparr>))))
      else (Inr ([], []), ectx))"

fun workflow_steps ::
  "('e, 'v) interpreter \<Rightarrow> EvaluationEnvironment \<Rightarrow> expander \<Rightarrow> nat \<Rightarrow> wf_step list \<Rightarrow> StepSpec list \<Rightarrow> ActionMeta list
    \<Rightarrow> ExpandCtx \<Rightarrow> (prep_error + StepSpec list \<times> ActionMeta list) \<times> ExpandCtx" where
  "workflow_steps interp env xp i [] specs metas ectx = (Inr (specs, metas), ectx)"
| "workflow_steps interp env xp i (step # steps) specs metas ectx =
     (case workflow_step interp env xp i step ectx of
        (Inl e, ectx') \<Rightarrow> (Inl e, ectx')
      | (Inr (new, needed), ectx') \<Rightarrow>
          workflow_steps interp env xp (i + 1) steps (specs @ new) (metas @ needed) ectx')"

section \<open>What the specifications of a workflow step share\<close>

definition group_of :: "expander \<Rightarrow> nat \<Rightarrow> wf_step \<Rightarrow> StepSpec list \<Rightarrow> bool" where
  "group_of xp i step g \<longleftrightarrow>
     map spID g = map (\<lambda>j. if j > 0 then step_id i step @ ''-'' @ dec_nat j else step_id i step) [0..<length g] \<and>
     map spIf g = map (\<lambda>j. if j = 0 then wsIf step else []) [0..<length g] \<and>
     list_all (\<lambda>s. spContinueOnError s = continues_on_error step \<and>
       spTimeoutMinutes s = parseTimeoutMinutes (xpParseFloat xp) (wsTimeoutMinutes step)) g"

lemma map_enumerate: "map (\<lambda>(j, x). f j x) (enumerate 0 xs) = map (\<lambda>j. f j (xs ! j)) [0..<length xs]"
  by (rule nth_equalityI) (simp_all add: nth_enumerate_eq)

lemma workflow_step_group:
  assumes "workflow_step interp env xp i step ectx = (Inr (g, ms), ectx')"
  shows "group_of xp i step g"
proof -
  have "group_of xp i step [run_spec interp env xp i step]"
    by (simp add: group_of_def run_spec_def)
  moreover have "group_of xp i step []" by (simp add: group_of_def)
  moreover have "group_of xp i step (map (\<lambda>(j, as). action_spec interp env xp i step d j as) (enumerate 0 specs))" for d specs
    unfolding map_enumerate by (simp add: group_of_def action_spec_def list_all_iff)
  ultimately show ?thesis using assms
    by (auto simp: workflow_step_def split: if_splits sum.splits prod.splits)
qed

lemma workflow_steps_groups:
  "workflow_steps interp env xp i steps specs metas ectx = (Inr (specs', metas'), ectx') \<Longrightarrow>
    \<exists>gs. length gs = length steps \<and> specs' = specs @ concat gs \<and> (\<forall>k < length steps. group_of xp (i + k) (steps ! k) (gs ! k))"
proof (induction steps arbitrary: i specs metas ectx)
  case Nil
  then show ?case by (intro exI [of _ "[]"]) simp
next
  case (Cons step steps)
  from Cons.prems obtain g ms ectx1 where s: "workflow_step interp env xp i step ectx = (Inr (g, ms), ectx1)"
    and rest: "workflow_steps interp env xp (i + 1) steps (specs @ g) (metas @ ms) ectx1 = (Inr (specs', metas'), ectx')"
    by (auto split: prod.splits sum.splits)
  from Cons.IH [OF rest] obtain gs where "length gs = length steps" "specs' = (specs @ g) @ concat gs"
    "\<forall>k < length steps. group_of xp (i + 1 + k) (steps ! k) (gs ! k)" by blast
  with workflow_step_group [OF s] show ?case
    by (intro exI [of _ "g # gs"]) (auto simp: nth_Cons split: nat.splits)
qed

text \<open>
  C29: The step specifications of a job come in groups, one per workflow step and in their order.
  The members of a group carry the workflow step's identifier, numbered from the second one on,
  so that an expansion never shifts the identifiers of later steps, and all share its
  continue-on-error and timeout. The condition of the workflow step guards the first member only.
\<close>

theorem steps_grouped:
  assumes "workflow_steps interp env xp 0 steps [] [] ectx = (Inr (specs, metas), ectx')"
  shows "\<exists>gs. length gs = length steps \<and> specs = concat gs \<and> (\<forall>k < length steps. group_of xp k (steps ! k) (gs ! k))"
  using workflow_steps_groups [OF assms] by simp

section \<open>Identifiers\<close>

text \<open>No identifier of a workflow step is another one's with a number appended.\<close>

definition ids_ok :: "wf_step list \<Rightarrow> bool" where
  "ids_ok steps \<longleftrightarrow>
     distinct (map (\<lambda>k. step_id k (steps ! k)) [0..<length steps]) \<and>
     (\<forall>k < length steps. \<forall>l < length steps. \<forall>j > 0. step_id k (steps ! k) \<noteq> step_id l (steps ! l) @ ''-'' @ dec_nat j)"

lemma distinct_concat_nth:
  "(\<And>k. k < length xss \<Longrightarrow> distinct (xss ! k)) \<Longrightarrow>
   (\<And>k l. k < length xss \<Longrightarrow> l < length xss \<Longrightarrow> k \<noteq> l \<Longrightarrow> set (xss ! k) \<inter> set (xss ! l) = {}) \<Longrightarrow> distinct (concat xss)"
proof (induction xss)
  case (Cons xs xss)
  have "distinct (xss ! k)" if "k < length xss" for k using Cons.prems(1) [of "Suc k"] that by simp
  moreover have "set (xss ! k) \<inter> set (xss ! l) = {}" if "k < length xss" "l < length xss" "k \<noteq> l" for k l
    using Cons.prems(2) [of "Suc k" "Suc l"] that by simp
  moreover have "x \<notin> set ys" if "x \<in> set xs" "ys \<in> set xss" for x ys
    using Cons.prems(2) [of 0 "Suc _"] that by (fastforce simp: in_set_conv_nth)
  ultimately show ?case using Cons.IH Cons.prems(1) [of 0] by auto
qed simp

lemma dec_nat_inj: "dec_nat m = dec_nat n \<Longrightarrow> m = n"
  by (metis parse_dec_nat)

lemma suffixed_inj:
  assumes "a @ CHR ''-'' # dec_nat m = b @ CHR ''-'' # dec_nat n"
  shows "a = b \<and> m = n"
proof -
  have nd: "CHR ''-'' \<notin> set (dec_nat k)" for k by (rule dec_nat_no) (simp add: is_digit_def char_in_def)
  have "rev (dec_nat m) @ CHR ''-'' # rev a = rev (dec_nat n) @ CHR ''-'' # rev b"
    using arg_cong [OF assms, of rev] by simp
  then have "rev (dec_nat m) = rev (dec_nat n) \<and> rev a = rev b"
    using nd by (metis Cut_append option.inject prod.inject set_rev)
  then show ?thesis using dec_nat_inj by auto
qed

lemma group_id: "group_of xp k step g \<Longrightarrow> j < length g \<Longrightarrow>
    spID (g ! j) = (if j > 0 then step_id k step @ ''-'' @ dec_nat j else step_id k step)"
  unfolding group_of_def by (drule conjunct1, drule arg_cong [of _ _ "\<lambda>l. l ! j"]) simp

lemma group_ids_apart:
  assumes "ids_ok steps" "k < length steps" "l < length steps"
    "group_of xp k (steps ! k) g" "group_of xp l (steps ! l) h" "i < length g" "j < length h"
    and eq: "spID (g ! i) = spID (h ! j)"
  shows "k = l \<and> i = j"
proof -
  have d: "k = l" if "step_id k (steps ! k) = step_id l (steps ! l)"
    using assms(1-3) that by (auto simp: ids_ok_def distinct_conv_nth)
  have s: "step_id a (steps ! a) \<noteq> step_id b (steps ! b) @ CHR ''-'' # dec_nat n" if "a < length steps" "b < length steps" "n > 0" for a b n
    using assms(1) that by (simp add: ids_ok_def)
  show ?thesis using eq group_id [OF assms(4,6)] group_id [OF assms(5,7)] d s [OF assms(2,3)] s [OF assms(3,2), THEN not_sym]
      suffixed_inj [of "step_id k (steps ! k)" i "step_id l (steps ! l)" j]
    by (auto split: if_splits)
qed

text \<open>
  Identifiers are unique: when the identifiers of the workflow steps (given or automatic)
  differ and none is another with a number appended, all step specifications have different
  identifiers, so that results and outputs of one step never overwrite another's.
\<close>

theorem step_ids_distinct:
  assumes "workflow_steps interp env xp 0 steps [] [] ectx = (Inr (specs, metas), ectx')" "ids_ok steps"
  shows "distinct (map spID specs)"
proof -
  obtain gs where gs: "length gs = length steps" "specs = concat gs"
    "\<forall>k < length steps. group_of xp k (steps ! k) (gs ! k)"
    using workflow_steps_groups [OF assms(1)] by auto
  have "distinct (concat (map (map spID) gs))"
  proof (rule distinct_concat_nth)
    fix k assume k: "k < length (map (map spID) gs)"
    then show "distinct (map (map spID) gs ! k)"
      using gs(1,3) group_ids_apart [OF assms(2), of k k xp "gs ! k" "gs ! k"] by (auto simp: distinct_conv_nth)
  next
    fix k l assume kl: "k < length (map (map spID) gs)" "l < length (map (map spID) gs)" "k \<noteq> l"
    then show "set (map (map spID) gs ! k) \<inter> set (map (map spID) gs ! l) = {}"
      using gs(1,3) group_ids_apart [OF assms(2), of k l xp "gs ! k" "gs ! l"] by (auto simp: in_set_conv_nth)
  qed
  then show ?thesis by (simp add: gs(2) map_concat)
qed

section \<open>Two consequences for actions\<close>

text \<open>
  A Docker action is accepted but not run: its image and command do not reach the manifest, and
  the step the entrypoint executes in its place is a shell with an empty script, in the job's image.
\<close>

theorem docker_action_not_run:
  assumes "wsRun step = []" "wsUses step \<noteq> []" "ParseActionRef (wsUses step) = Inr ref"
    and "xpLoad xp (exCache ectx) ref = (Inr meta, disk)" "\<not> amMagic meta" "acUsing (amAction meta) = Docker"
    and "acImage (amAction meta) \<noteq> ''Dockerfile''" "xpDepth xp > 0"
  shows "\<exists>spec. fst (workflow_step interp env xp i step ectx) = Inr ([spec], meta # exNested ectx) \<and>
    msArgs (manifest_step spec) = [] \<and> msCommand (manifest_step spec) = [] \<and> msShell (manifest_step spec) = []"
proof -
  obtain n where n: "xpDepth xp = Suc n" using assms(8) gr0_implies_Suc by blast
  let ?env = "buildActionEnv meta (interpolate_values interp env (wsWith step)) (InterpolateMap interp env (map_of (wsEnv step)))"
  let ?as = "empty_spec\<lparr>spName := ref_String (amRef meta), spImage := TrimPrefix (acImage (amAction meta)) ''docker://'', spEnv := ?env,
       spCmd := (if acEntrypoint (amAction meta) \<noteq> [] then acEntrypoint (amAction meta) # acArgs (amAction meta) else [])\<rparr>"
  have "ToStepSpecs (xpDepth xp) (xpLoad xp) meta (interpolate_values interp env (wsWith step))
      (InterpolateMap interp env (map_of (wsEnv step))) (Some (ectx\<lparr>exCache := disk\<rparr>)) = (Inr [?as], Some (ectx\<lparr>exCache := disk\<rparr>))"
    using assms(5-7) by (simp add: n dockerStepSpecs_def Let_def)
  then have "fst (workflow_step interp env xp i step ectx)
      = Inr ([action_spec interp env xp i step (amDir meta) 0 ?as], meta # exNested ectx)"
    using assms(1-4) by (simp add: workflow_step_def)
  then show ?thesis by (simp add: action_spec_def manifest_step_def empty_spec_def)
qed

text \<open>
  The inputs of a JavaScript action are interpolated twice: the action sees under the name of an
  input the result of interpolating its value, and of interpolating that again, so that expressions
  in the text a first interpolation inserted are evaluated too.
\<close>

theorem inputs_interpolated_twice:
  assumes "wsRun step = []" "wsUses step \<noteq> []" "ParseActionRef (wsUses step) = Inr ref"
    and "xpLoad xp (exCache ectx) ref = (Inr meta, disk)" "\<not> amMagic meta" "acUsing (amAction meta) = Node20"
    and "acPre (amAction meta) = []" "acPost (amAction meta) = []" "acMain (amAction meta) \<noteq> []" "xpDepth xp > 0"
    and "(k, v) \<in> set (wsWith step)" "distinct (map (input_key \<circ> fst) (wsWith step))"
  shows "\<exists>spec ms. fst (workflow_step interp env xp i step ectx) = Inr ([spec], ms) \<and>
    spEnv spec (input_key k) = Some (Interpolate interp env (Interpolate interp env v))"
proof -
  obtain n where n: "xpDepth xp = Suc n" using assms(10) gr0_implies_Suc by blast
  let ?w = "interpolate_values interp env (wsWith step)"
  let ?env = "buildActionEnv meta ?w (InterpolateMap interp env (map_of (wsEnv step)))"
  have "ToStepSpecs (xpDepth xp) (xpLoad xp) meta ?w (InterpolateMap interp env (map_of (wsEnv step))) (Some (ectx\<lparr>exCache := disk\<rparr>))
      = (Inr [node_spec [] meta (acMain (amAction meta)) ?env], Some (ectx\<lparr>exCache := disk\<rparr>))"
    using assms(5-9) by (simp add: n nodeStepSpecs_def Let_def)
  then have "fst (workflow_step interp env xp i step ectx)
      = Inr ([action_spec interp env xp i step (amDir meta) 0 (node_spec [] meta (acMain (amAction meta)) ?env)], meta # exNested ectx)"
    using assms(1-4) by (simp add: workflow_step_def)
  moreover have "(k, Interpolate interp env v) \<in> set ?w" using assms(11) by (force simp: interpolate_values_def)
  moreover have "map (input_key \<circ> fst) ?w = map (input_key \<circ> fst) (wsWith step)"
    by (simp add: interpolate_values_def comp_def case_prod_beta)
  ultimately show ?thesis
    using put_all_env_distinct [of k "Interpolate interp env v" ?w input_key] assms(12) input_key_other [of k]
    by (simp add: action_spec_def node_spec_def InterpolateMap_def buildActionEnv_def Let_def empty_spec_def)
qed

section \<open>Witnesses\<close>

definition example_interp :: "(string, string) interpreter" where
  "example_interp = \<lparr>iEvaluate = (\<lambda>env expr check. Inr ''v''), iIsTruthy = (\<lambda>v. True), iString = Some, iPrint = id\<rparr>"

definition example_eval_env :: EvaluationEnvironment where
  "example_eval_env = BuildEnvironment \<lparr>tkId = 1, tkPayload = [], tkContext = Map.empty, tkSecrets = [], tkVars = Map.empty, tkNeeds = Map.empty\<rparr> Map.empty"

definition example_node :: ActionMeta where
  "example_node = example_self\<lparr>amAction := empty_action\<lparr>acUsing := Node20, acMain := ''m.js''\<rparr>\<rparr>"

definition example_docker :: ActionMeta where
  "example_docker = example_self\<lparr>amAction := empty_action\<lparr>acUsing := Docker, acImage := ''docker://alpine''\<rparr>\<rparr>"

definition example_expander :: "ActionMeta \<Rightarrow> expander" where
  "example_expander m = \<lparr>xpLoad = (\<lambda>disk ref. (Inr m, disk)), xpDepth = 1, xpParseFloat = (\<lambda>_. None)\<rparr>"

definition example_uses :: wf_step where
  "example_uses = \<lparr>wsID = [], wsName = [], wsIf = ''failure()'', wsRun = [], wsUses = ''a/b@c'', wsShell = [], wsEnv = [],
     wsWith = [(''x'', ''1'')], wsContinueOnError = ''True'', wsTimeoutMinutes = []\<rparr>"

definition example_run :: wf_step where
  "example_run = example_uses\<lparr>wsRun := ''make''\<rparr>"

lemma example_steps:
  "workflow_steps example_interp example_eval_env (example_expander example_node) 0 [example_run, example_run] [] [] (NewExpandCtx Map.empty)
     = (Inr ([run_spec example_interp example_eval_env (example_expander example_node) 0 example_run,
              run_spec example_interp example_eval_env (example_expander example_node) 1 example_run], []), NewExpandCtx Map.empty)"
  by (simp add: workflow_step_def example_run_def)

theorem steps_grouped_witness:
  "\<exists>gs. length gs = 2 \<and> concat gs = [run_spec example_interp example_eval_env (example_expander example_node) 0 example_run,
     run_spec example_interp example_eval_env (example_expander example_node) 1 example_run] \<and>
     group_of (example_expander example_node) 1 example_run (gs ! 1)"
proof -
  obtain gs where "length gs = length [example_run, example_run]"
    "[run_spec example_interp example_eval_env (example_expander example_node) 0 example_run,
      run_spec example_interp example_eval_env (example_expander example_node) 1 example_run] = concat gs"
    "\<forall>k < length [example_run, example_run]. group_of (example_expander example_node) k ([example_run, example_run] ! k) (gs ! k)"
    using steps_grouped [OF example_steps] by blast
  then show ?thesis by (intro exI [of _ gs]) auto
qed

lemma example_ids: "step_id 0 example_run = ''step-0''" "step_id 1 example_run = ''step-1''"
  by code_simp+

lemma example_ids_ok: "ids_ok [example_run, example_run]"
proof -
  have len: "length (dec_nat j) > 0" for j using dec_nat_nonempty [of j] by simp
  have "CHR ''-'' \<notin> set (dec_nat j)" for j by (rule dec_nat_no) (simp add: is_digit_def char_in_def)
  moreover have "(k :: nat) = 0 \<or> k = 1" if "k < Suc (Suc 0)" for k using that by auto
  ultimately show ?thesis using len example_ids
    by (auto simp: ids_ok_def less_Suc_eq numeral_2_eq_2)
qed

theorem step_ids_distinct_witness: "distinct [''step-0'', ''step-1'']"
  using step_ids_distinct [OF example_steps example_ids_ok] example_ids by (simp add: run_spec_def)

theorem docker_action_not_run_witness:
  "\<exists>spec. fst (workflow_step example_interp example_eval_env (example_expander example_docker) 0 example_uses (NewExpandCtx Map.empty))
      = Inr ([spec], [example_docker]) \<and>
    msArgs (manifest_step spec) = [] \<and> msCommand (manifest_step spec) = [] \<and> msShell (manifest_step spec) = []"
  using docker_action_not_run [of example_uses _ "example_expander example_docker" "NewExpandCtx Map.empty" example_docker Map.empty
      example_interp example_eval_env 0]
  by (simp add: example_uses_def example_parse example_expander_def example_docker_def example_self_def NewExpandCtx_def)

theorem inputs_interpolated_twice_witness:
  "\<exists>spec ms. fst (workflow_step example_interp example_eval_env (example_expander example_node) 0 example_uses (NewExpandCtx Map.empty))
      = Inr ([spec], ms) \<and>
    spEnv spec ''INPUT_X'' = Some (Interpolate example_interp example_eval_env (Interpolate example_interp example_eval_env ''1''))"
proof -
  have "input_key ''x'' = ''INPUT_X''" by code_simp
  then show ?thesis
    using inputs_interpolated_twice [of example_uses _ "example_expander example_node" "NewExpandCtx Map.empty" example_node Map.empty
        "''x''" "''1''" example_interp example_eval_env 0]
    by (simp add: example_uses_def example_parse example_expander_def example_node_def example_self_def NewExpandCtx_def empty_action_def)
qed

end
