(* ===== verification/TaskEnv.thy ===== *)
theory TaskEnv
  imports TaskSteps Entrypoint Reporter
begin

text \<open>
  What the controller puts into a job besides its steps, from \<^verbatim>\<open>src/cmd/controller/main.go\<close>: the image,
  the environment shared by all steps, the values to mask, the services, and the paths to cache.
\<close>

section \<open>Image, context and secrets\<close>

definition buildEvalContext :: "Task \<Rightarrow> env_map \<Rightarrow> EvalContext" where
  "buildEvalContext task jobEnv =
     \<lparr>ecGitHub = BuildGithubContext task, ecEnv = jobEnv, ecSecrets = secret task, ecVars = tkVars task,
      ecNeeds = (\<lambda>k. map_option (\<lambda>(outputs, result). (outputs, ToLower (TrimPrefix result ''RESULT_''))) (tkNeeds task k))\<rparr>"

text \<open>
  What the entrypoint rebuilds from the context of the manifest is the environment the
  controller's own evaluator starts with.
\<close>

lemma runtime_environment_agrees: "BuildEvalEnv (buildEvalContext task jobEnv) = BuildEnvironment task jobEnv"
  by (simp add: BuildEvalEnv_def buildEvalContext_def BuildEnvironment_def)

definition resolveJobImage :: "Label list \<Rightarrow> string list \<Rightarrow> ContainerSpec option \<Rightarrow> string" where
  "resolveJobImage l runsOn container =
     (case container of
        None \<Rightarrow> PickPlatform l runsOn
      | Some c \<Rightarrow> if csImage c \<noteq> [] then csImage c else PickPlatform l runsOn)"

definition collectSecrets :: "Task \<Rightarrow> string list" where
  "collectSecrets task =
     map snd (tkSecrets task) @
     (if ctx_string task ''token'' \<noteq> [] then [ctx_string task ''token''] else []) @
     (if ctx_string task ''gitea_runtime_token'' \<noteq> [] then [ctx_string task ''gitea_runtime_token''] else [])"

section \<open>Services\<close>

definition isBuildKitImage :: "string \<Rightarrow> bool" where
  "isBuildKitImage img = Contains img ''moby/buildkit''"

definition has_flag :: "ServiceSpec \<Rightarrow> string \<Rightarrow> bool" where
  "has_flag svc f = list_ex (\<lambda>arg. arg = f \<or> HasPrefix arg (f @ ''='')) (svArgs svc)"

definition buildkit_security :: SecurityContext where
  "buildkit_security =
     \<lparr>secAllowEscalation = True, secDrop = [''ALL''], secAdd = [''SETUID'', ''SETGID''], secSeccomp = Some ''Unconfined''\<rparr>"

definition applyBuildKitDefaults :: "ServiceSpec \<Rightarrow> ServiceSpec" where
  "applyBuildKitDefaults svc =
     (let svc1 = svc\<lparr>svSecurity := Some buildkit_security\<rparr>;
          svc2 = (if has_flag svc1 ''--oci-worker-no-process-sandbox'' then svc1
                  else svc1\<lparr>svArgs := svArgs svc1 @ [''--oci-worker-no-process-sandbox'']\<rparr>)
      in if has_flag svc2 ''--addr'' then svc2
         else svc2\<lparr>svArgs := svArgs svc2 @ map (\<lambda>port. ''--addr=tcp://0.0.0.0:'' @ Itoa port) (svPorts svc2)\<rparr>)"

definition convert_service :: "string \<Rightarrow> ContainerSpec \<Rightarrow> ServiceSpec" where
  "convert_service name spec =
     (let svc = \<lparr>svName = name, svImage = csImage spec, svEnv = csEnv spec,
                 svPorts = List.map_filter ParseContainerPort (csPorts spec), svCmd = csCmd spec, svArgs = [], svSecurity = None\<rparr>
      in if isBuildKitImage (csImage spec) then applyBuildKitDefaults svc else svc)"

fun convertServices :: "(string \<times> ContainerSpec option) list \<Rightarrow> ServiceSpec list" where
  "convertServices [] = []"
| "convertServices ((name, spec) # services) =
     (case spec of
        None \<Rightarrow> convertServices services
      | Some s \<Rightarrow> if csImage s = [] then convertServices services
                 else convert_service name s # convertServices services)"

lemma convert_service_security: "svSecurity (convert_service name s) =
    (if isBuildKitImage (csImage s) then Some buildkit_security else None)"
  by (simp add: convert_service_def applyBuildKitDefaults_def Let_def)

lemma convert_service_image: "svImage (convert_service name s) = csImage s"
  by (simp add: convert_service_def applyBuildKitDefaults_def Let_def)

lemma convertServices_security:
  "svc \<in> set (convertServices services) \<Longrightarrow> svSecurity svc = (if isBuildKitImage (svImage svc) then Some buildkit_security else None)"
  by (induction services rule: convertServices.induct)
    (auto simp: convert_service_security convert_service_image split: option.splits if_splits)

lemma container_security:
  assumes "BuildJob marshal rnd cfg = Inr job" "jcServices cfg = convertServices services"
    and "c \<in> set (jbInit job @ jbContainers job)"
  obtains (hardened) "ctSecurity c = containerSecurity"
    | (buildkit) "ctSecurity c = buildkit_security" "isBuildKitImage (ctImage c)" "ctMounts c = []" "ctEnvFrom c = []"
  using assms(1,3)
proof (cases rule: container_cases)
  case (service svc)
  then have c: "ctImage c = svImage svc" "ctMounts c = []" "ctEnvFrom c = []"
    "ctSecurity c = (case svSecurity svc of None \<Rightarrow> containerSecurity | Some sc \<Rightarrow> sc)"
    by (simp_all add: service_container_def empty_container_def)
  have "svSecurity svc = (if isBuildKitImage (svImage svc) then Some buildkit_security else None)"
    using service(1) assms(2) by (simp add: convertServices_security)
  then show thesis using c that by (cases "isBuildKitImage (svImage svc)") simp_all
next
  case runner
  then have "ctSecurity c = containerSecurity" by (simp add: runner_container_def empty_container_def)
  then show thesis by (rule that(1))
qed (rule that(1))

lemma container_writes:
  assumes "BuildJob marshal rnd cfg = Inr job" "c \<in> set (jbInit job @ jbContainers job)"
    and "m \<in> set (ctMounts c)" "\<not> vmReadOnly m"
  shows "(vmName m = ''actions'' \<longrightarrow> ctName c = ''setup-shim'') \<and> (\<forall>n. (vmName m, SecretSource n) \<notin> set (jbVolumes job))"
  using assms(1,2)
proof (cases rule: container_cases)
  case (service svc)
  then show ?thesis using assms(3) by (simp add: service_container_def empty_container_def)
next
  case own
  then have m: "m = mount ''shim'' ''/shim'' False \<or> m = mount ''actions'' ''/actions'' False" using assms(3) by blast
  then have "vmName m \<in> {''workspace'', ''shim'', ''actions''}" by (auto simp: mount_def)
  then have "(vmName m, SecretSource n) \<notin> set (jbVolumes job)" for n
    using job_volume_source [of "vmName m" "SecretSource n" cfg] BuildJob_fields(3) [OF assms(1)] by auto
  moreover have "vmName m = ''actions'' \<Longrightarrow> ctName c = ''setup-shim''"
    using m own(4) assms(3) by (auto simp: mount_def)
  ultimately show ?thesis by blast
next
  case runner
  obtain src where "(vmName m, src) \<in> set (jbVolumes job)"
    using mounts_declared [OF assms(1,2)] assms(3) by force
  note w = runner_writes [of m cfg, OF assms(3) [unfolded runner] assms(4), folded BuildJob_fields(3) [OF assms(1)]]
  from w [OF \<open>(vmName m, src) \<in> set (jbVolumes job)\<close>] have "vmName m \<noteq> ''actions''" by blast
  moreover have "(vmName m, SecretSource n) \<notin> set (jbVolumes job)" for n using w [of "SecretSource n"] by auto
  ultimately show ?thesis by simp
qed

text \<open>
  C28: The containers of a job are kept apart. Whatever services a workflow declares, every
  container of the pod runs in the pod's user namespace with all capabilities dropped and
  none added beyond the fixed five. One that may escalate privileges or runs without the seccomp profile is a
  BuildKit service, and it mounts no volume and gets no secret. Every mount names a declared volume, and no
  container but the runner reaches a secret or the cache claim, through a mount or through its
  environment. Secrets are never mounted writable, and only the setup container can write to the
  actions the steps run. The runner does get every secret of the configuration.
\<close>

theorem pod_confined:
  assumes "BuildJob marshal rnd cfg = Inr job" "jcServices cfg = convertServices services"
    and "c \<in> set (jbInit job @ jbContainers job)"
  shows "\<not> jbHostUsers job \<and> secDrop (ctSecurity c) = [''ALL''] \<and>
    set (secAdd (ctSecurity c)) \<subseteq> {''SETUID'', ''SETGID'', ''CHOWN'', ''FOWNER'', ''DAC_OVERRIDE''} \<and>
    (secAllowEscalation (ctSecurity c) \<or> secSeccomp (ctSecurity c) \<noteq> None \<longrightarrow>
      isBuildKitImage (ctImage c) \<and> ctMounts c = [] \<and> ctEnvFrom c = []) \<and>
    vmName ` set (ctMounts c) \<subseteq> fst ` set (jbVolumes job) \<and>
    (c \<notin> set (jbContainers job) \<longrightarrow> set (sources job c) \<subseteq> {EmptyDir} \<and> ctEnvFrom c = []) \<and>
    (\<forall>m \<in> set (ctMounts c). \<not> vmReadOnly m \<longrightarrow>
      (vmName m = ''actions'' \<longrightarrow> ctName c = ''setup-shim'') \<and> (\<forall>n. (vmName m, SecretSource n) \<notin> set (jbVolumes job))) \<and>
    (\<forall>s \<in> set (jcSecrets cfg). c \<in> set (jbContainers job) \<longrightarrow>
      jsName s \<in> set (ctEnvFrom c) \<or> SecretSource (jsName s) \<in> set (sources job c))"
proof -
  have "secDrop (ctSecurity c) = [''ALL''] \<and>
    set (secAdd (ctSecurity c)) \<subseteq> {''SETUID'', ''SETGID'', ''CHOWN'', ''FOWNER'', ''DAC_OVERRIDE''} \<and>
    (secAllowEscalation (ctSecurity c) \<or> secSeccomp (ctSecurity c) \<noteq> None \<longrightarrow>
      isBuildKitImage (ctImage c) \<and> ctMounts c = [] \<and> ctEnvFrom c = [])"
    using assms by (cases rule: container_security) (simp_all add: containerSecurity_def buildkit_security_def)
  then show ?thesis
    by (intro conjI impI ballI) (simp_all add: BuildJob_fields(4) [OF assms(1)] mounts_declared [OF assms(1,3)]
      helpers_see_nothing [OF assms(1,3)] container_writes [OF assms(1,3)] runner_gets_secrets [OF assms(1)],
      blast+)
qed

section \<open>The shared environment\<close>

text \<open>The variables set from fields of the task's context when those are not empty.\<close>

definition github_vars :: "(string \<times> string) list" where
  "github_vars =
    [(''GITHUB_SERVER_URL'', ''server_url''), (''GITHUB_REPOSITORY'', ''repository''),
     (''GITHUB_REPOSITORY_OWNER'', ''repository_owner''), (''GITHUB_RUN_ID'', ''run_id''),
     (''GITHUB_RUN_NUMBER'', ''run_number''), (''GITHUB_RUN_ATTEMPT'', ''run_attempt''), (''GITHUB_ACTOR'', ''actor''),
     (''GITHUB_EVENT_NAME'', ''event_name''), (''GITHUB_SHA'', ''sha''), (''GITHUB_REF'', ''ref''),
     (''GITHUB_REF_NAME'', ''ref_name''), (''GITHUB_REF_TYPE'', ''ref_type''), (''GITHUB_HEAD_REF'', ''head_ref''),
     (''GITHUB_BASE_REF'', ''base_ref''), (''GITHUB_RETENTION_DAYS'', ''retention_days''), (''GITHUB_TOKEN'', ''token''),
     (''GITHUB_ACTION'', ''action''), (''GITHUB_JOB'', ''job''), (''GITHUB_WORKFLOW'', ''workflow''),
     (''ACTIONS_ID_TOKEN_REQUEST_TOKEN'', ''forgejo_actions_id_token_request_token''),
     (''ACTIONS_ID_TOKEN_REQUEST_URL'', ''forgejo_actions_id_token_request_url'')]"

definition buildGitHubEnv :: "env_map \<Rightarrow> Task \<Rightarrow> env_map" where
  "buildGitHubEnv env task =
     foldl (\<lambda>env (envKey, ctxKey). if ctx_string task ctxKey \<noteq> [] then env(envKey \<mapsto> ctx_string task ctxKey) else env)
       env github_vars"

definition buildArtifactEnv :: "env_map \<Rightarrow> string \<Rightarrow> string \<Rightarrow> env_map" where
  "buildArtifactEnv env serverURL gitCloneURL =
     (let forgejoURL = TrimSuffix (if gitCloneURL \<noteq> [] then gitCloneURL else serverURL) ''/''
      in env(''ACTIONS_RUNTIME_URL'' \<mapsto> forgejoURL @ ''/api/actions_pipeline/'', ''ACTIONS_RESULTS_URL'' \<mapsto> forgejoURL @ ''/''))"

definition noProxy :: string where
  "noProxy = ''localhost,127.0.0.1,.svc,.cluster.local,'' @ ''.github.com,.githubusercontent.com,'' @ ''.monoloco.net,'' @
     ''.docker.io,.docker.com,'' @ ''.ghcr.io,'' @ ''.crates.io''"

definition buildAptProxyEnv :: "env_map \<Rightarrow> string \<Rightarrow> env_map" where
  "buildAptProxyEnv env aptProxyURL =
     (if aptProxyURL = [] then env
      else env(''http_proxy'' \<mapsto> aptProxyURL, ''HTTP_PROXY'' \<mapsto> aptProxyURL, ''no_proxy'' \<mapsto> noProxy, ''NO_PROXY'' \<mapsto> noProxy))"

text \<open>The environment all steps share; \<open>cacheURL\<close> is none without a cache server.\<close>

definition base_env :: "Task \<Rightarrow> env_map \<Rightarrow> string option \<Rightarrow> string \<Rightarrow> string \<Rightarrow> env_map" where
  "base_env task jobEnv cacheURL aptProxyURL gitCloneURL =
     (let env1 = (case cacheURL of
            None \<Rightarrow> jobEnv
          | Some url \<Rightarrow>
              (let e = jobEnv(''ACTIONS_CACHE_URL'' \<mapsto> url); token = ctx_string task ''gitea_runtime_token''
               in if token \<noteq> [] then e(''ACTIONS_RUNTIME_TOKEN'' \<mapsto> token) else e));
          env2 = buildAptProxyEnv env1 aptProxyURL;
          env3 = buildGitHubEnv env2 task
      in buildArtifactEnv env3 (ctx_string task ''server_url'') gitCloneURL)"

lemma github_vars_distinct: "distinct (map fst github_vars)"
  by (simp add: github_vars_def)

lemma set_vars_fold:
  "distinct (map fst vs) \<Longrightarrow>
    foldl (\<lambda>env (envKey, ctxKey). if get ctxKey \<noteq> [] then env(envKey \<mapsto> get ctxKey) else env) env vs x
      = (case map_of vs x of Some k \<Rightarrow> if get k \<noteq> [] then Some (get k) else env x | None \<Rightarrow> env x)"
proof (induction vs arbitrary: env)
  case (Cons v vs)
  obtain a b where v: "v = (a, b)" by fastforce
  have "map_of vs a = None" using Cons.prems v by (simp add: map_of_eq_None_iff)
  then show ?case using Cons v by (auto split: option.splits)
qed simp

lemma buildGitHubEnv_at:
  "buildGitHubEnv env task x =
    (case map_of github_vars x of
       Some k \<Rightarrow> if ctx_string task k \<noteq> [] then Some (ctx_string task k) else env x
     | None \<Rightarrow> env x)"
  unfolding buildGitHubEnv_def by (rule set_vars_fold [OF github_vars_distinct])

text \<open>
  Tokens in the environment and the log masks: the job token and the cache server's runtime
  token that the controller puts into every step's environment are among the values it masks in
  the log; the token for requesting identity tokens is put there too, but masking does not
  depend on it at all.
\<close>

theorem tokens_masked:
  assumes "ctx_string task ''token'' \<noteq> []"
    and "ctx_string task ''gitea_runtime_token'' \<noteq> []" "ctx_string task ''forgejo_actions_id_token_request_token'' \<noteq> []"
  shows "base_env task jobEnv (Some url) apt git ''GITHUB_TOKEN'' = Some (ctx_string task ''token'') \<and>
    ctx_string task ''token'' \<in> set (collectSecrets task) \<and>
    base_env task jobEnv (Some url) apt git ''ACTIONS_RUNTIME_TOKEN'' = Some (ctx_string task ''gitea_runtime_token'') \<and>
    ctx_string task ''gitea_runtime_token'' \<in> set (collectSecrets task) \<and>
    base_env task jobEnv (Some url) apt git ''ACTIONS_ID_TOKEN_REQUEST_TOKEN''
      = Some (ctx_string task ''forgejo_actions_id_token_request_token'') \<and>
    collectSecrets (task\<lparr>tkContext := (tkContext task)(''forgejo_actions_id_token_request_token'' := v)\<rparr>) = collectSecrets task"
  using assms
  by (simp add: base_env_def buildArtifactEnv_def buildGitHubEnv_at buildAptProxyEnv_def github_vars_def Let_def
    collectSecrets_def ctx_string_def map_get_def)

section \<open>Cached paths\<close>

definition hasTraversal :: "string \<Rightarrow> bool" where
  "hasTraversal p = list_ex (\<lambda>seg. seg = ''..'') (Split CHR ''/'' p)"

text \<open>The loop over the lines of \<^verbatim>\<open>INPUT_PATH\<close>; the error is the offending entry.\<close>

fun add_paths :: "string list \<Rightarrow> string list \<Rightarrow> string + string list" where
  "add_paths paths [] = Inr paths"
| "add_paths paths (line # lines) =
     (let entry = TrimSpace line in
      if entry = [] then add_paths paths lines
      else if hasTraversal entry then Inl entry
      else if entry \<in> set paths then add_paths paths lines
      else add_paths (paths @ [entry]) lines)"

definition restore_lines :: "string \<Rightarrow> string list" where
  "restore_lines rk = filter (\<lambda>e. e \<noteq> []) (map TrimSpace (Split NL rk))"

fun extract_loop :: "StepSpec list \<Rightarrow> string \<Rightarrow> string list \<Rightarrow> string list \<Rightarrow> string + (string \<times> string list \<times> string list)" where
  "extract_loop [] key paths restoreKeys = Inr (key, paths, restoreKeys)"
| "extract_loop (step # steps) key paths restoreKeys =
     (let k = map_get (spEnv step) ''INPUT_KEY'' in
      if k = [] then extract_loop steps key paths restoreKeys
      else
        let key' = (if key = [] then k else key);
            p = map_get (spEnv step) ''INPUT_PATH'';
            rk = map_get (spEnv step) ''INPUT_RESTORE-KEYS''
        in case (if p \<noteq> [] then add_paths paths (Split NL p) else Inr paths) of
             Inl entry \<Rightarrow> Inl entry
           | Inr paths' \<Rightarrow>
               extract_loop steps key' paths' (if rk \<noteq> [] then restoreKeys @ restore_lines rk else restoreKeys))"

definition extractCacheInfo :: "StepSpec list \<Rightarrow> string + (string \<times> string list \<times> string list)" where
  "extractCacheInfo steps = extract_loop steps [] [] []"

definition path_ok :: "string \<Rightarrow> bool" where
  "path_ok p \<longleftrightarrow> p \<noteq> [] \<and> \<not> hasTraversal p"

lemma add_paths_ok: "add_paths paths lines = Inr paths' \<Longrightarrow> list_all path_ok paths \<and> distinct paths \<Longrightarrow>
    list_all path_ok paths' \<and> distinct paths'"
  by (induction paths lines rule: add_paths.induct) (auto simp: Let_def path_ok_def split: if_splits)

lemma extract_loop_ok: "extract_loop steps key paths rks = Inr (key', paths', rks') \<Longrightarrow> list_all path_ok paths \<and> distinct paths \<Longrightarrow>
    list_all path_ok paths' \<and> distinct paths'"
proof (induction steps key paths rks rule: extract_loop.induct)
  case (2 step steps key paths rks)
  show ?case
  proof (cases "map_get (spEnv step) ''INPUT_KEY'' = []")
    case True
    with 2 show ?thesis by (simp add: Let_def)
  next
    case False
    let ?r = "if map_get (spEnv step) ''INPUT_PATH'' \<noteq> [] then add_paths paths (Split NL (map_get (spEnv step) ''INPUT_PATH'')) else Inr paths"
    obtain ps where ps: "?r = Inr ps" using "2.prems"(1) False by (auto simp: Let_def split: sum.splits)
    then have "list_all path_ok ps \<and> distinct ps" using add_paths_ok "2.prems"(2) by (auto split: if_splits)
    with 2 False ps show ?thesis by (simp add: Let_def)
  qed
qed auto

lemma resolve_confined:
  assumes "path_ok p" "list_all normal_elem home" "home \<noteq> []"
    and "resolvePath (abs_dir workspace) (abs_dir cache) (abs_dir home) p = Some (link, target)"
    and "list_all normal_elem workspace" "list_all normal_elem cache"
  shows "inside cache target \<and> (inside workspace link \<or> inside home link \<or> IsAbs p \<and> link = p)"
proof -
  let ?rest = "TrimPrefix (TrimPrefix p ''~'') ''/''"
  have up: "''..'' \<notin> set (Split CHR ''/'' p)" using assms(1) by (auto simp: path_ok_def hasTraversal_def list_ex_iff)
  have abs: "''..'' \<notin> set (Split CHR ''/'' (TrimPrefix q ''/''))" if "''..'' \<notin> set (Split CHR ''/'' q)" for q
    using that Split_append [of "CHR ''/''" "[]" "drop 1 q"]
    by (cases q) (auto simp: TrimPrefix_def HasPrefix_def prefix_def split: if_splits)
  have h: "''..'' \<notin> set (Split CHR ''/'' (TrimPrefix (abs_dir home) ''/''))"
    using abs [of "abs_dir home"] Split_abs_dir [OF assms(2)] assms(2,3) by (auto simp: list_all_iff normal_elem_def)
  show ?thesis
  proof (cases "p = ''~'' \<or> HasPrefix p ''~/''")
    case True
    have rest: "''..'' \<notin> set (Split CHR ''/'' ?rest)"
    proof (cases "p = ''~''")
      case False
      then obtain q where q: "p = CHR ''~'' # CHR ''/'' # q" using True by (auto simp: HasPrefix_def prefix_def)
      then show ?thesis using up Split_append [of "CHR ''/''" "''~''" q] by (auto simp: TrimPrefix_def HasPrefix_def)
    qed (simp add: TrimPrefix_def HasPrefix_def)
    have "link = filepath_Join [abs_dir home, ?rest]" "target = filepath_Join [abs_dir cache, TrimPrefix (abs_dir home) ''/'', ?rest]"
      using assms(4) True by (auto simp: resolvePath_def Let_def abs_dir_def)
    with Join_inside [OF assms(2), of "[?rest]"] Join_inside [OF assms(6), of "[TrimPrefix (abs_dir home) ''/'', ?rest]"] rest h
    show ?thesis by simp
  next
    case False
    then show ?thesis using assms(4) up abs [OF up] Join_inside [OF assms(6), of "[TrimPrefix p ''/'']"]
        Join_inside [OF assms(5), of "[p]"] Join_inside [OF assms(6), of "[p]"]
      by (auto simp: resolvePath_def split: if_splits)
  qed
qed

text \<open>
  Cached paths stay in place: the paths collected from a job are different, none is empty or
  has a parent step, and the entrypoint resolves each to a target inside the cache volume and to a
  link inside the workspace, inside the home directory, or at the absolute path that was given.
\<close>

theorem cache_paths_confined:
  assumes "extractCacheInfo steps = Inr (key, paths, restoreKeys)" "p \<in> set paths"
    and "list_all normal_elem workspace" "list_all normal_elem cache" "list_all normal_elem home" "home \<noteq> []"
    and "resolvePath (abs_dir workspace) (abs_dir cache) (abs_dir home) p = Some (link, target)"
  shows "distinct paths \<and> p \<noteq> [] \<and> inside cache target \<and>
    (inside workspace link \<or> inside home link \<or> IsAbs p \<and> link = p)"
proof -
  have "list_all path_ok paths \<and> distinct paths"
    using extract_loop_ok [of steps "[]" "[]" "[]"] assms(1) by (simp add: extractCacheInfo_def)
  moreover from this have "path_ok p" using assms(2) by (auto simp: list_all_iff)
  ultimately show ?thesis
    using resolve_confined [OF _ assms(5,6,7,3,4)] by (simp add: path_ok_def)
qed

section \<open>Witnesses\<close>

definition example_buildkit :: ContainerSpec where
  "example_buildkit = \<lparr>csImage = ''moby/buildkit:rootless'', csEnv = [], csPorts = [''1234:1234/tcp''], csCmd = []\<rparr>"

lemma example_services:
  "convertServices [(''bk'', Some example_buildkit)] =
    [\<lparr>svName = ''bk'', svImage = ''moby/buildkit:rootless'', svEnv = [], svPorts = [1234], svCmd = [],
      svArgs = [''--oci-worker-no-process-sandbox'', ''--addr=tcp://0.0.0.0:1234''], svSecurity = Some buildkit_security\<rparr>]"
  by code_simp

definition example_buildkit_job :: JobConfig where
  "example_buildkit_job = example_job_config\<lparr>jcServices := convertServices [(''bk'', Some example_buildkit)]\<rparr>"

lemma example_buildkit_job_services:
  "jcServices example_buildkit_job = convertServices [(''bk'', Some example_buildkit)]"
  "service_container (hd (jcServices example_buildkit_job)) \<in> set (init_containers example_buildkit_job d json)"
  by (simp_all add: example_buildkit_job_def example_buildkit_def init_containers_def Let_def)

lemma example_buildkit_job_escalates:
  "secAllowEscalation (ctSecurity (service_container (hd (jcServices example_buildkit_job))))"
  by code_simp

theorem pod_confined_witness:
  "case BuildJob (\<lambda>_. Some ''{}'') (Some ''x'') example_buildkit_job of
     Inl e \<Rightarrow> False
   | Inr job \<Rightarrow> isBuildKitImage (ctImage (service_container (hd (jcServices example_buildkit_job)))) \<and>
       ctMounts (service_container (hd (jcServices example_buildkit_job))) = []"
proof -
  obtain job where job: "BuildJob (\<lambda>_. Some ''{}'') (Some ''x'') example_buildkit_job = Inr job"
    "jbInit job = init_containers example_buildkit_job (delimiter ''x'') ''{}''"
    by (simp add: BuildJob_def)
  have "service_container (hd (jcServices example_buildkit_job)) \<in> set (jbInit job @ jbContainers job)"
    using job(2) example_buildkit_job_services(2) by simp
  from pod_confined [OF job(1) example_buildkit_job_services(1) this] job(1) example_buildkit_job_escalates
  show ?thesis by simp
qed

definition example_token_task :: Task where
  "example_token_task = \<lparr>tkId = 1, tkPayload = [], tkContext = [''token'' \<mapsto> ''t'', ''gitea_runtime_token'' \<mapsto> ''r'',
     ''forgejo_actions_id_token_request_token'' \<mapsto> ''o''], tkSecrets = [], tkVars = Map.empty, tkNeeds = Map.empty\<rparr>"

theorem tokens_masked_witness:
  "base_env example_token_task Map.empty (Some ''http://c'') [] [] ''ACTIONS_ID_TOKEN_REQUEST_TOKEN'' = Some ''o'' \<and>
   collectSecrets example_token_task = [''t'', ''r'']"
proof -
  have c: "ctx_string example_token_task ''token'' = ''t''" "ctx_string example_token_task ''gitea_runtime_token'' = ''r''"
    "ctx_string example_token_task ''forgejo_actions_id_token_request_token'' = ''o''"
    by (simp_all add: example_token_task_def ctx_string_def map_get_def)
  then show ?thesis
    using tokens_masked [of example_token_task Map.empty "''http://c''" "[]" "[]" None]
    by (simp add: collectSecrets_def example_token_task_def)
qed

definition example_cache_step :: StepSpec where
  "example_cache_step = empty_spec\<lparr>spEnv := [''INPUT_KEY'' \<mapsto> ''k'', ''INPUT_PATH'' \<mapsto> ''~/x'']\<rparr>"

lemma example_extract: "extractCacheInfo [example_cache_step] = Inr (''k'', [''~/x''], [])"
  by (simp add: extractCacheInfo_def example_cache_step_def map_get_def Let_def strings_simps char_in_def hasTraversal_def)

lemma example_resolve:
  "resolvePath (abs_dir [''workspace'']) (abs_dir [''cache'']) (abs_dir [''root'']) ''~/x'' = Some (''/root/x'', ''/cache/root/x'')"
  by code_simp

theorem cache_paths_confined_witness: "inside [''cache''] ''/cache/root/x''"
  using cache_paths_confined [OF example_extract, of "''~/x''" "[''workspace'']" "[''cache'']" "[''root'']" "''/root/x''" "''/cache/root/x''"]
    example_resolve by (simp add: normal_elem_def)

end
