(* ===== verification/Cluster.thy ===== *)
theory Cluster
  imports Prelude
begin

text \<open>
  What the sources rely on of the Kubernetes API: collections of named objects with labels, where
  listing with a selector returns exactly the objects that carry the selector's labels, creating
  an object whose name is taken fails, and deleting one that is missing fails. Whether the server
  answers is an argument of every call. The state of a cluster holds the objects drawbar makes:
  volume snapshots, volume claims and jobs. A resource quantity is kept as its text.
\<close>

record VolumeSnapshot =
  vsName :: string
  vsLabels :: env_map
  vsAnnotations :: env_map
  vsClass :: string
  vsSource :: string
  vsCreated :: int

record PVC =
  pvName :: string
  pvLabels :: env_map
  pvSize :: string
  pvDataSource :: "string option"
  pvStorageClass :: string

text \<open>A job as the controller sees it later: its labels and how many of its pods are active.\<close>

record KubeJob =
  kjName :: string
  kjLabels :: env_map
  kjActive :: int

record Cluster =
  clSnapshots :: "VolumeSnapshot list"
  clPVCs :: "PVC list"
  clJobs :: "KubeJob list"

datatype api_error = NoAnswer | AlreadyExists string | NotFound string

type_synonym selector = "(string \<times> string) list"

definition selects :: "selector \<Rightarrow> env_map \<Rightarrow> bool" where
  "selects sel labels = list_all (\<lambda>(k, v). labels k = Some v) sel"

definition api_list :: "('o \<Rightarrow> env_map) \<Rightarrow> bool \<Rightarrow> 'o list \<Rightarrow> selector \<Rightarrow> api_error + 'o list" where
  "api_list labels up objs sel = (if up then Inr (filter (\<lambda>x. selects sel (labels x)) objs) else Inl NoAnswer)"

definition api_create :: "('o \<Rightarrow> string) \<Rightarrow> bool \<Rightarrow> 'o list \<Rightarrow> 'o \<Rightarrow> api_error + 'o list" where
  "api_create name up objs x =
     (if \<not> up then Inl NoAnswer
      else if name x \<in> name ` set objs then Inl (AlreadyExists (name x))
      else Inr (objs @ [x]))"

definition api_delete :: "('o \<Rightarrow> string) \<Rightarrow> bool \<Rightarrow> 'o list \<Rightarrow> string \<Rightarrow> api_error + 'o list" where
  "api_delete name up objs n =
     (if \<not> up then Inl NoAnswer
      else if n \<notin> name ` set objs then Inl (NotFound n)
      else Inr (filter (\<lambda>x. name x \<noteq> n) objs))"

lemma filter_absent: "n \<notin> name ` set objs \<Longrightarrow> filter (\<lambda>x. name x \<noteq> n) objs = objs"
  by (induction objs) auto

text \<open>What clients of a collection may assume of it.\<close>

locale named_objects =
  fixes name :: "'o \<Rightarrow> string"
    and create :: "bool \<Rightarrow> 'o list \<Rightarrow> 'o \<Rightarrow> api_error + 'o list"
    and delete :: "bool \<Rightarrow> 'o list \<Rightarrow> string \<Rightarrow> api_error + 'o list"
  assumes create_new: "create up objs x = Inr objs' \<longleftrightarrow> up \<and> name x \<notin> name ` set objs \<and> objs' = objs @ [x]"
    and delete_old: "delete up objs n = Inr objs' \<longleftrightarrow> up \<and> n \<in> name ` set objs \<and> objs' = filter (\<lambda>x. name x \<noteq> n) objs"
begin

lemma create_distinct: "create up objs x = Inr objs' \<Longrightarrow> distinct (map name objs) \<Longrightarrow> distinct (map name objs')"
  by (auto simp: create_new)

lemma delete_distinct: "delete up objs n = Inr objs' \<Longrightarrow> distinct (map name objs) \<Longrightarrow> distinct (map name objs')"
  by (auto simp: delete_old distinct_map_filter)

text \<open>Deleting what was created restores the collection.\<close>

lemma create_delete:
  assumes "create up objs x = Inr objs'"
  shows "delete True objs' (name x) = Inr objs"
proof -
  have "filter (\<lambda>y. name y \<noteq> name x) objs = objs" using assms by (simp add: create_new filter_absent)
  then show ?thesis using assms by (auto simp: create_new delete_old)
qed

lemma create_keeps: "create up objs x = Inr objs' \<Longrightarrow> set objs' = insert x (set objs)"
  by (auto simp: create_new)

end

interpretation objects: named_objects name "api_create name" "api_delete name"
  by unfold_locales (auto simp: api_create_def api_delete_def)

end
