(* ===== verification/Snapshots.thy ===== *)
theory Snapshots
  imports K8sLabels Cluster
begin

text \<open>
  Cached workspaces as volume snapshots, from \<^verbatim>\<open>src/pkg/snapshot/snapshot.go\<close>.

  The digest \<^verbatim>\<open>sha256.Sum256\<close> is the parameter
  \<open>sha256\<close>, on byte strings. Times are in nanoseconds, and
  a day of the retention period has 24 hours (the controller runs in UTC).
\<close>

section \<open>Objects\<close>

definition labelManagedBy :: string where "labelManagedBy = ''app.kubernetes.io/managed-by''"
definition labelRepository :: string where "labelRepository = ''drawbar.dev/repository''"
definition labelCacheKey :: string where "labelCacheKey = ''drawbar.dev/cache-key''"
definition annotationKeyRaw :: string where "annotationKeyRaw = ''drawbar.dev/cache-key-raw''"
definition managerName :: string where "managerName = ''drawbar''"

lemmas snapshot_names = labelManagedBy_def labelRepository_def labelCacheKey_def annotationKeyRaw_def managerName_def

record Manager =
  mgSnapshotClass :: string
  mgStorageClass :: string
  mgPVCSize :: string
  mgRetentionDays :: int

abbreviation list_snapshots :: "bool \<Rightarrow> Cluster \<Rightarrow> selector \<Rightarrow> api_error + VolumeSnapshot list" where
  "list_snapshots up cl sel \<equiv> api_list vsLabels up (clSnapshots cl) sel"

section \<open>Lookup\<close>

definition HashCacheKey :: "(string \<Rightarrow> string) \<Rightarrow> string \<Rightarrow> string" where
  "HashCacheKey sha256 key = concat (map (\<lambda>c. hex_pad 2 (of_char c)) (take 16 (sha256 key)))"

text \<open>The loop of \<^verbatim>\<open>newestSnapshot\<close>: a later item replaces the latest only when it is newer.\<close>

fun newest_from :: "VolumeSnapshot \<Rightarrow> VolumeSnapshot list \<Rightarrow> VolumeSnapshot" where
  "newest_from latest [] = latest"
| "newest_from latest (s # items) = newest_from (if vsCreated s > vsCreated latest then s else latest) items"

definition newestSnapshot :: "VolumeSnapshot list \<Rightarrow> VolumeSnapshot option" where
  "newestSnapshot items = (case items of [] \<Rightarrow> None | s # _ \<Rightarrow> Some (newest_from s items))"

definition exact_selector :: "(string \<Rightarrow> string) \<Rightarrow> string \<Rightarrow> string \<Rightarrow> selector" where
  "exact_selector sha256 repo cacheKey =
     [(labelManagedBy, managerName), (labelRepository, SanitizeLabelValue repo), (labelCacheKey, HashCacheKey sha256 cacheKey)]"

definition findByExactKey ::
  "(string \<Rightarrow> string) \<Rightarrow> bool \<Rightarrow> Cluster \<Rightarrow> string \<Rightarrow> string \<Rightarrow> api_error + VolumeSnapshot option" where
  "findByExactKey sha256 up cl repo cacheKey =
     (case list_snapshots up cl (exact_selector sha256 repo cacheKey) of
        Inl e \<Rightarrow> Inl e
      | Inr items \<Rightarrow> Inr (newestSnapshot items))"

definition repo_selector :: "string \<Rightarrow> selector" where
  "repo_selector repo = [(labelManagedBy, managerName), (labelRepository, SanitizeLabelValue repo)]"

definition raw_key :: "VolumeSnapshot \<Rightarrow> string" where
  "raw_key s = map_get (vsAnnotations s) annotationKeyRaw"

text \<open>The inner loop: the newest of the items whose raw key starts with the prefix.\<close>

fun best_match :: "string \<Rightarrow> VolumeSnapshot option \<Rightarrow> VolumeSnapshot list \<Rightarrow> VolumeSnapshot option" where
  "best_match p best [] = best"
| "best_match p best (s # items) =
     best_match p
       (if HasPrefix (raw_key s) p \<and> (case best of None \<Rightarrow> True | Some b \<Rightarrow> vsCreated s > vsCreated b) then Some s else best)
       items"

fun first_prefix :: "VolumeSnapshot list \<Rightarrow> string list \<Rightarrow> (VolumeSnapshot \<times> string) option" where
  "first_prefix items [] = None"
| "first_prefix items (p # pfxs) =
     (let p' = TrimSpace p in
      if p' = [] then first_prefix items pfxs
      else case best_match p' None items of
        Some s \<Rightarrow> Some (s, p')
      | None \<Rightarrow> first_prefix items pfxs)"

definition findByPrefix ::
  "bool \<Rightarrow> Cluster \<Rightarrow> string \<Rightarrow> string list \<Rightarrow> api_error + (VolumeSnapshot \<times> string) option" where
  "findByPrefix up cl repo pfxs =
     (case list_snapshots up cl (repo_selector repo) of
        Inl e \<Rightarrow> Inl e
      | Inr items \<Rightarrow> Inr (first_prefix items pfxs))"

definition FindSnapshot ::
  "(string \<Rightarrow> string) \<Rightarrow> bool \<Rightarrow> bool \<Rightarrow> Cluster \<Rightarrow> string \<Rightarrow> string \<Rightarrow> string list \<Rightarrow> api_error + VolumeSnapshot option" where
  "FindSnapshot sha256 up1 up2 cl repo cacheKey restoreKeys =
     (case findByExactKey sha256 up1 cl repo cacheKey of
        Inl e \<Rightarrow> Inl e
      | Inr (Some snap) \<Rightarrow> Inr (Some snap)
      | Inr None \<Rightarrow>
          if restoreKeys \<noteq> [] then
            (case findByPrefix up2 cl repo restoreKeys of
               Inl e \<Rightarrow> Inl e
             | Inr (Some (snap, _)) \<Rightarrow> Inr (Some snap)
             | Inr None \<Rightarrow> Inr None)
          else Inr None)"

section \<open>Volumes and snapshots\<close>

definition mergeLabels :: "env_map \<Rightarrow> env_map \<Rightarrow> env_map" where
  "mergeLabels extra defaults = extra ++ defaults"

text \<open>Labels given with \<^verbatim>\<open>WithLabel\<close>, applied in order.\<close>

definition applyPVCOptions :: "(string \<times> string) list \<Rightarrow> env_map" where
  "applyPVCOptions opts = foldl (\<lambda>m (k, v). m(k \<mapsto> v)) Map.empty opts"

definition new_pvc :: "Manager \<Rightarrow> string option \<Rightarrow> string \<Rightarrow> (string \<times> string) list \<Rightarrow> PVC" where
  "new_pvc m src pvcName opts =
     \<lparr>pvName = pvcName, pvLabels = mergeLabels (applyPVCOptions opts) [labelManagedBy \<mapsto> managerName],
      pvSize = mgPVCSize m, pvDataSource = src, pvStorageClass = mgStorageClass m\<rparr>"

definition create_pvc :: "bool \<Rightarrow> Cluster \<Rightarrow> PVC \<Rightarrow> Cluster \<times> (api_error + PVC)" where
  "create_pvc up cl pvc =
     (case api_create pvName up (clPVCs cl) pvc of
        Inl e \<Rightarrow> (cl, Inl e)
      | Inr pvcs \<Rightarrow> (cl\<lparr>clPVCs := pvcs\<rparr>, Inr pvc))"

definition CreatePVCFromSnapshot ::
  "bool \<Rightarrow> Manager \<Rightarrow> Cluster \<Rightarrow> VolumeSnapshot \<Rightarrow> string \<Rightarrow> (string \<times> string) list \<Rightarrow> Cluster \<times> (api_error + PVC)" where
  "CreatePVCFromSnapshot up m cl snap pvcName opts = create_pvc up cl (new_pvc m (Some (vsName snap)) pvcName opts)"

definition CreateEmptyPVC :: "bool \<Rightarrow> Manager \<Rightarrow> Cluster \<Rightarrow> string \<Rightarrow> (string \<times> string) list \<Rightarrow> Cluster \<times> (api_error + PVC)" where
  "CreateEmptyPVC up m cl pvcName opts = create_pvc up cl (new_pvc m None pvcName opts)"

definition DeletePVC :: "bool \<Rightarrow> Cluster \<Rightarrow> string \<Rightarrow> Cluster \<times> (api_error + unit)" where
  "DeletePVC up cl pvcName =
     (case api_delete pvName up (clPVCs cl) pvcName of
        Inl e \<Rightarrow> (cl, Inl e)
      | Inr pvcs \<Rightarrow> (cl\<lparr>clPVCs := pvcs\<rparr>, Inr ()))"

definition SnapshotPVC ::
  "(string \<Rightarrow> string) \<Rightarrow> bool \<Rightarrow> int \<Rightarrow> Manager \<Rightarrow> Cluster \<Rightarrow> string \<Rightarrow> string \<Rightarrow> string \<Rightarrow> string
    \<Rightarrow> Cluster \<times> (api_error + VolumeSnapshot)" where
  "SnapshotPVC sha256 up now m cl pvcName snapshotName repo cacheKey =
     (let snap = \<lparr>vsName = snapshotName,
            vsLabels = [labelManagedBy \<mapsto> managerName, labelRepository \<mapsto> SanitizeLabelValue repo,
              labelCacheKey \<mapsto> HashCacheKey sha256 cacheKey],
            vsAnnotations = [annotationKeyRaw \<mapsto> cacheKey], vsClass = mgSnapshotClass m, vsSource = pvcName, vsCreated = now\<rparr>
      in case api_create vsName up (clSnapshots cl) snap of
           Inl e \<Rightarrow> (cl, Inl e)
         | Inr snaps \<Rightarrow> (cl\<lparr>clSnapshots := snaps\<rparr>, Inr snap))"

text \<open>
  Waiting for a snapshot. One poll is the answer (an error, or whether the snapshot is ready and
  its error message) and whether the context is done while the loop sleeps; running out of polls
  is no result.
\<close>

datatype snap_poll = PollFailed | PollState bool "string option"

datatype wait_error = GetFailed | SnapshotFailed string | WaitCancelled

fun WaitForSnapshot :: "(snap_poll \<times> bool) list \<Rightarrow> (wait_error + unit) option" where
  "WaitForSnapshot [] = None"
| "WaitForSnapshot ((PollFailed, _) # polls) = Some (Inl GetFailed)"
| "WaitForSnapshot ((PollState ready err, cancelled) # polls) =
     (if ready then Some (Inr ())
      else case err of
        Some msg \<Rightarrow> Some (Inl (SnapshotFailed msg))
      | None \<Rightarrow> if cancelled then Some (Inl WaitCancelled) else WaitForSnapshot polls)"

abbreviation Day :: int where "Day \<equiv> 24 * Hour"

text \<open>The loop over the expired snapshots; \<open>del\<close> says for which names the server answers.\<close>

fun gc_loop :: "(string \<Rightarrow> bool) \<Rightarrow> int \<Rightarrow> VolumeSnapshot list \<Rightarrow> Cluster \<Rightarrow> nat \<Rightarrow> Cluster \<times> nat" where
  "gc_loop del cutoff [] cl deleted = (cl, deleted)"
| "gc_loop del cutoff (s # items) cl deleted =
     (if vsCreated s < cutoff then
        (case api_delete vsName (del (vsName s)) (clSnapshots cl) (vsName s) of
           Inl _ \<Rightarrow> gc_loop del cutoff items cl deleted
         | Inr snaps \<Rightarrow> gc_loop del cutoff items (cl\<lparr>clSnapshots := snaps\<rparr>) (deleted + 1))
      else gc_loop del cutoff items cl deleted)"

definition GarbageCollect :: "bool \<Rightarrow> (string \<Rightarrow> bool) \<Rightarrow> int \<Rightarrow> Manager \<Rightarrow> Cluster \<Rightarrow> Cluster \<times> (api_error + nat)" where
  "GarbageCollect up del now m cl =
     (case list_snapshots up cl [(labelManagedBy, managerName)] of
        Inl e \<Rightarrow> (cl, Inl e)
      | Inr items \<Rightarrow> (case gc_loop del (now - mgRetentionDays m * Day) items cl 0 of (cl', n) \<Rightarrow> (cl', Inr n)))"

section \<open>Which snapshot is found\<close>

lemma newest_from_max: "newest_from s items \<in> insert s (set items) \<and>
    (\<forall>x \<in> insert s (set items). vsCreated x \<le> vsCreated (newest_from s items))"
  by (induction s items rule: newest_from.induct) fastforce+

lemma newestSnapshot_None [simp]: "newestSnapshot [] = None" "newestSnapshot items = None \<longleftrightarrow> items = []"
  by (simp_all add: newestSnapshot_def split: list.splits)

lemma newestSnapshot_Some: "newestSnapshot items = Some s \<Longrightarrow> s \<in> set items \<and> (\<forall>x \<in> set items. vsCreated x \<le> vsCreated s)"
  using newest_from_max [of "hd items" items] by (auto simp: newestSnapshot_def split: list.splits)

lemma best_match_None: "best_match p best items = None \<longleftrightarrow> best = None \<and> (\<forall>s \<in> set items. \<not> HasPrefix (raw_key s) p)"
  by (induction p best items rule: best_match.induct) (auto split: option.splits)

lemma best_match_Some: "best_match p best items = Some s \<Longrightarrow>
    (best = Some s \<or> s \<in> set items \<and> HasPrefix (raw_key s) p) \<and>
    (\<forall>x \<in> set items. HasPrefix (raw_key x) p \<longrightarrow> vsCreated x \<le> vsCreated s) \<and>
    (\<forall>b. best = Some b \<longrightarrow> vsCreated b \<le> vsCreated s)"
  by (induction p best items rule: best_match.induct) (fastforce split: option.splits if_splits)+

text \<open>The snapshots of a repository (by its label), and those of it whose raw key starts with a prefix.\<close>

definition repo_snapshots :: "Cluster \<Rightarrow> string \<Rightarrow> VolumeSnapshot list" where
  "repo_snapshots cl repo = filter (\<lambda>s. selects (repo_selector repo) (vsLabels s)) (clSnapshots cl)"

lemma first_prefix_Some: "first_prefix items ps = Some (s, p) \<Longrightarrow>
    \<exists>before q after. ps = before @ q # after \<and> p = TrimSpace q \<and> p \<noteq> [] \<and> best_match p None items = Some s \<and>
      (\<forall>r \<in> set before. TrimSpace r = [] \<or> (\<forall>x \<in> set items. \<not> HasPrefix (raw_key x) (TrimSpace r)))"
proof (induction ps)
  case (Cons q ps)
  show ?case
  proof (cases "TrimSpace q = [] \<or> best_match (TrimSpace q) None items = None")
    case True
    then have "first_prefix items ps = Some (s, p)" using Cons.prems by (auto simp: Let_def split: if_splits)
    from Cons.IH [OF this] obtain before q' after where "ps = before @ q' # after" "p = TrimSpace q'" "p \<noteq> []"
      "best_match p None items = Some s"
      "\<forall>r \<in> set before. TrimSpace r = [] \<or> (\<forall>x \<in> set items. \<not> HasPrefix (raw_key x) (TrimSpace r))" by blast
    with True show ?thesis by (intro exI [of _ "q # before"]) (auto simp: best_match_None)
  next
    case False
    then have "s = the (best_match (TrimSpace q) None items)" "p = TrimSpace q" using Cons.prems by (auto simp: Let_def)
    with False show ?thesis by (intro exI [of _ "[]"] exI [of _ q] exI [of _ ps]) auto
  qed
qed simp

text \<open>Every snapshot of drawbar carries the labels and the annotation of the key it was made for.\<close>

definition labelled :: "(string \<Rightarrow> string) \<Rightarrow> VolumeSnapshot \<Rightarrow> bool" where
  "labelled sha256 s \<longleftrightarrow> vsLabels s labelCacheKey = Some (HashCacheKey sha256 (raw_key s))"

definition no_collision :: "(string \<Rightarrow> string) \<Rightarrow> Cluster \<Rightarrow> string \<Rightarrow> bool" where
  "no_collision sha256 cl key \<longleftrightarrow>
     list_all (\<lambda>x. HashCacheKey sha256 (raw_key x) = HashCacheKey sha256 key \<longrightarrow> raw_key x = key) (clSnapshots cl)"

lemma SnapshotPVC_labelled:
  "list_all (labelled sha256) (clSnapshots cl) \<Longrightarrow>
    list_all (labelled sha256) (clSnapshots (fst (SnapshotPVC sha256 up now m cl pvc name repo key)))"
  by (auto simp: SnapshotPVC_def Let_def labelled_def raw_key_def map_get_def snapshot_names api_create_def)

text \<open>
  The cache volume a job starts from: when a snapshot is found, it is the newest one made for the
  job's own key, if there is any; otherwise the newest one whose key starts with the first restore
  key that matches any snapshot of the repository. (The digest of the key is assumed to
  differ from those of the other keys that are stored.)
\<close>

theorem found_snapshot:
  assumes "FindSnapshot sha256 up1 up2 cl repo key restoreKeys = Inr (Some s)"
    and "list_all (labelled sha256) (clSnapshots cl)" "no_collision sha256 cl key"
  shows "s \<in> set (repo_snapshots cl repo) \<and>
    (raw_key s = key \<and> (\<forall>x \<in> set (repo_snapshots cl repo). raw_key x = key \<longrightarrow> vsCreated x \<le> vsCreated s) \<or>
     (\<forall>x \<in> set (repo_snapshots cl repo). raw_key x \<noteq> key) \<and>
     (\<exists>before q after. restoreKeys = before @ q # after \<and> TrimSpace q \<noteq> [] \<and> HasPrefix (raw_key s) (TrimSpace q) \<and>
        (\<forall>x \<in> set (repo_snapshots cl repo). HasPrefix (raw_key x) (TrimSpace q) \<longrightarrow> vsCreated x \<le> vsCreated s) \<and>
        (\<forall>r \<in> set before. TrimSpace r = [] \<or> (\<forall>x \<in> set (repo_snapshots cl repo). \<not> HasPrefix (raw_key x) (TrimSpace r)))))"
proof -
  let ?items = "filter (\<lambda>s. selects (exact_selector sha256 repo key) (vsLabels s)) (clSnapshots cl)"
  have sel: "selects (exact_selector sha256 repo key) (vsLabels x) \<longleftrightarrow>
      selects (repo_selector repo) (vsLabels x) \<and> vsLabels x labelCacheKey = Some (HashCacheKey sha256 key)" for x
    by (auto simp: selects_def exact_selector_def repo_selector_def)
  have "vsLabels x labelCacheKey = Some (HashCacheKey sha256 key) \<longleftrightarrow> raw_key x = key" if "x \<in> set (clSnapshots cl)" for x
    using assms(2,3) that by (auto simp: list_all_iff labelled_def no_collision_def)
  then have exact: "x \<in> set ?items \<longleftrightarrow> x \<in> set (repo_snapshots cl repo) \<and> raw_key x = key" for x
    using sel by (auto simp: repo_snapshots_def)
  show ?thesis
  proof (cases "newestSnapshot ?items")
    case (Some t)
    then have "s = t" using assms(1)
      by (auto simp: FindSnapshot_def findByExactKey_def api_list_def split: if_splits)
    with newestSnapshot_Some [OF Some] exact show ?thesis by blast
  next
    case None
    then obtain p where p: "first_prefix (repo_snapshots cl repo) restoreKeys = Some (s, p)"
      using assms(1) by (auto simp: FindSnapshot_def findByExactKey_def findByPrefix_def api_list_def repo_snapshots_def
        split: if_splits option.splits sum.splits)
    have "?items = []" using None by simp
    then have "\<forall>x \<in> set (repo_snapshots cl repo). raw_key x \<noteq> key" using exact by (metis empty_iff empty_set)
    moreover obtain before q after where q: "restoreKeys = before @ q # after" "p = TrimSpace q" "p \<noteq> []"
      "best_match p None (repo_snapshots cl repo) = Some s"
      "\<forall>r \<in> set before. TrimSpace r = [] \<or> (\<forall>x \<in> set (repo_snapshots cl repo). \<not> HasPrefix (raw_key x) (TrimSpace r))"
      using first_prefix_Some [OF p] by blast
    ultimately show ?thesis using best_match_Some [OF q(4)] by blast
  qed
qed

text \<open>
  Repositories are told apart by their sanitized names only: a snapshot made for one repository
  is found for every other whose name sanitizes to the same label value, as that of an owner and
  a repository and that of a name with a dash in place of the slash do.
\<close>

theorem repositories_share_snapshots:
  assumes "SnapshotPVC sha256 True now m cl pvc name repo key = (cl', Inr s)"
    and "SanitizeLabelValue repo' = SanitizeLabelValue repo"
    and "\<forall>x \<in> set (clSnapshots cl). vsCreated x < now"
  shows "FindSnapshot sha256 True up2 cl' repo' key restoreKeys = Inr (Some s)"
proof -
  have cl': "clSnapshots cl' = clSnapshots cl @ [s]" and c: "vsCreated s = now"
    and sel: "selects (exact_selector sha256 repo' key) (vsLabels s)"
    using assms(1,2) by (auto simp: SnapshotPVC_def Let_def selects_def exact_selector_def snapshot_names api_create_def split: if_splits)
  let ?items = "filter (\<lambda>s. selects (exact_selector sha256 repo' key) (vsLabels s)) (clSnapshots cl')"
  have s: "s \<in> set ?items" using cl' sel by simp
  then have "?items \<noteq> []" by (metis empty_iff empty_set)
  then obtain t where t: "newestSnapshot ?items = Some t" using newestSnapshot_None(2) by (metis not_None_eq)
  have ge: "vsCreated s \<le> vsCreated t" and "t \<in> set ?items" using newestSnapshot_Some [OF t] s by blast+
  then have "t \<in> set (clSnapshots cl')" by (meson filter_is_subset subsetD)
  then have "t \<in> set (clSnapshots cl) \<or> t = s" by (auto simp: cl')
  then have "t = s" using assms(3) ge c by (meson not_le)
  with t show ?thesis by (simp add: FindSnapshot_def findByExactKey_def api_list_def)
qed

section \<open>Retention\<close>

lemma gc_loop_snapshots:
  "clSnapshots (fst (gc_loop del cutoff items cl n)) =
     filter (\<lambda>x. \<not> (\<exists>s \<in> set items. vsName s = vsName x \<and> vsCreated s < cutoff \<and> del (vsName s))) (clSnapshots cl)"
proof (induction del cutoff items cl n rule: gc_loop.induct)
  case (2 del cutoff s items cl deleted)
  let ?dead = "vsCreated s < cutoff \<and> del (vsName s)"
  have gone: "vsName x \<noteq> vsName s" if "x \<in> set (clSnapshots cl)" "vsName s \<notin> vsName ` set (clSnapshots cl)" for x
    using that by (metis imageI)
  show ?case
  proof (cases "?dead \<and> vsName s \<in> vsName ` set (clSnapshots cl)")
    case True
    then show ?thesis using "2.IH"(2) by (auto simp: api_delete_def intro!: filter_cong)
  next
    case False
    then show ?thesis using "2.IH"(1,3) gone by (auto simp: api_delete_def intro!: filter_cong)
  qed
qed simp

lemma gc_loop_count:
  "distinct (map vsName items) \<Longrightarrow> set items \<subseteq> set (clSnapshots cl) \<Longrightarrow>
    snd (gc_loop del cutoff items cl n) = n + length (filter (\<lambda>s. vsCreated s < cutoff \<and> del (vsName s)) items)"
proof (induction del cutoff items cl n rule: gc_loop.induct)
  case (2 del cutoff s items cl deleted)
  have "set items \<subseteq> {x \<in> set (clSnapshots cl). vsName x \<noteq> vsName s}"
    using "2.prems" by (auto simp: image_iff)
  then show ?case using 2 by (auto simp: subset_iff api_delete_def)
qed simp

text \<open>
  Garbage collection keeps exactly the snapshots that are not drawbar's, are young enough, or could
  not be deleted, and returns the number of those it deleted.
\<close>

theorem snapshots_retained:
  assumes "distinct (map vsName (clSnapshots cl))" "GarbageCollect True del now m cl = (cl', Inr n)"
  shows "clSnapshots cl' = filter (\<lambda>s. \<not> (vsLabels s labelManagedBy = Some managerName \<and>
      vsCreated s < now - mgRetentionDays m * Day \<and> del (vsName s))) (clSnapshots cl) \<and>
    n = length (clSnapshots cl) - length (clSnapshots cl') \<and> clPVCs cl' = clPVCs cl"
proof -
  let ?cut = "now - mgRetentionDays m * Day"
  define items where "items = filter (\<lambda>s. selects [(labelManagedBy, managerName)] (vsLabels s)) (clSnapshots cl)"
  have g: "gc_loop del ?cut items cl 0 = (cl', n)"
    using assms(2) by (auto simp: GarbageCollect_def api_list_def items_def split: prod.splits)
  have same: "x = s" if "x \<in> set (clSnapshots cl)" "s \<in> set items" "vsName s = vsName x" for x s
    using assms(1) that by (auto simp: items_def distinct_map inj_on_def)
  have in_items: "x \<in> set items \<longleftrightarrow> x \<in> set (clSnapshots cl) \<and> vsLabels x labelManagedBy = Some managerName" for x
    by (auto simp: items_def selects_def)
  let ?dead = "\<lambda>s. vsLabels s labelManagedBy = Some managerName \<and> vsCreated s < ?cut \<and> del (vsName s)"
  have kept: "clSnapshots cl' = filter (\<lambda>s. \<not> ?dead s) (clSnapshots cl)"
    using gc_loop_snapshots [of del ?cut items cl 0] g same in_items by (auto intro!: filter_cong)
  have "distinct (map vsName items)" using assms(1) by (simp add: items_def distinct_map_filter)
  then have "n = length (filter (\<lambda>s. vsCreated s < ?cut \<and> del (vsName s)) items)"
    using gc_loop_count [of items cl del ?cut 0] g by (auto simp: items_def)
  also have "\<dots> = length (filter ?dead (clSnapshots cl))"
    by (auto simp: items_def selects_def intro!: arg_cong [where f = length] filter_cong)
  finally have "n = length (filter ?dead (clSnapshots cl))" .
  moreover have "length (filter ?dead (clSnapshots cl)) + length (clSnapshots cl') = length (clSnapshots cl)"
    unfolding kept by (rule sum_length_filter_compl)
  ultimately have "n = length (clSnapshots cl) - length (clSnapshots cl')" by linarith
  moreover have "clPVCs (fst (gc_loop del c ss cl k)) = clPVCs cl" for c ss k
    by (induction del c ss cl k rule: gc_loop.induct) (auto split: sum.splits)
  then have "clPVCs cl' = clPVCs cl" using g by (metis fst_conv)
  ultimately show ?thesis using kept by blast
qed

lemma GarbageCollect_answered: "\<exists>cl' n. GarbageCollect True del now m cl = (cl', Inr n)"
  by (simp add: GarbageCollect_def api_list_def split: prod.splits)

section \<open>Witnesses\<close>

definition example_cluster :: Cluster where
  "example_cluster = \<lparr>clSnapshots = [], clPVCs = [], clJobs = []\<rparr>"

definition example_manager :: Manager where
  "example_manager = \<lparr>mgSnapshotClass = ''zfs'', mgStorageClass = ''zfs'', mgPVCSize = ''10Gi'', mgRetentionDays = 7\<rparr>"

definition example_snapshot :: "(string \<Rightarrow> string) \<Rightarrow> VolumeSnapshot" where
  "example_snapshot sha256 = \<lparr>vsName = ''snap-1'',
     vsLabels = [labelManagedBy \<mapsto> managerName, labelRepository \<mapsto> SanitizeLabelValue ''a/b'', labelCacheKey \<mapsto> HashCacheKey sha256 ''k''],
     vsAnnotations = [annotationKeyRaw \<mapsto> ''k''], vsClass = ''zfs'', vsSource = ''cache-1'', vsCreated = 5\<rparr>"

lemma example_snapshot_made:
  "SnapshotPVC sha256 True 5 example_manager example_cluster ''cache-1'' ''snap-1'' ''a/b'' ''k''
    = (\<lparr>clSnapshots = [example_snapshot sha256], clPVCs = [], clJobs = []\<rparr>, Inr (example_snapshot sha256))"
  by (simp add: SnapshotPVC_def Let_def api_create_def example_manager_def example_cluster_def example_snapshot_def)

lemma example_repo_labels: "SanitizeLabelValue ''a-b'' = SanitizeLabelValue ''a/b''"
  by code_simp

theorem repositories_share_snapshots_witness:
  "FindSnapshot (\<lambda>s. s) True True \<lparr>clSnapshots = [example_snapshot (\<lambda>s. s)], clPVCs = [], clJobs = []\<rparr> ''a-b'' ''k'' []
    = Inr (Some (example_snapshot (\<lambda>s. s)))"
  using repositories_share_snapshots [OF example_snapshot_made [of "\<lambda>s. s"] example_repo_labels]
  by (simp add: example_cluster_def)

lemma example_found:
  "FindSnapshot (\<lambda>s. s) True True \<lparr>clSnapshots = [example_snapshot (\<lambda>s. s)], clPVCs = [], clJobs = []\<rparr> ''a/b'' ''key-2'' [''k'']
    = Inr (Some (example_snapshot (\<lambda>s. s)))"
  by (simp add: FindSnapshot_def findByExactKey_def findByPrefix_def api_list_def selects_def exact_selector_def
    repo_selector_def example_snapshot_def snapshot_names newestSnapshot_def HashCacheKey_def raw_key_def map_get_def
    HasPrefix_def strings_simps char_in_def Let_def)

theorem found_snapshot_witness:
  "HasPrefix (raw_key (example_snapshot (\<lambda>s. s))) ''k''"
proof -
  have t: "TrimSpace ''k'' = ''k''" by (simp add: strings_simps char_in_def)
  have "list_all (labelled (\<lambda>s. s)) [example_snapshot (\<lambda>s. s)]"
    by (simp add: labelled_def example_snapshot_def raw_key_def map_get_def snapshot_names)
  moreover have "raw_key (example_snapshot (\<lambda>s. s)) = ''k''"
    by (simp add: example_snapshot_def raw_key_def map_get_def)
  moreover have "HashCacheKey (\<lambda>s. s) ''k'' \<noteq> HashCacheKey (\<lambda>s. s) ''key-2''"
    by (simp add: HashCacheKey_def numeral_2_eq_2)
  ultimately show ?thesis
    using found_snapshot [OF example_found] t by (simp add: no_collision_def Cons_eq_append_conv)
qed

theorem snapshots_retained_witness:
  "clSnapshots (fst (GarbageCollect True (\<lambda>_. True) (8 * Day) example_manager \<lparr>clSnapshots = [example_snapshot (\<lambda>s. s)], clPVCs = [], clJobs = []\<rparr>)) = []"
proof -
  obtain cl' n where g: "GarbageCollect True (\<lambda>_. True) (8 * Day) example_manager \<lparr>clSnapshots = [example_snapshot (\<lambda>s. s)], clPVCs = [], clJobs = []\<rparr> = (cl', Inr n)"
    using GarbageCollect_answered by blast
  have "clSnapshots cl' = []"
    using snapshots_retained [OF _ g] by (simp add: example_snapshot_def example_manager_def snapshot_names)
  then show ?thesis by (simp only: g fst_conv)
qed

end
