(* ===== verification/TaskHandler.thy ===== *)
theory TaskHandler
  imports TaskEnv Snapshots Watcher_Props
begin

text \<open>
  The life of one task, from \<^verbatim>\<open>makeTaskHandler\<close>, \<^verbatim>\<open>reportFailure\<close> and \<^verbatim>\<open>runShutdownRecovery\<close> of
  \<^verbatim>\<open>src/cmd/controller/main.go\<close>: prepare the steps, make the cache volume, create the job, watch it,
  report, and clean up. The handler's actions towards the forge are a list of effects, in their
  order; the cluster and the clones on disk are passed through.

  The record \<open>handler_world\<close> holds what the surroundings answer: the workflow reader, the source
  of actions, the JSON encoder and the random bytes, whether each call to the cluster is answered,
  what the watcher sees of the job, what the log reader, the event reader and the flusher do to the
  reporter meanwhile, how the forge answers the attempts of the final report, how errors read as text, and the clock.

  The handler's context may be cancelled while the handler runs; \<open>hwCancel\<close> says where the handler first
  finds it done. From there on every call that is given this context fails, and \<^verbatim>\<open>Close\<close> on it sends nothing. A
  cancellation after the handler has looked at the context behind the watch shows as calls that are not answered.
  The configured timeout in seconds is the truncated quotient (exact below \<open>2 ^ 22\<close> seconds). A panic is not modelled.
\<close>

section \<open>Configuration and surroundings\<close>

record JobSecret =
  seName :: string
  seMountPath :: string

definition convertJobSecrets :: "JobSecret list \<Rightarrow> JobSecretMount list" where
  "convertJobSecrets secrets = map (\<lambda>s. \<lparr>jsName = seName s, jsMountPath = seMountPath s\<rparr>) secrets"

record TaskHandlerConfig =
  hcLabels :: "Label list"
  hcNamespace :: string
  hcTimeout :: int
  hcGitCloneURL :: string
  hcActionsURL :: string
  hcControllerImage :: string
  hcCacheURL :: "string option"
  hcJobSecrets :: "JobSecret list"
  hcSnapshots :: "Manager option"
  hcAptProxyURL :: string

text \<open>Where the handler meets its context: preparing the steps, the cache volume, creating the job, behind the watch.\<close>

datatype moment = AtPrepare | AtVolume | AtCreate | AtWatch

fun moment_rank :: "moment \<Rightarrow> nat" where
  "moment_rank AtPrepare = 0"
| "moment_rank AtVolume = 1"
| "moment_rank AtCreate = 2"
| "moment_rank AtWatch = 3"

datatype task_failure =
    ParseFailed parse_error
  | StepFailed prep_error
  | NoExecutableSteps
  | InvalidCachePath string

datatype job_failure = JobNotBuilt build_error | JobNotCreated api_error | WatchFailed watch_error | ControllerRestart

record handler_world =
  hwRead :: "string \<Rightarrow> Workflow option"
  hwLoad :: "string \<Rightarrow> loader"
  hwDepth :: nat
  hwParseFloat :: "string \<Rightarrow> float64 option"
  hwMarshal :: "Manifest \<Rightarrow> string option"
  hwRandom :: "string option"
  hwSha256 :: "string \<Rightarrow> string"
  hwUpFind :: "bool \<times> bool"
  hwUpClaim :: bool
  hwUpJob :: bool
  hwUpSnapshot :: bool
  hwUpDelete :: bool
  hwUpDeleteJob :: bool
  hwJob :: job_world
  hwCalls :: "rep_call list"
  hwSnapPolls :: "(snap_poll \<times> bool) list"
  hwForge :: "nat \<Rightarrow> string attempt"
  hwTaskError :: "task_failure \<Rightarrow> string"
  hwJobError :: "job_failure \<Rightarrow> string"
  hwCancel :: "moment option"
  hwNow :: int

definition ctx_done :: "handler_world \<Rightarrow> moment \<Rightarrow> bool" where
  "ctx_done w m = (case hwCancel w of None \<Rightarrow> False | Some m0 \<Rightarrow> moment_rank m0 \<le> moment_rank m)"

text \<open>A call with a context that is done fails at once, and so does the wait before the next attempt.\<close>

definition dead_calls :: "nat \<Rightarrow> string attempt" where
  "dead_calls i = \<lparr>aLog = Inl ''context canceled'', aTask = Inl ''context canceled'', aWait = False\<rparr>"

definition forge_at :: "handler_world \<Rightarrow> moment \<Rightarrow> nat \<Rightarrow> string attempt" where
  "forge_at w m = (if ctx_done w m then dead_calls else hwForge w)"

datatype effect =
    ActiveJobs int                        \<comment> \<open>change of the shared counter\<close>
  | FailureReport task_failure "Request list" bool \<comment> \<open>a reporter of its own, closed with a failure\<close>
  | ReporterStarted nat "string list"     \<comment> \<open>number of steps and secrets; its daemon runs\<close>
  | JobCreated Job
  | LogLine job_failure
  | Closed Result "Request list" bool     \<comment> \<open>\<^verbatim>\<open>Close\<close> with the handler's context: the requests, and whether it returned no error\<close>
  | ClosedOnShutdown Result "Request list" bool \<comment> \<open>\<^verbatim>\<open>Close\<close> with a fresh context of five seconds\<close>

section \<open>Reports\<close>

definition close_reporter :: "(nat \<Rightarrow> string attempt) \<Rightarrow> int \<Rightarrow> Reporter \<Rightarrow> Result \<Rightarrow> Request list \<times> bool" where
  "close_reporter forge now rep result =
     (case Close forge now rep result of (_, reqs, _, res) \<Rightarrow> (reqs, res = close_result.Closed))"

fun task_failure_text :: "(task_failure \<Rightarrow> string) \<Rightarrow> task_failure \<Rightarrow> string" where
  "task_failure_text err (ParseFailed e) = ''Failed to parse workflow: '' @ err (ParseFailed e)"
| "task_failure_text err (StepFailed (ActionLoadFailed ref e)) = ''Failed to load action '' @ ref @ '': '' @ err (StepFailed (ActionLoadFailed ref e))"
| "task_failure_text err (StepFailed (ActionBuildFailed ref e)) = ''Failed to build action '' @ ref @ '': '' @ err (StepFailed (ActionBuildFailed ref e))"
| "task_failure_text err NoExecutableSteps = ''No executable steps found''"
| "task_failure_text err (InvalidCachePath entry) = ''Invalid cache path: '' @ err (InvalidCachePath entry)"

fun job_failure_text :: "(job_failure \<Rightarrow> string) \<Rightarrow> job_failure \<Rightarrow> string" where
  "job_failure_text err (JobNotBuilt e) = ''Failed to build k8s job: '' @ err (JobNotBuilt e)"
| "job_failure_text err (JobNotCreated e) = ''Failed to create k8s job: '' @ err (JobNotCreated e)"
| "job_failure_text err (WatchFailed e) = ''Job execution error: '' @ err (WatchFailed e)"
| "job_failure_text err ControllerRestart = ''controller restart, results may be incomplete''"

definition reportFailure :: "(nat \<Rightarrow> 'e attempt) \<Rightarrow> int \<Rightarrow> int \<Rightarrow> Task \<Rightarrow> string \<Rightarrow> Reporter \<times> Request list \<times> int list \<times> 'e close_result" where
  "reportFailure w now stop task message = Close w stop (AddLog now (New (tkId task) 0) message) RESULT_FAILURE"

text \<open>The failure of a task that never became a job, on the handler's context.\<close>

definition report_failure :: "handler_world \<Rightarrow> moment \<Rightarrow> Task \<Rightarrow> task_failure \<Rightarrow> effect" where
  "report_failure w m task e =
     (case reportFailure (forge_at w m) (hwNow w) (hwNow w) task (task_failure_text (hwTaskError w) e) of
        (_, reqs, _, res) \<Rightarrow> FailureReport e reqs (res = close_result.Closed))"

definition log_failure :: "handler_world \<Rightarrow> job_failure \<Rightarrow> Reporter \<Rightarrow> Reporter" where
  "log_failure w f rep = AddLog (hwNow w) rep (job_failure_text (hwJobError w) f)"

text \<open>The end of a task whose job could not be made.\<close>

definition job_failed :: "handler_world \<Rightarrow> Reporter \<Rightarrow> job_failure \<Rightarrow> effect list" where
  "job_failed w rep f =
     (case close_reporter (forge_at w AtCreate) (hwNow w) (log_failure w f rep) RESULT_FAILURE of
        (reqs, ok) \<Rightarrow> [LogLine f, Closed RESULT_FAILURE reqs ok])"

definition new_reporter :: "Task \<Rightarrow> StepSpec list \<Rightarrow> Reporter" where
  "new_reporter task steps = RunDaemon (SetSecrets (New (tkId task) (length steps)) (collectSecrets task))"

section \<open>Preparing the steps\<close>

definition resolved_actions_url :: "TaskHandlerConfig \<Rightarrow> Task \<Rightarrow> string" where
  "resolved_actions_url cfg task =
     (if hcActionsURL cfg \<noteq> [] then hcActionsURL cfg
      else if ctx_string task ''gitea_default_actions_url'' \<noteq> [] then ctx_string task ''gitea_default_actions_url''
      else ''https://github.com'')"

definition prepare_task ::
  "('e, 'v) interpreter \<Rightarrow> TaskHandlerConfig \<Rightarrow> handler_world \<Rightarrow> repo_cache \<Rightarrow> Task
    \<Rightarrow> (task_failure + ParsedJob \<times> StepSpec list \<times> ActionMeta list) \<times> repo_cache" where
  "prepare_task interp cfg w disk task =
     (case ParseTask (hwRead w) task of
        Inl e \<Rightarrow> (Inl (ParseFailed e), disk)
      | Inr parsed \<Rightarrow>
          (case workflow_steps interp (BuildEnvironment task (wjEnv (pjJob parsed)))
                  \<lparr>xpLoad = hwLoad w (resolved_actions_url cfg task), xpDepth = hwDepth w, xpParseFloat = hwParseFloat w\<rparr>
                  0 (wjSteps (pjJob parsed)) [] [] (NewExpandCtx disk) of
             (Inl e, ectx) \<Rightarrow> (Inl (StepFailed e), exCache ectx)
           | (Inr (steps, metas), ectx) \<Rightarrow>
               (if steps = [] then (Inl NoExecutableSteps, exCache ectx)
                else (Inr (parsed, steps, metas), exCache ectx))))"

section \<open>The cache volume\<close>

text \<open>The cluster, the claim's name (empty when there is none), the cache key and the paths.\<close>

definition claim_name :: "Task \<Rightarrow> string" where
  "claim_name task = ''cache-'' @ Itoa (tkId task)"

definition cache_volume ::
  "TaskHandlerConfig \<Rightarrow> handler_world \<Rightarrow> Cluster \<Rightarrow> Task \<Rightarrow> StepSpec list
    \<Rightarrow> string + (Cluster \<times> string \<times> string \<times> string list)" where
  "cache_volume cfg w cl task steps =
     (case hcSnapshots cfg of
        None \<Rightarrow> Inr (cl, [], [], [])
      | Some m \<Rightarrow>
          (case extractCacheInfo steps of
             Inl entry \<Rightarrow> Inl entry
           | Inr (key, paths, restoreKeys) \<Rightarrow>
               if key \<noteq> [] \<and> paths \<noteq> [] then
                 (let repository = ctx_string task ''repository'';
                      up = (\<not> ctx_done w AtVolume);
                      found = FindSnapshot (hwSha256 w) (fst (hwUpFind w) \<and> up) (snd (hwUpFind w) \<and> up) cl repository key restoreKeys;
                      snap = (case found of Inl _ \<Rightarrow> None | Inr s \<Rightarrow> s);
                      opts = [(''drawbar.dev/task-id'', Itoa (tkId task))];
                      made = (case snap of
                          Some s \<Rightarrow> CreatePVCFromSnapshot (hwUpClaim w \<and> up) m cl s (claim_name task) opts
                        | None \<Rightarrow> CreateEmptyPVC (hwUpClaim w \<and> up) m cl (claim_name task) opts)
                  in case made of
                       (cl', Inl _) \<Rightarrow> Inr (cl', [], key, paths)
                     | (cl', Inr _) \<Rightarrow> Inr (cl', claim_name task, key, paths))
               else Inr (cl, [], key, paths)))"

section \<open>The job\<close>

fun action_fetches :: "string \<Rightarrow> string list \<Rightarrow> ActionMeta list \<Rightarrow> ActionFetch list" where
  "action_fetches base seen [] = []"
| "action_fetches base seen (m # metas) =
     (if amDir m = [] \<or> amMagic m \<or> amDir m \<in> set seen then action_fetches base seen metas
      else \<lparr>afDir = amDir m, afURL = TrimRight base ''/'' @ ''/_apis/actions/'' @ amDir m @ ''/tar''\<rparr>
             # action_fetches base (amDir m # seen) metas)"

definition job_config ::
  "TaskHandlerConfig \<Rightarrow> Task \<Rightarrow> ParsedJob \<Rightarrow> StepSpec list \<Rightarrow> ActionMeta list \<Rightarrow> string \<Rightarrow> string list \<Rightarrow> JobConfig" where
  "job_config cfg task parsed steps metas pvc paths =
     \<lparr>jcTaskID = tkId task, jcRunID = ctx_string task ''run_id'', jcJobName = pjJobID parsed, jcNamespace = hcNamespace cfg,
      jcImage = resolveJobImage (hcLabels cfg) (wjRunsOn (pjJob parsed)) (wjContainer (pjJob parsed)),
      jcControllerImage = hcControllerImage cfg, jcSteps = steps,
      jcBaseEnv = base_env task (wjEnv (pjJob parsed)) (hcCacheURL cfg) (hcAptProxyURL cfg) (hcGitCloneURL cfg),
      jcServices = convertServices (wjServices (pjJob parsed)),
      jcTimeout = (if hcTimeout cfg > 0 then hcTimeout cfg div Second else 0),
      jcActions = (case hcCacheURL cfg of None \<Rightarrow> [] | Some base \<Rightarrow> action_fetches base [] metas),
      jcSecrets = convertJobSecrets (hcJobSecrets cfg),
      jcEvalContext = Some (buildEvalContext task (wjEnv (pjJob parsed))), jcPVC = pvc, jcPaths = paths\<rparr>"

text \<open>A job that was just created has no pod yet; the job controller of the cluster counts its pod later.\<close>

definition kube_job :: "Job \<Rightarrow> KubeJob" where
  "kube_job job = \<lparr>kjName = jbName job, kjLabels = map_of (jbLabels job), kjActive = 0\<rparr>"

section \<open>After the watch\<close>

definition delete_claim :: "TaskHandlerConfig \<Rightarrow> handler_world \<Rightarrow> Cluster \<Rightarrow> string \<Rightarrow> Cluster" where
  "delete_claim cfg w cl pvc =
     (if pvc \<noteq> [] \<and> hcSnapshots cfg \<noteq> None then fst (DeletePVC (hwUpDelete w) cl pvc) else cl)"

definition runShutdownRecovery ::
  "TaskHandlerConfig \<Rightarrow> handler_world \<Rightarrow> Cluster \<Rightarrow> Reporter \<Rightarrow> string \<Rightarrow> string \<Rightarrow> effect list \<times> Cluster" where
  "runShutdownRecovery cfg w cl rep jobName pvc =
     (let (reqs, ok) = close_reporter (hwForge w) (hwNow w) (log_failure w ControllerRestart rep) RESULT_FAILURE;
          cl1 = (case api_delete kjName (hwUpDeleteJob w) (clJobs cl) jobName of Inl _ \<Rightarrow> cl | Inr jobs \<Rightarrow> cl\<lparr>clJobs := jobs\<rparr>)
      in ([LogLine ControllerRestart, ClosedOnShutdown RESULT_FAILURE reqs ok], delete_claim cfg w cl1 pvc))"

text \<open>The snapshot of a successful job, and the wait until it is ready; no result while that has not ended.\<close>

definition keep_snapshot ::
  "TaskHandlerConfig \<Rightarrow> handler_world \<Rightarrow> Cluster \<Rightarrow> Task \<Rightarrow> Result \<Rightarrow> string \<Rightarrow> string \<Rightarrow> Cluster option" where
  "keep_snapshot cfg w cl task result pvc key =
     (case hcSnapshots cfg of
        None \<Rightarrow> Some cl
      | Some m \<Rightarrow>
          if pvc \<noteq> [] \<and> result = RESULT_SUCCESS \<and> key \<noteq> [] then
            (case SnapshotPVC (hwSha256 w) (hwUpSnapshot w) (hwNow w) m cl pvc (''snap-'' @ Itoa (tkId task))
                    (ctx_string task ''repository'') key of
               (cl', Inl _) \<Rightarrow> Some cl'
             | (cl', Inr _) \<Rightarrow> map_option (\<lambda>_. cl') (WaitForSnapshot (hwSnapPolls w)))
          else Some cl)"

definition after_watch ::
  "TaskHandlerConfig \<Rightarrow> handler_world \<Rightarrow> Cluster \<Rightarrow> Task \<Rightarrow> Reporter \<Rightarrow> string \<Rightarrow> string \<Rightarrow> string \<Rightarrow> Result \<times> watch_error option
    \<Rightarrow> (effect list \<times> Cluster) option" where
  "after_watch cfg w cl task rep jobName pvc key watched =
     (let (result, logged, rep') = (case watched of
            (_, Some e) \<Rightarrow> (RESULT_FAILURE, [LogLine (WatchFailed e)], log_failure w (WatchFailed e) rep)
          | (result, None) \<Rightarrow> (result, [], rep))
      in if ctx_done w AtWatch then
           (case runShutdownRecovery cfg w cl rep' jobName pvc of (effs, cl') \<Rightarrow> Some (logged @ effs, cl'))
         else
           (case close_reporter (hwForge w) (hwNow w) rep' result of
              (reqs, ok) \<Rightarrow>
                map_option (\<lambda>cl'. (logged @ [Closed result reqs ok], delete_claim cfg w cl' pvc))
                  (keep_snapshot cfg w cl task result pvc key)))"

section \<open>The handler\<close>

text \<open>Building, creating and watching the job; no result while the watch has not ended.\<close>

definition run_job ::
  "TaskHandlerConfig \<Rightarrow> handler_world \<Rightarrow> Cluster \<Rightarrow> Task \<Rightarrow> Reporter \<Rightarrow> JobConfig \<Rightarrow> string \<Rightarrow> string
    \<Rightarrow> (effect list \<times> Cluster) option" where
  "run_job cfg w cl task rep jc pvc key =
     (case BuildJob (hwMarshal w) (hwRandom w) jc of
        Inl e \<Rightarrow> Some (job_failed w rep (JobNotBuilt e), cl)
      | Inr job \<Rightarrow>
          (case api_create kjName (hwUpJob w \<and> \<not> ctx_done w AtCreate) (clJobs cl) (kube_job job) of
             Inl e \<Rightarrow> Some (job_failed w rep (JobNotCreated e), cl)
           | Inr jobs \<Rightarrow>
               (case watchJobWith (hwJob w) of
                  None \<Rightarrow> None
                | Some watched \<Rightarrow>
                    map_option (\<lambda>(effs, cl'). (JobCreated job # effs, cl'))
                      (after_watch cfg w (cl\<lparr>clJobs := jobs\<rparr>) task (run_calls rep_do rep (hwCalls w)) (jbName job) pvc key watched))))"

definition handle_task ::
  "TaskHandlerConfig \<Rightarrow> handler_world \<Rightarrow> Cluster \<Rightarrow> Task \<Rightarrow> task_failure + ParsedJob \<times> StepSpec list \<times> ActionMeta list
    \<Rightarrow> (effect list \<times> Cluster) option" where
  "handle_task cfg w cl task prepared =
     (case prepared of
        Inl e \<Rightarrow> Some ([report_failure w AtPrepare task e], cl)
      | Inr (parsed, steps, metas) \<Rightarrow>
          (let started = ReporterStarted (length steps) (collectSecrets task)
           in case cache_volume cfg w cl task steps of
                Inl entry \<Rightarrow> Some ([started, report_failure w AtVolume task (InvalidCachePath entry)], cl)
              | Inr (cl1, pvc, key, paths) \<Rightarrow>
                  map_option (\<lambda>(effs, cl2). (started # effs, cl2))
                    (run_job cfg w cl1 task (new_reporter task steps) (job_config cfg task parsed steps metas pvc paths) pvc key)))"

text \<open>What entering the handler does at once, and what it defers to its end.\<close>

definition handler_entry :: "effect list" where
  "handler_entry = [ActiveJobs 1]"

definition handler_exit :: "effect list" where
  "handler_exit = [ActiveJobs (- 1)]"

definition makeTaskHandler ::
  "('e, 'v) interpreter \<Rightarrow> TaskHandlerConfig \<Rightarrow> handler_world \<Rightarrow> Cluster \<Rightarrow> repo_cache \<Rightarrow> Task
    \<Rightarrow> (effect list \<times> Cluster \<times> repo_cache) option" where
  "makeTaskHandler interp cfg w cl disk task =
     (case prepare_task interp cfg w disk task of
        (prepared, disk') \<Rightarrow>
          map_option (\<lambda>(effs, cl'). (handler_entry @ effs @ handler_exit, cl', disk')) (handle_task cfg w cl task prepared))"

end
