(* ===== verification/TaskHandler_Props.thy ===== *)
theory TaskHandler_Props
  imports TaskHandler Reporter_Close
begin

text \<open>
  What the task handler guarantees: one final report per task and when the forge accepts it, the fate of
  the cache volume on every path, when snapshots are kept, and that reporter and manifest agree on the steps.
\<close>

section \<open>The phases\<close>

text \<open>A final report: the result, the requests, and whether \<^verbatim>\<open>Close\<close> returned no error.\<close>

fun report_of :: "effect \<Rightarrow> (Result \<times> Request list \<times> bool) option" where
  "report_of (FailureReport _ reqs ok) = Some (RESULT_FAILURE, reqs, ok)"
| "report_of (Closed result reqs ok) = Some (result, reqs, ok)"
| "report_of (ClosedOnShutdown result reqs ok) = Some (result, reqs, ok)"
| "report_of _ = None"

definition is_final :: "effect \<Rightarrow> bool" where
  "is_final e \<longleftrightarrow> report_of e \<noteq> None"

text \<open>What a handler does to the counter of active jobs.\<close>

fun active_change :: "effect list \<Rightarrow> int" where
  "active_change [] = 0"
| "active_change (ActiveJobs d # effs) = d + active_change effs"
| "active_change (_ # effs) = active_change effs"

lemma active_change_append [simp]: "active_change (xs @ ys) = active_change xs + active_change ys"
  by (induction xs rule: active_change.induct) simp_all

fun no_job :: "effect \<Rightarrow> bool" where
  "no_job (LogLine (JobNotBuilt _)) = True"
| "no_job (LogLine (JobNotCreated _)) = True"
| "no_job _ = False"

lemma claim_name_nonempty [simp]: "claim_name task \<noteq> []"
  by (simp add: claim_name_def)

text \<open>A claim made for a task.\<close>

definition task_claim :: "Task \<Rightarrow> PVC \<Rightarrow> bool" where
  "task_claim task p \<longleftrightarrow> pvName p = claim_name task \<and> pvLabels p labelManagedBy = Some managerName \<and>
     pvLabels p ''drawbar.dev/task-id'' = Some (Itoa (tkId task))"

lemma new_pvc_task_claim: "task_claim task (new_pvc m src (claim_name task) [(''drawbar.dev/task-id'', Itoa (tkId task))])"
  by (simp add: task_claim_def new_pvc_def mergeLabels_def applyPVCOptions_def snapshot_names map_add_def)

lemma create_pvc_claims:
  "create_pvc up cl p = (cl', r) \<Longrightarrow> clSnapshots cl' = clSnapshots cl \<and> clJobs cl' = clJobs cl \<and>
    (case r of Inl _ \<Rightarrow> cl' = cl | Inr _ \<Rightarrow> api_create pvName up (clPVCs cl) p = Inr (clPVCs cl'))"
  by (auto simp: create_pvc_def split: sum.splits)

lemma cache_volume_claims:
  assumes "cache_volume cfg w cl task steps = Inr (cl', pvc, key, paths)"
  shows "clSnapshots cl' = clSnapshots cl \<and> clJobs cl' = clJobs cl \<and>
    (pvc = [] \<and> clPVCs cl' = clPVCs cl \<or>
     pvc = claim_name task \<and> hcSnapshots cfg \<noteq> None \<and> key \<noteq> [] \<and> (\<exists>restoreKeys. extractCacheInfo steps = Inr (key, paths, restoreKeys)) \<and>
       (\<exists>p. task_claim task p \<and> api_create pvName (hwUpClaim w \<and> \<not> ctx_done w AtVolume) (clPVCs cl) p = Inr (clPVCs cl')))"
proof -
  have c: "create_pvc up cl (new_pvc m src (claim_name task) [(''drawbar.dev/task-id'', Itoa (tkId task))]) = (cl', r) \<Longrightarrow>
      clSnapshots cl' = clSnapshots cl \<and> clJobs cl' = clJobs cl \<and>
      (case r of Inl _ \<Rightarrow> cl' = cl | Inr _ \<Rightarrow> \<exists>p. task_claim task p \<and> api_create pvName up (clPVCs cl) p = Inr (clPVCs cl'))"
    for up m src cl' r
    using new_pvc_task_claim by (fastforce dest: create_pvc_claims split: sum.splits)
  show ?thesis using assms
    by (auto simp: cache_volume_def Let_def CreatePVCFromSnapshot_def CreateEmptyPVC_def
      split: option.splits sum.splits if_splits prod.splits dest!: c)
qed

lemma delete_claim_frame:
  "clSnapshots (delete_claim cfg w cl pvc) = clSnapshots cl" "clJobs (delete_claim cfg w cl pvc) = clJobs cl"
  by (auto simp: delete_claim_def DeletePVC_def split: sum.splits)

lemma delete_claim_restores:
  assumes "task_claim task p" "api_create pvName up claims p = Inr (clPVCs cl)" "hcSnapshots cfg \<noteq> None" "hwUpDelete w"
  shows "clPVCs (delete_claim cfg w cl (claim_name task)) = claims"
  using objects.create_delete [OF assms(2)] assms by (simp add: delete_claim_def DeletePVC_def task_claim_def)

lemma delete_claim_none [simp]: "delete_claim cfg w cl [] = cl"
  by (simp add: delete_claim_def)

lemma keep_snapshot_frame: "keep_snapshot cfg w cl task result pvc key = Some cl' \<Longrightarrow> clPVCs cl' = clPVCs cl"
  by (auto simp: keep_snapshot_def SnapshotPVC_def Let_def split: option.splits sum.splits if_splits)

lemma SnapshotPVC_adds:
  assumes "SnapshotPVC sha256 up now m cl pvc name repo key = (cl', r)"
  shows "clSnapshots cl' = clSnapshots cl \<or>
    (\<exists>s. clSnapshots cl' = clSnapshots cl @ [s] \<and> vsSource s = pvc \<and> raw_key s = key \<and> labelled sha256 s)"
proof -
  let ?s = "\<lparr>vsName = name, vsLabels = [labelManagedBy \<mapsto> managerName, labelRepository \<mapsto> SanitizeLabelValue repo,
      labelCacheKey \<mapsto> HashCacheKey sha256 key], vsAnnotations = [annotationKeyRaw \<mapsto> key],
      vsClass = mgSnapshotClass m, vsSource = pvc, vsCreated = now\<rparr>"
  have "raw_key ?s = key" "labelled sha256 ?s" by (simp_all add: raw_key_def map_get_def labelled_def snapshot_names)
  moreover have "clSnapshots cl' = clSnapshots cl \<or> clSnapshots cl' = clSnapshots cl @ [?s]"
    using assms by (auto simp: SnapshotPVC_def Let_def api_create_def split: if_splits)
  ultimately show ?thesis by force
qed

lemma keep_snapshot_adds:
  "keep_snapshot cfg w cl task result pvc key = Some cl' \<Longrightarrow> clSnapshots cl' = clSnapshots cl \<or>
   result = RESULT_SUCCESS \<and> pvc \<noteq> [] \<and>
    (\<exists>s. clSnapshots cl' = clSnapshots cl @ [s] \<and> vsSource s = pvc \<and> raw_key s = key \<and> labelled (hwSha256 w) s)"
  by (auto simp: keep_snapshot_def split: option.splits if_splits sum.splits prod.splits dest: SnapshotPVC_adds)

lemma keep_snapshot_ends: "WaitForSnapshot (hwSnapPolls w) \<noteq> None \<Longrightarrow> keep_snapshot cfg w cl task result pvc key \<noteq> None"
  by (auto simp: keep_snapshot_def split: option.splits prod.splits sum.splits)

text \<open>The two ends of a watched job.\<close>

lemma after_watch_cases:
  assumes "after_watch cfg w cl task rep jobName pvc key (result, err) = Some (effs, cl')"
  obtains (shutdown) rep' reqs ok where "ctx_done w AtWatch" "tsId (rState rep') = tsId (rState rep)"
      "close_reporter (hwForge w) (hwNow w) rep' RESULT_FAILURE = (reqs, ok)"
      "effs = (case err of None \<Rightarrow> [] | Some e \<Rightarrow> [LogLine (WatchFailed e)]) @ [LogLine ControllerRestart, ClosedOnShutdown RESULT_FAILURE reqs ok]"
      "cl' = delete_claim cfg w (case api_delete kjName (hwUpDeleteJob w) (clJobs cl) jobName of Inl _ \<Rightarrow> cl | Inr jobs \<Rightarrow> cl\<lparr>clJobs := jobs\<rparr>) pvc"
  | (closed) rep' reqs ok r cl2 where "\<not> ctx_done w AtWatch" "tsId (rState rep') = tsId (rState rep)"
      "r = (if err = None then result else RESULT_FAILURE)"
      "close_reporter (hwForge w) (hwNow w) rep' r = (reqs, ok)"
      "effs = (case err of None \<Rightarrow> [] | Some e \<Rightarrow> [LogLine (WatchFailed e)]) @ [Closed r reqs ok]"
      "keep_snapshot cfg w cl task r pvc key = Some cl2" "cl' = delete_claim cfg w cl2 pvc"
proof -
  have log: "tsId (rState (log_failure w f r)) = tsId (rState r)" for f r by (simp add: log_failure_def AddLog_def Let_def)
  let ?rep = "case err of None \<Rightarrow> rep | Some e \<Rightarrow> log_failure w (WatchFailed e) rep"
  have id: "tsId (rState ?rep) = tsId (rState rep)" "tsId (rState (log_failure w ControllerRestart ?rep)) = tsId (rState rep)"
    by (simp_all add: log split: option.splits)
  show thesis
  proof (cases "ctx_done w AtWatch")
    case True
    obtain reqs ok where "close_reporter (hwForge w) (hwNow w) (log_failure w ControllerRestart ?rep) RESULT_FAILURE = (reqs, ok)" by fastforce
    from shutdown [OF True id(2) this] assms True this show thesis
      by (cases err) (simp_all add: after_watch_def runShutdownRecovery_def Let_def)
  next
    case False
    obtain reqs ok where c: "close_reporter (hwForge w) (hwNow w) ?rep (if err = None then result else RESULT_FAILURE) = (reqs, ok)" by fastforce
    from closed [OF False id(1) refl c] assms False c show thesis
      by (cases err) (auto simp: after_watch_def)
  qed
qed

lemma after_watch_claims:
  assumes "after_watch cfg w cl task rep jobName pvc key (result, err) = Some (effs, cl')"
  shows "\<exists>cl2. clPVCs cl2 = clPVCs cl \<and> cl' = delete_claim cfg w cl2 pvc"
  using assms
proof (cases rule: after_watch_cases)
  case (shutdown rep' reqs ok)
  then show ?thesis by (intro exI conjI) (auto split: sum.splits)
qed (use keep_snapshot_frame in blast)

lemma run_job_cases:
  assumes "run_job cfg w cl task rep jc pvc key = Some (effs, cl')"
  obtains (failed) f where "effs = job_failed w rep f" "no_job (LogLine f)" "cl' = cl"
  | (watched) job jobs result err effs' where "BuildJob (hwMarshal w) (hwRandom w) jc = Inr job" "\<not> ctx_done w AtCreate"
      "watchJobWith (hwJob w) = Some (result, err)" "effs = JobCreated job # effs'"
      "after_watch cfg w (cl\<lparr>clJobs := jobs\<rparr>) task (run_calls rep_do rep (hwCalls w)) (jbName job) pvc key (result, err) = Some (effs', cl')"
proof (cases "BuildJob (hwMarshal w) (hwRandom w) jc")
  case (Inl e)
  with assms show thesis by (auto simp: run_job_def intro: failed)
next
  case (Inr job)
  show thesis
  proof (cases "api_create kjName (hwUpJob w \<and> \<not> ctx_done w AtCreate) (clJobs cl) (kube_job job)")
    case (Inl e)
    with assms \<open>BuildJob _ _ _ = _\<close> show thesis by (auto simp: run_job_def intro: failed)
  next
    case (Inr jobs)
    then have "\<not> ctx_done w AtCreate" by (auto simp: api_create_def split: if_splits)
    with assms \<open>BuildJob _ _ _ = _\<close> Inr show thesis
      by (auto simp: run_job_def split: option.splits intro: watched)
  qed
qed

lemma handle_task_cases:
  assumes "handle_task cfg w cl task (fst (prepare_task interp cfg w disk task)) = Some (effs, cl')"
  obtains (unprepared) e where "effs = [report_failure w AtPrepare task e]" "cl' = cl" "fst (prepare_task interp cfg w disk task) = Inl e"
  | (path) parsed steps metas entry where "fst (prepare_task interp cfg w disk task) = Inr (parsed, steps, metas)"
      "effs = [ReporterStarted (length steps) (collectSecrets task), report_failure w AtVolume task (InvalidCachePath entry)]" "cl' = cl"
  | (run) parsed steps metas cl1 pvc key paths effs' where
      "fst (prepare_task interp cfg w disk task) = Inr (parsed, steps, metas)"
      "cache_volume cfg w cl task steps = Inr (cl1, pvc, key, paths)"
      "run_job cfg w cl1 task (new_reporter task steps) (job_config cfg task parsed steps metas pvc paths) pvc key = Some (effs', cl')"
      "effs = ReporterStarted (length steps) (collectSecrets task) # effs'"
  using assms that by (fastforce simp: handle_task_def Let_def split: sum.splits option.splits prod.splits)

lemma makeTaskHandler_Some: "makeTaskHandler interp cfg w cl disk task = Some (effs, cl', disk') \<longleftrightarrow>
    (\<exists>es. handle_task cfg w cl task (fst (prepare_task interp cfg w disk task)) = Some (es, cl') \<and>
      effs = handler_entry @ es @ handler_exit \<and> disk' = snd (prepare_task interp cfg w disk task))"
  by (auto simp: makeTaskHandler_def split: prod.splits)

lemma prepare_no_cache_error: "fst (prepare_task interp cfg w disk task) = Inl e \<Longrightarrow> e \<noteq> InvalidCachePath entry"
  by (auto simp: prepare_task_def split: sum.splits prod.splits if_splits)

section \<open>Reports\<close>

text \<open>
  The forge answers the final report: one of the ten attempts has both uploads answered, and the earlier
  ones, which failed, were waited out. It is told a result for a task when the last upload before the probe
  carries the result, with an outcome for every step.
\<close>

definition answered :: "(nat \<Rightarrow> 'e attempt) \<Rightarrow> bool" where
  "answered forge \<longleftrightarrow> (\<exists>i<10. attempt_ok (forge i) \<and> (\<forall>j<i. \<not> attempt_ok (forge j) \<and> aWait (forge j)))"

definition told :: "Task \<Rightarrow> Result \<Rightarrow> Request list \<Rightarrow> bool" where
  "told task result reqs \<longleftrightarrow> (\<exists>earlier st probe. reqs = earlier @ [UpdateTask st, UpdateTask probe] \<and>
     tsId st = tkId task \<and> tsResult st = result \<and> (\<forall>s \<in> set (tsSteps st). ssResult s \<noteq> RESULT_UNSPECIFIED) \<and>
     tsResult probe = RESULT_UNSPECIFIED)"

lemma answered_dead [simp]: "\<not> answered dead_calls"
  by (simp add: answered_def dead_calls_def attempt_ok_def)

lemma answered_at: "answered (forge_at w m) \<longleftrightarrow> \<not> ctx_done w m \<and> answered (hwForge w)"
  by (simp add: forge_at_def)

lemma Close_outcome:
  assumes "Close forge now rep result = (rep', reqs, ws, res)" "tsId (rState rep) = tkId task"
  shows "res = close_result.Closed \<longleftrightarrow> answered forge" "res = close_result.Closed \<Longrightarrow> told task result reqs"
proof -
  let ?r = "Close_begin now rep result"
  have c: "close_loop forge 0 10 (100 * Millisecond) None ?r = (rep', reqs, ws, res)" using assms(1) by (simp add: Close_def)
  show "res = close_result.Closed \<longleftrightarrow> answered forge" using close_loop_result [OF c] by (simp add: answered_def)
  have st: "tsId (rState ?r) = tkId task" "tsResult (rState ?r) = result" "\<forall>s \<in> set (tsSteps (rState ?r)). ssResult s \<noteq> RESULT_UNSPECIFIED"
    using assms(2) by (auto simp: Close_begin_def close_step_def Let_def)
  assume "res = close_result.Closed"
  then obtain q0 where q: "reqs = q0 @ [UpdateTask (rState ?r), readbackProbe ?r]" using close_loop_Closed c by blast
  show "told task result reqs"
    unfolding told_def q readbackProbe_def by (intro exI conjI) (rule refl | simp add: st)+
qed

lemma close_reporter_outcome:
  "close_reporter forge now rep result = (reqs, ok) \<Longrightarrow> tsId (rState rep) = tkId task \<Longrightarrow>
    (ok \<longleftrightarrow> answered forge) \<and> (ok \<longrightarrow> told task result reqs)"
  by (auto simp: close_reporter_def split: prod.splits dest: Close_outcome)

lemma report_failure_outcome:
  "\<exists>reqs ok. report_failure w m task e = FailureReport e reqs ok \<and> (ok \<longleftrightarrow> \<not> ctx_done w m \<and> answered (hwForge w)) \<and>
    (ok \<longrightarrow> told task RESULT_FAILURE reqs)"
proof -
  let ?rep = "AddLog (hwNow w) (New (tkId task) 0) (task_failure_text (hwTaskError w) e)"
  have "tsId (rState ?rep) = tkId task" by (simp add: AddLog_def New_def Let_def)
  then show ?thesis using Close_outcome [of "forge_at w m" "hwNow w" ?rep RESULT_FAILURE]
    by (cases "Close (forge_at w m) (hwNow w) ?rep RESULT_FAILURE") (auto simp: report_failure_def reportFailure_def answered_at)
qed

lemma tsId_rep_do: "tsId (rState (rep_do r c)) = tsId (rState r)"
  by (cases c) (simp_all add: AddMask_def AddLog_def StartStep_def FinishStep_def flushLogs_ack_def RunDaemon_def Let_def)

lemma tsId_run_calls: "tsId (rState (run_calls rep_do r cs)) = tsId (rState r)"
  by (induction cs arbitrary: r) (simp_all add: tsId_rep_do)

lemma tsId_new_reporter: "tsId (rState (new_reporter task steps)) = tkId task"
  by (simp add: new_reporter_def RunDaemon_def SetSecrets_def New_def)

lemma job_failed_outcome:
  assumes "tsId (rState rep) = tkId task"
  shows "\<exists>reqs ok. job_failed w rep f = [LogLine f, Closed RESULT_FAILURE reqs ok] \<and>
    (ok \<longleftrightarrow> \<not> ctx_done w AtCreate \<and> answered (hwForge w)) \<and> (ok \<longrightarrow> told task RESULT_FAILURE reqs)"
proof -
  have "tsId (rState (log_failure w f rep)) = tkId task" using assms by (simp add: log_failure_def AddLog_def Let_def)
  from close_reporter_outcome [OF _ this] show ?thesis
    by (cases "close_reporter (forge_at w AtCreate) (hwNow w) (log_failure w f rep) RESULT_FAILURE")
      (fastforce simp: job_failed_def answered_at)
qed

text \<open>What holds of the one final report of a task.\<close>

definition proper_report :: "handler_world \<Rightarrow> Task \<Rightarrow> effect list \<Rightarrow> effect \<Rightarrow> bool" where
  "proper_report w task effs e \<longleftrightarrow>
     (\<exists>result reqs ok. report_of e = Some (result, reqs, ok) \<and> (ok \<longrightarrow> told task result reqs) \<and>
        ((\<exists>job. JobCreated job \<in> set effs) \<or> \<not> ctx_done w AtCreate \<longrightarrow> (ok \<longleftrightarrow> answered (hwForge w))) \<and>
        (ctx_done w AtCreate \<longrightarrow> (\<forall>job. JobCreated job \<notin> set effs)) \<and> (ctx_done w AtPrepare \<longrightarrow> \<not> ok) \<and>
        (ctx_done w AtWatch \<longrightarrow> result = RESULT_FAILURE) \<and>
        (result = RESULT_SUCCESS \<longrightarrow> (\<exists>job. JobCreated job \<in> set effs) \<and> watchJobWith (hwJob w) = Some (RESULT_SUCCESS, None)))"

lemma ctx_done_mono: "ctx_done w m \<Longrightarrow> moment_rank m \<le> moment_rank m' \<Longrightarrow> ctx_done w m'"
  by (auto simp: ctx_done_def split: option.splits)

lemma ctx_done_later:
  "ctx_done w AtPrepare \<Longrightarrow> ctx_done w AtVolume" "ctx_done w AtVolume \<Longrightarrow> ctx_done w AtCreate" "ctx_done w AtCreate \<Longrightarrow> ctx_done w AtWatch"
  by (auto elim: ctx_done_mono)

lemma handle_task_final:
  assumes "handle_task cfg w cl task (fst (prepare_task interp cfg w disk task)) = Some (effs, cl')"
  shows "\<exists>e. filter is_final effs = [e] \<and> proper_report w task effs e \<and> active_change effs = 0"
  using assms
proof (cases rule: handle_task_cases)
  case (unprepared e)
  with report_failure_outcome [of w AtPrepare task e] ctx_done_later [of w] show ?thesis
    by (auto simp: is_final_def proper_report_def)
next
  case (path parsed steps metas entry)
  with report_failure_outcome [of w AtVolume task "InvalidCachePath entry"] ctx_done_later [of w] show ?thesis
    by (auto simp: is_final_def proper_report_def)
next
  case (run parsed steps metas cl1 pvc key paths effs')
  note id = tsId_new_reporter [of task steps]
  from run(3) show ?thesis
  proof (cases rule: run_job_cases)
    case (failed f)
    with job_failed_outcome [OF id, of w f] run(4) ctx_done_later [of w] show ?thesis
      by (auto simp: is_final_def proper_report_def)
  next
    case (watched job jobs result err effs'')
    from watched(5) show ?thesis
    proof (cases rule: after_watch_cases)
      case (shutdown rep' reqs ok)
      with close_reporter_outcome [OF shutdown(3)] watched run(4) ctx_done_later [of w] show ?thesis
        by (auto simp: is_final_def proper_report_def tsId_run_calls id split: option.splits)
    next
      case (closed rep' reqs ok r cl2)
      with close_reporter_outcome [OF closed(4)] watched run(4) ctx_done_later [of w] show ?thesis
        by (auto simp: is_final_def proper_report_def tsId_run_calls id split: option.splits if_splits)
    qed
  qed
qed

lemma handler_final:
  assumes "makeTaskHandler interp cfg w cl disk task = Some (effs, cl', disk')"
  shows "\<exists>e. filter is_final effs = [e] \<and> proper_report w task effs e \<and> active_change effs = 0"
proof -
  obtain es where h: "handle_task cfg w cl task (fst (prepare_task interp cfg w disk task)) = Some (es, cl')"
    and effs: "effs = handler_entry @ es @ handler_exit"
    using assms by (auto simp: makeTaskHandler_Some)
  have j: "JobCreated job \<in> set effs \<longleftrightarrow> JobCreated job \<in> set es" for job
    by (auto simp: effs handler_entry_def handler_exit_def)
  from handle_task_final [OF h] show ?thesis
    unfolding proper_report_def j by (simp add: effs handler_entry_def handler_exit_def is_final_def)
qed

lemma handler_returns:
  assumes "watchJobWith (hwJob w) \<noteq> None" "ctx_done w AtWatch \<or> WaitForSnapshot (hwSnapPolls w) \<noteq> None"
  shows "\<exists>effs cl' disk'. makeTaskHandler interp cfg w cl disk task = Some (effs, cl', disk')"
proof -
  have "after_watch cfg w cl1 task rep n pvc key x \<noteq> None" for cl1 rep n pvc key x
    using assms(2) keep_snapshot_ends [of w cfg cl1 task _ pvc key] by (auto simp: after_watch_def Let_def split: prod.splits)
  then have r: "run_job cfg w cl1 task rep jc pvc key \<noteq> None" for cl1 rep jc pvc key
    using assms(1) by (fastforce simp: run_job_def split: sum.splits)
  have "handle_task cfg w cl task (fst (prepare_task interp cfg w disk task)) \<noteq> None"
    using r by (fastforce simp: handle_task_def Let_def split: sum.splits)
  then show ?thesis by (fastforce simp: makeTaskHandler_Some)
qed

text \<open>
  C7: A handler makes exactly one final report, and gets it through whenever the forge answers and its context allows. Once the waits for
  the job and for its snapshot end, the handler returns, it has called \<^verbatim>\<open>Close\<close> exactly once, and the counter of
  active jobs is back where it was. If a job was created, or the handler's context was alive while it
  should have been, then \<^verbatim>\<open>Close\<close> succeeds if and only if the forge answers one of its attempts, also when the controller is
  shutting down; a report that succeeds has told the forge the task's result with an outcome for every step. A shutdown makes the
  result a failure, and success is reported only for a job whose watch ended with success. When the context was cancelled
  before the handler started, no job is created and nothing reaches the forge.
\<close>

theorem task_reported_once:
  assumes "watchJobWith (hwJob w) \<noteq> None" "WaitForSnapshot (hwSnapPolls w) \<noteq> None"
  shows "\<exists>effs cl' disk' e result reqs ok. makeTaskHandler interp cfg w cl disk task = Some (effs, cl', disk') \<and>
    filter is_final effs = [e] \<and> report_of e = Some (result, reqs, ok) \<and> active_change effs = 0 \<and>
    ((\<exists>job. JobCreated job \<in> set effs) \<or> \<not> ctx_done w AtCreate \<longrightarrow> (ok \<longleftrightarrow> answered (hwForge w))) \<and>
    (ok \<longrightarrow> told task result reqs) \<and>
    (ctx_done w AtCreate \<longrightarrow> (\<forall>job. JobCreated job \<notin> set effs)) \<and> (ctx_done w AtPrepare \<longrightarrow> \<not> ok) \<and>
    (ctx_done w AtWatch \<longrightarrow> result = RESULT_FAILURE) \<and>
    (result = RESULT_SUCCESS \<longrightarrow> (\<exists>job. JobCreated job \<in> set effs) \<and> watchJobWith (hwJob w) = Some (RESULT_SUCCESS, None))"
proof -
  obtain effs cl' disk' where h: "makeTaskHandler interp cfg w cl disk task = Some (effs, cl', disk')"
    using handler_returns [of w] assms by blast
  obtain e where e: "filter is_final effs = [e]" "proper_report w task effs e" "active_change effs = 0"
    using handler_final [OF h] by blast
  obtain result reqs ok where "report_of e = Some (result, reqs, ok)" using e(2) unfolding proper_report_def by blast
  with h e show ?thesis unfolding proper_report_def by (intro exI [of _ effs] exI [of _ cl'] exI [of _ disk'] exI [of _ e]) auto
qed

text \<open>
  The background flusher is left behind on one path: the reporter that was started is closed
  on every path but that of a job whose cache paths are refused, where a second reporter sends
  the failure.
\<close>

theorem reporter_left_running:
  assumes "makeTaskHandler interp cfg w cl disk task = Some (effs, cl', disk')" "ReporterStarted n secrets \<in> set effs"
  shows "(\<forall>r reqs ok. Closed r reqs ok \<notin> set effs \<and> ClosedOnShutdown r reqs ok \<notin> set effs) \<longleftrightarrow>
    (\<exists>entry reqs ok. FailureReport (InvalidCachePath entry) reqs ok \<in> set effs)"
proof -
  obtain es where h: "handle_task cfg w cl task (fst (prepare_task interp cfg w disk task)) = Some (es, cl')" and effs: "effs = handler_entry @ es @ handler_exit"
    using assms(1) by (auto simp: makeTaskHandler_Some)
  note e = effs handler_entry_def handler_exit_def
  from h show ?thesis
  proof (cases rule: handle_task_cases)
    case (run parsed steps metas cl1 pvc key paths effs')
    from run(3) show ?thesis
    proof (cases rule: run_job_cases)
      case (failed f)
      moreover obtain reqs ok where "job_failed w (new_reporter task steps) f = [LogLine f, Closed RESULT_FAILURE reqs ok]"
        using job_failed_outcome [OF tsId_new_reporter] by blast
      ultimately have "Closed RESULT_FAILURE reqs ok \<in> set effs" "FailureReport x q k \<notin> set effs" for x q k
        using run(4) by (simp_all add: e)
      then show ?thesis by blast
    next
      case (watched job jobs result err effs'')
      from watched(5) show ?thesis
        by (cases rule: after_watch_cases) (use watched(4) run(4) in \<open>auto simp: e split: option.splits\<close>)
    qed
  next
    case (path parsed steps metas entry)
    with report_failure_outcome [of w AtVolume task "InvalidCachePath entry"] show ?thesis by (auto simp: e)
  next
    case (unprepared x)
    with report_failure_outcome [of w AtPrepare task x] assms(2) show ?thesis by (auto simp: e)
  qed
qed

section \<open>The cache volume\<close>

text \<open>
  C17: The fate of the cache volume: with a cluster that answers deletions, the volume claim a task
  made is gone when its handler returns, with one exception: when the job could not be built or
  created, the claim stays behind.
\<close>

theorem claim_fate:
  assumes "makeTaskHandler interp cfg w cl disk task = Some (effs, cl', disk')" "hwUpDelete w"
  shows "clPVCs cl' = clPVCs cl \<or>
    (\<exists>e. e \<in> set effs \<and> no_job e) \<and> (\<exists>p. task_claim task p \<and> clPVCs cl' = clPVCs cl @ [p])"
proof -
  obtain es where h: "handle_task cfg w cl task (fst (prepare_task interp cfg w disk task)) = Some (es, cl')" and effs: "effs = handler_entry @ es @ handler_exit"
    using assms(1) by (auto simp: makeTaskHandler_Some)
  from h show ?thesis
  proof (cases rule: handle_task_cases)
    case (run parsed steps metas cl1 pvc key paths effs')
    note c = cache_volume_claims [OF run(2)]
    from run(3) show ?thesis
    proof (cases rule: run_job_cases)
      case (failed f)
      with job_failed_outcome [OF tsId_new_reporter, of w task steps f] c run(4) effs show ?thesis
        by (auto simp: api_create_def split: if_splits)
    next
      case (watched job jobs result err effs'')
      obtain cl2 where "clPVCs cl2 = clPVCs cl1" "cl' = delete_claim cfg w cl2 pvc"
        using after_watch_claims [OF watched(5)] by fastforce
      with c assms(2) delete_claim_restores [of task _ "hwUpClaim w \<and> \<not> ctx_done w AtVolume" "clPVCs cl" cl2 cfg w] show ?thesis by auto
    qed
  qed simp_all
qed

text \<open>
  C26: Only successful jobs leave a snapshot: the handler adds no snapshot, or exactly one, of the
  task's own volume and under the key of its cache step, after reporting success.
\<close>

theorem snapshot_after_success:
  assumes "makeTaskHandler interp cfg w cl disk task = Some (effs, cl', disk')"
  shows "clSnapshots cl' = clSnapshots cl \<or>
    (\<exists>reqs ok. Closed RESULT_SUCCESS reqs ok \<in> set effs) \<and>
    (\<exists>s parsed steps metas paths restoreKeys. clSnapshots cl' = clSnapshots cl @ [s] \<and> vsSource s = claim_name task \<and>
       fst (prepare_task interp cfg w disk task) = Inr (parsed, steps, metas) \<and>
       extractCacheInfo steps = Inr (raw_key s, paths, restoreKeys) \<and> raw_key s \<noteq> [] \<and> labelled (hwSha256 w) s)"
proof -
  obtain es where h: "handle_task cfg w cl task (fst (prepare_task interp cfg w disk task)) = Some (es, cl')" and effs: "effs = handler_entry @ es @ handler_exit"
    using assms(1) by (auto simp: makeTaskHandler_Some)
  from h show ?thesis
  proof (cases rule: handle_task_cases)
    case (run parsed steps metas cl1 pvc key paths effs')
    note c = cache_volume_claims [OF run(2)]
    from run(3) show ?thesis
    proof (cases rule: run_job_cases)
      case (failed f)
      with c show ?thesis by simp
    next
      case (watched job jobs result err effs'')
      from watched(5) show ?thesis
      proof (cases rule: after_watch_cases)
        case (shutdown rep' reqs ok)
        with c show ?thesis by (simp add: delete_claim_frame split: sum.splits)
      next
        case (closed rep' reqs ok r cl2)
        have "Closed r reqs ok \<in> set effs" using closed(5) watched(4) run(4) effs by simp
        with keep_snapshot_adds [OF closed(6)] c run(1) closed(7) show ?thesis by (fastforce simp: delete_claim_frame)
      qed
    qed
  qed simp_all
qed

section \<open>Reporter and manifest\<close>

text \<open>
  Reporter and entrypoint agree on the steps: when a job is created, the reporter was started
  before with as many steps as the manifest has and with all secrets of the task, and the manifest in
  the job's setup script is the encoding of the one built from the prepared steps.
\<close>

theorem reporter_fits_manifest:
  assumes "makeTaskHandler interp cfg w cl disk task = Some (effs, cl', disk')" "JobCreated job \<in> set effs"
  shows "\<exists>n rest m json bytes jc. effs = handler_entry @ [ReporterStarted n (collectSecrets task), JobCreated job] @ rest \<and>
    m = buildManifest jc \<and> n = length (mfSteps m) \<and> n > 0 \<and> hwMarshal w m = Some json \<and>
    jbInit job = init_containers jc (delimiter bytes) json"
proof -
  obtain es where h: "handle_task cfg w cl task (fst (prepare_task interp cfg w disk task)) = Some (es, cl')" and effs: "effs = handler_entry @ es @ handler_exit"
    using assms(1) by (auto simp: makeTaskHandler_Some)
  note e = effs handler_entry_def handler_exit_def
  from h show ?thesis
  proof (cases rule: handle_task_cases)
    case (run parsed steps metas cl1 pvc key paths effs')
    let ?jc = "job_config cfg task parsed steps metas pvc paths"
    from run(3) show ?thesis
    proof (cases rule: run_job_cases)
      case (failed f)
      then show ?thesis using job_failed_outcome [OF tsId_new_reporter, of w task steps f] assms(2) run(4) by (auto simp: e)
    next
      case (watched job' jobs result err effs'')
      from watched(5) have "JobCreated job \<notin> set effs''"
        by (cases rule: after_watch_cases) (auto split: option.splits)
      then have "job' = job" using assms(2) watched(4) run(4) by (auto simp: e)
      then obtain json bytes where "hwMarshal w (buildManifest ?jc) = Some json" "jbInit job = init_containers ?jc (delimiter bytes) json"
        using watched(1) by (auto simp: BuildJob_def split: option.splits)
      moreover have "steps \<noteq> []" using run(1) by (auto simp: prepare_task_def split: sum.splits prod.splits if_splits)
      ultimately show ?thesis using effs run(4) watched(4) \<open>job' = job\<close>
        by (intro exI [of _ "length steps"] exI [of _ "effs'' @ handler_exit"] exI [of _ "buildManifest ?jc"]
            exI [of _ json] exI [of _ bytes] exI [of _ ?jc])
          (simp add: buildManifest_def job_config_def)
    qed
  next
    case (path parsed steps metas entry)
    with report_failure_outcome [of w AtVolume task "InvalidCachePath entry"] assms(2) show ?thesis by (auto simp: e)
  next
    case (unprepared x)
    with report_failure_outcome [of w AtPrepare task x] assms(2) show ?thesis by (auto simp: e)
  qed
qed

section \<open>Witnesses\<close>

definition example_wf_job :: wf_job where
  "example_wf_job = \<lparr>wjName = ''j'', wjRunsOn = [], wjSteps = [example_run\<lparr>wsEnv := [(''INPUT_KEY'', ''k''), (''INPUT_PATH'', ''target'')]\<rparr>],
     wjEnv = Map.empty, wjContainer = None, wjServices = []\<rparr>"

definition example_task :: Task where
  "example_task = \<lparr>tkId = 7, tkPayload = ''y'', tkContext = Map.empty, tkSecrets = [], tkVars = Map.empty, tkNeeds = Map.empty\<rparr>"

definition example_watch :: job_world where
  "example_watch = \<lparr>jwPods = [(Inr [''p''], False)], jwRunning = [(Inr example_pod, False)], jwPrevious = (\<lambda>_. None),
    jwTerminated = [(Inr example_pod, TimerFired)], jwFinal = Inr example_pod\<rparr>"

lemma example_watch_ends: "watchJobWith example_watch = Some (RESULT_SUCCESS, None)"
  by (simp add: watchJobWith_def example_watch_def example_pod_def termination_seen_def is_terminated_def getContainerResult_def)

definition example_surroundings :: "bool \<Rightarrow> handler_world" where
  "example_surroundings up = \<lparr>hwRead = (\<lambda>_. Some \<lparr>wfJobIDs = [''j''], wfGetJob = (\<lambda>_. Some example_wf_job)\<rparr>),
     hwLoad = (\<lambda>_ disk ref. (Inl (CloneFailed []), disk)), hwDepth = 1, hwParseFloat = (\<lambda>_. None),
     hwMarshal = (\<lambda>_. Some ''{}''), hwRandom = Some ''x'', hwSha256 = (\<lambda>s. s), hwUpFind = (True, True), hwUpClaim = True,
     hwUpJob = up, hwUpSnapshot = True, hwUpDelete = True, hwUpDeleteJob = True, hwJob = example_watch,
     hwCalls = [CStartStep 5 0, CAddLog 6 ''hi'', CFinishStep 7 0 RESULT_SUCCESS], hwSnapPolls = [(PollState True None, False)],
     hwForge = (\<lambda>_. \<lparr>aLog = Inr 1, aTask = Inr None, aWait = True\<rparr>), hwTaskError = (\<lambda>_. ''error''), hwJobError = (\<lambda>_. ''error''),
     hwCancel = None, hwNow = 9\<rparr>"

lemma example_answered: "answered (hwForge (example_surroundings up))"
  unfolding answered_def by (rule exI [of _ 0]) (simp add: example_surroundings_def attempt_ok_def)

definition example_handler :: TaskHandlerConfig where
  "example_handler = \<lparr>hcLabels = [], hcNamespace = ''ci'', hcTimeout = 0, hcGitCloneURL = [], hcActionsURL = [], hcControllerImage = [],
     hcCacheURL = None, hcJobSecrets = [], hcSnapshots = Some example_manager, hcAptProxyURL = []\<rparr>"

definition example_spec :: StepSpec where
  "example_spec = run_spec example_interp (BuildEnvironment example_task Map.empty)
     \<lparr>xpLoad = (\<lambda>disk ref. (Inl (CloneFailed []), disk)), xpDepth = 1, xpParseFloat = (\<lambda>_. None)\<rparr> 0
     (example_run\<lparr>wsEnv := [(''INPUT_KEY'', ''k''), (''INPUT_PATH'', ''target'')]\<rparr>)"

lemma example_prepared: "prepare_task example_interp example_handler (example_surroundings up) Map.empty example_task
    = (Inr (\<lparr>pjJobID = ''j'', pjJob = example_wf_job\<rparr>, [example_spec], []), Map.empty)"
  by (simp add: NewExpandCtx_def prepare_task_def ParseTask_def example_surroundings_def example_task_def Let_def workflow_step_def example_wf_job_def
    example_run_def example_spec_def)

lemma example_spec_env: "map_get (spEnv example_spec) ''INPUT_KEY'' = ''k''" "map_get (spEnv example_spec) ''INPUT_PATH'' = ''target''"
    "map_get (spEnv example_spec) ''INPUT_RESTORE-KEYS'' = []"
  by (simp_all add: example_spec_def run_spec_def example_run_def InterpolateMap_def Interpolate_def Contains_def sublist_code map_get_def)

lemma example_spec_cache: "extractCacheInfo [example_spec] = Inr (''k'', [''target''], [])"
  by (simp add: extractCacheInfo_def example_spec_env Let_def strings_simps char_in_def hasTraversal_def)

definition example_claim :: PVC where
  "example_claim = new_pvc example_manager None (claim_name example_task) [(''drawbar.dev/task-id'', Itoa (tkId example_task))]"

lemma example_volume: "cache_volume example_handler (example_surroundings up) example_cluster example_task [example_spec]
    = Inr (example_cluster\<lparr>clPVCs := [example_claim]\<rparr>, claim_name example_task, ''k'', [''target''])"
  by (simp add: cache_volume_def example_handler_def example_spec_cache FindSnapshot_def findByExactKey_def api_list_def
    example_cluster_def example_surroundings_def CreateEmptyPVC_def create_pvc_def api_create_def Let_def example_claim_def ctx_done_def)

theorem task_reported_once_witness:
  "\<exists>effs cl' disk' e result reqs. makeTaskHandler example_interp example_handler (example_surroundings False) example_cluster Map.empty example_task = Some (effs, cl', disk') \<and>
    filter is_final effs = [e] \<and> report_of e = Some (result, reqs, True) \<and> told example_task result reqs"
proof -
  have "\<not> ctx_done (example_surroundings False) AtCreate" by (simp add: ctx_done_def example_surroundings_def)
  moreover have "watchJobWith (hwJob (example_surroundings False)) \<noteq> None" "WaitForSnapshot (hwSnapPolls (example_surroundings False)) \<noteq> None"
    using example_watch_ends by (simp_all add: example_surroundings_def)
  from task_reported_once [OF this, of example_interp example_handler example_cluster Map.empty example_task]
  obtain effs cl' disk' e result reqs ok where
    "makeTaskHandler example_interp example_handler (example_surroundings False) example_cluster Map.empty example_task = Some (effs, cl', disk')"
    "filter is_final effs = [e]" "report_of e = Some (result, reqs, ok)" "ok \<longrightarrow> told example_task result reqs"
    "\<not> ctx_done (example_surroundings False) AtCreate \<longrightarrow> (ok \<longleftrightarrow> answered (hwForge (example_surroundings False)))" by blast
  ultimately show ?thesis using example_answered by auto
qed

lemma example_unlucky:
  "\<exists>effs. makeTaskHandler example_interp example_handler (example_surroundings False) example_cluster Map.empty example_task
    = Some (effs, example_cluster\<lparr>clPVCs := [example_claim]\<rparr>, Map.empty)"
proof -
  have "hwUpJob (example_surroundings False) = False" "hwMarshal (example_surroundings False) = (\<lambda>_. Some ''{}'')"
    "hwRandom (example_surroundings False) = Some ''x''" by (simp_all add: example_surroundings_def)
  then show ?thesis
    by (simp add: makeTaskHandler_def handle_task_def example_prepared example_volume run_job_def BuildJob_def api_create_def)
qed

theorem claim_fate_witness:
  "\<exists>p. task_claim example_task p \<and> clPVCs (example_cluster\<lparr>clPVCs := [example_claim]\<rparr>) = [p]"
proof -
  obtain effs where h: "makeTaskHandler example_interp example_handler (example_surroundings False) example_cluster Map.empty example_task
    = Some (effs, example_cluster\<lparr>clPVCs := [example_claim]\<rparr>, Map.empty)" using example_unlucky by blast
  from claim_fate [OF h] show ?thesis by (simp add: example_surroundings_def example_cluster_def)
qed

lemma example_lucky:
  "\<exists>effs cl' disk' job. makeTaskHandler example_interp example_handler (example_surroundings True) example_cluster Map.empty example_task = Some (effs, cl', disk') \<and>
    JobCreated job \<in> set effs \<and> ReporterStarted 1 [] \<in> set effs \<and> (\<exists>reqs ok. Closed RESULT_SUCCESS reqs ok \<in> set effs) \<and> length (clSnapshots cl') = 1"
proof -
  have "collectSecrets example_task = []" by (simp add: collectSecrets_def example_task_def ctx_string_def map_get_def)
  moreover have "hwUpJob (example_surroundings True)" "hwMarshal (example_surroundings True) = (\<lambda>_. Some ''{}'')" "\<not> ctx_done (example_surroundings True) m"
    "hwRandom (example_surroundings True) = Some ''x''" "hwJob (example_surroundings True) = example_watch"
    "clJobs example_cluster = []" "clSnapshots example_cluster = []" "hwUpSnapshot (example_surroundings True)"
    "hcSnapshots example_handler = Some example_manager" "hwSnapPolls (example_surroundings True) = [(PollState True None, False)]" for m
    by (simp_all add: example_surroundings_def example_cluster_def example_handler_def ctx_done_def)
  moreover obtain job where "BuildJob (\<lambda>_. Some ''{}'') (Some ''x'')
      (job_config example_handler example_task \<lparr>pjJobID = ''j'', pjJob = example_wf_job\<rparr> [example_spec] [] (claim_name example_task) [''target'']) = Inr job"
    by (simp add: BuildJob_def)
  moreover obtain reqs ok where "close_reporter (hwForge (example_surroundings True)) (hwNow (example_surroundings True))
      (run_calls rep_do (new_reporter example_task [example_spec]) (hwCalls (example_surroundings True))) RESULT_SUCCESS = (reqs, ok)" by fastforce
  ultimately show ?thesis
    by (simp add: makeTaskHandler_def handle_task_def example_prepared example_volume run_job_def api_create_def
      example_watch_ends after_watch_def keep_snapshot_def SnapshotPVC_def delete_claim_frame Let_def) blast
qed

theorem reporter_left_running_witness:
  "\<exists>effs cl' disk'. makeTaskHandler example_interp example_handler (example_surroundings True) example_cluster Map.empty example_task = Some (effs, cl', disk') \<and>
    \<not> (\<exists>entry reqs ok. FailureReport (InvalidCachePath entry) reqs ok \<in> set effs)"
  using example_lucky reporter_left_running by blast

theorem snapshot_after_success_witness:
  "\<exists>effs cl' disk' s. makeTaskHandler example_interp example_handler (example_surroundings True) example_cluster Map.empty example_task = Some (effs, cl', disk') \<and>
    (\<exists>reqs ok. Closed RESULT_SUCCESS reqs ok \<in> set effs) \<and> clSnapshots cl' = [s] \<and> vsSource s = claim_name example_task \<and> raw_key s = ''k''"
proof -
  obtain effs cl' disk' where h: "makeTaskHandler example_interp example_handler (example_surroundings True) example_cluster Map.empty example_task = Some (effs, cl', disk')"
    "length (clSnapshots cl') = 1" using example_lucky by blast
  have "clSnapshots example_cluster = []" by (simp add: example_cluster_def)
  then show ?thesis using snapshot_after_success [OF h(1)] h by (auto simp: example_prepared example_spec_cache)
qed

theorem reporter_fits_manifest_witness:
  "\<exists>effs cl' disk' n job rest. makeTaskHandler example_interp example_handler (example_surroundings True) example_cluster Map.empty example_task = Some (effs, cl', disk') \<and>
    effs = handler_entry @ [ReporterStarted n (collectSecrets example_task), JobCreated job] @ rest \<and> n > 0"
proof -
  obtain effs cl' disk' job where h: "makeTaskHandler example_interp example_handler (example_surroundings True) example_cluster Map.empty example_task = Some (effs, cl', disk')"
    "JobCreated job \<in> set effs" using example_lucky by blast
  from reporter_fits_manifest [OF this] show ?thesis using h(1) by blast
qed

end
