(* ===== verification/Pod.thy ===== *)
theory Pod
  imports JobBuilder Entrypoint Setup Tail
begin

text \<open>
  The program inside the pod as the pod starts it: \<^verbatim>\<open>main\<close> of \<^verbatim>\<open>src/cmd/entrypoint/main.go\<close>, the manifest file of
  \<^verbatim>\<open>src/cmd/entrypoint/manifest.go\<close>, and how both meet the containers that \<^verbatim>\<open>src/pkg/k8s/builder.go\<close> specifies. The JSON decoder
  is an argument; what the shell does with the setup script is written out for that script: its
  here-document becomes the manifest file, and its last line is the command it becomes.
\<close>

section \<open>The manifest file\<close>

datatype manifest_error = ReadingManifest fs_error | ParsingManifest

definition loadManifest :: "(string \<Rightarrow> Manifest option) \<Rightarrow> fs \<Rightarrow> string \<Rightarrow> manifest_error + Manifest" where
  "loadManifest unmarshal fs path =
     (case read_file fs path of
        Inl e \<Rightarrow> Inl (ReadingManifest e)
      | Inr data \<Rightarrow> (case unmarshal data of None \<Rightarrow> Inl ParsingManifest | Some m \<Rightarrow> Inr m))"

definition manifest_option :: "manifest_error + Manifest \<Rightarrow> Manifest option" where
  "manifest_option r = (case r of Inl _ \<Rightarrow> None | Inr m \<Rightarrow> Some m)"

section \<open>Subcommands\<close>

definition shimDir :: string where "shimDir = ''/shim''"
definition actionsDir :: string where "actionsDir = ''/actions''"

text \<open>What the process meets: its environment, the steps' surroundings, the state file, the answers to its requests, and the rounds of the tail.\<close>

record pod_world =
  pwEnviron :: "string list"
  pwSteps :: "nat \<Rightarrow> step_world"
  pwStateOk :: "string \<Rightarrow> bool"
  pwFetch :: "ActionFetch \<Rightarrow> attempts"
  pwOpened :: bool
  pwRounds :: "tail_round list"

datatype ep_end =
    Usage
  | SetupEnd "setup_error option" fs
  | RunEnd "StateEvent list" "(string \<rightharpoonup> StepResult) option" bool
  | TailRefused tail_error
  | TailEnd tail_end tail_state

definition entrypoint_main ::
  "('e, 'v) interpreter \<Rightarrow> (string \<Rightarrow> Manifest option) \<Rightarrow> pod_world \<Rightarrow> fs \<Rightarrow> string list \<Rightarrow> ep_end" where
  "entrypoint_main interp unmarshal w fs args =
     (if length args < 2 then Usage
      else if args ! 1 = ''setup'' then
        (if length args < 3 then Usage
         else case runSetup fs (pwFetch w) (manifest_option (loadManifest unmarshal fs (args ! 2))) actionsDir shimDir of
                (r, fs') \<Rightarrow> SetupEnd r fs')
      else if args ! 1 = ''run'' then
        (if length args < 3 then Usage
         else case runEntrypoint interp (pwEnviron w) shimDir (pwSteps w) (pwStateOk w)
                     (manifest_option (loadManifest unmarshal fs (args ! 2))) of
                (events, results, ok) \<Rightarrow> RunEnd events results ok)
      else if args ! 1 = ''tail'' then
        (case parseTailArgs (drop 2 args) of
           Inl e \<Rightarrow> TailRefused e
         | Inr a \<Rightarrow> (case runTail (pwOpened w) a (pwRounds w) of (r, s) \<Rightarrow> TailEnd r s))
      else Usage)"

text \<open>The exit code, once the process has ended.\<close>

definition exit_code :: "ep_end \<Rightarrow> int option" where
  "exit_code e =
     (case e of
        Usage \<Rightarrow> Some 1
      | SetupEnd r _ \<Rightarrow> Some (if r = None then 0 else 1)
      | RunEnd _ _ ok \<Rightarrow> Some (if ok then 0 else 1)
      | TailRefused _ \<Rightarrow> Some 1
      | TailEnd r _ \<Rightarrow> (case r of TailOpenFailed \<Rightarrow> Some 1 | TailRunning \<Rightarrow> None | _ \<Rightarrow> Some 0))"

section \<open>The pod\<close>

text \<open>What the shell makes of a script with one here-document: the file, and the words of the last line.\<close>

definition script_file :: "string \<Rightarrow> string \<Rightarrow> string" where
  "script_file delim script = concat (map (\<lambda>l. l @ [NL]) (here_document delim script))"

definition exec_words :: "string \<Rightarrow> string list" where
  "exec_words script = tl (Split CHR '' '' (last (Split NL script)))"

lemma exec_words_setup:
  "NL \<notin> set json \<Longrightarrow> NL \<notin> set delim \<Longrightarrow> exec_words (setupCmd delim json) = [''/shim/entrypoint'', ''setup'', ''/shim/manifest.json'']"
proof -
  assume n: "NL \<notin> set json" "NL \<notin> set delim"
  from setup_lines [OF this] have "last (Split NL (setupCmd delim json)) = ''exec /shim/entrypoint setup /shim/manifest.json''"
    by (cases "Split NL (setupCmd delim json)") auto
  then show ?thesis by (simp add: exec_words_def)
qed

lemma setup_container:
  assumes "c \<in> set (init_containers cfg delim json)" "ctName c = ''setup-shim''"
  shows "hd (ctArgs c) = setupCmd delim json"
  using assms by (auto simp: init_containers_def Let_def service_container_def split: if_splits)

lemma agent_args: "parseTailArgs [''/shim/state.jsonl''] = Inr \<lparr>taPath = state_path ''/shim'', taOnce = False, taSkip = 0\<rparr>"
proof -
  have "state_path ''/shim'' = ''/shim/state.jsonl''" by code_simp
  then show ?thesis by (simp add: parseTailArgs_def)
qed

lemma setup_container_in: "\<exists>c \<in> set (init_containers cfg delim json). ctName c = ''setup-shim''"
proof
  let ?c = "last (butlast (init_containers cfg delim json))"
  show "?c \<in> set (init_containers cfg delim json)" "ctName ?c = ''setup-shim''"
    by (simp_all add: init_containers_def Let_def butlast_append)
qed

lemma agent_container:
  "last (init_containers cfg delim json) \<in> set (init_containers cfg delim json)"
  "ctName (last (init_containers cfg delim json)) = ''state-agent''"
  "ctCommand (last (init_containers cfg delim json)) = [''/shim/entrypoint'', ''tail'', ''/shim/state.jsonl'']"
  by (simp_all add: init_containers_def Let_def)

text \<open>
  C27: The pod runs the manifest the controller built. With a decoder that reads back what was encoded (ignoring the line
  break at the end of the file), once the setup script has written its file: the runner container executes exactly the steps of the built manifest
  and ends with the verdict of that execution; the script goes on as the setup command for the actions of the same manifest; and the
  state agent follows the very file which the runner opens for its events, from the beginning.
\<close>

theorem pod_runs_manifest:
  assumes json: "marshal (buildManifest cfg) = Some json" "NL \<notin> set json" "json \<noteq> []" "hd json = CHR ''{''"
    and decode: "unmarshal (json @ [NL]) = Some (buildManifest cfg)"
    and job: "BuildJob marshal (Some bytes) cfg = Inr job"
    and shim: "c \<in> set (jbInit job)" "ctName c = ''setup-shim''"
    and written: "read_file fs ''/shim/manifest.json'' = Inr (script_file (delimiter bytes) (hd (ctArgs c)))"
  shows "(\<exists>r. jbContainers job = [r] \<and>
      entrypoint_main interp unmarshal w fs (ctCommand r)
        = (case runEntrypoint interp (pwEnviron w) ''/shim'' (pwSteps w) (pwStateOk w) (Some (buildManifest cfg)) of
             (events, results, ok) \<Rightarrow> RunEnd events results ok)) \<and>
    entrypoint_main interp unmarshal w fs (exec_words (hd (ctArgs c)))
      = (case runSetup fs (pwFetch w) (Some (buildManifest cfg)) ''/actions'' ''/shim'' of (e, fs') \<Rightarrow> SetupEnd e fs') \<and>
    (\<exists>a \<in> set (jbInit job). ctName a = ''state-agent'' \<and>
      entrypoint_main interp unmarshal w fs (ctCommand a)
        = (case runTail (pwOpened w) \<lparr>taPath = state_path ''/shim'', taOnce = False, taSkip = 0\<rparr> (pwRounds w) of
             (e, s) \<Rightarrow> TailEnd e s))"
proof -
  have i: "jbInit job = init_containers cfg (delimiter bytes) json" "jbContainers job = [runner_container cfg]"
    using job json(1) by (auto simp: BuildJob_def)
  note c = setup_container [OF shim(1) [unfolded i(1)] shim(2)]
  have "here_document (delimiter bytes) (setupCmd (delimiter bytes) json) = [json]"
    by (rule setup_writes_manifest [OF json(2-4)])
  then have l: "loadManifest unmarshal fs ''/shim/manifest.json'' = Inr (buildManifest cfg)"
    using written decode by (simp add: loadManifest_def c script_file_def)
  have "entrypoint_main interp unmarshal w fs (ctCommand (runner_container cfg))
        = (case runEntrypoint interp (pwEnviron w) ''/shim'' (pwSteps w) (pwStateOk w) (Some (buildManifest cfg)) of
             (events, results, ok) \<Rightarrow> RunEnd events results ok)"
    by (simp add: entrypoint_main_def runner_container_def l manifest_option_def shimDir_def)
  moreover have "entrypoint_main interp unmarshal w fs (exec_words (hd (ctArgs c)))
      = (case runSetup fs (pwFetch w) (Some (buildManifest cfg)) ''/actions'' ''/shim'' of (e, fs') \<Rightarrow> SetupEnd e fs')"
    by (simp add: c exec_words_setup [OF json(2) delimiter_no_newline] entrypoint_main_def l manifest_option_def actionsDir_def shimDir_def)
  moreover obtain a where "a \<in> set (jbInit job)" "ctName a = ''state-agent''" "ctCommand a = [''/shim/entrypoint'', ''tail'', ''/shim/state.jsonl'']"
    unfolding i(1) using agent_container by blast
  moreover from this have "entrypoint_main interp unmarshal w fs (ctCommand a)
        = (case runTail (pwOpened w) \<lparr>taPath = state_path ''/shim'', taOnce = False, taSkip = 0\<rparr> (pwRounds w) of
             (e, s) \<Rightarrow> TailEnd e s)"
    by (simp add: entrypoint_main_def agent_args)
  ultimately show ?thesis using i(2) by blast
qed

section \<open>Witnesses\<close>

theorem pod_runs_manifest_witness:
  "\<exists>job r. BuildJob (\<lambda>_. Some ''{}'') (Some ''x'') example_job_config = Inr job \<and> jbContainers job = [r] \<and>
     (case entrypoint_main (undefined :: (nat, nat) interpreter) (\<lambda>_. Some (buildManifest example_job_config)) (undefined\<lparr>pwStateOk := \<lambda>_. True\<rparr>)
        [([''shim''], DirNode), ([''shim'', ''manifest.json''], FileNode (''{}'' @ [NL]))] (ctCommand r) of
        RunEnd events results ok \<Rightarrow> ok | _ \<Rightarrow> False)"
proof -
  let ?fs = "[([''shim''], DirNode), ([''shim'', ''manifest.json''], FileNode (''{}'' @ [NL]))]"
  obtain job where job: "BuildJob (\<lambda>_. Some ''{}'') (Some ''x'') example_job_config = Inr job" by (simp add: BuildJob_def)
  then have "jbInit job = init_containers example_job_config (delimiter ''x'') ''{}''" by (auto simp: BuildJob_def)
  then obtain c where c: "c \<in> set (jbInit job)" "ctName c = ''setup-shim''" "hd (ctArgs c) = setupCmd (delimiter ''x'') ''{}''"
    using setup_container_in setup_container by metis
  have "read_file ?fs ''/shim/manifest.json'' = Inr (''{}'' @ [NL])" by code_simp
  then have w: "read_file ?fs ''/shim/manifest.json'' = Inr (script_file (delimiter ''x'') (hd (ctArgs c)))"
    using setup_writes_manifest [of "''{}''" "''x''"] by (simp add: c(3) script_file_def)
  have "runEntrypoint (undefined :: (nat, nat) interpreter) e ''/shim'' s (\<lambda>_. True) (Some (buildManifest example_job_config)) = ([], Some Map.empty, True)" for e s
    by (simp add: runEntrypoint_def buildManifest_def example_job_config_def ep_init_def)
  with pod_runs_manifest [where unmarshal = "\<lambda>_. Some (buildManifest example_job_config)" and interp = "undefined :: (nat, nat) interpreter"
      and w = "undefined\<lparr>pwStateOk := \<lambda>_. True\<rparr>", OF _ _ _ _ _ job c(1,2) w] job
  show ?thesis by fastforce
qed

end
