(* ===== verification/Register.thy ===== *)
theory Register
  imports Protocol
begin

text \<open>
  Registration with the forge and the stored credentials, from \<^verbatim>\<open>src/pkg/server/register.go\<close>, and the
  headers of the client, from \<^verbatim>\<open>src/pkg/server/client.go\<close>.

  The JSON encoding of a registration is a pair of parameters, \<open>enc\<close> and \<open>dec\<close>. The file system
  holds at most the credential file; a cluster holds secrets by name. The forge's answers to
  the calls of one start are a record.
\<close>

section \<open>The client\<close>

record Client =
  ctEndpoint :: string
  ctBaseURL :: string
  ctInsecure :: bool
  ctUUID :: string
  ctToken :: string
  ctFetchInterval :: int
  ctTimeout :: int
  ctRequestKey :: "nat option"

definition NewClient :: "string \<Rightarrow> bool \<Rightarrow> string \<Rightarrow> string \<Rightarrow> int \<Rightarrow> int \<Rightarrow> Client" where
  "NewClient endpoint insecure uuid token fetchInterval httpTimeout =
     \<lparr>ctEndpoint = endpoint, ctBaseURL = TrimRight endpoint ''/'' @ ''/api/actions'', ctInsecure = insecure, ctUUID = uuid, ctToken = token,
      ctFetchInterval = fetchInterval, ctTimeout = (if httpTimeout = 0 then 60 * Second else httpTimeout), ctRequestKey = None\<rparr>"

definition SetRequestKey :: "Client \<Rightarrow> nat \<Rightarrow> Client" where
  "SetRequestKey c key = c\<lparr>ctRequestKey := Some key\<rparr>"

definition clearRequestKey :: "Client \<Rightarrow> Client" where
  "clearRequestKey c = c\<lparr>ctRequestKey := None\<rparr>"

text \<open>The headers the interceptor adds; \<open>print\<close> is the text of a request key.\<close>

definition request_headers :: "(nat \<Rightarrow> string) \<Rightarrow> Client \<Rightarrow> (string \<times> string) list" where
  "request_headers print c =
     (if ctUUID c \<noteq> [] then [(''x-runner-uuid'', ctUUID c)] else []) @
     (if ctToken c \<noteq> [] then [(''x-runner-token'', ctToken c)] else []) @
     (case ctRequestKey c of None \<Rightarrow> [] | Some key \<Rightarrow> [(''x-runner-request-key'', print key)])"

text \<open>
  The HTTP client. Certificates go unverified only for an encrypted endpoint that is configured so;
  \<open>h2ok\<close> is whether the HTTP/2 library accepts the transport. The proxy of the environment is left out.
\<close>

record http2_settings =
  h2ReadIdleTimeout :: int
  h2PingTimeout :: int
  h2WriteByteTimeout :: int

record http_transport =
  htForceAttemptHTTP2 :: bool
  htIdleConnTimeout :: int
  htTLSHandshakeTimeout :: int
  htResponseHeaderTimeout :: int
  htExpectContinueTimeout :: int
  htSkipVerify :: bool
  htHTTP2 :: "http2_settings option"

definition buildTransport :: "bool \<Rightarrow> string \<Rightarrow> bool \<Rightarrow> http_transport" where
  "buildTransport h2ok endpoint insecure =
     \<lparr>htForceAttemptHTTP2 = True, htIdleConnTimeout = 90 * Second, htTLSHandshakeTimeout = 10 * Second, htResponseHeaderTimeout = 30 * Second,
      htExpectContinueTimeout = 1 * Second, htSkipVerify = (HasPrefix endpoint ''https://'' \<and> insecure),
      htHTTP2 = (if h2ok then Some \<lparr>h2ReadIdleTimeout = 15 * Second, h2PingTimeout = 10 * Second, h2WriteByteTimeout = 30 * Second\<rparr>
                 else None)\<rparr>"

definition newHTTPClient :: "bool \<Rightarrow> string \<Rightarrow> bool \<Rightarrow> int \<Rightarrow> http_transport \<times> int" where
  "newHTTPClient h2ok endpoint insecure timeout = (buildTransport h2ok endpoint insecure, timeout)"

definition Endpoint :: "Client \<Rightarrow> string" where "Endpoint c = ctEndpoint c"

definition FetchInterval :: "Client \<Rightarrow> int" where "FetchInterval c = ctFetchInterval c"

section \<open>Stored credentials\<close>

record Registration =
  rgID :: int
  rgUUID :: string
  rgName :: string
  rgToken :: string
  rgAddress :: string
  rgLabels :: "string list"
  rgCacheSecret :: string

datatype store_error = StoreUnavailable | Undecodable

text \<open>
  The contract of a credential store: on a healthy store, what was saved is what is loaded.
\<close>

locale credential_store =
  fixes load :: "'s \<Rightarrow> store_error + Registration option"
    and save :: "'s \<Rightarrow> Registration \<Rightarrow> (store_error + unit) \<times> 's"
    and healthy :: "'s \<Rightarrow> bool"
  assumes load_saved: "healthy s \<Longrightarrow> save s reg = (Inr (), s') \<Longrightarrow> healthy s' \<and> load s' = Inr (Some reg)"

text \<open>A file: missing, unreadable, or a text.\<close>

datatype cred_file = CredMissing | CredUnreadable | CredText string

definition FileStore_Load :: "(string \<Rightarrow> Registration option) \<Rightarrow> cred_file \<Rightarrow> store_error + Registration option" where
  "FileStore_Load dec f =
     (case f of
        CredMissing \<Rightarrow> Inr None
      | CredUnreadable \<Rightarrow> Inl StoreUnavailable
      | CredText data \<Rightarrow> (case dec data of None \<Rightarrow> Inl Undecodable | Some reg \<Rightarrow> Inr (Some reg)))"

definition FileStore_Save :: "(Registration \<Rightarrow> string) \<Rightarrow> cred_file \<Rightarrow> Registration \<Rightarrow> (store_error + unit) \<times> cred_file" where
  "FileStore_Save enc f reg =
     (case f of CredUnreadable \<Rightarrow> (Inl StoreUnavailable, f) | _ \<Rightarrow> (Inr (), CredText (enc reg)))"

text \<open>The secrets of a namespace by name: labels and data; \<open>ssUp\<close> says whether the server answers.\<close>

record secret_space =
  ssUp :: bool
  ssSecrets :: "string \<rightharpoonup> env_map \<times> env_map"

definition secretDataKey :: string where "secretDataKey = ''registration''"

definition SecretStore_Load :: "(string \<Rightarrow> Registration option) \<Rightarrow> string \<Rightarrow> secret_space \<Rightarrow> store_error + Registration option" where
  "SecretStore_Load dec name s =
     (if \<not> ssUp s then Inl StoreUnavailable
      else case ssSecrets s name of
        None \<Rightarrow> Inr None
      | Some (labels, data) \<Rightarrow>
          (case data secretDataKey of
             None \<Rightarrow> Inr None
           | Some text \<Rightarrow> (case dec text of None \<Rightarrow> Inl Undecodable | Some reg \<Rightarrow> Inr (Some reg))))"

text \<open>Create, and update when the secret exists: both store the same object.\<close>

definition SecretStore_Save ::
  "(Registration \<Rightarrow> string) \<Rightarrow> string \<Rightarrow> secret_space \<Rightarrow> Registration \<Rightarrow> (store_error + unit) \<times> secret_space" where
  "SecretStore_Save enc name s reg =
     (let obj = ([''app.kubernetes.io/managed-by'' \<mapsto> ''drawbar''], [secretDataKey \<mapsto> enc reg])
      in if \<not> ssUp s then (Inl StoreUnavailable, s) else (Inr (), s\<lparr>ssSecrets := (ssSecrets s)(name \<mapsto> obj)\<rparr>))"

definition codec :: "(Registration \<Rightarrow> string) \<Rightarrow> (string \<Rightarrow> Registration option) \<Rightarrow> bool" where
  "codec enc dec \<longleftrightarrow> (\<forall>reg. dec (enc reg) = Some reg)"

interpretation file_store: credential_store "FileStore_Load dec" "FileStore_Save enc" "\<lambda>_. codec enc dec"
  by unfold_locales (auto simp: FileStore_Load_def FileStore_Save_def codec_def split: cred_file.splits)

interpretation secret_store: credential_store "SecretStore_Load dec name" "SecretStore_Save enc name" "\<lambda>_. codec enc dec"
  by unfold_locales (auto simp: SecretStore_Load_def SecretStore_Save_def codec_def Let_def split: if_splits)

section \<open>Registering\<close>

record RegisterConfig =
  rfEndpoint :: string
  rfInsecure :: bool
  rfRegistrationToken :: string
  rfName :: string
  rfLabels :: "string list"
  rfFetchInterval :: int
  rfHTTPTimeout :: int

text \<open>The forge's answers: to the ping, the registration (identifier, UUID, name and token), and a declaration by a client.\<close>

record forge =
  fgPing :: bool
  fgRegister :: "RegisterConfig \<Rightarrow> (int \<times> string \<times> string \<times> string) option"
  fgDeclare :: "Client \<Rightarrow> rpc_error option"

datatype register_error = LoadFailed store_error | NoToken | PingFailed | RegistrationFailed | SaveFailed store_error

definition declare_runner :: "forge \<Rightarrow> Client \<Rightarrow> rpc_error option" where
  "declare_runner fg client =
     (case fgDeclare fg client of Some Unimplemented \<Rightarrow> None | r \<Rightarrow> r)"

definition register :: "forge \<Rightarrow> ('s \<Rightarrow> Registration \<Rightarrow> (store_error + unit) \<times> 's) \<Rightarrow> RegisterConfig \<Rightarrow> 's \<Rightarrow> (register_error + Client) \<times> 's" where
  "register fg save cfg s =
     (if \<not> fgPing fg then (Inl PingFailed, s)
      else case fgRegister fg cfg of
        None \<Rightarrow> (Inl RegistrationFailed, s)
      | Some (i, uuid, name, token) \<Rightarrow>
          (case save s \<lparr>rgID = i, rgUUID = uuid, rgName = name, rgToken = token, rgAddress = rfEndpoint cfg,
                  rgLabels = rfLabels cfg, rgCacheSecret = []\<rparr> of
             (Inl e, s') \<Rightarrow> (Inl (SaveFailed e), s')
           | (Inr _, s') \<Rightarrow> (Inr (NewClient (rfEndpoint cfg) (rfInsecure cfg) uuid token (rfFetchInterval cfg) (rfHTTPTimeout cfg)), s')))"

definition EnsureRegistered ::
  "forge \<Rightarrow> ('s \<Rightarrow> store_error + Registration option) \<Rightarrow> ('s \<Rightarrow> Registration \<Rightarrow> (store_error + unit) \<times> 's)
    \<Rightarrow> RegisterConfig \<Rightarrow> 's \<Rightarrow> (register_error + Client) \<times> 's" where
  "EnsureRegistered fg load save cfg s =
     (let again = (if rfRegistrationToken cfg = [] then (Inl NoToken, s) else register fg save cfg s)
      in case load s of
           Inl e \<Rightarrow> (Inl (LoadFailed e), s)
         | Inr None \<Rightarrow> again
         | Inr (Some reg) \<Rightarrow>
             (let client = NewClient (rgAddress reg) (rfInsecure cfg) (rgUUID reg) (rgToken reg) (rfFetchInterval cfg) (rfHTTPTimeout cfg)
              in if declare_runner fg client = None then (Inr client, s) else again))"

section \<open>Identity over restarts\<close>

context credential_store
begin

lemma registered_again:
  assumes "healthy s" "load s = Inr None" "EnsureRegistered fg load save cfg s = (Inr client, s')"
    and "declare_runner fg' client = None" "rfEndpoint cfg' = rfEndpoint cfg" "rfInsecure cfg' = rfInsecure cfg"
    and "rfFetchInterval cfg' = rfFetchInterval cfg" "rfHTTPTimeout cfg' = rfHTTPTimeout cfg"
  shows "EnsureRegistered fg' load save cfg' s' = (Inr client, s')"
proof -
  obtain i uuid name token where r: "fgRegister fg cfg = Some (i, uuid, name, token)"
    and c: "client = NewClient (rfEndpoint cfg) (rfInsecure cfg) uuid token (rfFetchInterval cfg) (rfHTTPTimeout cfg)"
    and s: "save s \<lparr>rgID = i, rgUUID = uuid, rgName = name, rgToken = token, rgAddress = rfEndpoint cfg,
                  rgLabels = rfLabels cfg, rgCacheSecret = []\<rparr> = (Inr (), s')"
    using assms(2,3) by (auto simp: EnsureRegistered_def register_def split: if_splits option.splits sum.splits prod.splits)
  from load_saved [OF assms(1) s] assms(4-8) c show ?thesis by (simp add: EnsureRegistered_def Let_def)
qed

lemma keeps_store: "EnsureRegistered fg load save cfg s = (r, s') \<Longrightarrow> load s = Inr (Some reg) \<Longrightarrow>
    declare_runner fg (NewClient (rgAddress reg) (rfInsecure cfg) (rgUUID reg) (rgToken reg) (rfFetchInterval cfg) (rfHTTPTimeout cfg)) = None \<Longrightarrow>
    s' = s \<and> r = Inr (NewClient (rgAddress reg) (rfInsecure cfg) (rgUUID reg) (rgToken reg) (rfFetchInterval cfg) (rfHTTPTimeout cfg))"
  by (auto simp: EnsureRegistered_def Let_def)

end

text \<open>
  C35: A runner keeps its identity over restarts: when it registered with an empty Kubernetes secret, a
  later start with the same server address comes back with the same credentials as long as
  the forge accepts their declaration (or does not know declarations), without registering
  again, whatever registration token the second start has.
\<close>

theorem identity_kept:
  assumes "codec enc dec" "SecretStore_Load dec name s = Inr None"
    and "EnsureRegistered fg (SecretStore_Load dec name) (SecretStore_Save enc name) cfg s = (Inr client, s')"
    and "declare_runner fg' client = None"
  shows "EnsureRegistered fg' (SecretStore_Load dec name) (SecretStore_Save enc name) (cfg\<lparr>rfRegistrationToken := token\<rparr>) s' = (Inr client, s')"
  by (rule secret_store.registered_again [OF assms]) simp_all

text \<open>
  The credentials are only sent once there are any: the requests of a client made for the
  first registration carry no identity header, and those of a registered client carry exactly
  its UUID and token, and the request key while one is set.
\<close>

theorem headers_of_client:
  "request_headers print (NewClient endpoint insecure [] [] i t) = [] \<and>
   (uuid \<noteq> [] \<and> token \<noteq> [] \<longrightarrow>
      request_headers print (NewClient endpoint insecure uuid token i t) = [(''x-runner-uuid'', uuid), (''x-runner-token'', token)] \<and>
      request_headers print (SetRequestKey (NewClient endpoint insecure uuid token i t) key)
        = [(''x-runner-uuid'', uuid), (''x-runner-token'', token), (''x-runner-request-key'', print key)] \<and>
      clearRequestKey (SetRequestKey (NewClient endpoint insecure uuid token i t) key) = NewClient endpoint insecure uuid token i t)"
  by (simp add: request_headers_def NewClient_def SetRequestKey_def clearRequestKey_def)

section \<open>Witnesses\<close>

text \<open>An encoding of registrations for the example: their fields, each after its length.\<close>

definition enc_field :: "string \<Rightarrow> string" where
  "enc_field f = dec_nat (length f) @ CHR '':'' # f"

fun dec_fields :: "nat \<Rightarrow> string \<Rightarrow> string list" where
  "dec_fields 0 t = []"
| "dec_fields (Suc n) t =
     (case Cut CHR '':'' t of
        None \<Rightarrow> []
      | Some (digits, r) \<Rightarrow> take (parse_digits digits) r # dec_fields n (drop (parse_digits digits) r))"

lemma dec_enc_fields: "length fs \<le> n \<Longrightarrow> dec_fields n (concat (map enc_field fs)) = fs"
proof (induction fs arbitrary: n)
  case Nil
  then show ?case by (cases n) auto
next
  case (Cons f fs)
  then obtain m where n: "n = Suc m" by (cases n) auto
  have "CHR '':'' \<notin> set (dec_nat k)" for k by (rule dec_nat_no) (simp add: is_digit_def char_in_def)
  then have "Cut CHR '':'' (dec_nat (length f) @ CHR '':'' # (f @ concat (map enc_field fs))) = Some (dec_nat (length f), f @ concat (map enc_field fs))"
    by (rule Cut_append)
  then have "Cut CHR '':'' (concat (map enc_field (f # fs))) = Some (dec_nat (length f), f @ concat (map enc_field fs))"
    by (simp add: enc_field_def [of f])
  then show ?case using Cons n by (simp add: parse_dec_nat del: list.map concat.simps)
qed

definition example_enc :: "Registration \<Rightarrow> string" where
  "example_enc r = concat (map enc_field ([if rgID r < 0 then ''-'' else ''+'', dec_nat (nat (abs (rgID r))), rgUUID r, rgName r,
     rgToken r, rgAddress r, rgCacheSecret r] @ rgLabels r))"

definition example_dec :: "string \<Rightarrow> Registration option" where
  "example_dec t =
     (case dec_fields (length t) t of
        sign # i # uuid # name # token # address # sec # labels \<Rightarrow>
          Some \<lparr>rgID = (if sign = ''-'' then - int (parse_digits i) else int (parse_digits i)), rgUUID = uuid, rgName = name,
            rgToken = token, rgAddress = address, rgLabels = labels, rgCacheSecret = sec\<rparr>
      | _ \<Rightarrow> None)"

lemma example_codec: "codec example_enc example_dec"
  unfolding codec_def
proof
  fix r :: Registration
  have len: "length fs \<le> length (concat (map enc_field fs))" for fs
    by (induction fs) (auto simp: enc_field_def)
  show "example_dec (example_enc r) = Some r"
    unfolding example_enc_def example_dec_def dec_enc_fields [OF len] by (simp add: parse_dec_nat)
qed

definition example_forge :: forge where
  "example_forge = \<lparr>fgPing = True, fgRegister = (\<lambda>_. Some (1, ''u'', ''n'', ''t'')), fgDeclare = (\<lambda>_. Some Unimplemented)\<rparr>"

definition example_register :: RegisterConfig where
  "example_register = \<lparr>rfEndpoint = ''http://f'', rfInsecure = False, rfRegistrationToken = ''r'', rfName = ''n'', rfLabels = [], rfFetchInterval = 2, rfHTTPTimeout = 0\<rparr>"

lemma example_first_start:
  "EnsureRegistered example_forge (SecretStore_Load example_dec ''c'') (SecretStore_Save example_enc ''c'') example_register \<lparr>ssUp = True, ssSecrets = Map.empty\<rparr>
    = (Inr (NewClient ''http://f'' False ''u'' ''t'' 2 0),
       \<lparr>ssUp = True, ssSecrets = [''c'' \<mapsto> ([''app.kubernetes.io/managed-by'' \<mapsto> ''drawbar''], [secretDataKey \<mapsto>
          example_enc \<lparr>rgID = 1, rgUUID = ''u'', rgName = ''n'', rgToken = ''t'', rgAddress = ''http://f'', rgLabels = [], rgCacheSecret = []\<rparr>])]\<rparr>)"
  by (simp add: EnsureRegistered_def SecretStore_Load_def SecretStore_Save_def register_def example_forge_def example_register_def Let_def)

theorem identity_kept_witness:
  "fst (EnsureRegistered example_forge (SecretStore_Load example_dec ''c'') (SecretStore_Save example_enc ''c'') (example_register\<lparr>rfRegistrationToken := []\<rparr>)
      \<lparr>ssUp = True, ssSecrets = [''c'' \<mapsto> ([''app.kubernetes.io/managed-by'' \<mapsto> ''drawbar''], [secretDataKey \<mapsto>
          example_enc \<lparr>rgID = 1, rgUUID = ''u'', rgName = ''n'', rgToken = ''t'', rgAddress = ''http://f'', rgLabels = [], rgCacheSecret = []\<rparr>])]\<rparr>)
    = Inr (NewClient ''http://f'' False ''u'' ''t'' 2 0)"
proof -
  have "SecretStore_Load example_dec ''c'' \<lparr>ssUp = True, ssSecrets = Map.empty\<rparr> = Inr None" by (simp add: SecretStore_Load_def)
  moreover have "declare_runner example_forge (NewClient ''http://f'' False ''u'' ''t'' 2 0) = None"
    by (simp add: declare_runner_def example_forge_def)
  ultimately show ?thesis using identity_kept [OF example_codec _ example_first_start, of example_forge "[]"] by simp
qed

theorem headers_of_client_witness:
  "request_headers (\<lambda>_. ''k'') (NewClient ''http://f'' False ''u'' ''t'' 2 0) = [(''x-runner-uuid'', ''u''), (''x-runner-token'', ''t'')]"
  using headers_of_client [of "\<lambda>_. ''k''" "''http://f''" False 2 0 "''u''" "''t''" 0] by simp

end
