(* ===== verification/Config.thy ===== *)
theory Config
  imports Prelude
begin

text \<open>
  The configuration of the controller, from \<^verbatim>\<open>src/pkg/config/config.go\<close>: defaults, loading with
  overrides from the environment, and validation.

  \<^verbatim>\<open>yaml.Unmarshal\<close> (third-party) is the parameter \<open>yaml\<close>: how a text changes a configuration, or none
  when it cannot be parsed. \<^verbatim>\<open>time.ParseDuration\<close> is the parameter \<open>ParseDuration\<close>. Durations are
  nanoseconds. The environment is a function that is empty for variables that are not set.
\<close>

section \<open>Data\<close>

record ServerConfig =
  svURL :: string
  svRegistrationToken :: string
  svInsecure :: bool

record RunnerConfig =
  rcName :: string
  rcLabels :: "string list"
  rcCapacity :: int
  rcEphemeral :: bool
  rcFetchInterval :: int
  rcFetchTimeout :: int
  rcTimeout :: int
  rcShutdownTimeout :: int
  rcGitCloneURL :: string
  rcActionsURL :: string
  rcControllerImage :: string
  rcJobSecrets :: "(string \<times> string) list"    \<comment> \<open>name and mount path\<close>
  rcAptProxyURL :: string

record CacheConfig =
  caEnabled :: bool
  caDir :: string
  caPort :: "16 word"
  caServiceName :: string

record SnapshotConfig =
  snEnabled :: bool
  snClass :: string
  snStorageClass :: string
  snSize :: string
  snRetentionDays :: int

record Config =
  cfServer :: ServerConfig
  cfRunner :: RunnerConfig
  cfCache :: CacheConfig
  cfSnapshot :: SnapshotConfig
  cfLogLevel :: string

section \<open>Defaults\<close>

definition computeShutdownTimeoutDefault :: "int \<Rightarrow> int \<Rightarrow> int" where
  "computeShutdownTimeoutDefault timeout fetchTimeout =
     (let floor = 30 * Second; ceiling = 5 * Minute;
          d = min timeout (int64 (10 * fetchTimeout))
      in max floor (min d ceiling))"

definition Default :: "string \<Rightarrow> Config" where
  "Default hostname =
     (let runner = \<lparr>rcName = hostname, rcLabels = [''ubuntu-latest:docker://node:22-bookworm''], rcCapacity = 1,
            rcEphemeral = False, rcFetchInterval = 2 * Second, rcFetchTimeout = 30 * Second, rcTimeout = 3 * Hour,
            rcShutdownTimeout = 0, rcGitCloneURL = [], rcActionsURL = [], rcControllerImage = [], rcJobSecrets = [], rcAptProxyURL = []\<rparr>
      in \<lparr>cfServer = \<lparr>svURL = [], svRegistrationToken = [], svInsecure = False\<rparr>,
          cfRunner = runner\<lparr>rcShutdownTimeout := computeShutdownTimeoutDefault (rcTimeout runner) (rcFetchTimeout runner)\<rparr>,
          cfCache = \<lparr>caEnabled = True, caDir = ''/cache'', caPort = 9300, caServiceName = []\<rparr>,
          cfSnapshot = \<lparr>snEnabled = False, snClass = [], snStorageClass = [], snSize = ''10Gi'', snRetentionDays = 7\<rparr>,
          cfLogLevel = ''info''\<rparr>)"

section \<open>Overrides from the environment\<close>

definition env_bool :: "string \<Rightarrow> bool" where
  "env_bool v = (v = ''true'' \<or> v = ''1'')"

definition override :: "(string \<Rightarrow> string) \<Rightarrow> string \<Rightarrow> (string \<Rightarrow> 'a \<Rightarrow> 'a) \<Rightarrow> 'a \<Rightarrow> 'a" where
  "override getenv var put x = (if getenv var \<noteq> [] then put (getenv var) x else x)"

definition override_num :: "(string \<Rightarrow> string) \<Rightarrow> string \<Rightarrow> (int \<Rightarrow> 'a \<Rightarrow> 'a) \<Rightarrow> 'a \<Rightarrow> 'a" where
  "override_num getenv var put = override getenv var (\<lambda>v x. case ParseInt 64 v of None \<Rightarrow> x | Some n \<Rightarrow> put n x)"

definition override_server :: "(string \<Rightarrow> string) \<Rightarrow> ServerConfig \<Rightarrow> ServerConfig" where
  "override_server getenv c =
     (let c1 = override getenv ''SERVER_URL'' (\<lambda>v c. c\<lparr>svURL := v\<rparr>) c;
          c2 = override getenv ''SERVER_REGISTRATION_TOKEN'' (\<lambda>v c. c\<lparr>svRegistrationToken := v\<rparr>) c1
      in override getenv ''SERVER_INSECURE'' (\<lambda>v c. c\<lparr>svInsecure := env_bool v\<rparr>) c2)"

definition override_runner :: "(string \<Rightarrow> int option) \<Rightarrow> (string \<Rightarrow> string) \<Rightarrow> RunnerConfig \<Rightarrow> RunnerConfig" where
  "override_runner ParseDuration getenv c =
     (let c1 = override getenv ''RUNNER_NAME'' (\<lambda>v c. c\<lparr>rcName := v\<rparr>) c;
          c2 = override getenv ''RUNNER_LABELS'' (\<lambda>v c. c\<lparr>rcLabels := Split CHR '','' v\<rparr>) c1;
          c3 = override_num getenv ''RUNNER_CAPACITY'' (\<lambda>n c. c\<lparr>rcCapacity := n\<rparr>) c2;
          c4 = override getenv ''RUNNER_EPHEMERAL'' (\<lambda>v c. c\<lparr>rcEphemeral := env_bool v\<rparr>) c3;
          c5 = override getenv ''RUNNER_GIT_CLONE_URL'' (\<lambda>v c. c\<lparr>rcGitCloneURL := v\<rparr>) c4;
          c6 = override getenv ''RUNNER_ACTIONS_URL'' (\<lambda>v c. c\<lparr>rcActionsURL := v\<rparr>) c5;
          c7 = override getenv ''CONTROLLER_IMAGE'' (\<lambda>v c. c\<lparr>rcControllerImage := v\<rparr>) c6;
          c8 = override getenv ''RUNNER_APT_PROXY_URL'' (\<lambda>v c. c\<lparr>rcAptProxyURL := v\<rparr>) c7
      in override getenv ''RUNNER_SHUTDOWN_TIMEOUT''
           (\<lambda>v c. case ParseDuration v of None \<Rightarrow> c | Some d \<Rightarrow> c\<lparr>rcShutdownTimeout := d\<rparr>) c8)"

definition override_cache :: "(string \<Rightarrow> string) \<Rightarrow> CacheConfig \<Rightarrow> CacheConfig" where
  "override_cache getenv c =
     (let c1 = override getenv ''CACHE_ENABLED'' (\<lambda>v c. c\<lparr>caEnabled := env_bool v\<rparr>) c;
          c2 = override getenv ''CACHE_DIR'' (\<lambda>v c. c\<lparr>caDir := v\<rparr>) c1;
          c3 = override_num getenv ''CACHE_PORT'' (\<lambda>n c. c\<lparr>caPort := of_int n\<rparr>) c2
      in override getenv ''CACHE_SERVICE_NAME'' (\<lambda>v c. c\<lparr>caServiceName := v\<rparr>) c3)"

definition override_snapshot :: "(string \<Rightarrow> string) \<Rightarrow> SnapshotConfig \<Rightarrow> SnapshotConfig" where
  "override_snapshot getenv c =
     (let c1 = override getenv ''SNAPSHOT_ENABLED'' (\<lambda>v c. c\<lparr>snEnabled := env_bool v\<rparr>) c;
          c2 = override getenv ''SNAPSHOT_CLASS'' (\<lambda>v c. c\<lparr>snClass := v\<rparr>) c1;
          c3 = override getenv ''SNAPSHOT_STORAGE_CLASS'' (\<lambda>v c. c\<lparr>snStorageClass := v\<rparr>) c2;
          c4 = override getenv ''SNAPSHOT_SIZE'' (\<lambda>v c. c\<lparr>snSize := v\<rparr>) c3
      in override_num getenv ''SNAPSHOT_RETENTION_DAYS'' (\<lambda>n c. c\<lparr>snRetentionDays := n\<rparr>) c4)"

definition applyEnvOverrides :: "(string \<Rightarrow> int option) \<Rightarrow> (string \<Rightarrow> string) \<Rightarrow> Config \<Rightarrow> Config" where
  "applyEnvOverrides ParseDuration getenv c =
     \<lparr>cfServer = override_server getenv (cfServer c), cfRunner = override_runner ParseDuration getenv (cfRunner c),
      cfCache = override_cache getenv (cfCache c), cfSnapshot = override_snapshot getenv (cfSnapshot c),
      cfLogLevel = override getenv ''LOG_LEVEL'' (\<lambda>v _. v) (cfLogLevel c)\<rparr>"

section \<open>Loading\<close>

datatype read_result = FileMissing | FileUnreadable | FileData string

datatype config_error =
    ReadingConfig
  | ParsingConfig
  | URLRequired
  | NoLabels
  | CapacityTooSmall int
  | FetchIntervalTooSmall int
  | FetchTimeoutTooSmall int int
  | TimeoutTooSmall int
  | ShutdownTooSmall int
  | ShutdownTooLong int int
  | CacheDirRequired
  | SnapshotClassRequired
  | StorageClassRequired
  | RetentionTooSmall int
  | BadLogLevel string

definition fill_defaults :: "Config \<Rightarrow> Config \<Rightarrow> Config" where
  "fill_defaults defaults c =
     (let d = cfRunner defaults;
          r1 = (cfRunner c)\<lparr>rcName := (if rcName (cfRunner c) = [] then rcName d else rcName (cfRunner c)),
                 rcCapacity := (if rcCapacity (cfRunner c) = 0 then rcCapacity d else rcCapacity (cfRunner c)),
                 rcFetchInterval := (if rcFetchInterval (cfRunner c) = 0 then rcFetchInterval d else rcFetchInterval (cfRunner c)),
                 rcFetchTimeout := (if rcFetchTimeout (cfRunner c) = 0 then rcFetchTimeout d else rcFetchTimeout (cfRunner c)),
                 rcTimeout := (if rcTimeout (cfRunner c) = 0 then rcTimeout d else rcTimeout (cfRunner c))\<rparr>;
          r2 = r1\<lparr>rcShutdownTimeout := (if rcShutdownTimeout r1 = 0 then computeShutdownTimeoutDefault (rcTimeout r1) (rcFetchTimeout r1)
                  else rcShutdownTimeout r1)\<rparr>
      in c\<lparr>cfRunner := r2,
           cfLogLevel := (if cfLogLevel c = [] then cfLogLevel defaults else cfLogLevel c),
           cfCache := (cfCache c)\<lparr>caDir := (if caDir (cfCache c) = [] then caDir (cfCache defaults) else caDir (cfCache c)),
             caPort := (if caPort (cfCache c) = 0 then caPort (cfCache defaults) else caPort (cfCache c))\<rparr>\<rparr>)"

definition Load ::
  "(string \<Rightarrow> Config \<Rightarrow> Config option) \<Rightarrow> (string \<Rightarrow> int option) \<Rightarrow> (string \<Rightarrow> string) \<Rightarrow> string \<Rightarrow> read_result
    \<Rightarrow> config_error + Config" where
  "Load yaml ParseDuration getenv hostname data =
     (case data of
        FileMissing \<Rightarrow> Inr (applyEnvOverrides ParseDuration getenv (Default hostname))
      | FileUnreadable \<Rightarrow> Inl ReadingConfig
      | FileData text \<Rightarrow>
          (case yaml text (Default hostname) of
             None \<Rightarrow> Inl ParsingConfig
           | Some cfg \<Rightarrow> Inr (applyEnvOverrides ParseDuration getenv (fill_defaults (Default hostname) cfg))))"

section \<open>Validation\<close>

definition Validate :: "Config \<Rightarrow> config_error option" where
  "Validate c =
     (let r = cfRunner c; s = cfSnapshot c in
      if svURL (cfServer c) = [] then Some URLRequired
      else if rcLabels r = [] then Some NoLabels
      else if rcCapacity r < 1 then Some (CapacityTooSmall (rcCapacity r))
      else if rcFetchInterval r < 100 * Millisecond then Some (FetchIntervalTooSmall (rcFetchInterval r))
      else if rcFetchTimeout r < rcFetchInterval r then Some (FetchTimeoutTooSmall (rcFetchTimeout r) (rcFetchInterval r))
      else if rcTimeout r < 1 * Minute then Some (TimeoutTooSmall (rcTimeout r))
      else if rcShutdownTimeout r < 1 * Second then Some (ShutdownTooSmall (rcShutdownTimeout r))
      else if rcShutdownTimeout r > rcTimeout r then Some (ShutdownTooLong (rcShutdownTimeout r) (rcTimeout r))
      else if caEnabled (cfCache c) \<and> caDir (cfCache c) = [] then Some CacheDirRequired
      else if snEnabled s \<and> snClass s = [] then Some SnapshotClassRequired
      else if snEnabled s \<and> snStorageClass s = [] then Some StorageClassRequired
      else if snEnabled s \<and> snRetentionDays s < 1 then Some (RetentionTooSmall (snRetentionDays s))
      else if cfLogLevel c \<notin> {''debug'', ''info'', ''warn'', ''error''} then Some (BadLogLevel (cfLogLevel c))
      else None)"

section \<open>Properties\<close>

text \<open>The default drain budget, on every range of its arguments.\<close>

lemma shutdown_default_bounds:
  "30 * Second \<le> computeShutdownTimeoutDefault t f \<and> computeShutdownTimeoutDefault t f \<le> 5 * Minute"
  by (auto simp: computeShutdownTimeoutDefault_def Let_def)

lemma shutdown_default_le_timeout: "1 * Minute \<le> t \<Longrightarrow> computeShutdownTimeoutDefault t f \<le> t"
  by (auto simp: computeShutdownTimeoutDefault_def Let_def)

lemma Default_runner: "rcTimeout (cfRunner (Default h)) = 3 * Hour" "rcFetchTimeout (cfRunner (Default h)) = 30 * Second"
    "rcFetchInterval (cfRunner (Default h)) = 2 * Second" "rcShutdownTimeout (cfRunner (Default h)) = 5 * Minute"
    "rcCapacity (cfRunner (Default h)) = 1" "rcLabels (cfRunner (Default h)) \<noteq> []"
  by (simp_all add: Default_def Let_def computeShutdownTimeoutDefault_def int64_def)

text \<open>
  The defaults are usable: without a configuration file, whatever the environment sets of the
  server, the names, the URLs and the cache directory, the loaded configuration passes validation
  as soon as the environment gives the server's address.
\<close>

theorem defaults_valid:
  assumes "getenv ''SERVER_URL'' \<noteq> []"
    and "\<forall>var \<in> {''RUNNER_CAPACITY'', ''RUNNER_SHUTDOWN_TIMEOUT'', ''LOG_LEVEL'', ''SNAPSHOT_ENABLED'', ''SNAPSHOT_RETENTION_DAYS''}. getenv var = []"
  shows "\<exists>cfg. Load yaml ParseDuration getenv hostname FileMissing = Inr cfg \<and> Validate cfg = None"
proof -
  let ?cfg = "applyEnvOverrides ParseDuration getenv (Default hostname)"
  have "svURL (cfServer ?cfg) \<noteq> []"
    using assms(1) by (simp add: applyEnvOverrides_def override_server_def override_def Let_def)
  moreover have "rcLabels (cfRunner ?cfg) \<noteq> [] \<and> rcCapacity (cfRunner ?cfg) = 1 \<and> rcFetchInterval (cfRunner ?cfg) = 2 * Second \<and>
      rcFetchTimeout (cfRunner ?cfg) = 30 * Second \<and> rcTimeout (cfRunner ?cfg) = 3 * Hour \<and> rcShutdownTimeout (cfRunner ?cfg) = 5 * Minute"
    using assms(2) Default_runner [of hostname]
    by (simp add: applyEnvOverrides_def override_runner_def override_def override_num_def Let_def)
  moreover have "caDir (cfCache ?cfg) \<noteq> []"
    by (simp add: applyEnvOverrides_def override_cache_def override_def override_num_def Let_def Default_def split: option.splits)
  moreover have "\<not> snEnabled (cfSnapshot ?cfg)" "cfLogLevel ?cfg = ''info''"
    using assms(2)
    by (simp_all add: applyEnvOverrides_def override_snapshot_def override_def override_num_def Let_def Default_def split: option.splits)
  ultimately show ?thesis by (simp add: Load_def Validate_def Let_def)
qed

text \<open>
  A valid configuration gives the other components what they rely on: a capacity of at least one,
  a poll interval and timeouts in their ranges, a drain budget between a second and the job
  timeout, and a retention of at least a day when snapshots are kept.
\<close>

theorem Validate_sound:
  "Validate c = None \<longleftrightarrow>
    svURL (cfServer c) \<noteq> [] \<and> rcLabels (cfRunner c) \<noteq> [] \<and> 1 \<le> rcCapacity (cfRunner c) \<and>
    100 * Millisecond \<le> rcFetchInterval (cfRunner c) \<and> rcFetchInterval (cfRunner c) \<le> rcFetchTimeout (cfRunner c) \<and>
    1 * Minute \<le> rcTimeout (cfRunner c) \<and>
    1 * Second \<le> rcShutdownTimeout (cfRunner c) \<and> rcShutdownTimeout (cfRunner c) \<le> rcTimeout (cfRunner c) \<and>
    \<not> (caEnabled (cfCache c) \<and> caDir (cfCache c) = []) \<and>
    \<not> (snEnabled (cfSnapshot c) \<and> (snClass (cfSnapshot c) = [] \<or> snStorageClass (cfSnapshot c) = [] \<or> snRetentionDays (cfSnapshot c) < 1)) \<and>
    cfLogLevel c \<in> {''debug'', ''info'', ''warn'', ''error''}"
  by (auto simp: Validate_def Let_def)

text \<open>
  A short job timeout is refused: a configuration file that sets only the server's address and a job timeout
  between one and five minutes does not load into a valid configuration, because the drain
  budget keeps the value computed from the default timeout; the budget the documentation
  describes, computed from the configured timeout, would be valid.
\<close>

theorem short_timeout_refused:
  assumes yaml: "yaml text (Default hostname) = Some ((Default hostname)\<lparr>cfServer := s,
      cfRunner := (cfRunner (Default hostname))\<lparr>rcTimeout := t\<rparr>\<rparr>)"
    and t: "1 * Minute \<le> t" "t < 5 * Minute" and url: "svURL s \<noteq> []"
  shows "\<exists>cfg. Load yaml ParseDuration (\<lambda>_. []) hostname (FileData text) = Inr cfg \<and>
    Validate cfg = Some (ShutdownTooLong (5 * Minute) t) \<and>
    Validate (cfg\<lparr>cfRunner := (cfRunner cfg)\<lparr>rcShutdownTimeout :=
      computeShutdownTimeoutDefault t (rcFetchTimeout (cfRunner cfg))\<rparr>\<rparr>) = None"
proof -
  let ?c = "(Default hostname)\<lparr>cfServer := s, cfRunner := (cfRunner (Default hostname))\<lparr>rcTimeout := t\<rparr>\<rparr>"
  let ?cfg = "applyEnvOverrides ParseDuration (\<lambda>_. []) (fill_defaults (Default hostname) ?c)"
  note simps = applyEnvOverrides_def override_server_def override_runner_def override_cache_def override_snapshot_def
    override_def override_num_def Let_def fill_defaults_def
  have r: "rcLabels (cfRunner ?cfg) \<noteq> [] \<and> rcCapacity (cfRunner ?cfg) = 1 \<and> rcFetchInterval (cfRunner ?cfg) = 2 * Second \<and>
      rcFetchTimeout (cfRunner ?cfg) = 30 * Second \<and> rcTimeout (cfRunner ?cfg) = t \<and> rcShutdownTimeout (cfRunner ?cfg) = 5 * Minute"
    using Default_runner [of hostname] t by (simp add: simps)
  moreover have "svURL (cfServer ?cfg) \<noteq> []" using url by (simp add: simps)
  moreover have "caDir (cfCache ?cfg) \<noteq> []" "\<not> snEnabled (cfSnapshot ?cfg)" "cfLogLevel ?cfg = ''info''"
    by (simp_all add: simps Default_def)
  moreover note shutdown_default_bounds [of t "rcFetchTimeout (cfRunner ?cfg)"] shutdown_default_le_timeout [OF t(1), of "rcFetchTimeout (cfRunner ?cfg)"]
  ultimately show ?thesis using t yaml by (simp add: Load_def Validate_def Let_def)
qed

section \<open>Witnesses\<close>

theorem defaults_valid_witness:
  "\<exists>cfg. Load (\<lambda>_ _. None) (\<lambda>_. None) (\<lambda>v. if v = ''SERVER_URL'' then ''http://f'' else []) ''h'' FileMissing = Inr cfg \<and> Validate cfg = None"
  by (rule defaults_valid) simp_all

theorem short_timeout_refused_witness:
  "\<exists>cfg. Load (\<lambda>_ c. Some (c\<lparr>cfServer := (cfServer c)\<lparr>svURL := ''u''\<rparr>, cfRunner := (cfRunner c)\<lparr>rcTimeout := 2 * Minute\<rparr>\<rparr>)) (\<lambda>_. None) (\<lambda>_. []) ''h'' (FileData [])
      = Inr cfg \<and> Validate cfg = Some (ShutdownTooLong (5 * Minute) (2 * Minute))"
  using short_timeout_refused [of "\<lambda>_ c. Some (c\<lparr>cfServer := (cfServer c)\<lparr>svURL := ''u''\<rparr>, cfRunner := (cfRunner c)\<lparr>rcTimeout := 2 * Minute\<rparr>\<rparr>)"
      "[]" "''h''" "2 * Minute" "(cfServer (Default ''h''))\<lparr>svURL := ''u''\<rparr>" "\<lambda>_. None"]
  by auto

end
