(* ===== verification/Controller.thy ===== *)
theory Controller
  imports Poller_Props Cluster Config
begin

text \<open>
  The controller around the poller, from \<^verbatim>\<open>src/cmd/controller/main.go\<close>: the health endpoints, the sweep of
  what an earlier process left behind, and how \<^verbatim>\<open>run\<close> combines the poller with its shutdown. The
  texts of the responses and the goroutine dump are left out; the starting of goroutines, the
  HTTP server and flag parsing are not modelled.
\<close>

section \<open>Start-up choices\<close>

definition resolveNamespace :: "string \<Rightarrow> string \<Rightarrow> string" where
  "resolveNamespace explicit fallback = (if explicit \<noteq> [] then explicit else fallback)"

datatype store_choice = UseFileStore string | UseSecretStore string string

definition createStore :: "string \<Rightarrow> string \<Rightarrow> string \<Rightarrow> store_choice" where
  "createStore credFile namespace secretName =
     (if credFile \<noteq> [] then UseFileStore credFile else UseSecretStore namespace secretName)"

section \<open>Health\<close>

definition pollStalenessThreshold :: "int \<Rightarrow> int" where
  "pollStalenessThreshold fetchInterval =
     (let floor = 30 * Second; t = int64 (fetchInterval * 10) in if t < floor then floor else t)"

definition successFetchStalenessThreshold :: "int \<Rightarrow> int" where
  "successFetchStalenessThreshold fetchInterval =
     (let floor = 2 * Minute; t = int64 (fetchInterval * 10) in if t < floor then floor else t)"

datatype health = Healthy | PollLoopStale int int | SuccessfulFetchStale int int

definition status_code :: "health \<Rightarrow> nat" where
  "status_code h = (case h of Healthy \<Rightarrow> 200 | _ \<Rightarrow> 503)"

text \<open>What one request reads, in the order of the reads.\<close>

record probe =
  prInFlight :: int
  prInBackoff :: bool
  prLastPoll :: "int option"
  prNow :: int
  prInFlight2 :: int
  prLastFetch :: "int option"
  prNow2 :: int

definition stale :: "int \<Rightarrow> int option \<Rightarrow> int \<Rightarrow> int option" where
  "stale now beat threshold =
     (case beat of None \<Rightarrow> None | Some t \<Rightarrow> if now - t > threshold then Some (now - t) else None)"

definition check_health :: "int \<Rightarrow> int \<Rightarrow> int \<Rightarrow> probe \<Rightarrow> health" where
  "check_health pollStaleness fetchStaleness capacity p =
     (case (if prInFlight p = 0 \<and> \<not> prInBackoff p then stale (prNow p) (prLastPoll p) pollStaleness else None) of
        Some since \<Rightarrow> PollLoopStale since pollStaleness
      | None \<Rightarrow>
          (case (if prInFlight2 p < capacity then stale (prNow2 p) (prLastFetch p) fetchStaleness else None) of
             Some since \<Rightarrow> SuccessfulFetchStale since fetchStaleness
           | None \<Rightarrow> Healthy))"

text \<open>A request: the response and the diagnostics it triggers; \<open>dumped\<close> is the state of the \<^verbatim>\<open>sync.Once\<close>.\<close>

definition healthzHandler :: "int \<Rightarrow> int \<Rightarrow> int \<Rightarrow> bool \<Rightarrow> probe \<Rightarrow> health \<times> health list \<times> bool" where
  "healthzHandler pollStaleness fetchStaleness capacity dumped p =
     (let h = check_health pollStaleness fetchStaleness capacity p
      in if h = Healthy then (h, [], dumped) else (h, if dumped then [] else [h], True))"

fun serve_health :: "int \<Rightarrow> int \<Rightarrow> int \<Rightarrow> bool \<Rightarrow> probe list \<Rightarrow> health list \<times> health list" where
  "serve_health ps fs c dumped [] = ([], [])"
| "serve_health ps fs c dumped (p # probes) =
     (case healthzHandler ps fs c dumped p of
        (h, dump, dumped') \<Rightarrow> (case serve_health ps fs c dumped' probes of (hs, dumps) \<Rightarrow> (h # hs, dump @ dumps)))"

definition readyzHandler :: "bool \<Rightarrow> nat" where
  "readyzHandler registered = (if registered then 200 else 503)"

definition metricsHandler :: "int \<Rightarrow> int \<Rightarrow> string" where
  "metricsHandler active capacity =
     ''{'' @ [CHR 0x22] @ ''active'' @ [CHR 0x22] @ '':'' @ Itoa active @ '','' @ [CHR 0x22] @ ''capacity'' @ [CHR 0x22] @ '':'' @ Itoa capacity @ ''}''"

text \<open>The reads of a request one after the other: \<open>s i\<close> is the poller at the \<open>i\<close>-th, \<open>now\<close> the clock.\<close>

definition probe_of :: "(nat \<Rightarrow> poller) \<Rightarrow> (nat \<Rightarrow> int) \<Rightarrow> probe" where
  "probe_of s now = \<lparr>prInFlight = InFlight (s 0), prInBackoff = InBackoff (s 1), prLastPoll = LastPollAt (s 2), prNow = now 0,
     prInFlight2 = InFlight (s 3), prLastFetch = LastSuccessfulFetchAt (s 4), prNow2 = now 1\<rparr>"

text \<open>
  The liveness probe raises no false alarm: a poll loop
  reported stale is one that has polled before, not within the threshold, that was not sleeping in its
  back-off, and beside which no handler ran, each at the moment it was looked at; and a stale fetch is reported only when fewer
  handlers than the capacity ran.
\<close>

theorem health_alarm_justified:
  assumes "\<forall>i. reach (poll_init c e) (poll_step client) (s i)"
    and "check_health ps fs (int c) (probe_of s now) = h"
  shows "case h of
      Healthy \<Rightarrow> True
    | PollLoopStale since threshold \<Rightarrow> running (pHandlers (s 0)) = 0 \<and> pPc (s 1) \<noteq> PBackoff \<and> threshold = ps \<and> since > ps \<and>
        LastPollAt (s 2) = Some (now 0 - since)
    | SuccessfulFetchStale since threshold \<Rightarrow> running (pHandlers (s 3)) < c \<and> threshold = fs \<and> since > fs \<and>
        LastSuccessfulFetchAt (s 4) = Some (now 1 - since)"
proof -
  have i: "pInFlight (s i) = int (uncounted (pHandlers (s i)))" "pInBackoff (s i) \<longleftrightarrow> pPc (s i) = PBackoff" for i
    using poll.reach_inv [OF assms(1) [rule_format, of i]] by (auto simp: poll_inv_def)
  then show ?thesis using assms(2) running_le_uncounted [of "pHandlers (s 0)"] running_le_uncounted [of "pHandlers (s 3)"]
    by (auto simp: check_health_def probe_of_def stale_def InFlight_def InBackoff_def split: option.splits if_splits)
qed

text \<open>
  The diagnostics are written once: over any sequence of requests, the goroutine dump is made exactly
  for the first request that finds the poller stale, if there is one.
\<close>

theorem wedge_dumped_once:
  "serve_health ps fs c False probes = (hs, dumps) \<Longrightarrow>
    hs = map (check_health ps fs c) probes \<and>
    dumps = (case find (\<lambda>h. h \<noteq> Healthy) hs of None \<Rightarrow> [] | Some h \<Rightarrow> [h])"
proof -
  have "serve_health ps fs c d probes = (map (check_health ps fs c) probes,
      if d then [] else case find (\<lambda>h. h \<noteq> Healthy) (map (check_health ps fs c) probes) of None \<Rightarrow> [] | Some h \<Rightarrow> [h])" for d
    by (induction probes arbitrary: d) (auto simp: healthzHandler_def Let_def)
  then show "serve_health ps fs c False probes = (hs, dumps) \<Longrightarrow>
    hs = map (check_health ps fs c) probes \<and> dumps = (case find (\<lambda>h. h \<noteq> Healthy) hs of None \<Rightarrow> [] | Some h \<Rightarrow> [h])"
    by fastforce
qed

section \<open>Ephemeral runners\<close>

text \<open>
  An ephemeral runner can cut its own task short: although nobody stopped the process, a state is
  reachable in which the only task still runs and the context of its handler is cancelled. The poll
  loop ends as soon as the task is handed out, so that the drain budget of the shutdown
  runs against the task itself.
\<close>

theorem ephemeral_task_cancelled:
  assumes "client False (FetchOk v (Some t))" "tkId t \<noteq> 0" "c > 0"
  shows "\<exists>s. reach (poll_init c True) (poll_step client) s \<and> \<not> pCtxDone s \<and> running (pHandlers s) = 1 \<and> jobsDone s"
proof -
  let ?s0 = "NewPoller c True 0"
  let ?s1 = "?s0\<lparr>pSem := 1, pPc := PFetch\<rparr>"
  let ?s2 = "?s1\<lparr>pPc := PCall False\<rparr>"
  obtain w where f: "fetchTask (pollingDone ?s2) 1 (FetchOk v (Some t)) (pWorker ?s2) = (w, Some t)"
    using assms(2) by (auto simp: fetchTask_def Let_def)
  let ?s3 = "spawn (?s2\<lparr>pWorker := w, pBeats := fetch_heartbeat (pollingDone ?s2) 0 (FetchOk v (Some t)) (pBeats ?s2)\<rparr>) t"
  let ?s4 = "?s3\<lparr>pPc := PStopped\<rparr>"
  let ?s5 = "?s4\<lparr>pShutdown := SWait, pStopPoll := True\<rparr>"
  let ?s6 = "?s5\<lparr>pShutdown := SKill, pStopJobs := True\<rparr>"
  have "reach (poll_init c True) (poll_step client) ?s0" by (rule reach_init) (auto simp: poll_init_def)
  moreover have "poll_step client ?s0 ?s1" using poll_step.acquire [of ?s0 client] assms(3) by (simp add: NewPoller_def)
  moreover have "poll_step client ?s1 ?s2" using poll_step.call [of ?s1 client] by (simp add: NewPoller_def pollingDone_def)
  moreover have "poll_step client ?s2 ?s3" using poll_step.got_task [where s = ?s2 and d = False] assms(1) f by simp
  moreover have "poll_step client ?s3 ?s4"
    by (rule poll_step.acquire_stop) (simp_all add: spawn_def pollingDone_def NewPoller_def)
  moreover have "poll_step client ?s4 ?s5" by (rule poll_step.shutdown) (simp_all add: spawn_def NewPoller_def Shutdown_step_def)
  moreover have "poll_step client ?s5 ?s6" by (rule poll_step.shutdown [where expired = True]) (simp_all add: spawn_def NewPoller_def Shutdown_step_def)
  ultimately have "reach (poll_init c True) (poll_step client) ?s6" by (meson reach_step)
  moreover have "\<not> pCtxDone ?s6" "running (pHandlers ?s6) = 1" "jobsDone ?s6"
    by (simp_all add: spawn_def NewPoller_def running_def jobsDone_def)
  ultimately show ?thesis by blast
qed

section \<open>Orphans\<close>

abbreviation managed :: selector where "managed \<equiv> [(''app.kubernetes.io/managed-by'', ''drawbar'')]"

definition delete_pvc :: "(string \<Rightarrow> bool) \<Rightarrow> Cluster \<Rightarrow> PVC \<Rightarrow> Cluster" where
  "delete_pvc del cl p =
     (case api_delete pvName (del (pvName p)) (clPVCs cl) (pvName p) of Inl _ \<Rightarrow> cl | Inr pvcs \<Rightarrow> cl\<lparr>clPVCs := pvcs\<rparr>)"

definition cleanupOrphanedCachePVCs :: "bool \<Rightarrow> (string \<Rightarrow> bool) \<Rightarrow> Cluster \<Rightarrow> string \<Rightarrow> Cluster" where
  "cleanupOrphanedCachePVCs up del cl taskID =
     (case api_list pvLabels up (clPVCs cl) (managed @ [(''drawbar.dev/task-id'', taskID)]) of
        Inl _ \<Rightarrow> cl
      | Inr pvcs \<Rightarrow> foldl (delete_pvc del) cl pvcs)"

definition cleanup_job :: "bool \<Rightarrow> (string \<Rightarrow> bool) \<Rightarrow> Cluster \<Rightarrow> KubeJob \<Rightarrow> Cluster" where
  "cleanup_job upClaims del cl job =
     (if kjActive job = 0 then cl
      else
        let cl1 = (case api_delete kjName (del (kjName job)) (clJobs cl) (kjName job) of
              Inl _ \<Rightarrow> cl | Inr jobs \<Rightarrow> cl\<lparr>clJobs := jobs\<rparr>);
            taskID = map_get (kjLabels job) ''drawbar.dev/task-id''
        in if taskID = [] then cl1 else cleanupOrphanedCachePVCs upClaims del cl1 taskID)"

definition cleanupOrphanedJobs :: "bool \<Rightarrow> bool \<Rightarrow> (string \<Rightarrow> bool) \<Rightarrow> Cluster \<Rightarrow> Cluster" where
  "cleanupOrphanedJobs up upClaims del cl =
     (case api_list kjLabels up (clJobs cl) managed of
        Inl _ \<Rightarrow> cl
      | Inr jobs \<Rightarrow> foldl (cleanup_job upClaims del) cl jobs)"

lemma delete_pvc_all: "clPVCs (delete_pvc (\<lambda>_. True) cl p) = filter (\<lambda>x. pvName x \<noteq> pvName p) (clPVCs cl)"
    "clJobs (delete_pvc del cl p) = clJobs cl" "clSnapshots (delete_pvc del cl p) = clSnapshots cl"
  by (auto simp: delete_pvc_def api_delete_def filter_absent)

lemma delete_pvcs_all:
  "clPVCs (foldl (delete_pvc (\<lambda>_. True)) cl ps) = filter (\<lambda>x. pvName x \<notin> pvName ` set ps) (clPVCs cl)"
  "clJobs (foldl (delete_pvc del) cl ps) = clJobs cl"
  by (induction ps arbitrary: cl) (auto simp: delete_pvc_all intro!: filter_cong)

text \<open>The claims a sweep for a task removes.\<close>

definition claim_of :: "string \<Rightarrow> PVC \<Rightarrow> bool" where
  "claim_of taskID p \<longleftrightarrow> pvLabels p ''app.kubernetes.io/managed-by'' = Some ''drawbar'' \<and> pvLabels p ''drawbar.dev/task-id'' = Some taskID"

lemma sweep_claims:
  assumes "distinct (map pvName (clPVCs cl))"
  shows "clPVCs (cleanupOrphanedCachePVCs True (\<lambda>_. True) cl taskID) = filter (\<lambda>p. \<not> claim_of taskID p) (clPVCs cl)"
proof -
  have "pvName x \<in> pvName ` set (filter (claim_of taskID) (clPVCs cl)) \<longleftrightarrow> claim_of taskID x" if "x \<in> set (clPVCs cl)" for x
    using assms that by (auto simp: distinct_map inj_on_def)
  moreover have "selects [(''app.kubernetes.io/managed-by'', ''drawbar''), (''drawbar.dev/task-id'', taskID)] (pvLabels p) = claim_of taskID p" for p
    by (auto simp: selects_def claim_of_def)
  ultimately show ?thesis
    by (simp add: cleanupOrphanedCachePVCs_def api_list_def delete_pvcs_all cong: filter_cong)
qed

definition swept_ids :: "KubeJob list \<Rightarrow> string set" where
  "swept_ids jobs = {map_get (kjLabels j) ''drawbar.dev/task-id'' | j. j \<in> set jobs \<and> kjActive j \<noteq> 0} - {[]}"

lemma cleanup_job_jobs: "clJobs (cleanup_job up (\<lambda>_. True) cl j) =
    (if kjActive j = 0 then clJobs cl else filter (\<lambda>x. kjName x \<noteq> kjName j) (clJobs cl))"
proof -
  have "clJobs (cleanupOrphanedCachePVCs up del cl t) = clJobs cl" for up del cl t
    by (simp add: cleanupOrphanedCachePVCs_def delete_pvcs_all split: sum.splits)
  then show ?thesis by (auto simp: cleanup_job_def api_delete_def filter_absent Let_def)
qed

lemma cleanup_job_claims:
  assumes "distinct (map pvName (clPVCs cl))"
  shows "clPVCs (cleanup_job True (\<lambda>_. True) cl j) = filter (\<lambda>p. \<not> (\<exists>t \<in> swept_ids [j]. claim_of t p)) (clPVCs cl)"
  using assms sweep_claims [of "cl\<lparr>clJobs := _\<rparr>"] sweep_claims [of cl]
  by (auto simp: cleanup_job_def swept_ids_def Let_def split: sum.splits cong: filter_cong)

lemma cleanup_jobs_fold:
  "distinct (map pvName (clPVCs cl)) \<Longrightarrow>
    clJobs (foldl (cleanup_job True (\<lambda>_. True)) cl jobs) = filter (\<lambda>x. kjName x \<notin> kjName ` {j \<in> set jobs. kjActive j \<noteq> 0}) (clJobs cl) \<and>
    clPVCs (foldl (cleanup_job True (\<lambda>_. True)) cl jobs) = filter (\<lambda>p. \<not> (\<exists>t \<in> swept_ids jobs. claim_of t p)) (clPVCs cl)"
proof (induction jobs arbitrary: cl)
  case (Cons j jobs)
  have "distinct (map pvName (clPVCs (cleanup_job True (\<lambda>_. True) cl j)))"
    using Cons.prems by (simp add: cleanup_job_claims distinct_map_filter)
  note IH = Cons.IH [OF this]
  have "swept_ids (j # jobs) = swept_ids [j] \<union> swept_ids jobs" by (auto simp: swept_ids_def)
  with IH Cons.prems show ?case
    by (auto simp: cleanup_job_jobs cleanup_job_claims intro!: filter_cong)
qed (simp add: swept_ids_def)

lemma sweep_exact:
  assumes "distinct (map kjName (clJobs cl))" "distinct (map pvName (clPVCs cl))"
    and "cl' = cleanupOrphanedJobs True True (\<lambda>_. True) cl"
  shows "clJobs cl' = filter (\<lambda>j. \<not> (selects managed (kjLabels j) \<and> kjActive j \<noteq> 0)) (clJobs cl) \<and>
    clPVCs cl' = filter (\<lambda>p. \<not> (\<exists>j t. j \<in> set (clJobs cl) \<and> selects managed (kjLabels j) \<and> kjActive j \<noteq> 0 \<and>
      t = map_get (kjLabels j) ''drawbar.dev/task-id'' \<and> t \<noteq> [] \<and> claim_of t p)) (clPVCs cl)"
proof -
  let ?jobs = "filter (\<lambda>j. selects managed (kjLabels j)) (clJobs cl)"
  have "cl' = foldl (cleanup_job True (\<lambda>_. True)) cl ?jobs"
    using assms(3) by (simp add: cleanupOrphanedJobs_def api_list_def)
  with cleanup_jobs_fold [OF assms(2), of ?jobs]
  have f: "clJobs cl' = filter (\<lambda>x. kjName x \<notin> kjName ` {j \<in> set ?jobs. kjActive j \<noteq> 0}) (clJobs cl)"
    "clPVCs cl' = filter (\<lambda>p. \<not> (\<exists>t \<in> swept_ids ?jobs. claim_of t p)) (clPVCs cl)" by simp_all
  have "kjName x \<in> kjName ` {j \<in> set ?jobs. kjActive j \<noteq> 0} \<longleftrightarrow> selects managed (kjLabels x) \<and> kjActive x \<noteq> 0"
    if "x \<in> set (clJobs cl)" for x
    using assms(1) that by (auto simp: distinct_map inj_on_def)
  then show ?thesis unfolding f by (auto simp: swept_ids_def intro!: filter_cong)
qed

text \<open>
  C34: What the sweep at start-up removes, with a cluster that answers: exactly the active jobs of drawbar, and exactly the
  volume claims labelled with the task of such a job. A claim whose job was never created, or has
  already finished, is not found.
\<close>

theorem orphans_swept:
  assumes "distinct (map kjName (clJobs cl))" "distinct (map pvName (clPVCs cl))"
    and "cl' = cleanupOrphanedJobs True True (\<lambda>_. True) cl"
  shows "clJobs cl' = filter (\<lambda>j. \<not> (selects managed (kjLabels j) \<and> kjActive j \<noteq> 0)) (clJobs cl) \<and>
    clPVCs cl' = filter (\<lambda>p. \<not> (\<exists>j t. j \<in> set (clJobs cl) \<and> selects managed (kjLabels j) \<and> kjActive j \<noteq> 0 \<and>
      t = map_get (kjLabels j) ''drawbar.dev/task-id'' \<and> t \<noteq> [] \<and> claim_of t p)) (clPVCs cl)"
  by (rule sweep_exact [OF assms])

section \<open>Witnesses\<close>

theorem health_alarm_justified_witness:
  "case check_health (30 * Second) (2 * Minute) 1 (probe_of (\<lambda>_. NewPoller 1 False 0\<lparr>pCtxDone := True, pPc := PStopped\<rparr>) (\<lambda>_. 5)) of
      Healthy \<Rightarrow> True
    | PollLoopStale since threshold \<Rightarrow> threshold = 30 * Second
    | SuccessfulFetchStale since threshold \<Rightarrow> threshold = 2 * Minute"
  using health_alarm_justified [of 1 False example_client "\<lambda>_. NewPoller 1 False 0\<lparr>pCtxDone := True, pPc := PStopped\<rparr>" "30 * Second" "2 * Minute" "\<lambda>_. 5"]
    example_stopped [of False example_client]
  by (auto split: health.splits)

definition example_probe :: "int \<Rightarrow> probe" where
  "example_probe now = \<lparr>prInFlight = 0, prInBackoff = False, prLastPoll = Some 0, prNow = now, prInFlight2 = 0, prLastFetch = None, prNow2 = now\<rparr>"

theorem wedge_dumped_once_witness:
  "snd (serve_health 10 10 1 False [example_probe 5, example_probe 20, example_probe 30]) = [PollLoopStale 20 10]"
proof -
  obtain hs dumps where s: "serve_health 10 10 1 False [example_probe 5, example_probe 20, example_probe 30] = (hs, dumps)" by fastforce
  from wedge_dumped_once [OF s] show ?thesis unfolding s
    by (simp add: check_health_def example_probe_def stale_def)
qed

theorem ephemeral_task_cancelled_witness:
  "\<exists>s. reach (poll_init 1 True) (poll_step (\<lambda>d reply. reply = FetchOk 1 (Some \<lparr>tkId = 7, tkPayload = [], tkContext = Map.empty,
      tkSecrets = [], tkVars = Map.empty, tkNeeds = Map.empty\<rparr>))) s \<and> \<not> pCtxDone s \<and> running (pHandlers s) = 1 \<and> jobsDone s"
  by (rule ephemeral_task_cancelled [where v = 1 and t = "\<lparr>tkId = 7, tkPayload = [], tkContext = Map.empty,
      tkSecrets = [], tkVars = Map.empty, tkNeeds = Map.empty\<rparr>"]) simp_all

definition example_orphans :: Cluster where
  "example_orphans = \<lparr>clSnapshots = [],
     clPVCs = [\<lparr>pvName = ''cache-7'', pvLabels = [''app.kubernetes.io/managed-by'' \<mapsto> ''drawbar'', ''drawbar.dev/task-id'' \<mapsto> ''7''],
                pvSize = ''10Gi'', pvDataSource = None, pvStorageClass = ''zfs''\<rparr>],
     clJobs = [\<lparr>kjName = ''drawbar-run-8'', kjLabels = [''app.kubernetes.io/managed-by'' \<mapsto> ''drawbar'', ''drawbar.dev/task-id'' \<mapsto> ''8''], kjActive = 1\<rparr>]\<rparr>"

theorem orphans_swept_witness:
  "clJobs (cleanupOrphanedJobs True True (\<lambda>_. True) example_orphans) = [] \<and>
   clPVCs (cleanupOrphanedJobs True True (\<lambda>_. True) example_orphans) = clPVCs example_orphans"
  using orphans_swept [of example_orphans]
  by (simp add: example_orphans_def selects_def claim_of_def map_get_def)

end
