(* ===== verification/Startup.thy ===== *)
theory Startup
  imports Labels Register Controller CacheHandler TaskHandler
begin

text \<open>
  How the controller is put together, from \<^verbatim>\<open>src/cmd/controller/main.go\<close>: the command line, the checks of
  \<^verbatim>\<open>main\<close>, and the part of \<^verbatim>\<open>run\<close> before the poll loop, in which the other components are started
  and given their settings. \<^verbatim>\<open>NewClient\<close> of \<^verbatim>\<open>src/pkg/k8s/client.go\<close> is here too; what client-go answers to it is
  an argument. Levels and texts of log messages are left out, except for the choice of the level.
\<close>

section \<open>The command line\<close>

record cliFlags =
  flConfigPath :: string
  flCredentialFile :: string
  flSecretName :: string
  flSecretNamespace :: string
  flKubeconfig :: string
  flJobNamespace :: string

datatype flag_error = BadSyntax string | HelpRequested | NotDefined string | NeedsArgument string

definition default_flags :: cliFlags where
  "default_flags = \<lparr>flConfigPath = ''config.yaml'', flCredentialFile = [], flSecretName = ''drawbar'',
     flSecretNamespace = [], flKubeconfig = [], flJobNamespace = []\<rparr>"

definition set_flag :: "string \<Rightarrow> string \<Rightarrow> cliFlags \<Rightarrow> cliFlags option" where
  "set_flag name v f =
     (if name = ''config'' then Some (f\<lparr>flConfigPath := v\<rparr>)
      else if name = ''credential-file'' then Some (f\<lparr>flCredentialFile := v\<rparr>)
      else if name = ''secret-name'' then Some (f\<lparr>flSecretName := v\<rparr>)
      else if name = ''secret-namespace'' then Some (f\<lparr>flSecretNamespace := v\<rparr>)
      else if name = ''kubeconfig'' then Some (f\<lparr>flKubeconfig := v\<rparr>)
      else if name = ''job-namespace'' then Some (f\<lparr>flJobNamespace := v\<rparr>)
      else None)"

text \<open>
  \<^verbatim>\<open>Parse\<close> of Go's flag package for flags with a text value: one or two dashes, the value after an equals
  sign (which cannot be the first character of the name) or in the next argument; parsing ends at the
  first argument that is no flag, or after two dashes alone.
\<close>

fun parse_args :: "cliFlags \<Rightarrow> string list \<Rightarrow> flag_error + cliFlags" where
  "parse_args f [] = Inr f"
| "parse_args f (s # args) =
     (if length s < 2 \<or> hd s \<noteq> CHR ''-'' \<or> s = ''--'' then Inr f
      else
        let name = (if s ! 1 = CHR ''-'' then drop 2 s else drop 1 s)
        in if name = [] \<or> hd name = CHR ''-'' \<or> hd name = CHR ''='' then Inl (BadSyntax s)
           else case Cut CHR ''='' name of
             Some (key, v) \<Rightarrow>
               (case set_flag key v f of
                  Some f' \<Rightarrow> parse_args f' args
                | None \<Rightarrow> Inl (if key = ''help'' \<or> key = ''h'' then HelpRequested else NotDefined key))
           | None \<Rightarrow>
               (if set_flag name [] f = None then Inl (if name = ''help'' \<or> name = ''h'' then HelpRequested else NotDefined name)
                else case args of
                  [] \<Rightarrow> Inl (NeedsArgument name)
                | v # rest \<Rightarrow> (case set_flag name v f of Some f' \<Rightarrow> parse_args f' rest | None \<Rightarrow> Inl (NotDefined name))))"

definition parseFlags :: "string list \<Rightarrow> flag_error + cliFlags" where
  "parseFlags args = parse_args default_flags args"

section \<open>Logging and the Kubernetes client\<close>

datatype log_level = LevelDebug | LevelInfo | LevelWarn | LevelError

definition setupLogging :: "string \<Rightarrow> log_level" where
  "setupLogging level =
     (if level = ''debug'' then LevelDebug
      else if level = ''warn'' then LevelWarn
      else if level = ''error'' then LevelError
      else LevelInfo)"

text \<open>
  What client-go and the pod answer: the configuration for a kubeconfig path or for the cluster
  the process runs in, whether a client can be made, and the namespace file.
\<close>

record kube_world =
  kwFromFlags :: "string \<Rightarrow> bool"
  kwInCluster :: bool
  kwClientset :: bool
  kwNamespaceFile :: "string option"

datatype kube_error = NoKubeConfig | NoClientset

text \<open>The resolved namespace; the client itself is part of the cluster the other operations are given.\<close>

definition NewKubeClient :: "kube_world \<Rightarrow> string \<Rightarrow> string \<Rightarrow> kube_error + string" where
  "NewKubeClient w kubeconfig namespace =
     (if \<not> (if kubeconfig \<noteq> [] then kwFromFlags w kubeconfig else kwInCluster w) then Inl NoKubeConfig
      else if \<not> kwClientset w then Inl NoClientset
      else if namespace = [] then
        Inr (case kwNamespaceFile w of Some content \<Rightarrow> content | None \<Rightarrow> ''default'')
      else Inr namespace)"

section \<open>Up to \<^verbatim>\<open>run\<close>\<close>

record runDeps =
  rdRestConfig :: bool
  rdStore :: store_choice
  rdLabels :: "Label list"
  rdNamespace :: string
  rdLogger :: log_level

datatype main_error =
    FlagsFailed flag_error
  | LoadConfigFailed config_error
  | ConfigInvalid config_error
  | BadLabel label_error
  | KubeFailed kube_error

text \<open>\<open>load\<close> is the configuration loader (\<open>Config.Load\<close> with its file and environment) for a path.\<close>

definition main_setup ::
  "(string \<Rightarrow> config_error + Config) \<Rightarrow> kube_world \<Rightarrow> string list \<Rightarrow> main_error + (Config \<times> runDeps)" where
  "main_setup load kw args =
     (case parseFlags args of
        Inl e \<Rightarrow> Inl (FlagsFailed e)
      | Inr flags \<Rightarrow>
          (case load (flConfigPath flags) of
             Inl e \<Rightarrow> Inl (LoadConfigFailed e)
           | Inr cfg \<Rightarrow>
               (case Validate cfg of
                  Some e \<Rightarrow> Inl (ConfigInvalid e)
                | None \<Rightarrow>
                    (case parseLabels (rcLabels (cfRunner cfg)) of
                       Inl e \<Rightarrow> Inl (BadLabel e)
                     | Inr labels \<Rightarrow>
                         (case NewKubeClient kw (flKubeconfig flags) (flSecretNamespace flags) of
                            Inl e \<Rightarrow> Inl (KubeFailed e)
                          | Inr namespace \<Rightarrow>
                              Inr (cfg, \<lparr>rdRestConfig = True,
                                         rdStore = createStore (flCredentialFile flags) namespace (flSecretName flags),
                                         rdLabels = labels,
                                         rdNamespace = resolveNamespace (flJobNamespace flags) namespace,
                                         rdLogger = setupLogging (cfLogLevel cfg)\<rparr>))))))"

section \<open>Starting the components\<close>

definition startCacheServer :: "start_world \<Rightarrow> CacheConfig \<Rightarrow> start_error + Handler" where
  "startCacheServer w cfg =
     (if \<not> swMkdirAll w (caDir cfg) then Inl (DirNotMade (caDir cfg)) else StartHandler w (caDir cfg) [] (caPort cfg))"

definition NewActionCache :: "string \<Rightarrow> string \<Rightarrow> string" where
  "NewActionCache tmp dir = (if dir = [] then tmp else dir)"

definition register_config :: "Config \<Rightarrow> runDeps \<Rightarrow> RegisterConfig" where
  "register_config cfg deps =
     \<lparr>rfEndpoint = svURL (cfServer cfg), rfInsecure = svInsecure (cfServer cfg), rfRegistrationToken = svRegistrationToken (cfServer cfg),
      rfName = rcName (cfRunner cfg), rfLabels = Names (rdLabels deps),
      rfFetchInterval = rcFetchInterval (cfRunner cfg), rfHTTPTimeout = rcFetchTimeout (cfRunner cfg)\<rparr>"

definition snapshot_manager :: "Config \<Rightarrow> runDeps \<Rightarrow> Manager option" where
  "snapshot_manager cfg deps =
     (if snEnabled (cfSnapshot cfg) \<and> rdRestConfig deps then
        Some \<lparr>mgSnapshotClass = snClass (cfSnapshot cfg), mgStorageClass = snStorageClass (cfSnapshot cfg),
              mgPVCSize = snSize (cfSnapshot cfg), mgRetentionDays = snRetentionDays (cfSnapshot cfg)\<rparr>
      else None)"

definition handler_config :: "Config \<Rightarrow> runDeps \<Rightarrow> Handler option \<Rightarrow> TaskHandlerConfig" where
  "handler_config cfg deps cache =
     \<lparr>hcLabels = rdLabels deps, hcNamespace = rdNamespace deps, hcTimeout = rcTimeout (cfRunner cfg),
      hcGitCloneURL = rcGitCloneURL (cfRunner cfg), hcActionsURL = rcActionsURL (cfRunner cfg),
      hcControllerImage = rcControllerImage (cfRunner cfg), hcCacheURL = map_option ExternalURL cache,
      hcJobSecrets = map (\<lambda>(name, path). \<lparr>seName = name, seMountPath = path\<rparr>) (rcJobSecrets (cfRunner cfg)),
      hcSnapshots = snapshot_manager cfg deps, hcAptProxyURL = rcAptProxyURL (cfRunner cfg)\<rparr>"

text \<open>What the surroundings answer to one start; \<open>'s\<close> is the state of the credential store.\<close>

record 's run_world =
  rwForge :: forge
  rwLoad :: "'s \<Rightarrow> store_error + Registration option"
  rwSave :: "'s \<Rightarrow> Registration \<Rightarrow> (store_error + unit) \<times> 's"
  rwMachine :: start_world
  rwTempDir :: string
  rwSnapshotClient :: bool
  rwRequestKey :: nat
  rwUpJobs :: bool
  rwUpClaims :: bool
  rwUpDelete :: "string \<Rightarrow> bool"

datatype run_error = RegistrationError register_error | CacheServerError start_error | SnapshotClientError

record started =
  stClient :: Client
  stCache :: "Handler option"
  stActionDir :: string
  stHandler :: TaskHandlerConfig
  stPoller :: poller
  stPollStaleness :: int
  stFetchStaleness :: int

definition start_cache :: "start_world \<Rightarrow> CacheConfig \<Rightarrow> start_error + Handler option" where
  "start_cache w cfg =
     (if caEnabled cfg then (case startCacheServer w cfg of Inl e \<Rightarrow> Inl e | Inr h \<Rightarrow> Inr (Some h)) else Inr None)"

definition run_setup ::
  "'s run_world \<Rightarrow> Config \<Rightarrow> runDeps \<Rightarrow> 's \<Rightarrow> Cluster \<Rightarrow> (run_error + started) \<times> 's \<times> Cluster" where
  "run_setup w cfg deps s cl =
     (case EnsureRegistered (rwForge w) (rwLoad w) (rwSave w) (register_config cfg deps) s of
        (Inl e, s') \<Rightarrow> (Inl (RegistrationError e), s', cl)
      | (Inr client, s') \<Rightarrow>
          (case start_cache (rwMachine w) (cfCache cfg) of
             Inl e \<Rightarrow> (Inl (CacheServerError e), s', cl)
           | Inr cache \<Rightarrow>
               if snEnabled (cfSnapshot cfg) \<and> rdRestConfig deps \<and> \<not> rwSnapshotClient w
               then (Inl SnapshotClientError, s', cl)
               else
                 (Inr \<lparr>stClient = client, stCache = cache,
                       stActionDir = NewActionCache (rwTempDir w) (caDir (cfCache cfg)),
                       stHandler = handler_config cfg deps cache,
                       stPoller = NewPoller (nat (rcCapacity (cfRunner cfg))) (rcEphemeral (cfRunner cfg)) (rwRequestKey w),
                       stPollStaleness = pollStalenessThreshold (rcFetchInterval (cfRunner cfg)),
                       stFetchStaleness = successFetchStalenessThreshold (rcFetchInterval (cfRunner cfg))\<rparr>,
                  s', cleanupOrphanedJobs (rwUpJobs w) (rwUpClaims w) (rwUpDelete w) cl)))"

text \<open>
  The goroutine that collects old snapshots: at each tick of its hourly timer it collects, with
  the answers the cluster gives at that time; \<open>None\<close> is the end of the context.
\<close>

fun snapshot_collector :: "Manager \<Rightarrow> (bool \<times> (string \<Rightarrow> bool) \<times> int) option list \<Rightarrow> Cluster \<Rightarrow> Cluster" where
  "snapshot_collector m [] cl = cl"
| "snapshot_collector m (None # events) cl = cl"
| "snapshot_collector m (Some (up, del, now) # events) cl =
     snapshot_collector m events (fst (GarbageCollect up del now m cl))"

section \<open>Properties\<close>

text \<open>A flag on the command line: in one argument or in two.\<close>

definition flag_args :: "bool \<times> string \<times> string \<Rightarrow> string list" where
  "flag_args x = (case x of (joined, name, v) \<Rightarrow> if joined then [''-'' @ name @ ''='' @ v] else [''-'' @ name, v])"

definition flag_names :: "string list" where
  "flag_names = [''config'', ''credential-file'', ''secret-name'', ''secret-namespace'', ''kubeconfig'', ''job-namespace'']"

lemma set_flag_defined: "n \<in> set flag_names \<Longrightarrow> \<exists>f'. set_flag n v f = Some f'"
  by (auto simp: flag_names_def set_flag_def)

lemma flag_name_plain: "n \<in> set flag_names \<Longrightarrow> n \<noteq> [] \<and> hd n \<noteq> CHR ''-'' \<and> CHR ''='' \<notin> set n"
  by (auto simp: flag_names_def)

lemma parse_one_flag:
  assumes "n \<in> set flag_names"
  shows "parse_args f (flag_args (j, n, v) @ rest) = parse_args (the (set_flag n v f)) rest"
proof -
  obtain c m where n: "n = c # m" "c \<noteq> CHR ''-''" "c \<noteq> CHR ''=''" "CHR ''='' \<notin> set m"
    using flag_name_plain [OF assms] by (cases n) auto
  have c: "Cut CHR ''='' (n @ CHR ''='' # v) = Some (n, v)" "Cut CHR ''='' n = None"
    using flag_name_plain [OF assms] by (auto simp: Cut_Some_iff Cut_None_iff)
  obtain f1 f2 where f: "set_flag n v f = Some f1" "set_flag n [] f = Some f2"
    using set_flag_defined [OF assms] by metis
  show ?thesis using c f n by (cases j) (simp_all add: flag_args_def)
qed

text \<open>
  The command line is read as it was written: any sequence of the six flags, each with any value
  and in either spelling, gives exactly those settings, a later one replacing an earlier one,
  and the defaults for the rest.
\<close>

theorem flags_roundtrip:
  assumes "\<forall>(j, n, v) \<in> set fs. n \<in> set flag_names"
  shows "parseFlags (concat (map flag_args fs)) = Inr (fold (\<lambda>(j, n, v) f. the (set_flag n v f)) fs default_flags)"
proof -
  have "parse_args f (concat (map flag_args fs)) = Inr (fold (\<lambda>(j, n, v) f. the (set_flag n v f)) fs f)" for f
    using assms by (induction fs arbitrary: f) (auto simp: parse_one_flag)
  then show ?thesis by (simp add: parseFlags_def)
qed

text \<open>
  The collector only ever removes what has expired: a snapshot with a name of its own that is there
  at the beginning and gone at the end is one of drawbar's, and was past its retention at one of the ticks.
\<close>

theorem collector_keeps:
  assumes "x \<in> set (clSnapshots cl)" "x \<notin> set (clSnapshots (snapshot_collector m events cl))"
    and "distinct (map vsName (clSnapshots cl))"
  shows "vsLabels x labelManagedBy = Some managerName \<and>
    (\<exists>up del now. Some (up, del, now) \<in> set events \<and> vsCreated x < now - mgRetentionDays m * Day)"
  using assms
proof (induction m events cl rule: snapshot_collector.induct)
  case (3 m up del now events cl)
  let ?cl = "fst (GarbageCollect up del now m cl)" and ?cut = "now - mgRetentionDays m * Day"
  let ?dead = "\<lambda>x. up \<and> (\<exists>s \<in> set (clSnapshots cl). vsLabels s labelManagedBy = Some managerName \<and> vsName s = vsName x \<and> vsCreated s < ?cut \<and> del (vsName s))"
  have sn: "clSnapshots ?cl = filter (\<lambda>x. \<not> ?dead x) (clSnapshots cl)"
  proof (cases up)
    case True
    let ?items = "filter (\<lambda>x. vsLabels x labelManagedBy = Some managerName) (clSnapshots cl)"
    have "?cl = fst (gc_loop del ?cut ?items cl 0)"
      using True by (simp add: GarbageCollect_def api_list_def selects_def case_prod_beta)
    then show ?thesis using True by (auto simp: gc_loop_snapshots intro!: filter_cong)
  qed (simp add: GarbageCollect_def api_list_def)
  show ?case
  proof (cases "?dead x")
    case True
    then obtain s where "s \<in> set (clSnapshots cl)" "vsLabels s labelManagedBy = Some managerName" "vsName s = vsName x" "vsCreated s < ?cut" by blast
    moreover from this have "s = x" using 3(2,4) by (auto simp: distinct_map inj_on_def)
    ultimately have "vsLabels x labelManagedBy = Some managerName" "vsCreated x < ?cut" by simp_all
    then show ?thesis by (intro conjI exI [of _ up] exI [of _ del] exI [of _ now]) simp_all
  next
    case False
    have "x \<in> set (clSnapshots ?cl)" "distinct (map vsName (clSnapshots ?cl))"
      using False 3(2,4) unfolding sn by (simp_all add: distinct_map_filter)
    moreover have "x \<notin> set (clSnapshots (snapshot_collector m events ?cl))" using 3(3) by simp
    ultimately show ?thesis using 3(1) by (meson list.set_intros(2))
  qed
qed simp_all

lemma gcCache_dir: "hDir (gcCache now h) = hDir h"
proof -
  have "hDir (sweep h cs) = hDir h" for h cs
    unfolding sweep_def by (induction cs arbitrary: h) simp_all
  then show ?thesis by (simp add: gcCache_def Let_def)
qed

lemma StartHandler_dir: "StartHandler w dir ip port = Inr h \<Longrightarrow> dir \<noteq> [] \<Longrightarrow> hDir h = dir"
  by (auto simp: StartHandler_def gcCache_dir split: option.splits sum.splits if_splits)

lemma EnsureRegistered_interval:
  "EnsureRegistered fg load save cfg s = (Inr client, s') \<Longrightarrow> ctFetchInterval client = rfFetchInterval cfg"
  by (auto simp: EnsureRegistered_def register_def NewClient_def Let_def split: sum.splits option.splits if_splits prod.splits)

lemma staleness_room:
  assumes "0 \<le> i" "i < 10 ^ 17"
  shows "pollStalenessThreshold i \<ge> 10 * i" "successFetchStalenessThreshold i \<ge> 10 * i"
  using assms int64_id [of "i * 10"] by (auto simp: pollStalenessThreshold_def successFetchStalenessThreshold_def Let_def)

lemma main_setup_valid: "main_setup load kw args = Inr (cfg, deps) \<Longrightarrow> Validate cfg = None \<and> rdRestConfig deps"
  by (auto simp: main_setup_def split: sum.splits option.splits)

lemma Validate_bounds:
  assumes "Validate cfg = None"
  shows "rcCapacity (cfRunner cfg) \<ge> 1" "rcFetchInterval (cfRunner cfg) \<ge> 100 * Millisecond"
    "caEnabled (cfCache cfg) \<Longrightarrow> caDir (cfCache cfg) \<noteq> []" "snEnabled (cfSnapshot cfg) \<Longrightarrow> snRetentionDays (cfSnapshot cfg) \<ge> 1"
  using assms by (simp_all add: Validate_def Let_def split: if_splits)

lemma start_cache_dir: "start_cache w cfg = Inr cache \<Longrightarrow> (cache \<noteq> None \<longleftrightarrow> caEnabled cfg) \<and>
    (caDir cfg \<noteq> [] \<longrightarrow> (\<forall>h. cache = Some h \<longrightarrow> hDir h = caDir cfg))"
  by (auto simp: start_cache_def startCacheServer_def StartHandler_dir split: if_splits sum.splits)

text \<open>
  C32: What a controller that gets to polling has been given. Its configuration passed validation;
  the poller has the configured capacity, which is at least one; the pods are given the address of
  the cache server exactly when there is one, and that server serves actions from the directory the
  clones are put into; volumes are snapshotted exactly when that is enabled, and kept for at least a day; the client polls with
  the configured interval; and the liveness thresholds leave room for ten polls.
\<close>

theorem setup_wired:
  assumes "main_setup load kw args = Inr (cfg, deps)" "run_setup w cfg deps s cl = (Inr st, s', cl')"
    and "rcFetchInterval (cfRunner cfg) < 10 ^ 17"
  shows "Validate cfg = None \<and>
    pCapacity (stPoller st) \<ge> 1 \<and> int (pCapacity (stPoller st)) = rcCapacity (cfRunner cfg) \<and>
    (hcCacheURL (stHandler st) \<noteq> None \<longleftrightarrow> caEnabled (cfCache cfg)) \<and>
    (\<forall>h. stCache st = Some h \<longrightarrow> hcCacheURL (stHandler st) = Some (ExternalURL h) \<and> hDir h = stActionDir st) \<and>
    (hcSnapshots (stHandler st) \<noteq> None \<longleftrightarrow> snEnabled (cfSnapshot cfg)) \<and>
    (\<forall>m. hcSnapshots (stHandler st) = Some m \<longrightarrow> mgRetentionDays m \<ge> 1) \<and>
    ctFetchInterval (stClient st) = rcFetchInterval (cfRunner cfg) \<and>
    stPollStaleness st \<ge> 10 * rcFetchInterval (cfRunner cfg) \<and> stFetchStaleness st \<ge> 10 * rcFetchInterval (cfRunner cfg)"
proof -
  have v: "Validate cfg = None" and r: "rdRestConfig deps" using main_setup_valid [OF assms(1)] by simp_all
  obtain client cache where e: "EnsureRegistered (rwForge w) (rwLoad w) (rwSave w) (register_config cfg deps) s = (Inr client, s')"
    and c: "start_cache (rwMachine w) (cfCache cfg) = Inr cache"
    and st: "stClient st = client" "stCache st = cache" "stActionDir st = NewActionCache (rwTempDir w) (caDir (cfCache cfg))"
      "stHandler st = handler_config cfg deps cache" "stPollStaleness st = pollStalenessThreshold (rcFetchInterval (cfRunner cfg))"
      "stFetchStaleness st = successFetchStalenessThreshold (rcFetchInterval (cfRunner cfg))"
      "stPoller st = NewPoller (nat (rcCapacity (cfRunner cfg))) (rcEphemeral (cfRunner cfg)) (rwRequestKey w)"
    using assms(2) by (auto simp: run_setup_def split: sum.splits prod.splits if_splits)
  note b = Validate_bounds [OF v]
  have "0 \<le> rcFetchInterval (cfRunner cfg)" using b(2) by simp
  note t = staleness_room [OF this assms(3)]
  have "ctFetchInterval client = rcFetchInterval (cfRunner cfg)"
    using EnsureRegistered_interval [OF e] by (simp add: register_config_def)
  moreover have "int (pCapacity (stPoller st)) = rcCapacity (cfRunner cfg)" "pCapacity (stPoller st) \<ge> 1"
    using b(1) by (simp_all add: st NewPoller_def)
  moreover have "hcCacheURL (stHandler st) = map_option ExternalURL cache" "hcSnapshots (stHandler st) = snapshot_manager cfg deps"
    by (simp_all add: st handler_config_def)
  moreover have "hDir h = stActionDir st" if "cache = Some h" for h
    using start_cache_dir [OF c] that b(3) by (auto simp: st NewActionCache_def)
  ultimately show ?thesis
    using v r t b(4) start_cache_dir [OF c] by (auto simp: st snapshot_manager_def)
qed

section \<open>Witnesses\<close>

definition example_config :: Config where
  "example_config = (Default ''n'')\<lparr>cfServer := \<lparr>svURL = ''http://f'', svRegistrationToken = ''r'', svInsecure = False\<rparr>,
     cfRunner := (cfRunner (Default ''n''))\<lparr>rcLabels := [''a:host'']\<rparr>\<rparr>"

definition example_kube :: kube_world where
  "example_kube = \<lparr>kwFromFlags = (\<lambda>_. True), kwInCluster = True, kwClientset = True, kwNamespaceFile = Some ''ci''\<rparr>"

definition example_deps :: runDeps where
  "example_deps = \<lparr>rdRestConfig = True, rdStore = UseSecretStore ''ci'' ''drawbar'',
     rdLabels = [\<lparr>lName = ''a'', lSchema = ''host'', lArg = []\<rparr>], rdNamespace = ''jobs'', rdLogger = LevelInfo\<rparr>"

definition example_machine :: start_world where
  "example_machine = \<lparr>swHome = None, swMkdirAll = (\<lambda>_. True), swOpenDB = (\<lambda>_. Some \<lparr>dbRows = [], dbNext = 1\<rparr>),
     swBlobs = (\<lambda>_. \<lparr>stBlobs = Map.empty, stTemp = Map.empty\<rparr>), swOutboundIP = Some ''10.0.0.1'', swListen = (\<lambda>_. Some 9300), swNow = 0\<rparr>"

definition example_run_world :: "secret_space run_world" where
  "example_run_world = \<lparr>rwForge = example_forge, rwLoad = SecretStore_Load example_dec ''c'', rwSave = SecretStore_Save example_enc ''c'',
     rwMachine = example_machine, rwTempDir = ''/tmp'', rwSnapshotClient = True, rwRequestKey = 0, rwUpJobs = True, rwUpClaims = True,
     rwUpDelete = (\<lambda>_. True)\<rparr>"

definition example_secrets :: secret_space where
  "example_secrets = \<lparr>ssUp = True, ssSecrets = Map.empty\<rparr>"

lemma example_main: "main_setup (\<lambda>_. Inr example_config) example_kube [''-job-namespace'', ''jobs''] = Inr (example_config, example_deps)"
proof -
  have "parseFlags [''-job-namespace'', ''jobs''] = Inr (default_flags\<lparr>flJobNamespace := ''jobs''\<rparr>)"
    by (simp add: parseFlags_def set_flag_def)
  moreover have "Validate example_config = None"
    by (simp add: Validate_def example_config_def Default_def Let_def computeShutdownTimeoutDefault_def int64_def)
  moreover have "parseLabels (rcLabels (cfRunner example_config)) = Inr (rdLabels example_deps)"
    by (simp add: example_config_def example_deps_def Parse_def SplitN3_cases default_arg_def SchemeDocker_def SchemeHost_def SchemeLXC_def TrimSpace_graphic char_in_def Let_def)
  moreover have "cfLogLevel example_config = ''info''" by (simp add: example_config_def Default_def Let_def)
  ultimately show ?thesis
    by (simp add: main_setup_def NewKubeClient_def example_kube_def default_flags_def createStore_def resolveNamespace_def
      setupLogging_def example_deps_def)
qed

lemma example_started: "\<exists>st s' cl'. run_setup example_run_world example_config example_deps example_secrets example_orphans = (Inr st, s', cl')"
  by (simp add: run_setup_def EnsureRegistered_def register_def SecretStore_Load_def SecretStore_Save_def example_run_world_def example_forge_def
    example_secrets_def register_config_def example_config_def Default_def Let_def start_cache_def startCacheServer_def StartHandler_def
    NewStorage_def example_machine_def)

theorem flags_roundtrip_witness:
  "parseFlags [''-config=a=b'', ''-kubeconfig'', ''-x''] = Inr (default_flags\<lparr>flConfigPath := ''a=b'', flKubeconfig := ''-x''\<rparr>)"
  using flags_roundtrip [of "[(True, ''config'', ''a=b''), (False, ''kubeconfig'', ''-x'')]"]
  by (simp add: flag_names_def flag_args_def set_flag_def)

theorem collector_keeps_witness:
  "\<not> (\<exists>up del now. Some (up, del, now) \<in> set [Some (True, \<lambda>_. True, 30 * Day)] \<and> 29 * Day < now - 7 * Day) \<and>
   (\<exists>x m. vsCreated x = 29 * Day \<and> mgRetentionDays m = 7 \<and>
      x \<in> set (clSnapshots (snapshot_collector m [Some (True, \<lambda>_. True, 30 * Day)] (example_orphans\<lparr>clSnapshots := [x]\<rparr>))))"
proof -
  let ?x = "(undefined :: VolumeSnapshot)\<lparr>vsCreated := 29 * Day\<rparr>"
  let ?m = "(undefined :: Manager)\<lparr>mgRetentionDays := 7\<rparr>"
  have "?x \<in> set (clSnapshots (snapshot_collector ?m [Some (True, \<lambda>_. True, 30 * Day)] (example_orphans\<lparr>clSnapshots := [?x]\<rparr>)))"
    using collector_keeps [of ?x "example_orphans\<lparr>clSnapshots := [?x]\<rparr>" ?m "[Some (True, \<lambda>_. True, 30 * Day)]"] by fastforce
  then show ?thesis by (intro conjI exI [of _ ?x] exI [of _ ?m]) simp_all
qed

theorem setup_wired_witness:
  "\<exists>st s' cl' h. run_setup example_run_world example_config example_deps example_secrets example_orphans = (Inr st, s', cl') \<and>
     stCache st = Some h \<and> hDir h = stActionDir st \<and> pCapacity (stPoller st) = 1"
proof -
  obtain st s' cl' where r: "run_setup example_run_world example_config example_deps example_secrets example_orphans = (Inr st, s', cl')"
    using example_started by blast
  have c: "rcFetchInterval (cfRunner example_config) < 10 ^ 17" "rcCapacity (cfRunner example_config) = 1" "caEnabled (cfCache example_config)"
    by (simp_all add: example_config_def Default_def Let_def)
  have "stCache st = None \<longleftrightarrow> hcCacheURL (stHandler st) = None"
    using r by (auto simp: run_setup_def handler_config_def split: sum.splits prod.splits if_splits)
  then show ?thesis using setup_wired [OF example_main r c(1)] r c by (cases "stCache st") auto
qed

end
