(* ===== verification/Runner.thy ===== *)
theory Runner
  imports Startup TaskHandler_Props "HOL-Library.Multiset"
begin

text \<open>
  The running controller: the poller, whose handlers are the task handler of
  \<^verbatim>\<open>makeTaskHandler\<close>, as \<^verbatim>\<open>run\<close> of \<^verbatim>\<open>src/cmd/controller/main.go\<close> combines them. The poller moves by its own
  step relation; a handler goroutine enters the handler, reports as \<open>makeTaskHandler\<close> says, and
  returns. What a task meets (its workflow, its job, the forge) is given by the predicate \<open>world\<close>, as the
  replies of the transport are by \<open>client\<close>. Handlers run beside each other and beside the snapshot collector, so each one finds
  whatever cluster and clones the others leave: both are chosen freely in every run. A handler finds its
  context cancelled only when the poller has cancelled it; then its waits are cut off wherever they are.
\<close>

section \<open>Cancelled handlers\<close>

text \<open>The polls of the watcher, cut off by the end of the context.\<close>

definition hung_up :: "nat \<Rightarrow> nat \<Rightarrow> nat \<Rightarrow> job_world \<Rightarrow> job_world" where
  "hung_up i j k jw = jw\<lparr>jwPods := take i (jwPods jw) @ [(Inl GetError, True)],
     jwRunning := take j (jwRunning jw) @ [(Inl GetError, True)],
     jwTerminated := take k (jwTerminated jw) @ [(Inl GetError, ParentDone)]\<rparr>"

text \<open>The attempts of \<^verbatim>\<open>Close\<close>, cut off in a call or in the wait behind it.\<close>

definition cut_forge :: "nat \<Rightarrow> bool \<Rightarrow> (nat \<Rightarrow> string attempt) \<Rightarrow> nat \<Rightarrow> string attempt" where
  "cut_forge n waiting forge a =
     (if a < n then forge a else if a = n \<and> waiting then (forge a)\<lparr>aWait := False\<rparr> else dead_calls a)"

text \<open>What becomes of a handler's surroundings when its context is cancelled up to the end of the watch, or behind it.\<close>

inductive interrupted :: "handler_world \<Rightarrow> handler_world \<Rightarrow> bool" where
  watching: "interrupted w (w\<lparr>hwCancel := Some m, hwJob := hung_up i j k (hwJob w)\<rparr>)"
| reporting: "watchJobWith (hwJob w) \<noteq> None \<Longrightarrow>
    interrupted w (w\<lparr>hwCancel := None, hwForge := cut_forge n waiting (hwForge w), hwUpSnapshot := hwUpSnapshot w \<and> up,
      hwSnapPolls := take l (hwSnapPolls w) @ [(PollFailed, True)], hwUpDelete := hwUpDelete w \<and> up'\<rparr>)"

text \<open>The surroundings a task can meet, told whether its context is done.\<close>

definition meets :: "(Task \<Rightarrow> handler_world \<Rightarrow> bool) \<Rightarrow> bool \<Rightarrow> Task \<Rightarrow> handler_world \<Rightarrow> bool" where
  "meets world cancelled t w \<longleftrightarrow>
     (\<exists>w0. world t w0 \<and> (w = w0\<lparr>hwCancel := None\<rparr> \<or> cancelled \<and> interrupted w0 w))"

section \<open>The composed system\<close>

definition running_tasks :: "(Task \<times> hphase) list \<Rightarrow> Task list" where
  "running_tasks hs = map fst (filter (\<lambda>h. snd h = HRunning) hs)"

record runner =
  rnPoller :: poller
  rnActive :: int                                  \<comment> \<open>the counter behind the metrics endpoint\<close>
  rnEntered :: "Task list"                         \<comment> \<open>inside the handler\<close>
  rnFinished :: "Task list"                        \<comment> \<open>returned from it, the slot not yet given back\<close>
  rnReports :: "(Task \<times> effect list) list"         \<comment> \<open>ghost: what each handler that returned has done\<close>

definition release_slot :: "poller \<Rightarrow> (Task \<times> hphase) list \<Rightarrow> Task \<Rightarrow> (Task \<times> hphase) list \<Rightarrow> poller" where
  "release_slot p pre t post = p\<lparr>pHandlers := pre @ (t, HReleased) # post, pSem := pSem p - 1\<rparr>"

inductive runner_step ::
  "('e, 'v) interpreter \<Rightarrow> (bool \<Rightarrow> FetchReply \<Rightarrow> bool) \<Rightarrow> (Task \<Rightarrow> handler_world \<Rightarrow> bool) \<Rightarrow> TaskHandlerConfig \<Rightarrow> runner \<Rightarrow> runner \<Rightarrow> bool"
  for interp client world cfg where
  poll: "poll_step client (rnPoller r) p \<Longrightarrow> running (pHandlers (rnPoller r)) \<le> running (pHandlers p) \<Longrightarrow>
    runner_step interp client world cfg r (r\<lparr>rnPoller := p\<rparr>)"
| enter: "mset (running_tasks (pHandlers (rnPoller r))) = mset (rnEntered r) + mset (rnFinished r) + add_mset t idle \<Longrightarrow>
    runner_step interp client world cfg r (r\<lparr>rnEntered := t # rnEntered r, rnActive := rnActive r + active_change handler_entry\<rparr>)"
| finish: "t \<in> set (rnEntered r) \<Longrightarrow> meets world (jobsDone (rnPoller r)) t w \<Longrightarrow>
    makeTaskHandler interp cfg w cl disk t = Some (effs, cl', disk') \<Longrightarrow>
    runner_step interp client world cfg r
      (r\<lparr>rnEntered := remove1 t (rnEntered r), rnFinished := t # rnFinished r,
         rnActive := rnActive r + active_change (drop (length handler_entry) effs),
         rnReports := rnReports r @ [(t, effs)]\<rparr>)"
| release: "pHandlers (rnPoller r) = pre @ (t, HRunning) # post \<Longrightarrow> t \<in> set (rnFinished r) \<Longrightarrow>
    runner_step interp client world cfg r
      (r\<lparr>rnPoller := release_slot (rnPoller r) pre t post, rnFinished := remove1 t (rnFinished r)\<rparr>)"

definition run_start :: "poller \<Rightarrow> runner" where
  "run_start p = \<lparr>rnPoller = p, rnActive = 0, rnEntered = [], rnFinished = [], rnReports = []\<rparr>"

definition runner_init :: "nat \<Rightarrow> bool \<Rightarrow> runner \<Rightarrow> bool" where
  "runner_init capacity ephemeral r \<longleftrightarrow> (\<exists>key. r = run_start (NewPoller capacity ephemeral key))"

text \<open>\<^verbatim>\<open>run\<close> has returned.\<close>

definition run_returned :: "runner \<Rightarrow> bool" where
  "run_returned r \<longleftrightarrow> (\<exists>ok. pShutdown (rnPoller r) = SDone ok)"

section \<open>The poller inside\<close>

lemma runner_poll_step: "runner_step interp client world cfg r r' \<Longrightarrow> (poll_step client)\<^sup>*\<^sup>* (rnPoller r) (rnPoller r')"
  by (erule runner_step.cases) (auto simp: release_slot_def intro!: r_into_rtranclp poll_step.handler_return [unfolded One_nat_def])

interpretation inner_poller: system_refinement "runner_init c e" "runner_step interp client world cfg"
    "poll_init c e" "poll_step client" rnPoller for c e interp client world cfg
  by unfold_locales (auto simp: runner_init_def run_start_def poll_init_def intro: runner_poll_step)

section \<open>Every task is accounted for\<close>

text \<open>A step of the poller that gives no slot back hands out at most one task.\<close>

lemma poll_step_tasks:
  assumes "poll_step client p q" "running (pHandlers p) \<le> running (pHandlers q)"
  shows "running_tasks (pHandlers q) = running_tasks (pHandlers p) \<and> pDispatched q = pDispatched p \<or>
    (\<exists>t. running_tasks (pHandlers q) = t # running_tasks (pHandlers p) \<and> pDispatched q = pDispatched p @ [t])"
  using assms(1)
proof cases
  case (shutdown expired)
  from shutdown(2) show ?thesis by (cases rule: Shutdown_step_cases) simp_all
qed (use assms(2) in \<open>simp_all add: running_tasks_def running_def spawn_def waitBackoff_return_def\<close>)

definition handled :: "('e, 'v) interpreter \<Rightarrow> (Task \<Rightarrow> handler_world \<Rightarrow> bool) \<Rightarrow> TaskHandlerConfig \<Rightarrow> bool \<Rightarrow> Task \<times> effect list \<Rightarrow> bool" where
  "handled interp world cfg cancelled x \<longleftrightarrow>
     (\<exists>w cl disk cl' disk'. meets world cancelled (fst x) w \<and> makeTaskHandler interp cfg w cl disk (fst x) = Some (snd x, cl', disk'))"

lemma handled_mono: "handled interp world cfg d x \<Longrightarrow> (d \<longrightarrow> d') \<Longrightarrow> handled interp world cfg d' x"
  unfolding handled_def meets_def by blast

lemma subset_add_mset: "A \<subseteq># B \<Longrightarrow> A \<subseteq># add_mset t B"
  by (metis add_mset_add_single mset_subset_eq_add_left subset_mset.order_trans)

definition accounted :: "('e, 'v) interpreter \<Rightarrow> (Task \<Rightarrow> handler_world \<Rightarrow> bool) \<Rightarrow> TaskHandlerConfig \<Rightarrow> runner \<Rightarrow> bool" where
  "accounted interp world cfg r \<longleftrightarrow>
     mset (rnEntered r) + mset (rnFinished r) \<subseteq># mset (running_tasks (pHandlers (rnPoller r))) \<and>
     mset (pDispatched (rnPoller r)) + mset (rnFinished r)
       = mset (running_tasks (pHandlers (rnPoller r))) + mset (map fst (rnReports r)) \<and>
     rnActive r = int (length (rnEntered r)) \<and>
     list_all (handled interp world cfg (jobsDone (rnPoller r))) (rnReports r)"

lemma jobsDone_mono: "poll_step client p q \<Longrightarrow> jobsDone p \<Longrightarrow> jobsDone q"
  by (erule poll_step.cases) (auto simp: jobsDone_def spawn_def waitBackoff_return_def elim: Shutdown_step_cases)

lemma accounted_init: "runner_init c e r \<Longrightarrow> accounted interp world cfg r"
  by (auto simp: runner_init_def run_start_def accounted_def running_tasks_def NewPoller_def)

lemma handler_leaves:
  assumes "makeTaskHandler interp cfg w cl disk t = Some (effs, cl', disk')"
  shows "active_change (drop (length handler_entry) effs) = - 1"
proof -
  obtain rest where "effs = handler_entry @ rest" using assms by (auto simp: makeTaskHandler_Some)
  with handler_final [OF assms] show ?thesis by (auto simp: handler_entry_def)
qed

lemma accounted_step:
  assumes "runner_step interp client world cfg r r'" "accounted interp world cfg r"
  shows "accounted interp world cfg r'"
  using assms(1)
proof cases
  case (poll p)
  have "list_all (handled interp world cfg (jobsDone p)) (rnReports r)"
    using assms(2) jobsDone_mono [OF poll(2)] by (auto simp: accounted_def list_all_iff intro: handled_mono)
  with assms(2) poll_step_tasks [OF poll(2,3)] show ?thesis
    unfolding accounted_def poll(1) by (elim disjE exE) (simp_all add: subset_add_mset)
next
  case (enter t idle)
  with assms(2) show ?thesis by (simp add: accounted_def handler_entry_def)
next
  case (finish t w cl disk effs cl' disk')
  then have "mset (rnEntered r) = add_mset t (mset (remove1 t (rnEntered r)))" by simp
  moreover have "handled interp world cfg (jobsDone (rnPoller r)) (t, effs)" using finish(3,4) unfolding handled_def fst_conv snd_conv by blast
  moreover have "Suc 0 \<le> length (rnEntered r)" using length_pos_if_in_set [OF finish(2)] by linarith
  moreover have "active_change (drop (length handler_entry) effs) = - 1" using handler_leaves [OF finish(4)] .
  ultimately show ?thesis using finish(2) assms(2) by (simp add: accounted_def length_remove1 of_nat_diff finish(1))
next
  case (release pre t post)
  obtain F where F: "mset (rnFinished r) = add_mset t F" using release(3) by (metis mset_add set_mset_mset)
  then have F': "mset (remove1 t (rnFinished r)) = F" by simp
  have "running_tasks (pHandlers (rnPoller r)) = running_tasks pre @ t # running_tasks post"
    "running_tasks (pre @ (t, HReleased) # post) = running_tasks pre @ running_tasks post"
    by (simp_all add: release(2) running_tasks_def)
  with assms(2) show ?thesis
    by (simp add: accounted_def release(1) release_slot_def F F' jobsDone_def)
qed

interpretation runner: invariant_system "runner_init c e" "runner_step interp client world cfg" "accounted interp world cfg"
  for c e interp client world cfg
  by unfold_locales (auto intro: accounted_init accounted_step)

text \<open>What a handler that returned has reported.\<close>

lemma ctx_done_AtWatch: "ctx_done w AtWatch \<longleftrightarrow> hwCancel w \<noteq> None"
proof -
  have "moment_rank m \<le> moment_rank AtWatch" for m by (cases m) simp_all
  then show ?thesis by (simp add: ctx_done_def split: option.splits)
qed

lemma meets_cancelled: "meets world cancelled t w \<Longrightarrow> hwCancel w \<noteq> None \<Longrightarrow> cancelled"
  by (auto simp: meets_def)

lemma handled_report:
  assumes "handled interp world cfg cancelled (t, effs)"
  shows "\<exists>w e result reqs ok. meets world cancelled t w \<and> filter is_final effs = [e] \<and> report_of e = Some (result, reqs, ok) \<and>
     ((\<exists>job. JobCreated job \<in> set effs) \<or> hwCancel w = None \<longrightarrow> (ok \<longleftrightarrow> answered (hwForge w))) \<and>
     (ok \<longrightarrow> told t result reqs) \<and> (hwCancel w \<noteq> None \<longrightarrow> result = RESULT_FAILURE \<and> cancelled)"
proof -
  obtain w cl disk cl' disk' where w: "meets world cancelled t w" and m: "makeTaskHandler interp cfg w cl disk t = Some (effs, cl', disk')"
    using assms unfolding handled_def fst_conv snd_conv by blast
  obtain e where e: "filter is_final effs = [e]" "proper_report w t effs e" using handler_final [OF m] by blast
  have "hwCancel w = None \<Longrightarrow> \<not> ctx_done w AtCreate" by (simp add: ctx_done_def)
  moreover obtain result reqs ok where o: "report_of e = Some (result, reqs, ok)" using e(2) unfolding proper_report_def by blast
  ultimately show ?thesis
    using e w meets_cancelled [OF w] ctx_done_AtWatch [of w] unfolding proper_report_def
    by (intro exI [of _ w] exI [of _ e] exI [of _ result] exI [of _ reqs] exI [of _ ok]) auto
qed

lemma run_setup_poller:
  assumes "run_setup w cfg deps s cl = (Inr st, s', cl')"
  shows "stPoller st = NewPoller (nat (rcCapacity (cfRunner cfg))) (rcEphemeral (cfRunner cfg)) (rwRequestKey w)"
  using assms by (auto simp: run_setup_def split: sum.splits prod.splits if_splits)

lemma run_reach:
  assumes "run_setup w cfg deps s cl = (Inr st, s', cl')"
    and "reach (\<lambda>r. r = run_start (stPoller st)) (runner_step interp client world (stHandler st)) r"
  shows "reach (runner_init (nat (rcCapacity (cfRunner cfg))) (rcEphemeral (cfRunner cfg))) (runner_step interp client world (stHandler st)) r"
  by (rule reach_from [OF assms(2)]) (auto simp: runner_init_def run_setup_poller [OF assms(1)])

lemma running_length: "length (running_tasks hs) = running hs"
  by (simp add: running_tasks_def running_def)

text \<open>
  C5: Every task is accounted for. Whatever the forge sends and however the poll loop, the
  handlers and the shutdown interleave, every task that was handed out has not yet entered its
  handler, or is inside it, or its handler has returned after exactly one final call of \<^verbatim>\<open>Close\<close>. This is a report that the forge has
  accepted, with the task's result, whenever the forge answers the attempts of the report and either the task's job was created or
  its context was not cancelled before the report; a context is cancelled only if the poller has cancelled the handlers. The
  counter of active jobs given to the autoscaler, which the handlers change, is the number of handlers at work and never
  exceeds the configured capacity; and when \<^verbatim>\<open>run\<close> has returned, the tasks whose handlers have returned are exactly the tasks handed out.
\<close>

theorem tasks_accounted:
  assumes "run_setup w cfg deps s cl = (Inr st, s', cl')" "rcCapacity (cfRunner cfg) \<ge> 1"
    and "reach (\<lambda>r. r = run_start (stPoller st)) (runner_step interp client world (stHandler st)) r"
  shows "(\<exists>idle. mset (pDispatched (rnPoller r)) = mset idle + mset (rnEntered r) + mset (map fst (rnReports r))) \<and>
    (\<forall>(t, effs) \<in> set (rnReports r). \<exists>w e result reqs ok. meets world (jobsDone (rnPoller r)) t w \<and>
       filter is_final effs = [e] \<and> report_of e = Some (result, reqs, ok) \<and>
       ((\<exists>job. JobCreated job \<in> set effs) \<or> hwCancel w = None \<longrightarrow> (ok \<longleftrightarrow> answered (hwForge w))) \<and>
       (ok \<longrightarrow> told t result reqs) \<and> (hwCancel w \<noteq> None \<longrightarrow> result = RESULT_FAILURE \<and> jobsDone (rnPoller r))) \<and>
    rnActive r = int (length (rnEntered r)) \<and> rnActive r \<le> rcCapacity (cfRunner cfg) \<and>
    (run_returned r \<longrightarrow> mset (map fst (rnReports r)) = mset (pDispatched (rnPoller r)) \<and> rnActive r = 0)"
proof -
  note reached = run_reach [OF assms(1,3)]
  have a: "accounted interp world (stHandler st) r" by (rule runner.reach_inv [OF reached])
  note p = inner_poller.reach_abs [OF reached]
  note i = poll.reach_inv [OF p] and c = reach_config [OF p]
  let ?run = "running_tasks (pHandlers (rnPoller r))"
  obtain X where X: "mset ?run = mset (rnEntered r) + mset (rnFinished r) + X"
    using a by (auto simp: accounted_def subset_mset.le_iff_add)
  obtain idle where idle: "mset idle = X" using ex_mset by blast
  have "mset (pDispatched (rnPoller r)) = mset idle + mset (rnEntered r) + mset (map fst (rnReports r))"
    using a X idle by (simp add: accounted_def algebra_simps)
  moreover have "\<exists>w e result reqs ok. meets world (jobsDone (rnPoller r)) t w \<and>
       filter is_final effs = [e] \<and> report_of e = Some (result, reqs, ok) \<and>
       ((\<exists>job. JobCreated job \<in> set effs) \<or> hwCancel w = None \<longrightarrow> (ok \<longleftrightarrow> answered (hwForge w))) \<and>
       (ok \<longrightarrow> told t result reqs) \<and> (hwCancel w \<noteq> None \<longrightarrow> result = RESULT_FAILURE \<and> jobsDone (rnPoller r))"
    if "(t, effs) \<in> set (rnReports r)" for t effs
    using a that by (intro handled_report) (force simp: accounted_def list_all_iff)
  moreover have "length (rnEntered r) \<le> length ?run"
    using arg_cong [OF X, of size] by simp
  moreover have "running (pHandlers (rnPoller r)) \<le> nat (rcCapacity (cfRunner cfg))"
    using i c by (simp add: poll_inv_def)
  moreover have "?run = []" if "run_returned r"
    using i that by (auto simp: poll_inv_def run_returned_def running_tasks_def)
  ultimately show ?thesis
    using a assms(2) X by (auto simp: accounted_def running_length)
qed

section \<open>The run can always be brought to its end\<close>

abbreviation quiet_step :: "(bool \<Rightarrow> FetchReply \<Rightarrow> bool) \<Rightarrow> poller \<Rightarrow> poller \<Rightarrow> bool" where
  "quiet_step client p q \<equiv> poll_step client p q \<and> running (pHandlers p) \<le> running (pHandlers q)"

lemma quiet_cons: "quiet_step client p q \<Longrightarrow> (quiet_step client)\<^sup>*\<^sup>* q q' \<Longrightarrow> (quiet_step client)\<^sup>*\<^sup>* p q'"
  by (rule converse_rtranclp_into_rtranclp)

lemma quiet_path:
  assumes "(quiet_step client)\<^sup>*\<^sup>* p q"
  shows "rnPoller r = p \<Longrightarrow> (runner_step interp client world cfg)\<^sup>*\<^sup>* r (r\<lparr>rnPoller := q\<rparr>)"
  using assms
proof (induction rule: rtranclp_induct)
  case (step q q')
  then show ?case using runner_step.poll [of client "r\<lparr>rnPoller := q\<rparr>" q'] by (auto intro: rtranclp.rtrancl_into_rtrancl)
qed auto

text \<open>The poll loop ends: when its context is cancelled it needs at most one more answer of the transport.\<close>

lemma loop_stops:
  assumes "\<forall>d. \<exists>reply. client d reply" "pPc p \<noteq> PStopped \<Longrightarrow> pCtxDone p"
  shows "\<exists>q. (quiet_step client)\<^sup>*\<^sup>* p q \<and> pPc q = PStopped \<and> pCtxDone q = pCtxDone p"
proof -
  have acq: "\<exists>q. (quiet_step client)\<^sup>*\<^sup>* p q \<and> pPc q = PStopped \<and> pCtxDone q = pCtxDone p" if "pPc p = PAcquire" "pCtxDone p" for p
    using poll_step.acquire_stop [of p client] that by (intro exI [of _ "p\<lparr>pPc := PStopped\<rparr>"]) (auto simp: pollingDone_def)
  have bo: "\<exists>q. (quiet_step client)\<^sup>*\<^sup>* p q \<and> pPc q = PStopped \<and> pCtxDone q = pCtxDone p" if "pPc p = PBackoff" "pCtxDone p" for p
    using poll_step.backoff [of p False client] that by (intro exI [of _ "waitBackoff_return p False"]) (auto simp: pollingDone_def waitBackoff_return_def)
  have call: "\<exists>q. (quiet_step client)\<^sup>*\<^sup>* p q \<and> pPc q = PStopped \<and> pCtxDone q = pCtxDone p" if pc: "pPc p = PCall d" "pCtxDone p" for p d
  proof -
    obtain reply where reply: "client d reply" using assms(1) by blast
    obtain w res where f: "fetchTask (pollingDone p) 0 reply (pWorker p) = (w, res)" by fastforce
    obtain q where q: "quiet_step client p q" "pPc q \<in> {PAcquire, PBackoff}" "pCtxDone q"
    proof (cases res)
      case None
      let ?q = "p\<lparr>pWorker := w, pBeats := fetch_heartbeat (pollingDone p) 0 reply (pBeats p), pSem := pSem p - 1, pPc := PBackoff, pInBackoff := True\<rparr>"
      have "poll_step client p ?q" by (rule poll_step.no_task [where client = client, OF pc(1) reply f [unfolded None]])
      with pc(2) show ?thesis by (intro that [of ?q]) simp_all
    next
      case (Some t)
      let ?q = "spawn (p\<lparr>pWorker := w, pBeats := fetch_heartbeat (pollingDone p) 0 reply (pBeats p)\<rparr>) t"
      have "poll_step client p ?q" by (rule poll_step.got_task [where client = client, OF pc(1) reply f [unfolded Some]])
      with pc(2) show ?thesis by (intro that [of ?q]) (simp_all add: spawn_def running_def)
    qed
    then show ?thesis using acq [of q] bo [of q] pc(2) by (auto intro: converse_rtranclp_into_rtranclp)
  qed
  show ?thesis
  proof (cases "pPc p")
    case PFetch
    then have "quiet_step client p (p\<lparr>pPc := PCall (pollingDone p)\<rparr>)" using poll_step.call [of p client] by simp
    then show ?thesis using call [of "p\<lparr>pPc := PCall (pollingDone p)\<rparr>" "pollingDone p"] assms(2) PFetch
      quiet_cons [of client p "p\<lparr>pPc := PCall (pollingDone p)\<rparr>"] by auto
  qed (use acq bo call assms(2) in auto)
qed

text \<open>A cancelled handler returns, whatever its task, its job and its snapshot do.\<close>

lemma pods_cut: "waitForPod (xs @ [(Inl e, c)]) \<noteq> None"
  by (induction xs rule: waitForPod.induct) (auto split: sum.splits list.splits)

lemma running_cut: "waitForContainerRunning prev n (xs @ [(Inl e, c)]) \<noteq> None"
  by (induction prev n xs rule: waitForContainerRunning.induct) (auto split: sum.splits option.splits)

lemma terminated_cut: "waitForContainerTerminated n (xs @ [(a, ParentDone)]) \<noteq> None"
  by (induction n xs rule: waitForContainerTerminated.induct) (auto split: sleep_end.splits)

lemma snapshot_cut: "WaitForSnapshot (xs @ [(PollFailed, c)]) \<noteq> None"
  by (induction xs rule: WaitForSnapshot.induct) (auto split: option.splits)

lemma watch_cut: "watchJobWith (hung_up i j k jw) \<noteq> None"
  using pods_cut [of "take i (jwPods jw)" GetError True] running_cut [of "jwPrevious jw" "''runner''" "take j (jwRunning jw)" GetError True]
    terminated_cut [of "''runner''" "take k (jwTerminated jw)" "Inl GetError"]
  by (auto simp: watchJobWith_def hung_up_def split: sum.splits option.splits prod.splits)

lemma interrupted_returns:
  assumes "interrupted w0 w"
  shows "\<exists>effs cl' disk'. makeTaskHandler interp cfg w cl disk t = Some (effs, cl', disk')"
  using assms
proof cases
  case (watching m i j k)
  show ?thesis by (rule handler_returns) (simp_all add: watching ctx_done_AtWatch watch_cut del: not_None_eq)
next
  case (reporting n waiting up l up')
  show ?thesis by (rule handler_returns) (use reporting snapshot_cut in \<open>auto simp del: not_None_eq\<close>)
qed

text \<open>What is left to do when the poll loop has ended: for the handlers, and for the shutdown.\<close>

fun phase_weight :: "hphase \<Rightarrow> nat" where
  "phase_weight HRunning = 3"
| "phase_weight HReleased = 2"
| "phase_weight HCounted = 1"

fun shutdown_weight :: "sdphase \<Rightarrow> nat" where
  "shutdown_weight SNone = 3"
| "shutdown_weight SWait = 2"
| "shutdown_weight SKill = 1"
| "shutdown_weight (SDone _) = 0"

definition remaining :: "runner \<Rightarrow> nat" where
  "remaining r =
     sum_list (map (phase_weight \<circ> snd) (pHandlers (rnPoller r))) +
     2 * (running (pHandlers (rnPoller r)) - (length (rnEntered r) + length (rnFinished r))) + length (rnEntered r) +
     shutdown_weight (pShutdown (rnPoller r))"

definition stopping :: "runner \<Rightarrow> bool" where
  "stopping r \<longleftrightarrow> pPc (rnPoller r) = PStopped \<and> pCtxDone (rnPoller r)"

lemma accounted_counts:
  assumes "accounted interp world cfg r"
  shows "length (rnEntered r) + length (rnFinished r) \<le> running (pHandlers (rnPoller r))"
proof -
  have "mset (rnEntered r) + mset (rnFinished r) \<subseteq># mset (running_tasks (pHandlers (rnPoller r)))"
    using assms by (simp add: accounted_def)
  from size_mset_mono [OF this] show ?thesis by (simp add: running_length)
qed

text \<open>Every step but an idle one brings the end closer.\<close>

lemma step_decreases:
  assumes "runner_step interp client world cfg r r'" "r' \<noteq> r" "accounted interp world cfg r" "stopping r"
  shows "remaining r' < remaining r \<and> stopping r'"
  using assms(1)
proof cases
  case (poll p)
  from poll(2) show ?thesis
  proof cases
    case (ctx_cancel)
    then show ?thesis using assms(2,4) poll(1) by (simp add: stopping_def)
  next
    case (shutdown expired)
    from shutdown(2) show ?thesis
      by (cases rule: Shutdown_step_cases) (use assms(4) poll(1) in \<open>simp_all add: stopping_def remaining_def\<close>)
  qed (use assms(4) poll(1,3) in \<open>simp_all add: stopping_def remaining_def running_def\<close>)
next
  case (enter t idle)
  have "size (mset (running_tasks (pHandlers (rnPoller r)))) = length (rnEntered r) + length (rnFinished r) + Suc (size idle)"
    unfolding enter(2) by simp
  then have "running (pHandlers (rnPoller r)) = length (rnEntered r) + length (rnFinished r) + Suc (size idle)" by (simp add: running_length)
  then show ?thesis using assms(4) by (simp add: enter(1) remaining_def stopping_def)
next
  case (finish t w cl disk effs cl' disk')
  have "length (rnEntered r) = Suc (length (remove1 t (rnEntered r)))"
    using finish(2) length_pos_if_in_set [OF finish(2)] by (simp add: length_remove1)
  then show ?thesis using assms(4) by (simp add: finish(1) remaining_def stopping_def)
next
  case (release pre t post)
  have "length (rnFinished r) = Suc (length (remove1 t (rnFinished r)))"
    using release(3) length_pos_if_in_set [OF release(3)] by (simp add: length_remove1)
  then show ?thesis using assms(4) accounted_counts [OF assms(3)]
    by (simp add: release(1,2) release_slot_def remaining_def stopping_def running_def)
qed

text \<open>Until \<^verbatim>\<open>run\<close> has returned there is always such a step.\<close>

lemma moves: "runner_step interp client world cfg r r' \<Longrightarrow> f r' \<noteq> f r \<Longrightarrow> \<exists>r'. runner_step interp client world cfg r r' \<and> r' \<noteq> r"
  by blast

lemma running_moves:
  assumes "accounted interp world cfg r" "stopping r" "pHandlers (rnPoller r) = (t, HRunning) # post" "\<exists>w. world t w"
  shows "\<exists>r'. runner_step interp client world cfg r r' \<and> r' \<noteq> r"
proof -
  consider "t \<in> set (rnFinished r)" | "t \<in> set (rnEntered r)" | "t \<notin> set (rnEntered r) \<union> set (rnFinished r)" by blast
  then show ?thesis
  proof cases
    case 1
    from assms(3) have "pHandlers (rnPoller r) = [] @ (t, HRunning) # post" by simp
    from moves [OF runner_step.release [OF this 1], of "\<lambda>r. pHandlers (rnPoller r)"] assms(3) show ?thesis by (simp add: release_slot_def)
  next
    case 2
    obtain w0 where "world t w0" using assms(4) by blast
    let ?w = "w0\<lparr>hwCancel := Some AtWatch, hwJob := hung_up 0 0 0 (hwJob w0)\<rparr>"
    have m: "meets world (jobsDone (rnPoller r)) t ?w"
      using \<open>world t w0\<close> assms(2) interrupted.watching by (auto simp: meets_def stopping_def jobsDone_def)
    obtain effs cl' disk' where "makeTaskHandler interp cfg ?w undefined undefined t = Some (effs, cl', disk')"
      using interrupted_returns [OF interrupted.watching] by blast
    from moves [OF runner_step.finish [OF 2 m this], of rnReports] show ?thesis by simp
  next
    case 3
    obtain X where X: "mset (running_tasks (pHandlers (rnPoller r))) = mset (rnEntered r) + mset (rnFinished r) + X"
      using assms(1) by (auto simp: accounted_def subset_mset.le_iff_add)
    have "t \<in># mset (running_tasks (pHandlers (rnPoller r)))" by (simp add: assms(3) running_tasks_def)
    with 3 X obtain Y where "X = add_mset t Y" by (metis Un_iff mset_add set_mset_mset union_iff)
    with moves [OF runner_step.enter, of r t Y rnEntered] X show ?thesis by simp
  qed
qed

lemma poll_moves:
  assumes "poll_step client (rnPoller r) p" "running (pHandlers (rnPoller r)) \<le> running (pHandlers p)" "p \<noteq> rnPoller r"
  shows "\<exists>r'. runner_step interp client world cfg r r' \<and> r' \<noteq> r"
  using moves [OF runner_step.poll [OF assms(1,2)], of rnPoller] assms(3) by simp

lemma shutdown_moves:
  assumes "pPc p = PStopped" "pHandlers p = []" "\<not> (\<exists>ok. pShutdown p = SDone ok)"
  shows "\<exists>q. poll_step client p q \<and> running (pHandlers p) \<le> running (pHandlers q) \<and> pShutdown q \<noteq> pShutdown p"
proof -
  obtain q where q: "Shutdown_step False p = Some q" using assms(2,3) by (cases "pShutdown p") (simp_all add: Shutdown_step_def)
  then show ?thesis using poll_step.shutdown [OF assms(1) q] by (intro exI [of _ q]) (auto elim!: Shutdown_step_cases)
qed

lemma step_exists:
  assumes "accounted interp world cfg r" "stopping r" "\<not> run_returned r" "\<forall>t. \<exists>w. world t w"
  shows "\<exists>r'. runner_step interp client world cfg r r' \<and> r' \<noteq> r"
proof (cases "pHandlers (rnPoller r)")
  case Nil
  with assms(2,3) shutdown_moves [of "rnPoller r" client] poll_moves [of client r] show ?thesis
    by (fastforce simp: stopping_def run_returned_def)
next
  case (Cons h post)
  obtain t ph where h: "pHandlers (rnPoller r) = (t, ph) # post" using Cons by (cases h) simp
  show ?thesis
  proof (cases ph)
    case HRunning
    show ?thesis by (rule running_moves [OF assms(1,2)]) (use h HRunning assms(4) in auto)
  next
    case HReleased
    let ?p = "rnPoller r\<lparr>pHandlers := (t, HCounted) # post, pInFlight := pInFlight (rnPoller r) - 1\<rparr>"
    have "pHandlers ?p \<noteq> pHandlers (rnPoller r)" using h HReleased by simp
    then have "?p \<noteq> rnPoller r" by metis
    moreover have "poll_step client (rnPoller r) ?p" using poll_step.handler_count [of "rnPoller r" "[]" t post client] h HReleased by simp
    ultimately show ?thesis using h HReleased by (intro poll_moves) (simp_all add: running_def)
  next
    case HCounted
    let ?p = "rnPoller r\<lparr>pHandlers := post\<rparr>"
    have "pHandlers ?p \<noteq> pHandlers (rnPoller r)" using h by simp
    then have "?p \<noteq> rnPoller r" by metis
    moreover have "poll_step client (rnPoller r) ?p" using poll_step.handler_done [of "rnPoller r" "[]" t post client] h HCounted by simp
    ultimately show ?thesis using h HCounted by (intro poll_moves) (simp_all add: running_def)
  qed
qed

lemma stopping_returns:
  "accounted interp world cfg r \<Longrightarrow> stopping r \<Longrightarrow> \<forall>t. \<exists>w. world t w \<Longrightarrow>
    \<exists>r'. (runner_step interp client world cfg)\<^sup>*\<^sup>* r r' \<and> run_returned r'"
proof (induction "remaining r" arbitrary: r rule: less_induct)
  case less
  show ?case
  proof (cases "run_returned r")
    case False
    obtain r1 where r1: "runner_step interp client world cfg r r1" "r1 \<noteq> r" using step_exists [OF less.prems(1,2) False less.prems(3)] by blast
    have "remaining r1 < remaining r" "stopping r1" using step_decreases [OF r1 less.prems(1,2)] by simp_all
    from less.hyps [OF this(1) accounted_step [OF r1(1) less.prems(1)] this(2) less.prems(3)] r1(1) show ?thesis
      by (meson converse_rtranclp_into_rtranclp)
  qed auto
qed

lemma can_return:
  assumes "accounted interp world cfg r" "\<forall>d. \<exists>reply. client d reply" "\<forall>t. \<exists>w. world t w"
  shows "\<exists>r'. (runner_step interp client world cfg)\<^sup>*\<^sup>* r r' \<and> run_returned r'"
proof -
  let ?step = "runner_step interp client world cfg" and ?p0 = "rnPoller r\<lparr>pCtxDone := True\<rparr>"
  have q0: "quiet_step client (rnPoller r) ?p0" using poll_step.ctx_cancel [of client "rnPoller r"] by simp
  obtain q1 where q1: "(quiet_step client)\<^sup>*\<^sup>* ?p0 q1" "pPc q1 = PStopped" "pCtxDone q1"
    using loop_stops [OF assms(2), of ?p0] by auto
  from quiet_path [OF quiet_cons [OF q0 q1(1)] refl, of interp world cfg]
  have p1: "?step\<^sup>*\<^sup>* r (r\<lparr>rnPoller := q1\<rparr>)" .
  have "stopping (r\<lparr>rnPoller := q1\<rparr>)" using q1 by (simp add: stopping_def)
  from stopping_returns [OF runner.path_inv [OF p1 assms(1)] this assms(3)] p1 show ?thesis by (meson rtranclp_trans)
qed

text \<open>
  C6: The controller never gets stuck: from every state it can reach, with a transport that answers or fails every
  call and whatever the tasks, their jobs and their snapshots do, there is a way for \<^verbatim>\<open>run\<close> to return, and on it
  the handler of every task handed out returns. No handler, slot, counter or phase of the shutdown can block the end for good.
\<close>

theorem run_can_finish:
  assumes "run_setup w cfg deps s cl = (Inr st, s', cl')" "\<forall>d. \<exists>reply. client d reply" "\<forall>t. \<exists>w. world t w"
    and "reach (\<lambda>r. r = run_start (stPoller st)) (runner_step interp client world (stHandler st)) r"
  shows "\<exists>r'. (runner_step interp client world (stHandler st))\<^sup>*\<^sup>* r r' \<and> run_returned r' \<and>
    mset (map fst (rnReports r')) = mset (pDispatched (rnPoller r'))"
proof -
  note reached = run_reach [OF assms(1,4)]
  obtain r' where r': "(runner_step interp client world (stHandler st))\<^sup>*\<^sup>* r r'" "run_returned r'"
    using can_return [OF runner.reach_inv [OF reached] assms(2,3)] by blast
  note end_state = reach_trans [OF r'(1) reached]
  have "pHandlers (rnPoller r') = []"
    using poll.reach_inv [OF inner_poller.reach_abs [OF end_state]] r'(2) by (auto simp: poll_inv_def run_returned_def)
  then show ?thesis
    using runner.reach_inv [OF end_state] r' by (intro exI [of _ r']) (auto simp: accounted_def running_tasks_def)
qed

text \<open>
  C22: A shutdown always ends, and this after a bounded number of steps: once the poll loop has ended and the contexts are
  cancelled, every sequence of steps that change anything is at most as long as the work that was left, and as long as \<^verbatim>\<open>run\<close> has not
  returned there is a next one. So every schedule leads to the return, whatever the tasks, their jobs and their snapshots do.
\<close>

theorem shutdown_terminates:
  assumes "run_setup w cfg deps s cl = (Inr st, s', cl')" "\<forall>t. \<exists>w. world t w"
    and "reach (\<lambda>r. r = run_start (stPoller st)) (runner_step interp client world (stHandler st)) r"
    and "pPc (rnPoller r) = PStopped" "pCtxDone (rnPoller r)"
    and "((\<lambda>r r'. runner_step interp client world (stHandler st) r r' \<and> r' \<noteq> r) ^^ n) r r'"
  shows "n + remaining r' \<le> remaining r \<and>
    (run_returned r' \<or> (\<exists>r''. runner_step interp client world (stHandler st) r' r'' \<and> r'' \<noteq> r'))"
proof -
  let ?step = "\<lambda>r r'. runner_step interp client world (stHandler st) r r' \<and> r' \<noteq> r"
  have "accounted interp world (stHandler st) r" by (rule runner.reach_inv [OF run_reach [OF assms(1,3)]])
  moreover have "stopping r" using assms(4,5) by (simp add: stopping_def)
  ultimately have "accounted interp world (stHandler st) r' \<and> stopping r' \<and> n + remaining r' \<le> remaining r"
    using assms(6)
  proof (induction n arbitrary: r')
    case (Suc n)
    then obtain r1 where r1: "(?step ^^ n) r r1" "?step r1 r'" by auto
    with Suc.IH [OF Suc.prems(1,2) r1(1)] step_decreases [of interp client world "stHandler st" r1 r'] accounted_step show ?case by fastforce
  qed simp
  with step_exists [of interp world "stHandler st" r' client] assms(2) show ?thesis by blast
qed

section \<open>Witnesses\<close>

definition example_tasks :: "Task \<Rightarrow> handler_world \<Rightarrow> bool" where
  "example_tasks t w \<longleftrightarrow> w = example_surroundings True"

lemma dispatched_kept: "(runner_step interp client world cfg)\<^sup>*\<^sup>* r r' \<Longrightarrow> set (pDispatched (rnPoller r)) \<subseteq> set (pDispatched (rnPoller r'))"
proof (induction rule: rtranclp_induct)
  case (step r1 r2)
  from step(2) have "set (pDispatched (rnPoller r1)) \<subseteq> set (pDispatched (rnPoller r2))"
    by (cases rule: runner_step.cases) (auto simp: release_slot_def dest: poll_step_tasks)
  with step(3) show ?case by blast
qed simp

lemma hand_out:
  assumes "client False (FetchOk v (Some t))" "tkId t \<noteq> 0" "c > 0"
  shows "\<exists>q. (quiet_step client)\<^sup>*\<^sup>* (NewPoller c e key) q \<and> pDispatched q = [t]"
proof -
  let ?p0 = "NewPoller c e key"
  let ?p1 = "?p0\<lparr>pSem := 1, pPc := PFetch\<rparr>"
  let ?p2 = "?p1\<lparr>pPc := PCall False\<rparr>"
  obtain w where f: "fetchTask (pollingDone ?p2) 1 (FetchOk v (Some t)) (pWorker ?p2) = (w, Some t)"
    using assms(2) by (auto simp: fetchTask_def Let_def)
  let ?p3 = "spawn (?p2\<lparr>pWorker := w, pBeats := fetch_heartbeat (pollingDone ?p2) 0 (FetchOk v (Some t)) (pBeats ?p2)\<rparr>) t"
  have a: "quiet_step client ?p0 ?p1" using poll_step.acquire [of ?p0 client] assms(3) by (simp add: NewPoller_def)
  have b: "quiet_step client ?p1 ?p2" using poll_step.call [of ?p1 client] by (simp add: NewPoller_def pollingDone_def)
  have "poll_step client ?p2 ?p3" using poll_step.got_task [where s = ?p2 and d = False] assms(1) f by simp
  then have "quiet_step client ?p2 ?p3" by (simp add: spawn_def running_def)
  from quiet_cons [OF a quiet_cons [OF b quiet_cons [OF this rtranclp.rtrancl_refl]]] show ?thesis by (intro exI [of _ ?p3]) (simp add: spawn_def NewPoller_def)
qed

text \<open>A run that takes a task, is stopped, and returns.\<close>

lemma example_run_returns:
  assumes "run_setup example_run_world example_config example_deps example_secrets example_orphans = (Inr st, s', cl')"
  shows "\<exists>r. reach (\<lambda>r. r = run_start (stPoller st)) (runner_step example_interp example_client example_tasks (stHandler st)) r \<and> run_returned r \<and>
     example_task \<in> set (pDispatched (rnPoller r))"
proof -
  have c: "rcCapacity (cfRunner example_config) = 1" by (simp add: example_config_def Default_def Let_def)
  have p: "stPoller st = NewPoller 1 (rcEphemeral (cfRunner example_config)) (rwRequestKey example_run_world)" using run_setup_poller [OF assms] c by simp
  obtain q where q: "(quiet_step example_client)\<^sup>*\<^sup>* (stPoller st) q" "pDispatched q = [example_task]"
    unfolding p using hand_out [of example_client 1 example_task 1] by (auto simp: example_client_def example_task_def)
  from quiet_path [OF q(1), of "run_start (stPoller st)" example_interp example_tasks "stHandler st"]
  have r: "(runner_step example_interp example_client example_tasks (stHandler st))\<^sup>*\<^sup>* (run_start (stPoller st)) ((run_start (stPoller st))\<lparr>rnPoller := q\<rparr>)"
    by (simp add: run_start_def)
  have "accounted example_interp example_tasks (stHandler st) (run_start (stPoller st))"
    by (rule accounted_init [of 1]) (auto simp: runner_init_def p)
  from can_return [OF runner.path_inv [OF r this], of example_client]
  obtain r' where r': "(runner_step example_interp example_client example_tasks (stHandler st))\<^sup>*\<^sup>* ((run_start (stPoller st))\<lparr>rnPoller := q\<rparr>) r'" "run_returned r'"
    by (auto simp: example_client_def example_tasks_def)
  have "example_task \<in> set (pDispatched (rnPoller r'))" using dispatched_kept [OF r'(1)] q(2) by simp
  with r' show ?thesis
    using reach_trans [OF rtranclp_trans [OF r r'(1)] reach.reach_init [of "\<lambda>r. r = run_start (stPoller st)"]] by blast
qed

theorem tasks_accounted_witness:
  "\<exists>st s' cl' r. run_setup example_run_world example_config example_deps example_secrets example_orphans = (Inr st, s', cl') \<and>
     reach (\<lambda>r. r = run_start (stPoller st)) (runner_step example_interp example_client example_tasks (stHandler st)) r \<and>
     example_task \<in> fst ` set (rnReports r) \<and> rnActive r = 0"
proof -
  obtain st s' cl' where s: "run_setup example_run_world example_config example_deps example_secrets example_orphans = (Inr st, s', cl')"
    using example_started by blast
  obtain r where r: "reach (\<lambda>r. r = run_start (stPoller st)) (runner_step example_interp example_client example_tasks (stHandler st)) r" "run_returned r"
     "example_task \<in> set (pDispatched (rnPoller r))" using example_run_returns [OF s] by blast
  have c: "rcCapacity (cfRunner example_config) \<ge> 1" by (simp add: example_config_def Default_def Let_def)
  have "mset (map fst (rnReports r)) = mset (pDispatched (rnPoller r))" "rnActive r = 0" using tasks_accounted [OF s c r(1)] r(2) by auto
  moreover from this have "fst ` set (rnReports r) = set (pDispatched (rnPoller r))" by (metis list.set_map set_mset_mset)
  ultimately show ?thesis using s r by blast
qed

theorem run_can_finish_witness:
  "\<exists>st s' cl' r'. run_setup example_run_world example_config example_deps example_secrets example_orphans = (Inr st, s', cl') \<and>
     (runner_step example_interp (\<lambda>d reply. reply = FetchErr DeadlineExceeded) example_tasks (stHandler st))\<^sup>*\<^sup>* (run_start (stPoller st)) r' \<and> run_returned r'"
proof -
  obtain st s' cl' where r: "run_setup example_run_world example_config example_deps example_secrets example_orphans = (Inr st, s', cl')"
    using example_started by blast
  have w: "\<forall>t. \<exists>w. example_tasks t w" by (simp add: example_tasks_def)
  show ?thesis using run_can_finish [OF r _ w reach.reach_init, of "\<lambda>d reply. reply = FetchErr DeadlineExceeded" "run_start (stPoller st)" example_interp] r
    by auto
qed

theorem shutdown_terminates_witness:
  "\<exists>st s' cl' r r'. run_setup example_run_world example_config example_deps example_secrets example_orphans = (Inr st, s', cl') \<and>
     runner_step example_interp example_client example_tasks (stHandler st) r r' \<and> r' \<noteq> r \<and> remaining r' < remaining r"
proof -
  obtain st s' cl' where s: "run_setup example_run_world example_config example_deps example_secrets example_orphans = (Inr st, s', cl')"
    using example_started by blast
  let ?step = "runner_step example_interp example_client example_tasks (stHandler st)" and ?r0 = "run_start (stPoller st)"
  let ?p1 = "stPoller st\<lparr>pCtxDone := True\<rparr>" and ?p2 = "stPoller st\<lparr>pCtxDone := True, pPc := PStopped\<rparr>"
  have w: "\<forall>t. \<exists>w. example_tasks t w" by (simp add: example_tasks_def)
  have a: "quiet_step example_client (stPoller st) ?p1" using poll_step.ctx_cancel [of example_client "stPoller st"] by simp
  have b: "quiet_step example_client ?p1 ?p2"
    using poll_step.acquire_stop [of ?p1 example_client] run_setup_poller [OF s] by (simp add: NewPoller_def pollingDone_def)
  from quiet_path [OF quiet_cons [OF a quiet_cons [OF b rtranclp.rtrancl_refl]], of ?r0] have "?step\<^sup>*\<^sup>* ?r0 (?r0\<lparr>rnPoller := ?p2\<rparr>)" by (simp add: run_start_def)
  from reach_trans [OF this reach.reach_init] have r: "reach (\<lambda>r. r = ?r0) ?step (?r0\<lparr>rnPoller := ?p2\<rparr>)" by simp
  have "\<not> run_returned (?r0\<lparr>rnPoller := ?p2\<rparr>)" using run_setup_poller [OF s] by (simp add: run_returned_def NewPoller_def)
  with step_exists [OF runner.reach_inv [OF run_reach [OF s r]] _ _ w, of example_client]
  obtain r' where r': "?step (?r0\<lparr>rnPoller := ?p2\<rparr>) r'" "r' \<noteq> ?r0\<lparr>rnPoller := ?p2\<rparr>" by (auto simp: stopping_def)
  from shutdown_terminates [OF s w r _ _, of 1 r'] r' have "remaining r' < remaining (?r0\<lparr>rnPoller := ?p2\<rparr>)" by (auto simp: OO_def)
  with s r' show ?thesis by blast
qed

end
