(* ===== verification/Recovery.thy ===== *)
theory Recovery
  imports Runner Reporter_Close CacheProps
begin

text \<open>
  What survives a failure, across components: the report of a task that never became a job
  (\<^verbatim>\<open>reportFailure\<close> of \<^verbatim>\<open>src/cmd/controller/main.go\<close> on top of the reporter), the objects of a job whose controller
  died (the labels of the job builder and of the claims against the selectors of the start-up sweep), and the cache over a restart of its server.
\<close>

section \<open>Failures before there is a job\<close>

lemma close_loop_hd: "close_loop w k (Suc n) b e r = (r', reqs, ws, res) \<Longrightarrow> hd reqs = UpdateLog (rTaskID r) (rLogOffset r) (rLogRows r) True"
  by (auto simp: flushLogs_final Let_def split: sum.splits prod.splits option.splits if_splits)

text \<open>
  A task that cannot be prepared is reported as failed, with the reason: when the report was
  accepted, it says failure without any step, and its log is the one row with the message. The message is sent as it is: this reporter
  knows none of the task's secrets.
\<close>

theorem failure_report:
  assumes "reportFailure w now stop task message = (r, reqs, waits, close_result.Closed)"
  shows "hd reqs = UpdateLog (tkId task) 0 [\<lparr>rowTime = now, rowContent = message\<rparr>] True \<and>
    (\<exists>earlier st probe. reqs = earlier @ [UpdateTask st, UpdateTask probe] \<and>
       tsId st = tkId task \<and> tsResult st = RESULT_FAILURE \<and> tsSteps st = [])"
proof -
  let ?r = "Close_begin stop (AddLog now (New (tkId task) 0) message) RESULT_FAILURE"
  have ten: "(10 :: nat) = Suc 9" by simp
  have c: "close_loop w 0 (Suc 9) (100 * Millisecond) None ?r = (r, reqs, waits, close_result.Closed)"
    using assms unfolding reportFailure_def Close_def ten .
  have "hd reqs = UpdateLog (tkId task) 0 [\<lparr>rowTime = now, rowContent = message\<rparr>] True"
    unfolding close_loop_hd [OF c]
    by (simp add: Close_begin_def call_cancel_def AddLog_def New_def mask_def Let_def)
  moreover from close_loop_Closed [OF c] obtain q0 where "reqs = q0 @ [UpdateTask (rState ?r), readbackProbe ?r]" by blast
  moreover have "tsId (rState ?r) = tkId task" "tsResult (rState ?r) = RESULT_FAILURE" "tsSteps (rState ?r) = []"
    by (simp_all add: Close_begin_def call_cancel_def AddLog_def New_def steps_upd_def Let_def)
  ultimately show ?thesis by (auto simp: readbackProbe_def)
qed

section \<open>A controller that died\<close>

text \<open>The job controller of the cluster starts the pod of a job.\<close>

definition pod_started :: "string \<Rightarrow> KubeJob list \<Rightarrow> KubeJob list" where
  "pod_started name jobs = map (\<lambda>j. if kjName j = name then j\<lparr>kjActive := 1\<rparr> else j) jobs"

lemma pod_started_last: "name \<notin> kjName ` set js \<Longrightarrow> kjName j = name \<Longrightarrow> pod_started name (js @ [j]) = js @ [j\<lparr>kjActive := 1\<rparr>]"
  unfolding pod_started_def map_append by (rule arg_cong2 [where f = append], rule map_idI) (metis imageI, simp)

text \<open>
  C37: What the sweep of the next controller finds of what a dead one left: when a controller died after it created the job of a
  task, with or without a cache volume, and nothing else of drawbar was active, then once the cluster has started the job's pod the sweep at the next
  start puts jobs and claims back to what they were before the task. A job whose pod does not exist yet is passed over: the
  sweep changes nothing, and job and claim stay.
\<close>

theorem crash_recovered:
  assumes volume: "cache_volume cfg w cl task steps = Inr (cl1, pvc, key, paths)"
    and built: "BuildJob marshal rnd (job_config cfg task parsed steps metas pvc paths) = Inr job"
    and created: "api_create kjName True (clJobs cl1) (kube_job job) = Inr jobs"
    and names: "distinct (map kjName (clJobs cl))" "distinct (map pvName (clPVCs cl))"
    and idle: "\<forall>j \<in> set (clJobs cl). \<not> (selects managed (kjLabels j) \<and> kjActive j \<noteq> 0)"
      "\<forall>p \<in> set (clPVCs cl). \<not> claim_of (Itoa (tkId task)) p"
  shows "clJobs (cleanupOrphanedJobs True True (\<lambda>_. True) (cl1\<lparr>clJobs := pod_started (jbName job) jobs\<rparr>)) = clJobs cl \<and>
    clPVCs (cleanupOrphanedJobs True True (\<lambda>_. True) (cl1\<lparr>clJobs := pod_started (jbName job) jobs\<rparr>)) = clPVCs cl \<and>
    clJobs (cleanupOrphanedJobs True True (\<lambda>_. True) (cl1\<lparr>clJobs := jobs\<rparr>)) = jobs \<and>
    clPVCs (cleanupOrphanedJobs True True (\<lambda>_. True) (cl1\<lparr>clJobs := jobs\<rparr>)) = clPVCs cl1"
proof -
  let ?k = "(kube_job job)\<lparr>kjActive := 1\<rparr>" and ?id = "Itoa (tkId task)"
  have k: "selects managed (kjLabels ?k)" "kjActive ?k = 1" "map_get (kjLabels ?k) ''drawbar.dev/task-id'' = ?id"
    using built by (auto simp: BuildJob_def kube_job_def job_labels_def job_config_def selects_def map_get_def split: option.splits)
  have v: "clJobs cl1 = clJobs cl"
    "clPVCs cl1 = clPVCs cl \<or> (\<exists>p. task_claim task p \<and> pvName p \<notin> pvName ` set (clPVCs cl) \<and> clPVCs cl1 = clPVCs cl @ [p])"
    using cache_volume_claims [OF volume] by (auto simp: api_create_def split: if_splits)
  have jobs: "jobs = clJobs cl @ [kube_job job]" "distinct (map kjName jobs)" "jbName job \<notin> kjName ` set (clJobs cl)"
    using created names(1) by (auto simp: api_create_def v(1) kube_job_def split: if_splits)
  have started: "pod_started (jbName job) jobs = clJobs cl @ [?k]"
    unfolding jobs(1) by (rule pod_started_last [OF jobs(3)]) (simp add: kube_job_def)
  have claims: "distinct (map pvName (clPVCs cl1))" "filter (\<lambda>p. \<not> claim_of ?id p) (clPVCs cl1) = clPVCs cl"
    using v(2) names(2) idle(2) by (auto simp: task_claim_def claim_of_def snapshot_names filter_id_conv)
  have id: "?id \<noteq> []" by (simp add: Itoa_def dec_nat_nonempty)
  have "distinct (map kjName (clJobs cl @ [?k]))" using jobs(2) by (simp add: jobs(1) kube_job_def)
  moreover have f: "clJobs (cl1\<lparr>clJobs := js\<rparr>) = js" "clPVCs (cl1\<lparr>clJobs := js\<rparr>) = clPVCs cl1" for js by simp_all
  ultimately have sw: "clJobs (cleanupOrphanedJobs True True (\<lambda>_. True) (cl1\<lparr>clJobs := clJobs cl @ [?k]\<rparr>)) =
        filter (\<lambda>j. \<not> (selects managed (kjLabels j) \<and> kjActive j \<noteq> 0)) (clJobs cl @ [?k])"
    "clPVCs (cleanupOrphanedJobs True True (\<lambda>_. True) (cl1\<lparr>clJobs := clJobs cl @ [?k]\<rparr>)) =
        filter (\<lambda>p. \<not> (\<exists>j t. j \<in> set (clJobs cl @ [?k]) \<and> selects managed (kjLabels j) \<and> kjActive j \<noteq> 0 \<and>
          t = map_get (kjLabels j) ''drawbar.dev/task-id'' \<and> t \<noteq> [] \<and> claim_of t p)) (clPVCs cl1)"
    using sweep_exact [of "cl1\<lparr>clJobs := clJobs cl @ [?k]\<rparr>", OF _ _ refl] claims(1) unfolding f by blast+
  have only: "(\<exists>j t. j \<in> set (clJobs cl @ [?k]) \<and> selects managed (kjLabels j) \<and> kjActive j \<noteq> 0 \<and>
      t = map_get (kjLabels j) ''drawbar.dev/task-id'' \<and> t \<noteq> [] \<and> claim_of t p) \<longleftrightarrow> claim_of ?id p" for p
    using k id idle(1) by auto
  have "filter (\<lambda>j. \<not> (selects managed (kjLabels j) \<and> kjActive j \<noteq> 0)) (clJobs cl @ [?k]) = clJobs cl"
    using idle(1) k by (auto simp: filter_id_conv)
  moreover have "\<forall>j \<in> set jobs. \<not> (selects managed (kjLabels j) \<and> kjActive j \<noteq> 0)" using idle(1) by (auto simp: jobs(1) kube_job_def)
  moreover from this have "clJobs (cleanupOrphanedJobs True True (\<lambda>_. True) (cl1\<lparr>clJobs := jobs\<rparr>)) = jobs"
    "clPVCs (cleanupOrphanedJobs True True (\<lambda>_. True) (cl1\<lparr>clJobs := jobs\<rparr>)) = clPVCs cl1"
    using sweep_exact [of "cl1\<lparr>clJobs := jobs\<rparr>", OF _ _ refl] jobs(2) claims(1) unfolding f by (auto simp: filter_id_conv)
  ultimately show ?thesis using sw claims(2) unfolding only started by simp
qed

section \<open>The cache over a restart\<close>

lemma sweep_keeps_blob: "c \<in> set (dbRows (hDB (sweep h cs))) \<Longrightarrow> stBlobs (hStore (sweep h cs)) (cID c) = stBlobs (hStore h) (cID c)"
  unfolding sweep_def
proof (induction cs rule: rev_induct)
  case (snoc d cs)
  then show ?case by (auto simp: DeleteCache_def Remove_def)
qed simp

lemma restart_sweep_rows: "c \<in> set (dbRows (hDB (sweep h cs))) \<Longrightarrow> c \<in> set (dbRows (hDB h))"
  unfolding sweep_def by (induction cs rule: rev_induct) (auto simp: DeleteCache_def)

lemma gc_sweeps: "gcCache now h = h \<or> (\<exists>as bs cs ds. gcCache now h = sweep (sweep (sweep (sweep (h\<lparr>hGcAt := now\<rparr>) as) bs) cs) ds)"
  unfolding gcCache_def Let_def by (cases "now - hGcAt h < Hour") (simp_all, blast)

lemma gc_keeps_blob:
  assumes "c \<in> set (dbRows (hDB (gcCache now h)))"
  shows "stBlobs (hStore (gcCache now h)) (cID c) = stBlobs (hStore h) (cID c)"
  using gc_sweeps [of now h]
proof (elim disjE exE)
  fix as bs cs ds assume g: "gcCache now h = sweep (sweep (sweep (sweep (h\<lparr>hGcAt := now\<rparr>) as) bs) cs) ds"
  note r4 = assms [unfolded g]
  note r3 = restart_sweep_rows [OF r4] and r2 = restart_sweep_rows [OF restart_sweep_rows [OF r4]] and r1 = restart_sweep_rows [OF restart_sweep_rows [OF restart_sweep_rows [OF r4]]]
  show ?thesis unfolding g sweep_keeps_blob [OF r4] sweep_keeps_blob [OF r3] sweep_keeps_blob [OF r2] sweep_keeps_blob [OF r1] by simp
qed simp

text \<open>
  C25: A restart of the cache server loses nothing that a collection would keep: a server started on the directory of an earlier
  one, whatever requests that one served, has every complete entry that is fresh enough and has no newer duplicate, serves the same blob for it, and
  is again consistent.
\<close>

theorem cache_survives_restart:
  assumes "picks_newest pick" "h = run_calls (cache_do pick) (empty_cache d0 ip0 port0) cs"
    and "swOpenDB w (filepath_Join [dir, ''cache.db'']) = Some (hDB h)" "swBlobs w (filepath_Join [dir, ''cache'']) = hStore h"
    and "StartHandler w dir ip port = Inr h'" "dir \<noteq> []" "swNow w \<ge> 0"
    and "c \<in> set (dbRows (hDB h))" "cComplete c" "fresh_enough (swNow w) c"
    and "\<forall>d \<in> set (dbRows (hDB h)). cComplete d \<and> cKey d = cKey c \<and> cVersion d = cVersion c \<longrightarrow> cCreatedAt d \<le> cCreatedAt c"
  shows "c \<in> set (dbRows (hDB h')) \<and> Serve (hStore h') (cID c) = Serve (hStore h) (cID c) \<and> Serve (hStore h) (cID c) \<noteq> None \<and> cache_inv h'"
proof -
  have inv: "cache_inv h" unfolding assms(2) by (rule run_cache_inv [OF assms(1)])
  obtain a p where h': "h' = gcCache (swNow w) \<lparr>hDir = dir, hDB = hDB h, hStore = hStore h, hOutboundIP = a, hPort = p, hGcAt = zeroTime\<rparr>"
    using assms(3-6) by (auto simp: StartHandler_def NewStorage_def split: option.splits if_splits sum.splits)
  let ?h = "\<lparr>hDir = dir, hDB = hDB h, hStore = hStore h, hOutboundIP = a, hPort = p, hGcAt = zeroTime\<rparr>"
  have i: "cache_inv ?h" using inv by (simp add: cache_inv_consistent)
  have due: "swNow w - hGcAt ?h \<ge> Hour" using assms(7) by (simp add: zeroTime_def)
  have r: "c \<in> set (dbRows (hDB h'))" using gc_rows [OF i due, of c] assms(8-11) by (auto simp: h' not_less)
  moreover have "Serve (hStore h') (cID c) = Serve (hStore h) (cID c)" using gc_keeps_blob [of c "swNow w" ?h] r by (simp add: h' Serve_def)
  moreover have "row_ok (hStore h) c" using inv assms(8) by (simp add: cache_inv_def)
  ultimately show ?thesis using cache_inv_gc [OF i, of "swNow w"] assms(9) by (auto simp: h' row_ok_def Serve_def)
qed

section \<open>Witnesses\<close>

theorem failure_report_witness:
  "\<exists>r reqs waits. reportFailure (\<lambda>_. \<lparr>aLog = Inr 1 :: unit + int, aTask = Inr None, aWait = True\<rparr>) 3 4 example_task ''no'' = (r, reqs, waits, close_result.Closed) \<and>
     hd reqs = UpdateLog 7 0 [\<lparr>rowTime = 3, rowContent = ''no''\<rparr>] True"
proof -
  let ?w = "\<lambda>_ :: nat. \<lparr>aLog = Inr 1 :: unit + int, aTask = Inr None, aWait = True\<rparr>"
  obtain r reqs waits where e: "reportFailure ?w 3 4 example_task ''no'' = (r, reqs, waits, close_result.Closed)"
    using close_loop_result [of ?w 0 10 "100 * Millisecond" None "Close_begin 4 (AddLog 3 (New (tkId example_task) 0) ''no'') RESULT_FAILURE"]
    by (cases "reportFailure ?w 3 4 example_task ''no''") (fastforce simp: reportFailure_def Close_def attempt_ok_def)
  then show ?thesis using failure_report [OF e] by (auto simp: example_task_def)
qed

theorem crash_recovered_witness:
  "\<exists>job jobs. api_create kjName True (clJobs example_cluster) (kube_job job) = Inr jobs \<and> length jobs = 1 \<and>
     clJobs (cleanupOrphanedJobs True True (\<lambda>_. True) (example_cluster\<lparr>clPVCs := [example_claim], clJobs := pod_started (jbName job) jobs\<rparr>)) = [] \<and>
     clPVCs (cleanupOrphanedJobs True True (\<lambda>_. True) (example_cluster\<lparr>clPVCs := [example_claim], clJobs := pod_started (jbName job) jobs\<rparr>)) = []"
proof -
  obtain job where b: "BuildJob (\<lambda>_. Some ''{}'') (Some ''x'')
      (job_config example_handler example_task \<lparr>pjJobID = ''j'', pjJob = example_wf_job\<rparr> [example_spec] [] (claim_name example_task) [''target'']) = Inr job"
    by (simp add: BuildJob_def)
  have cl: "clJobs example_cluster = []" "clPVCs example_cluster = []" by (simp_all add: example_cluster_def)
  then have c: "api_create kjName True (clJobs (example_cluster\<lparr>clPVCs := [example_claim]\<rparr>)) (kube_job job) = Inr [kube_job job]"
    by (simp add: api_create_def)
  from crash_recovered [OF example_volume b c] cl c show ?thesis by (intro exI [of _ job] exI [of _ "[kube_job job]"]) simp
qed

theorem cache_survives_restart_witness:
  "\<exists>h'. StartHandler (example_machine\<lparr>swOpenDB := \<lambda>_. Some (hDB example_cache), swBlobs := \<lambda>_. hStore example_cache, swNow := 60 * Second\<rparr>) ''/d'' [] 80 = Inr h' \<and>
     Serve (hStore h') 1 \<noteq> None"
proof -
  let ?w = "example_machine\<lparr>swOpenDB := \<lambda>_. Some (hDB example_cache), swBlobs := \<lambda>_. hStore example_cache, swNow := 60 * Second\<rparr>"
  let ?c = "\<lparr>cID = 1, cKey = ''k'', cVersion = ''v'', cSize = 2, cComplete = True, cUsedAt = 6, cCreatedAt = 5\<rparr>"
  obtain h' where h': "StartHandler ?w ''/d'' [] 80 = Inr h'" by (simp add: StartHandler_def NewStorage_def example_machine_def)
  have f: "fresh_enough (swNow ?w) ?c" by (simp add: fresh_enough_def unix_def keepTemp_def keepUsed_def keepUnused_def)
  from cache_survives_restart [OF newest_picks example_cache_def _ _ h' _ _ _ _ f] h' show ?thesis by (auto simp: example_rows)
qed

end
