(* ===== verification/WatchRun.thy ===== *)
theory WatchRun
  imports Watcher_Props Systems
begin

text \<open>
  The watcher with its goroutines, from \<^verbatim>\<open>src/pkg/k8s/watcher.go\<close>: while \<^verbatim>\<open>watchJobWith\<close> waits for the
  runner container, one goroutine forwards the log of the runner and another the events of the state
  agent to the same reporter, whose daemon uploads at the same time. The steps of all of them
  interleave.
\<close>

section \<open>Configuration\<close>

text \<open>Executors and streamers are interfaces; \<open>'e\<close> and \<open>'s\<close> are their implementations.\<close>

record ('e, 's) WatchConfig =
  wcPollInterval :: int
  wcExecutor :: "'e option"
  wcStreamer :: "'s option"
  wcCommandProc :: "CommandProcessor option"
  wcLogErrorTerminationTimeout :: int

definition defaultLogErrorTerminationTimeout :: int where
  "defaultLogErrorTerminationTimeout = 30 * Second"

definition DefaultWatchConfig :: "('e, 's) WatchConfig" where
  "DefaultWatchConfig = \<lparr>wcPollInterval = 500 * Millisecond, wcExecutor = None, wcStreamer = None, wcCommandProc = None,
     wcLogErrorTerminationTimeout = defaultLogErrorTerminationTimeout\<rparr>"

definition watch_defaults :: "('e, 's) WatchConfig \<Rightarrow> ('e, 's) WatchConfig" where
  "watch_defaults cfg = cfg\<lparr>
     wcPollInterval := (if wcPollInterval cfg = 0 then 500 * Millisecond else wcPollInterval cfg),
     wcLogErrorTerminationTimeout := (if wcLogErrorTerminationTimeout cfg = 0 then defaultLogErrorTerminationTimeout
       else wcLogErrorTerminationTimeout cfg)\<rparr>"

text \<open>The parts \<^verbatim>\<open>WatchJob\<close> hands to \<^verbatim>\<open>watchJobWith\<close>, given the implementations over the Kubernetes client.\<close>

definition WatchJob_parts :: "'e \<Rightarrow> 's \<Rightarrow> ('e, 's) WatchConfig \<Rightarrow> 'e \<times> 's \<times> ('e, 's) WatchConfig" where
  "WatchJob_parts spdy k8sLogs cfg =
     (case wcExecutor cfg of None \<Rightarrow> spdy | Some e \<Rightarrow> e, case wcStreamer cfg of None \<Rightarrow> k8sLogs | Some s \<Rightarrow> s, watch_defaults cfg)"

text \<open>The configuration of a task: the one of the controller unless it has no interval, with a command processor.\<close>

definition task_watch_config :: "('e, 's) WatchConfig \<Rightarrow> bool \<Rightarrow> ('e, 's) WatchConfig" where
  "task_watch_config cfg debugEnabled =
     (if wcPollInterval cfg = 0 then DefaultWatchConfig else cfg)\<lparr>wcCommandProc := Some (NewCommandProcessor debugEnabled)\<rparr>"

section \<open>Steps\<close>

datatype watch_pc =
    WPod
  | WRunner
  | WLogs                                  \<comment> \<open>receiving from logDone\<close>
  | WTerminated
  | WDrain "watch_error option"            \<comment> \<open>stopAndDrain: receiving from stateDone\<close>
  | WReturned "Result \<times> watch_error option"

text \<open>
  \<open>wrLog\<close> and \<open>wrState\<close> are the lines the two streams have not delivered yet; a goroutine that
  does not run is done. \<open>wrBroken\<close> and \<open>wrFailed\<close> record that the log or the state
  stream broke off by itself.
\<close>

record watch_run =
  wrPc :: watch_pc
  wrRep :: Reporter
  wrProc :: "CommandProcessor option"
  wrLog :: "string list"
  wrLogDone :: bool
  wrBroken :: bool
  wrState :: "string list"
  wrStateDone :: bool
  wrCancelled :: bool
  wrFailed :: bool

text \<open>The rest of \<^verbatim>\<open>watchJobWith\<close> once the state stream has ended.\<close>

definition watch_verdict :: "job_world \<Rightarrow> watch_error option \<Rightarrow> Result \<times> watch_error option" where
  "watch_verdict w waited =
     (case waited of
        Some e \<Rightarrow> (RESULT_FAILURE, Some (WaitingAfterLog e))
      | None \<Rightarrow> (case getContainerResult (jwFinal w) of (res, None) \<Rightarrow> (res, None) | (_, Some e) \<Rightarrow> (RESULT_FAILURE, Some e)))"

text \<open>
  A log stream may break off in the middle of a line, whose beginning is forwarded; a state stream
  drops it. Reading the state stream ends when it is cancelled, which may be before its end.
\<close>

inductive watch_step :: "(string \<Rightarrow> StateEvent option) \<Rightarrow> job_world \<Rightarrow> watch_run \<Rightarrow> watch_run \<Rightarrow> bool" for decode w where
  pod_found: "wrPc s = WPod \<Longrightarrow> waitForPod (jwPods w) = Some (Inr p) \<Longrightarrow> watch_step decode w s (s\<lparr>wrPc := WRunner\<rparr>)"
| pod_error: "wrPc s = WPod \<Longrightarrow> waitForPod (jwPods w) = Some (Inl e) \<Longrightarrow>
    watch_step decode w s (s\<lparr>wrPc := WReturned (RESULT_FAILURE, Some (WaitingForPod e))\<rparr>)"
| started: "wrPc s = WRunner \<Longrightarrow> waitForContainerRunning (jwPrevious w) ''runner'' (jwRunning w) = Some (Inr ()) \<Longrightarrow>
    watch_step decode w s (s\<lparr>wrPc := WLogs, wrLogDone := False, wrStateDone := False\<rparr>)"
| start_error: "wrPc s = WRunner \<Longrightarrow> waitForContainerRunning (jwPrevious w) ''runner'' (jwRunning w) = Some (Inl e) \<Longrightarrow>
    watch_step decode w s (s\<lparr>wrPc := WReturned (RESULT_FAILURE, Some (WaitingForRunner e))\<rparr>)"
| log_reads: "\<not> wrLogDone s \<Longrightarrow> wrLog s = l # ls \<Longrightarrow> log_line now (wrProc s, wrRep s) l = (proc, rep) \<Longrightarrow>
    watch_step decode w s (s\<lparr>wrLog := ls, wrProc := proc, wrRep := rep\<rparr>)"
| log_eof: "\<not> wrLogDone s \<Longrightarrow> wrLog s = [] \<Longrightarrow> watch_step decode w s (s\<lparr>wrLogDone := True\<rparr>)"
| log_breaks: "\<not> wrLogDone s \<Longrightarrow> wrLog s = l # ls \<Longrightarrow> strict_prefix p l \<Longrightarrow>
    (if p = [] then (wrProc s, wrRep s) else log_line now (wrProc s, wrRep s) p) = (proc, rep) \<Longrightarrow>
    watch_step decode w s (s\<lparr>wrProc := proc, wrRep := rep, wrLogDone := True, wrBroken := True\<rparr>)"
| state_reads: "\<not> wrStateDone s \<Longrightarrow> wrState s = l # ls \<Longrightarrow>
    watch_step decode w s (s\<lparr>wrState := ls, wrRep := state_line decode now l (wrRep s)\<rparr>)"
| state_eof: "\<not> wrStateDone s \<Longrightarrow> wrState s = [] \<Longrightarrow> watch_step decode w s (s\<lparr>wrStateDone := True\<rparr>)"
| state_cancelled: "\<not> wrStateDone s \<Longrightarrow> wrCancelled s \<Longrightarrow> watch_step decode w s (s\<lparr>wrStateDone := True\<rparr>)"
| state_breaks: "\<not> wrStateDone s \<Longrightarrow> watch_step decode w s (s\<lparr>wrStateDone := True, wrFailed := True\<rparr>)"
| uploads: "c = CRunDaemon \<or> c = CAck k \<Longrightarrow> watch_step decode w s (s\<lparr>wrRep := rep_do (wrRep s) c\<rparr>)"
| logs_done: "wrPc s = WLogs \<Longrightarrow> wrLogDone s \<Longrightarrow> watch_step decode w s (s\<lparr>wrPc := WTerminated\<rparr>)"
| terminated: "wrPc s = WTerminated \<Longrightarrow> waitForContainerTerminated ''runner'' (jwTerminated w) = Some (Inr ()) \<Longrightarrow>
    watch_step decode w s (s\<lparr>wrPc := WDrain None, wrCancelled := True\<rparr>)"
| not_terminated: "wrPc s = WTerminated \<Longrightarrow> waitForContainerTerminated ''runner'' (jwTerminated w) = Some (Inl e) \<Longrightarrow>
    watch_step decode w s (s\<lparr>wrPc := WDrain (Some e), wrCancelled := True\<rparr>)"
| drained: "wrPc s = WDrain waited \<Longrightarrow> wrStateDone s \<Longrightarrow>
    watch_step decode w s (s\<lparr>wrPc := WReturned (watch_verdict w waited)\<rparr>)"

definition watch_init :: "Reporter \<Rightarrow> CommandProcessor option \<Rightarrow> string list \<Rightarrow> string list \<Rightarrow> watch_run \<Rightarrow> bool" where
  "watch_init rep proc logs events s \<longleftrightarrow>
     s = \<lparr>wrPc = WPod, wrRep = rep, wrProc = proc, wrLog = logs, wrLogDone = True, wrBroken = False, wrState = events, wrStateDone = True,
          wrCancelled = False, wrFailed = False\<rparr>"

inductive_cases watch_stepE: "watch_step decode w s t"

section \<open>What the watcher returns\<close>

text \<open>Where the watcher stands determines which waits have ended, and which goroutines.\<close>

fun watch_at :: "job_world \<Rightarrow> watch_run \<Rightarrow> watch_pc \<Rightarrow> bool" where
  "watch_at w s WPod \<longleftrightarrow> \<not> wrBroken s \<and> wrLogDone s \<and> wrStateDone s \<and> \<not> wrCancelled s"
| "watch_at w s WRunner \<longleftrightarrow> \<not> wrBroken s \<and> wrLogDone s \<and> wrStateDone s \<and> \<not> wrCancelled s \<and> (\<exists>p. waitForPod (jwPods w) = Some (Inr p))"
| "watch_at w s WLogs \<longleftrightarrow> \<not> wrCancelled s \<and> (wrLogDone s \<longrightarrow> wrBroken s \<or> wrLog s = []) \<and> (\<exists>p. waitForPod (jwPods w) = Some (Inr p)) \<and>
     waitForContainerRunning (jwPrevious w) ''runner'' (jwRunning w) = Some (Inr ())"
| "watch_at w s WTerminated \<longleftrightarrow> wrLogDone s \<and> \<not> wrCancelled s \<and> (wrBroken s \<or> wrLog s = []) \<and> (\<exists>p. waitForPod (jwPods w) = Some (Inr p)) \<and>
     waitForContainerRunning (jwPrevious w) ''runner'' (jwRunning w) = Some (Inr ())"
| "watch_at w s (WDrain waited) \<longleftrightarrow> wrLogDone s \<and> wrCancelled s \<and> (wrBroken s \<or> wrLog s = []) \<and> watchJobWith w = Some (watch_verdict w waited)"
| "watch_at w s (WReturned r) \<longleftrightarrow> wrLogDone s \<and> wrStateDone s \<and> (wrCancelled s \<longrightarrow> wrBroken s \<or> wrLog s = []) \<and> watchJobWith w = Some r"

definition watch_inv :: "job_world \<Rightarrow> watch_run \<Rightarrow> bool" where
  "watch_inv w s \<longleftrightarrow> watch_at w s (wrPc s)"

lemma watch_inv_step: "watch_inv w s \<Longrightarrow> watch_step decode w s t \<Longrightarrow> watch_inv w t"
  by (erule watch_stepE; cases "wrPc s") (auto simp: watch_inv_def watchJobWith_def watch_verdict_def split: prod.splits option.splits)

interpretation watching: invariant_system "watch_init rep proc logs events" "watch_step decode w" "watch_inv w"
  for rep proc logs events decode w
  by unfold_locales (simp add: watch_init_def watch_inv_def, rule watch_inv_step)

section \<open>What arrives at the reporter\<close>

text \<open>The command processor over the lines of a log, without the reporter: the lines that are forwarded.\<close>

definition line_out :: "CommandProcessor option \<Rightarrow> string \<Rightarrow> CommandProcessor option \<times> string list" where
  "line_out proc line =
     (let l = TrimRight line [NL, CR] in
      case proc of
        None \<Rightarrow> (None, [l])
      | Some p \<Rightarrow> (case ProcessLine p (New 0 0) l of (p', _, out) \<Rightarrow> (Some p', case out of None \<Rightarrow> [] | Some t \<Rightarrow> [t])))"

fun lines_out :: "CommandProcessor option \<Rightarrow> string list \<Rightarrow> CommandProcessor option \<times> string list" where
  "lines_out proc [] = (proc, [])"
| "lines_out proc (l # ls) =
     (case line_out proc l of (proc1, o1) \<Rightarrow> (case lines_out proc1 ls of (proc2, o2) \<Rightarrow> (proc2, o1 @ o2)))"

lemma lines_out_append:
  "lines_out proc (xs @ ys) =
     (case lines_out proc xs of (proc1, o1) \<Rightarrow> (case lines_out proc1 ys of (proc2, o2) \<Rightarrow> (proc2, o1 @ o2)))"
  by (induction xs arbitrary: proc) (auto split: prod.splits)

fun log_text :: "rep_call \<Rightarrow> string list" where
  "log_text (CAddLog now l) = [l]"
| "log_text _ = []"

definition log_texts :: "rep_call list \<Rightarrow> string list" where "log_texts cs = concat (map log_text cs)"

lemma log_texts_append [simp]: "log_texts (xs @ ys) = log_texts xs @ log_texts ys"
  by (simp add: log_texts_def)

lemma ProcessLine_parts:
  "fst (ProcessLine p r l) = fst (ProcessLine p r' l) \<and> snd (snd (ProcessLine p r l)) = snd (snd (ProcessLine p r' l))"
  by (simp add: ProcessLine_def Let_def split: option.split)

lemma log_line_calls:
  assumes "log_line now (proc, rep) line = (proc', rep')"
  shows "proc' = fst (line_out proc line) \<and>
    (\<exists>cs. rep' = run_calls rep_do rep cs \<and> filter is_step_call cs = [] \<and> log_texts cs = snd (line_out proc line))"
proof -
  let ?l = "TrimRight line [NL, CR]"
  have same: "\<exists>r1. ProcessLine p rep l = (p', r1, out) \<and> (r1 = rep \<or> (\<exists>v. r1 = AddMask rep v \<and> out = None))"
    if "ProcessLine p (New 0 0) l = (p', r0, out)" for p l p' r0 out
    using that ProcessLine_parts [of p rep l "New 0 0"] ProcessLine_masker [of p rep l]
    by (cases "ProcessLine p rep l") auto
  have one: "\<exists>cs. AddLog now rep t = run_calls rep_do rep cs \<and> filter is_step_call cs = [] \<and> log_texts cs = [t]" for t
    by (intro exI [of _ "[CAddLog now t]"]) (simp add: log_texts_def)
  have none: "\<exists>cs. rep = run_calls rep_do rep cs \<and> filter is_step_call cs = [] \<and> log_texts cs = []"
    by (intro exI [of _ "[]"]) (simp add: log_texts_def)
  have mask: "\<exists>cs. AddMask rep v = run_calls rep_do rep cs \<and> filter is_step_call cs = [] \<and> log_texts cs = []" for v
    by (intro exI [of _ "[CAddMask v]"]) (simp add: log_texts_def)
  show ?thesis
  proof (cases proc)
    case None
    with assms one show ?thesis by (auto simp: log_line_def line_out_def Let_def)
  next
    case (Some p)
    obtain p' r0 out where p: "ProcessLine p (New 0 0) ?l = (p', r0, out)" by (cases "ProcessLine p (New 0 0) ?l")
    from same [OF this] assms Some p one none mask show ?thesis
      by (auto simp: log_line_def line_out_def Let_def split: option.splits)
  qed
qed

lemma state_line_calls:
  assumes "decode (encode e) = Some e" "encode e \<noteq> []" "NL \<notin> set (encode e)" "CR \<notin> set (encode e)"
  shows "state_line decode now (encode e @ [NL]) rep = run_calls rep_do rep (route_calls now e)"
proof -
  have "TrimRight (encode e @ [NL]) [NL, CR] = encode e"
    using assms(2-4) by (cases "encode e" rule: rev_cases) (auto simp: TrimRight_def)
  then show ?thesis using assms by (simp add: state_line_def routeStateEvent_calls)
qed

text \<open>
  In every state the reporter has received the first lines of the log and the first events of the
  state stream, each in order, and whatever its daemon did.
\<close>

definition state_lines :: "(StateEvent \<Rightarrow> string) \<Rightarrow> StateEvent list \<Rightarrow> string list" where
  "state_lines encode evs = map (\<lambda>e. encode e @ [NL]) evs"

definition codec_ok :: "(string \<Rightarrow> StateEvent option) \<Rightarrow> (StateEvent \<Rightarrow> string) \<Rightarrow> StateEvent list \<Rightarrow> bool" where
  "codec_ok decode encode evs \<longleftrightarrow>
     (\<forall>e \<in> set evs. decode (encode e) = Some e \<and> encode e \<noteq> [] \<and> NL \<notin> set (encode e) \<and> CR \<notin> set (encode e))"

definition delivered ::
  "(StateEvent \<Rightarrow> string) \<Rightarrow> Reporter \<Rightarrow> CommandProcessor option \<Rightarrow> string list \<Rightarrow> StateEvent list \<Rightarrow> watch_run \<Rightarrow> rep_call list \<Rightarrow> nat \<Rightarrow> nat \<Rightarrow> bool" where
  "delivered encode rep proc logs evs s cs j k \<longleftrightarrow>
     wrRep s = run_calls rep_do rep cs \<and>
     j \<le> length logs \<and> wrLog s = drop j logs \<and> prefix (snd (lines_out proc (take j logs))) (log_texts cs) \<and>
     (\<not> wrBroken s \<longrightarrow> (wrProc s, log_texts cs) = lines_out proc (take j logs)) \<and> (wrBroken s \<longrightarrow> wrLogDone s) \<and>
     k \<le> length evs \<and> wrState s = state_lines encode (drop k evs) \<and>
     (\<exists>clocks. length clocks = k \<and> filter is_step_call cs = concat (map2 route_calls clocks (take k evs)))"

lemma drop_ConsD: "drop j xs = y # ys \<Longrightarrow> j < length xs \<and> xs ! j = y \<and> ys = drop (Suc j) xs"
  by (metis Cons_nth_drop_Suc drop_all leI list.distinct(1) list.inject)

lemma delivered_log:
  assumes d: "delivered encode rep proc logs evs s cs j k" and l: "\<not> wrLogDone s" "wrLog s = l # ls"
    and line: "log_line now (wrProc s, wrRep s) l = (proc', rep')"
  shows "\<exists>cs. delivered encode rep proc logs evs (s\<lparr>wrLog := ls, wrProc := proc', wrRep := rep'\<rparr>) cs (Suc j) k"
proof -
  from log_line_calls [OF line] obtain ds where ds: "proc' = fst (line_out (wrProc s) l)"
    "rep' = run_calls rep_do (wrRep s) ds" "filter is_step_call ds = []" "log_texts ds = snd (line_out (wrProc s) l)" by blast
  have j: "j < length logs" "logs ! j = l" "ls = drop (Suc j) logs"
    using d l(2) drop_ConsD [of j logs l ls] by (auto simp: delivered_def)
  have b: "\<not> wrBroken s" "(wrProc s, log_texts cs) = lines_out proc (take j logs)" using d l(1) by (auto simp: delivered_def)
  then have "lines_out proc (take (Suc j) logs) = (proc', log_texts (cs @ ds))"
    using j ds by (cases "line_out (wrProc s) l") (simp add: take_Suc_conv_app_nth lines_out_append flip: b(2))
  with d ds b j show ?thesis by (intro exI [of _ "cs @ ds"]) (auto simp: delivered_def run_calls_append)
qed

lemma delivered_break:
  assumes d: "delivered encode rep proc logs evs s cs j k" and l: "\<not> wrLogDone s"
    and line: "(if p = [] then (wrProc s, wrRep s) else log_line now (wrProc s, wrRep s) p) = (proc', rep')"
  shows "\<exists>cs. delivered encode rep proc logs evs (s\<lparr>wrProc := proc', wrRep := rep', wrLogDone := True, wrBroken := True\<rparr>) cs j k"
proof (cases "p = []")
  case True
  with d line show ?thesis by (intro exI [of _ cs]) (auto simp: delivered_def)
next
  case False
  with line log_line_calls [of now "wrProc s" "wrRep s" p proc' rep'] obtain ds where
    "rep' = run_calls rep_do (wrRep s) ds" "filter is_step_call ds = []" by auto
  with d show ?thesis by (intro exI [of _ "cs @ ds"]) (auto simp: delivered_def run_calls_append)
qed

lemma delivered_state:
  assumes d: "delivered encode rep proc logs evs s cs j k" and c: "codec_ok decode encode evs" and l: "wrState s = l # ls"
  shows "\<exists>cs. delivered encode rep proc logs evs (s\<lparr>wrState := ls, wrRep := state_line decode now l (wrRep s)\<rparr>) cs j (Suc k)"
proof -
  obtain e where e: "k < length evs" "evs ! k = e" "l = encode e @ [NL]" "ls = state_lines encode (drop (Suc k) evs)"
    using d l by (cases "drop k evs") (auto simp: delivered_def state_lines_def dest!: drop_ConsD)
  then have "e \<in> set evs" by auto
  with c have "state_line decode now l (wrRep s) = run_calls rep_do (wrRep s) (route_calls now e)"
    unfolding e(3) by (intro state_line_calls) (auto simp: codec_ok_def)
  moreover obtain clocks where k: "length clocks = k" "filter is_step_call cs = concat (map2 route_calls clocks (take k evs))"
    using d by (auto simp: delivered_def)
  moreover have "filter is_step_call (route_calls now e) = route_calls now e" "log_texts (route_calls now e) = []"
    by (auto simp: route_calls_def log_texts_def)
  moreover have "concat (map2 route_calls (clocks @ [now]) (take (Suc k) evs)) = concat (map2 route_calls clocks (take k evs)) @ route_calls now e"
    using e k(1) by (simp add: take_Suc_conv_app_nth)
  ultimately show ?thesis using d e
    by (intro exI [of _ "cs @ route_calls now e"]) (auto simp: delivered_def run_calls_append intro!: exI [of _ "clocks @ [now]"])
qed

definition arrived ::
  "(StateEvent \<Rightarrow> string) \<Rightarrow> Reporter \<Rightarrow> CommandProcessor option \<Rightarrow> string list \<Rightarrow> StateEvent list \<Rightarrow> watch_run \<Rightarrow> bool" where
  "arrived encode rep proc logs evs s \<longleftrightarrow> (\<exists>cs j k. delivered encode rep proc logs evs s cs j k)"

lemma delivered_upload:
  assumes "delivered encode rep proc logs evs s cs j k" "c = CRunDaemon \<or> c = CAck n"
  shows "delivered encode rep proc logs evs (s\<lparr>wrRep := rep_do (wrRep s) c\<rparr>) (cs @ [c]) j k"
proof -
  have "log_texts [c] = []" "\<not> is_step_call c" using assms(2) by (auto simp: log_texts_def)
  with assms(1) show ?thesis by (simp add: delivered_def run_calls_append)
qed

lemma arrived_step:
  assumes "arrived encode rep proc logs evs s" "watch_step decode w s t" "codec_ok decode encode evs" "watch_inv w s"
  shows "arrived encode rep proc logs evs t"
proof -
  obtain cs j k where d: "delivered encode rep proc logs evs s cs j k" using assms(1) by (auto simp: arrived_def)
  have nb: "\<not> wrBroken s" if "wrPc s = WRunner" using that assms(4) by (simp add: watch_inv_def)
  show ?thesis using assms(2)
  proof cases
    case (log_reads l ls now proc' rep')
    then show ?thesis using delivered_log [OF d log_reads(2-4)] unfolding arrived_def by blast
  next
    case (log_breaks l ls p now proc' rep')
    then show ?thesis using delivered_break [OF d, of p now proc' rep'] by (auto simp: arrived_def)
  next
    case (state_reads l ls now)
    then show ?thesis using delivered_state [OF d assms(3), of l ls now] by (auto simp: arrived_def)
  next
    case (uploads c n)
    then show ?thesis using delivered_upload [OF d, of c n] by (auto simp: arrived_def)
  qed (use d nb in \<open>auto simp: arrived_def delivered_def\<close>)
qed

interpretation arriving: invariant_system "watch_init rep proc logs (state_lines encode evs)" "watch_step decode w"
  "\<lambda>s. watch_inv w s \<and> (codec_ok decode encode evs \<longrightarrow> arrived encode rep proc logs evs s)"
  for rep proc logs encode evs decode w
proof
  fix s
  assume i: "watch_init rep proc logs (state_lines encode evs) s"
  then have "delivered encode rep proc logs evs s [] 0 0"
    by (simp add: watch_init_def delivered_def log_texts_def)
  with i show "watch_inv w s \<and> (codec_ok decode encode evs \<longrightarrow> arrived encode rep proc logs evs s)"
    by (auto simp: arrived_def watch_init_def watch_inv_def)
qed (auto intro: watch_inv_step arrived_step)

section \<open>From the entrypoint to the report, under every interleaving\<close>

text \<open>An initial part of the events of a run: whole steps, and at most the start of one more.\<close>

lemma trace_take:
  "trace_next i evs = Some n \<Longrightarrow> \<exists>dn rest m. take j evs = dn @ rest \<and> trace_next i dn = Some m \<and>
     (rest = [] \<or> (\<exists>e. rest = [e] \<and> evEvent e = ''start''))"
proof (induction i evs arbitrary: j rule: trace_next.induct)
  case (2 i e es)
  then have i: "evStep e = int i" by (auto split: if_splits)
  show ?case
  proof (cases j)
    case 0
    then show ?thesis by (intro exI [of _ "[]"]) simp
  next
    case (Suc j')
    show ?thesis
    proof (cases "evEvent e = ''skip''")
      case True
      with 2(3) i have "trace_next (Suc i) es = Some n" by simp
      from 2(1) [OF _ True this, of j'] i obtain dn rest m where "take j' es = dn @ rest" "trace_next (Suc i) dn = Some m"
        "rest = [] \<or> (\<exists>e. rest = [e] \<and> evEvent e = ''start'')" by auto
      with True Suc i show ?thesis by (intro exI [of _ "e # dn"] exI [of _ rest] exI [of _ m]) simp
    next
      case False
      with 2(3) i obtain e' es' where es: "es = e' # es'" "evEvent e = ''start''" "evEvent e' = ''end''"
        "evStep e' = int i" "trace_next (Suc i) es' = Some n" by (auto split: if_splits list.splits)
      show ?thesis
      proof (cases j')
        case 0
        with Suc es show ?thesis by (intro exI [of _ "[]"] exI [of _ "[e]"]) simp
      next
        case (Suc j'')
        from 2(2) [OF _ False es(2,1) _ es(5), of j''] i es obtain dn rest m where "take j'' es' = dn @ rest"
          "trace_next (Suc i) dn = Some m" "rest = [] \<or> (\<exists>e. rest = [e] \<and> evEvent e = ''start'')" by auto
        with False Suc \<open>j = Suc j'\<close> i es show ?thesis by (intro exI [of _ "e # e' # dn"] exI [of _ rest] exI [of _ m]) simp
      qed
    qed
  qed
qed simp

lemma prefix_results:
  assumes "runEntrypoint interp environ workDir world stateOk (Some m) = (evs, res, ok)" "i < length rs"
  shows "foldl result_event rs (take k evs) ! i = (case outcome (take k evs) i of None \<Rightarrow> rs ! i | Some r \<Rightarrow> r)"
proof -
  obtain dn rest n where t: "evs = dn @ rest" "trace_next 0 dn = Some n" "rest = [] \<or> (\<exists>e. rest = [e] \<and> evEvent e = ''start'')"
    using entrypoint_shape [OF assms(1)] by (auto simp: start_event_def)
  obtain dn' rest' n' where p: "take k evs = dn' @ rest'" "trace_next 0 dn' = Some n'"
    "rest' = [] \<or> (\<exists>e. rest' = [e] \<and> evEvent e = ''start'')"
  proof (cases "k \<le> length dn")
    case True
    with that trace_take [OF t(2), of k] t(1) show thesis by auto
  next
    case False
    with t(1,3) have "take k evs = dn @ rest" by (auto simp: take_Cons')
    with that t show thesis by blast
  qed
  have "outcome (take k evs) i = outcome dn' i" "foldl result_event rs (take k evs) = foldl result_event rs dn'"
    using p(1,3) by (auto simp: outcome_snoc_start result_event_start)
  with trace_results [OF p(2) assms(2)] show ?thesis by simp
qed

lemma closed_result:
  "i < length (results r) \<Longrightarrow> job \<noteq> RESULT_SKIPPED \<Longrightarrow>
     ssResult (tsSteps (rState (Close_begin now r job)) ! i) =
       (if results r ! i = RESULT_UNSPECIFIED then RESULT_CANCELLED else results r ! i)"
  by (simp add: Close_begin_def call_cancel_def Let_def close_step_def results_def)

text \<open>
  C2: A watched job, under every interleaving of the log reader, the event reader, the daemon of the
  reporter and the watcher: when the watcher returns, it returns what its waits decide, and both readers
  have ended. The report that closes the task then shows for every step the outcome recorded in the
  events that arrived, and cancelled otherwise; if all arrived, a successful run has no step
  shown as cancelled. Unless the log stream broke off, the rows logged are exactly the lines of the
  log that the command processor lets pass, in their order.
\<close>

theorem watched_job_reported:
  assumes run: "runEntrypoint interp environ workDir world stateOk (Some m) = (evs, res, ok)"
    and codec: "codec_ok decode encode evs"
    and rep: "rep = SetSecrets (New taskID (length (mfSteps m))) secrets"
    and reach: "reach (watch_init rep proc logs (state_lines encode evs)) (watch_step decode w) s"
    and ret: "wrPc s = WReturned r" and i: "i < length (mfSteps m)" and job: "job \<noteq> RESULT_SKIPPED"
  shows "watchJobWith w = Some r \<and> wrLogDone s \<and> wrStateDone s \<and>
    (\<exists>k \<le> length evs. wrState s = state_lines encode (drop k evs) \<and>
       ssResult (tsSteps (rState (Close_begin now (wrRep s) job)) ! i) =
         (case outcome (take k evs) i of Some r \<Rightarrow> r | None \<Rightarrow> RESULT_CANCELLED) \<and>
       (wrState s = [] \<and> ok \<longrightarrow> ssResult (tsSteps (rState (Close_begin now (wrRep s) job)) ! i) \<noteq> RESULT_CANCELLED)) \<and>
    (wrCancelled s \<and> \<not> wrBroken s \<longrightarrow>
       (\<exists>cs. wrRep s = run_calls rep_do rep cs \<and> log_texts cs = snd (lines_out proc logs)))"
proof -
  let ?n = "length (mfSteps m)"
  from arriving.reach_inv [OF reach] codec obtain cs j k where inv: "watch_inv w s" and
    d: "delivered encode rep proc logs evs s cs j k" by (auto simp: arrived_def)
  from d obtain clocks where k: "k \<le> length evs" "wrState s = state_lines encode (drop k evs)" "length clocks = length (take k evs)"
    "filter is_step_call cs = concat (map2 route_calls clocks (take k evs))" and c: "wrRep s = run_calls rep_do rep cs"
    by (auto simp: delivered_def)
  have "results rep = replicate ?n RESULT_UNSPECIFIED"
    by (simp add: rep results_def SetSecrets_def New_def comp_def map_replicate_const)
  then have r: "results (wrRep s) = foldl result_event (replicate ?n RESULT_UNSPECIFIED) (take k evs)"
    using k(3,4) by (simp add: c results_run results_routed del: length_take)
  then have out: "ssResult (tsSteps (rState (Close_begin now (wrRep s) job)) ! i) =
      (case outcome (take k evs) i of Some r \<Rightarrow> r | None \<Rightarrow> RESULT_CANCELLED)"
    using closed_result [of i "wrRep s" job now] job i prefix_results [OF run, of i "replicate ?n RESULT_UNSPECIFIED" k]
    by (auto simp: outcome_def split: option.splits if_splits)
  have ok: "outcome evs i \<noteq> None \<and> outcome evs i \<noteq> Some RESULT_CANCELLED" if ok
    using that entrypoint_shape [OF run] i outcome_complete [of 0 evs ?n i] by (auto simp: outcome_def)
  have all: "take k evs = evs" if "wrState s = []" using that k(1,2) by (simp add: state_lines_def)
  have logs: "log_texts cs = snd (lines_out proc logs)" if "wrCancelled s" "\<not> wrBroken s"
  proof -
    have "drop j logs = []" "(wrProc s, log_texts cs) = lines_out proc (take j logs)"
      using inv ret d that by (auto simp: watch_inv_def delivered_def)
    then show ?thesis by (cases "lines_out proc logs") simp
  qed
  show ?thesis
  proof (intro conjI impI)
    show "watchJobWith w = Some r" "wrLogDone s" "wrStateDone s" using inv ret by (simp_all add: watch_inv_def)
    have "ssResult (tsSteps (rState (Close_begin now (wrRep s) job)) ! i) \<noteq> RESULT_CANCELLED" if "wrState s = [] \<and> ok"
      unfolding out using that ok all by (cases "outcome evs i") auto
    with out k(1,2) show "\<exists>k \<le> length evs. wrState s = state_lines encode (drop k evs) \<and>
       ssResult (tsSteps (rState (Close_begin now (wrRep s) job)) ! i) =
         (case outcome (take k evs) i of Some r \<Rightarrow> r | None \<Rightarrow> RESULT_CANCELLED) \<and>
       (wrState s = [] \<and> ok \<longrightarrow> ssResult (tsSteps (rState (Close_begin now (wrRep s) job)) ! i) \<noteq> RESULT_CANCELLED)" by blast
    show "\<exists>cs. wrRep s = run_calls rep_do rep cs \<and> log_texts cs = snd (lines_out proc logs)" if "wrCancelled s \<and> \<not> wrBroken s"
      using logs c that by blast
  qed
qed

section \<open>Returning\<close>

text \<open>The goroutines can always be brought to their end: no step waits for one that cannot come.\<close>

lemma log_can_end: "\<not> wrLogDone s \<Longrightarrow> \<exists>t. (watch_step decode w)\<^sup>*\<^sup>* s t \<and> wrLogDone t \<and> wrPc t = wrPc s \<and> wrStateDone t = wrStateDone s \<and>
    wrCancelled t = wrCancelled s"
proof (induction "length (wrLog s)" arbitrary: s)
  case 0
  then have "watch_step decode w s (s\<lparr>wrLogDone := True\<rparr>)" by (intro log_eof) auto
  then show ?case by (intro exI [of _ "s\<lparr>wrLogDone := True\<rparr>"]) auto
next
  case (Suc n)
  then obtain l ls where l: "wrLog s = l # ls" by (cases "wrLog s") auto
  obtain proc rep where "log_line 0 (wrProc s, wrRep s) l = (proc, rep)" by fastforce
  from log_reads [OF Suc.prems l this, of decode w] have "watch_step decode w s (s\<lparr>wrLog := ls, wrProc := proc, wrRep := rep\<rparr>)" .
  with Suc.hyps(1) [of "s\<lparr>wrLog := ls, wrProc := proc, wrRep := rep\<rparr>"] Suc.hyps(2) Suc.prems l show ?case
    by (auto intro: converse_rtranclp_into_rtranclp)
qed

lemma state_can_end: "\<not> wrStateDone s \<Longrightarrow> \<exists>t. (watch_step decode w)\<^sup>*\<^sup>* s t \<and> wrStateDone t \<and> wrState t = [] \<and> wrPc t = wrPc s \<and> wrLogDone t = wrLogDone s"
proof (induction "length (wrState s)" arbitrary: s)
  case 0
  then have "watch_step decode w s (s\<lparr>wrStateDone := True\<rparr>)" by (intro state_eof) auto
  with 0 show ?case by (intro exI [of _ "s\<lparr>wrStateDone := True\<rparr>"]) auto
next
  case (Suc n)
  then obtain l ls where l: "wrState s = l # ls" by (cases "wrState s") auto
  from state_reads [OF Suc.prems l, of decode w 0]
  have "watch_step decode w s (s\<lparr>wrState := ls, wrRep := state_line decode 0 l (wrRep s)\<rparr>)" .
  with Suc.hyps(1) [of "s\<lparr>wrState := ls, wrRep := state_line decode 0 l (wrRep s)\<rparr>"] Suc.hyps(2) Suc.prems l show ?case
    by (auto intro: converse_rtranclp_into_rtranclp)
qed

lemma returns_from_drain: "watch_inv w s \<Longrightarrow> wrPc s = WDrain waited \<Longrightarrow> watchJobWith w = Some r \<Longrightarrow>
    \<exists>t. (watch_step decode w)\<^sup>*\<^sup>* s t \<and> wrPc t = WReturned r"
proof -
  assume a: "watch_inv w s" "wrPc s = WDrain waited" "watchJobWith w = Some r"
  obtain t where t: "(watch_step decode w)\<^sup>*\<^sup>* s t" "wrStateDone t" "wrPc t = WDrain waited"
    using state_can_end [of s decode w] a(2) by (cases "wrStateDone s") auto
  have "r = watch_verdict w waited" using a by (simp add: watch_inv_def)
  with drained [OF t(3,2), of decode w] t(1) show ?thesis by (intro exI [of _ "t\<lparr>wrPc := WReturned r\<rparr>"]) auto
qed

lemma returns_from_terminated: "watch_inv w s \<Longrightarrow> wrPc s = WTerminated \<Longrightarrow> watchJobWith w = Some r \<Longrightarrow>
    \<exists>t. (watch_step decode w)\<^sup>*\<^sup>* s t \<and> wrPc t = WReturned r"
proof -
  assume a: "watch_inv w s" "wrPc s = WTerminated" "watchJobWith w = Some r"
  then obtain x where x: "waitForContainerTerminated ''runner'' (jwTerminated w) = Some x"
    by (auto simp: watch_inv_def watchJobWith_def split: option.splits)
  have "\<exists>t waited. watch_step decode w s t \<and> wrPc t = WDrain waited"
    using x a(2) by (cases x) (auto intro: terminated not_terminated exI [of _ "s\<lparr>wrPc := WDrain _, wrCancelled := True\<rparr>"])
  then obtain t waited where t: "watch_step decode w s t" "wrPc t = WDrain waited" by blast
  from returns_from_drain [OF watch_inv_step [OF a(1) t(1)] t(2) a(3)] t(1) show ?thesis
    by (auto intro: converse_rtranclp_into_rtranclp)
qed

lemma returns_from_logs: "watch_inv w s \<Longrightarrow> wrPc s = WLogs \<Longrightarrow> watchJobWith w = Some r \<Longrightarrow>
    \<exists>t. (watch_step decode w)\<^sup>*\<^sup>* s t \<and> wrPc t = WReturned r"
proof -
  assume a: "watch_inv w s" "wrPc s = WLogs" "watchJobWith w = Some r"
  obtain t where t: "(watch_step decode w)\<^sup>*\<^sup>* s t" "wrLogDone t" "wrPc t = WLogs"
    using log_can_end [of s decode w] a(2) by (cases "wrLogDone s") auto
  note st = logs_done [OF t(3,2), of decode w]
  from returns_from_terminated [OF watch_inv_step [OF watching.path_inv [OF t(1) a(1)] st] _ a(3), of decode] st t(1) show ?thesis
    by (auto intro: converse_rtranclp_into_rtranclp rtranclp_trans)
qed

text \<open>
  The watcher returns: from every reachable state, if the waits on the cluster come to an end
  with a decision, the steps of watcher and readers lead to the return of that decision.
\<close>

lemma watch_can_return:
  assumes "reach (watch_init rep proc logs events) (watch_step decode w) s" "watchJobWith w = Some r"
  shows "\<exists>t. (watch_step decode w)\<^sup>*\<^sup>* s t \<and> wrPc t = WReturned r"
proof -
  have inv: "watch_inv w s" by (rule watching.reach_inv [OF assms(1)])
  have runner: "\<exists>t. (watch_step decode w)\<^sup>*\<^sup>* s t \<and> wrPc t = WReturned r" if i: "watch_inv w s" and pc: "wrPc s = WRunner" for s
  proof -
    obtain x where x: "waitForContainerRunning (jwPrevious w) ''runner'' (jwRunning w) = Some x"
      using i pc assms(2) by (auto simp: watch_inv_def watchJobWith_def split: option.splits)
    show ?thesis
    proof (cases x)
      case (Inl e)
      with start_error [OF pc, of w e decode] x i pc assms(2) show ?thesis
        by (intro exI [of _ "s\<lparr>wrPc := WReturned r\<rparr>"]) (auto simp: watch_inv_def watchJobWith_def)
    next
      case (Inr u)
      with started [OF pc, of w decode] x have st: "watch_step decode w s (s\<lparr>wrPc := WLogs, wrLogDone := False, wrStateDone := False\<rparr>)" by simp
      from returns_from_logs [OF watch_inv_step [OF i st] _ assms(2), of decode] st show ?thesis
        by (auto intro: converse_rtranclp_into_rtranclp)
    qed
  qed
  show ?thesis
  proof (cases "wrPc s")
    case WPod
    then obtain x where x: "waitForPod (jwPods w) = Some x" using assms(2) by (auto simp: watchJobWith_def split: option.splits)
    show ?thesis
    proof (cases x)
      case (Inl e)
      with pod_error [OF WPod, of w e decode] x assms(2) show ?thesis
        by (intro exI [of _ "s\<lparr>wrPc := WReturned r\<rparr>"]) (auto simp: watchJobWith_def)
    next
      case (Inr p)
      with pod_found [OF WPod, of w p decode] x have st: "watch_step decode w s (s\<lparr>wrPc := WRunner\<rparr>)" by simp
      from runner [OF watch_inv_step [OF inv st]] st show ?thesis by (auto intro: converse_rtranclp_into_rtranclp)
    qed
  next
    case (WReturned r')
    with inv assms(2) show ?thesis by (auto simp: watch_inv_def)
  qed (use inv assms(2) runner returns_from_logs returns_from_terminated returns_from_drain in blast)+
qed

section \<open>Events that come too late\<close>

text \<open>
  What the watcher loses. It cancels the event stream as soon as it has seen the runner container
  terminate, so events the stream has not delivered by then are dropped, although neither stream failed:
  the job is successful, and the report shows its only step, which succeeded, as cancelled.
\<close>

definition short_code :: "StateEvent \<Rightarrow> string" where
  "short_code e = evEvent e @ evName e"

definition one_step :: "StateEvent list" where
  "one_step = [\<lparr>evEvent = ''start'', evStep = 0, evName = ''a'', evExitCode = 0, evTime = []\<rparr>,
     \<lparr>evEvent = ''end'', evStep = 0, evName = ''a'', evExitCode = 0, evTime = []\<rparr>]"

definition calm_world :: job_world where
  "calm_world = \<lparr>jwPods = [(Inr [''p''], False)], jwRunning = [(Inr example_pod, False)], jwPrevious = (\<lambda>_. None),
     jwTerminated = [(Inr example_pod, TimerFired)], jwFinal = Inr example_pod\<rparr>"

lemma calm_waits:
  "waitForPod (jwPods calm_world) = Some (Inr ''p'')"
  "waitForContainerRunning (jwPrevious calm_world) ''runner'' (jwRunning calm_world) = Some (Inr ())"
  "waitForContainerTerminated ''runner'' (jwTerminated calm_world) = Some (Inr ())"
  "watch_verdict calm_world None = (RESULT_SUCCESS, None)"
  by (simp_all add: calm_world_def example_pod_def termination_seen_def is_terminated_def watch_verdict_def getContainerResult_def)

lemma calm_result: "watchJobWith calm_world = Some (RESULT_SUCCESS, None)"
  using calm_waits by (simp add: watchJobWith_def watch_verdict_def split: prod.splits option.splits)

definition lookup_code :: "StateEvent list \<Rightarrow> string \<Rightarrow> StateEvent option" where
  "lookup_code evs l = find (\<lambda>e. short_code e = l) evs"

theorem late_events_lost:
  "\<exists>s. reach (watch_init (New 1 1) None [] (state_lines short_code one_step)) (watch_step (lookup_code one_step) calm_world) s \<and>
     wrPc s = WReturned (RESULT_SUCCESS, None) \<and> \<not> wrBroken s \<and> \<not> wrFailed s \<and> outcome one_step 0 = Some RESULT_SUCCESS \<and>
     ssResult (tsSteps (rState (Close_begin 9 (wrRep s) RESULT_SUCCESS)) ! 0) = RESULT_CANCELLED"
proof -
  let ?i = "watch_init (New 1 1) None [] (state_lines short_code one_step)" and ?st = "watch_step (lookup_code one_step) calm_world"
  define s where "s pc l c d = \<lparr>wrPc = pc, wrRep = New 1 1, wrProc = None, wrLog = [], wrLogDone = l, wrBroken = False,
    wrState = state_lines short_code one_step, wrStateDone = d, wrCancelled = c, wrFailed = False\<rparr>" for pc l c d
  have "reach ?i ?st (s WPod True False True)" by (rule reach_init) (simp add: watch_init_def s_def)
  then have "reach ?i ?st (s WRunner True False True)"
    by (rule reach_step) (use pod_found [of "s WPod True False True" calm_world] calm_waits in \<open>simp add: s_def\<close>)
  then have "reach ?i ?st (s WLogs False False False)"
    by (rule reach_step) (use started [of "s WRunner True False True" calm_world] calm_waits in \<open>simp add: s_def\<close>)
  then have "reach ?i ?st (s WLogs True False False)"
    by (rule reach_step) (use log_eof [of "s WLogs False False False"] in \<open>simp add: s_def\<close>)
  then have "reach ?i ?st (s WTerminated True False False)"
    by (rule reach_step) (use logs_done [of "s WLogs True False False"] in \<open>simp add: s_def\<close>)
  then have "reach ?i ?st (s (WDrain None) True True False)"
    by (rule reach_step) (use terminated [of "s WTerminated True False False" calm_world] calm_waits in \<open>simp add: s_def\<close>)
  then have "reach ?i ?st (s (WDrain None) True True True)"
    by (rule reach_step) (use state_cancelled [of "s (WDrain None) True True False"] in \<open>simp add: s_def\<close>)
  then have "reach ?i ?st (s (WReturned (RESULT_SUCCESS, None)) True True True)"
    by (rule reach_step) (use drained [of "s (WDrain None) True True True" None "lookup_code one_step" calm_world] calm_waits in \<open>simp add: s_def\<close>)
  moreover have "outcome one_step 0 = Some RESULT_SUCCESS" by (simp add: outcome_def one_step_def)
  moreover have "ssResult (tsSteps (rState (Close_begin 9 (New 1 1) RESULT_SUCCESS)) ! 0) = RESULT_CANCELLED"
    by (subst closed_result) (simp_all add: results_def New_def)
  ultimately show ?thesis by (intro exI [of _ "s (WReturned (RESULT_SUCCESS, None)) True True True"]) (simp add: s_def)
qed

section \<open>Witness\<close>

theorem watched_job_reported_witness:
  "\<exists>(s :: watch_run) k. wrPc s = WReturned (RESULT_SUCCESS, None) \<and> k \<le> length example_events \<and>
     wrState s = state_lines short_code (drop k example_events) \<and>
     ssResult (tsSteps (rState (Close_begin 9 (wrRep s) RESULT_FAILURE)) ! 2) =
       (case outcome (take k example_events) 2 of Some r \<Rightarrow> r | None \<Rightarrow> RESULT_CANCELLED)"
proof -
  obtain res where r: "runEntrypoint example_always [] ''/shim'' example_world (\<lambda>_. True) (Some example_manifest)
    = (example_events, Some res, False)" using example_run by blast
  have c: "codec_ok (lookup_code example_events) short_code example_events"
    by (simp add: codec_ok_def lookup_code_def short_code_def example_events_def event_defs example_step_def)
  let ?rep = "SetSecrets (New 1 (length (mfSteps example_manifest))) []"
  let ?init = "watch_init ?rep None [''hi'' @ [NL]] (state_lines short_code example_events)"
  have "\<exists>s0. reach ?init (watch_step (lookup_code example_events) calm_world) s0"
    by (rule exI, rule reach_init, unfold watch_init_def, rule refl)
  then obtain s0 where s0: "reach ?init (watch_step (lookup_code example_events) calm_world) s0" by blast
  from watch_can_return [OF s0 calm_result] obtain s where "(watch_step (lookup_code example_events) calm_world)\<^sup>*\<^sup>* s0 s"
    and s2: "wrPc s = WReturned (RESULT_SUCCESS, None)" by blast
  then have s: "reach ?init (watch_step (lookup_code example_events) calm_world) s" by (intro reach_trans [OF _ s0])
  have "2 < length (mfSteps example_manifest)" "RESULT_FAILURE \<noteq> RESULT_SKIPPED" by (simp_all add: example_manifest_def)
  note w = watched_job_reported [OF r c refl s s2 this, of 9]
  from w [THEN conjunct2, THEN conjunct2, THEN conjunct2, THEN conjunct1] obtain k where
    "k \<le> length example_events" "wrState s = state_lines short_code (drop k example_events)"
    "ssResult (tsSteps (rState (Close_begin 9 (wrRep s) RESULT_FAILURE)) ! 2) =
       (case outcome (take k example_events) 2 of Some r \<Rightarrow> r | None \<Rightarrow> RESULT_CANCELLED)" by (elim exE conjE)
  with s2 show ?thesis by (intro exI [of _ s] exI [of _ k]) simp
qed

end
