(* ===== verification/CacheFaults.thy ===== *)
theory CacheFaults
  imports CacheProps
begin

text \<open>
  The cache server when its database or its disk fails, from \<^verbatim>\<open>src/pkg/cache/handler.go\<close>, \<^verbatim>\<open>db.go\<close>
  and \<^verbatim>\<open>storage.go\<close>: every SQL statement and every call of the blob store may fail. A run is given by
  the list of what happens to its calls, in their order; \<open>Fine\<close> is a call that succeeds, and after the
  list has ended all do. \<open>Broken n\<close> is a failure; for a call that writes a file, \<open>n\<close> says how much of it was
  done before.
\<close>

datatype fault = Fine | Broken nat

type_synonym faults = "fault list"

fun next_call :: "faults \<Rightarrow> fault \<times> faults" where
  "next_call [] = (Fine, [])"
| "next_call (f # fs) = (f, fs)"

section \<open>The index\<close>

datatype sql_error = OpenFailed | SchemaFailed | QueryFailed

text \<open>
  The database file: missing or with a table. The schema creates the table if it is missing and keeps
  an existing one; numbers start at one.
\<close>

definition OpenDB :: "faults \<Rightarrow> DB option \<Rightarrow> (sql_error + DB) \<times> faults" where
  "OpenDB fs file =
     (case next_call fs of
        (Broken _, fs1) \<Rightarrow> (Inl OpenFailed, fs1)
      | (Fine, fs1) \<Rightarrow>
          (case next_call fs1 of
             (Broken _, fs2) \<Rightarrow> (Inl SchemaFailed, fs2)
           | (Fine, fs2) \<Rightarrow> (Inr (case file of None \<Rightarrow> \<lparr>dbRows = [], dbNext = 1\<rparr> | Some db \<Rightarrow> db), fs2)))"

text \<open>\<^verbatim>\<open>queryOne\<close>: no row is no error.\<close>

definition queryOne :: "faults \<Rightarrow> Cache option \<Rightarrow> (sql_error + Cache option) \<times> faults" where
  "queryOne fs row = (case next_call fs of (Broken _, fs1) \<Rightarrow> (Inl QueryFailed, fs1) | (Fine, fs1) \<Rightarrow> (Inr row, fs1))"

text \<open>
  \<^verbatim>\<open>scanAll\<close>: a row that cannot be scanned drops what was read before; an error at the end of the rows
  comes with the rows that were read. Reading a row is a call.
\<close>

fun scanAll :: "faults \<Rightarrow> Cache list \<Rightarrow> Cache list \<Rightarrow> (Cache list \<times> sql_error option) \<times> faults" where
  "scanAll fs [] got = (case next_call fs of (Fine, fs1) \<Rightarrow> ((got, None), fs1) | (Broken _, fs1) \<Rightarrow> ((got, Some QueryFailed), fs1))"
| "scanAll fs (c # cs) got =
     (case next_call fs of
        (Fine, fs1) \<Rightarrow> scanAll fs1 cs (got @ [c])
      | (Broken 0, fs1) \<Rightarrow> (([], Some QueryFailed), fs1)
      | (Broken _, fs1) \<Rightarrow> ((got, Some QueryFailed), fs1))"

definition query_rows :: "faults \<Rightarrow> Cache list \<Rightarrow> Cache list \<times> faults" where
  "query_rows fs rows =
     (case next_call fs of
        (Broken _, fs1) \<Rightarrow> ([], fs1)
      | (Fine, fs1) \<Rightarrow> (case scanAll fs1 rows [] of ((got, _), fs2) \<Rightarrow> (got, fs2)))"

fun FindCache_io :: "(Cache list \<Rightarrow> Cache option) \<Rightarrow> faults \<Rightarrow> DB \<Rightarrow> string list \<Rightarrow> string \<Rightarrow> (sql_error + Cache option) \<times> faults" where
  "FindCache_io pick fs db [] version = (Inr None, fs)"
| "FindCache_io pick fs db (p # keys) version =
     (case queryOne fs (pick (select_exact db p version)) of
        (Inl e, fs1) \<Rightarrow> (Inl e, fs1)
      | (Inr (Some c), fs1) \<Rightarrow> (Inr (Some c), fs1)
      | (Inr None, fs1) \<Rightarrow>
          (case queryOne fs1 (pick (select_like db (Replace likeEscaper p @ ''%'') version)) of
             (Inl e, fs2) \<Rightarrow> (Inl e, fs2)
           | (Inr (Some c), fs2) \<Rightarrow> (Inr (Some c), fs2)
           | (Inr None, fs2) \<Rightarrow> FindCache_io pick fs2 db keys version))"

text \<open>A statement that changes the table: done or not.\<close>

definition exec_io :: "faults \<Rightarrow> DB \<Rightarrow> DB \<Rightarrow> DB \<times> bool \<times> faults" where
  "exec_io fs old new = (case next_call fs of (Broken _, fs1) \<Rightarrow> (old, False, fs1) | (Fine, fs1) \<Rightarrow> (new, True, fs1))"

section \<open>The blob store\<close>

text \<open>
  Writing a chunk: making the directory, creating the file, copying the body may each fail. Closing a file loses
  nothing, as its error is not looked at either.
\<close>

definition Write_io :: "faults \<Rightarrow> Storage \<Rightarrow> int \<Rightarrow> int \<Rightarrow> string \<Rightarrow> bool \<Rightarrow> Storage \<times> bool \<times> faults" where
  "Write_io fs s i offset body whole =
     (case next_call fs of
        (Broken _, fs1) \<Rightarrow> (s, False, fs1)
      | (Fine, fs1) \<Rightarrow>
          (case next_call fs1 of
             (Broken _, fs2) \<Rightarrow> (s\<lparr>stTemp := (stTemp s)(i \<mapsto> (case stTemp s i of None \<Rightarrow> [] | Some d \<Rightarrow> d))\<rparr>, False, fs2)
           | (Fine, fs2) \<Rightarrow>
               (case next_call fs2 of
                  (Broken n, fs3) \<Rightarrow> (fst (Write s i offset (take n body) whole), False, fs3)
                | (Fine, fs3) \<Rightarrow> (case Write s i offset body whole of (s', ok) \<Rightarrow> (s', ok, fs3)))))"

text \<open>Copying the chunks into the blob: opening a chunk and copying it are calls; a copy may break off.\<close>

fun copy_io :: "faults \<Rightarrow> dir \<Rightarrow> string \<Rightarrow> (string \<times> bool) \<times> faults" where
  "copy_io fs [] got = ((got, True), fs)"
| "copy_io fs ((n, content) # d) got =
     (case next_call fs of
        (Broken _, fs1) \<Rightarrow> ((got, False), fs1)
      | (Fine, fs1) \<Rightarrow>
          (case next_call fs1 of
             (Broken k, fs2) \<Rightarrow> ((got @ take k content, False), fs2)
           | (Fine, fs2) \<Rightarrow> copy_io fs2 d (got @ content)))"

definition put_blob :: "Storage \<Rightarrow> int \<Rightarrow> string \<Rightarrow> Storage" where
  "put_blob s i b = s\<lparr>stBlobs := (stBlobs s)(i \<mapsto> b)\<rparr>"

text \<open>
  The body of \<^verbatim>\<open>Commit\<close>: listing the chunks, making the directory, creating the blob, copying, and removing a blob of the
  wrong size, which may fail unnoticed. A blob stays with the bytes written when a copy fails.
\<close>

definition assemble_io :: "faults \<Rightarrow> Storage \<Rightarrow> int \<Rightarrow> int \<Rightarrow> Storage \<times> (unit + int) \<times> faults" where
  "assemble_io fs s i sz =
     (case next_call fs of
        (Broken _, fs1) \<Rightarrow> (s, Inl (), fs1)
      | (Fine, fs1) \<Rightarrow>
          (case stTemp s i of
             None \<Rightarrow> (s, Inl (), fs1)
           | Some d \<Rightarrow>
               (case next_call fs1 of
                  (Broken _, fs2) \<Rightarrow> (s, Inl (), fs2)
                | (Fine, fs2) \<Rightarrow>
                    (case next_call fs2 of
                       (Broken _, fs3) \<Rightarrow> (s, Inl (), fs3)
                     | (Fine, fs3) \<Rightarrow>
                         (case copy_io fs3 d [] of
                            ((got, False), fs4) \<Rightarrow> (put_blob s i got, Inl (), fs4)
                          | ((got, True), fs4) \<Rightarrow>
                              if sz \<ge> 0 \<and> int (length got) \<noteq> sz then
                                (case next_call fs4 of
                                   (Broken _, fs5) \<Rightarrow> (put_blob s i got, Inl (), fs5)
                                 | (Fine, fs5) \<Rightarrow> (s\<lparr>stBlobs := (stBlobs s)(i := None)\<rparr>, Inl (), fs5))
                              else (put_blob s i got, Inr (int (length got)), fs4))))))"

text \<open>Whatever happened, the chunks are removed last, all or, when that fails unnoticed, some of them.\<close>

definition Commit_io :: "faults \<Rightarrow> Storage \<Rightarrow> int \<Rightarrow> int \<Rightarrow> Storage \<times> (unit + int) \<times> faults" where
  "Commit_io fs s i sz =
     (case assemble_io fs s i sz of
        (s1, res, fs1) \<Rightarrow>
          (case next_call fs1 of
             (Fine, fs2) \<Rightarrow> (s1\<lparr>stTemp := (stTemp s1)(i := None)\<rparr>, res, fs2)
           | (Broken k, fs2) \<Rightarrow> (s1\<lparr>stTemp := (stTemp s1)(i := map_option (drop k) (stTemp s1 i))\<rparr>, res, fs2)))"

text \<open>Removing ignores failures; the blob, the chunks or both may stay.\<close>

definition Remove_io :: "faults \<Rightarrow> Storage \<Rightarrow> int \<Rightarrow> Storage \<times> faults" where
  "Remove_io fs s i =
     (case next_call fs of
        (blob, fs1) \<Rightarrow>
          (case next_call fs1 of
             (temp, fs2) \<Rightarrow>
               (s\<lparr>stBlobs := (if blob = Fine then (stBlobs s)(i := None) else stBlobs s),
                  stTemp := (if temp = Fine then (stTemp s)(i := None) else stTemp s)\<rparr>, fs2)))"

section \<open>Requests\<close>

definition find_io :: "(Cache list \<Rightarrow> Cache option) \<Rightarrow> faults \<Rightarrow> Handler \<Rightarrow> string \<Rightarrow> string \<Rightarrow> Handler \<times> Response \<times> faults" where
  "find_io pick fs h keysParam version =
     (case FindCache_io pick fs (hDB h) (map ToLower (Split CHR '','' keysParam)) version of
        (Inl _, fs1) \<Rightarrow> (h, Status 500, fs1)
      | (Inr None, fs1) \<Rightarrow> (h, Status 204, fs1)
      | (Inr (Some c), fs1) \<Rightarrow>
          (case next_call fs1 of
             (Broken _, fs2) \<Rightarrow> (h, Status 500, fs2)
           | (Fine, fs2) \<Rightarrow>
               if \<not> Exist (hStore h) (cID c) then
                 (case exec_io fs2 (hDB h) (DeleteCache (hDB h) (cID c)) of (db, _, fs3) \<Rightarrow> (h\<lparr>hDB := db\<rparr>, Status 204, fs3))
               else (h, Hit (ExternalURL h @ urlBase @ ''/artifacts/'' @ Itoa (cID c)) (cKey c) (cID c), fs2)))"

text \<open>A row that was inserted stays when its number cannot be read back.\<close>

definition reserve_io :: "faults \<Rightarrow> int \<Rightarrow> Handler \<Rightarrow> (string \<times> string \<times> int) option \<Rightarrow> Handler \<times> Response \<times> faults" where
  "reserve_io fs now h req =
     (case req of
        None \<Rightarrow> (h, Status 400, fs)
      | Some (key, version, sz) \<Rightarrow>
          (case InsertCache (unix now) (hDB h) (ToLower key) version (if sz = 0 then - 1 else sz) of
             (new, i) \<Rightarrow>
               (case exec_io fs (hDB h) new of
                  (db, False, fs1) \<Rightarrow> (h\<lparr>hDB := db\<rparr>, Status 500, fs1)
                | (db, True, fs1) \<Rightarrow>
                    (case next_call fs1 of
                       (Broken _, fs2) \<Rightarrow> (h\<lparr>hDB := db\<rparr>, Status 500, fs2)
                     | (Fine, fs2) \<Rightarrow> (h\<lparr>hDB := db\<rparr>, Reserved i, fs2)))))"

definition upload_io :: "faults \<Rightarrow> int \<Rightarrow> Handler \<Rightarrow> string \<Rightarrow> string \<Rightarrow> string \<Rightarrow> bool \<Rightarrow> Handler \<times> Response \<times> faults" where
  "upload_io fs now h idParam rng body whole =
     (case ParseInt 64 idParam of
        None \<Rightarrow> (h, Status 400, fs)
      | Some i \<Rightarrow>
          (case queryOne fs (GetCache (hDB h) i) of
             (Inl _, fs1) \<Rightarrow> (h, Status 500, fs1)
           | (Inr None, fs1) \<Rightarrow> (h, Status 400, fs1)
           | (Inr (Some c), fs1) \<Rightarrow>
               if cComplete c then (h, Status 400, fs1)
               else (case parseContentRange rng of
                       None \<Rightarrow> (h, Status 400, fs1)
                     | Some (start, _) \<Rightarrow>
                         (case Write_io fs1 (hStore h) (cID c) start body whole of
                            (s, False, fs2) \<Rightarrow> (h\<lparr>hStore := s\<rparr>, Status 500, fs2)
                          | (s, True, fs2) \<Rightarrow>
                              (case exec_io fs2 (hDB h) (TouchCache (unix now) (hDB h) i) of
                                 (db, _, fs3) \<Rightarrow> (h\<lparr>hStore := s, hDB := db\<rparr>, Status 200, fs3))))))"

definition commit_io :: "faults \<Rightarrow> Handler \<Rightarrow> string \<Rightarrow> Handler \<times> Response \<times> faults" where
  "commit_io fs h idParam =
     (case ParseInt 64 idParam of
        None \<Rightarrow> (h, Status 400, fs)
      | Some i \<Rightarrow>
          (case queryOne fs (GetCache (hDB h) i) of
             (Inl _, fs1) \<Rightarrow> (h, Status 500, fs1)
           | (Inr None, fs1) \<Rightarrow> (h, Status 400, fs1)
           | (Inr (Some c), fs1) \<Rightarrow>
               if cComplete c then (h, Status 400, fs1)
               else (case Commit_io fs1 (hStore h) (cID c) (cSize c) of
                       (s, Inl _, fs2) \<Rightarrow> (h\<lparr>hStore := s\<rparr>, Status 500, fs2)
                     | (s, Inr sz, fs2) \<Rightarrow>
                         (case exec_io fs2 (hDB h) (CompleteCache (hDB h) i sz) of
                            (db, ok, fs3) \<Rightarrow> (h\<lparr>hStore := s, hDB := db\<rparr>, Status (if ok then 200 else 500), fs3)))))"

definition get_io :: "faults \<Rightarrow> int \<Rightarrow> Handler \<Rightarrow> string \<Rightarrow> Handler \<times> Response \<times> faults" where
  "get_io fs now h idParam =
     (case ParseInt 64 idParam of
        None \<Rightarrow> (h, Status 400, fs)
      | Some i \<Rightarrow>
          (case exec_io fs (hDB h) (TouchCache (unix now) (hDB h) i) of
             (db, _, fs1) \<Rightarrow> (h\<lparr>hDB := db\<rparr>, (case Serve (hStore h) i of None \<Rightarrow> Status 404 | Some b \<Rightarrow> Blob b), fs1)))"

fun handle_io :: "(Cache list \<Rightarrow> Cache option) \<Rightarrow> faults \<Rightarrow> int \<Rightarrow> Handler \<Rightarrow> Request \<Rightarrow> Handler \<times> Response \<times> faults" where
  "handle_io pick fs now h (Find keys version) = find_io pick fs h keys version"
| "handle_io pick fs now h (Reserve req) = reserve_io fs now h req"
| "handle_io pick fs now h (Upload i rng body whole) = upload_io fs now h i rng body whole"
| "handle_io pick fs now h (CommitUpload i) = commit_io fs h i"
| "handle_io pick fs now h (Get i) = get_io fs now h i"
| "handle_io pick fs now h CleanAll = (h, Status 200, fs)"

section \<open>Collections\<close>

fun sweep_io :: "faults \<Rightarrow> Handler \<Rightarrow> Cache list \<Rightarrow> Handler \<times> faults" where
  "sweep_io fs h [] = (h, fs)"
| "sweep_io fs h (c # cs) =
     (case Remove_io fs (hStore h) (cID c) of
        (s, fs1) \<Rightarrow>
          (case exec_io fs1 (hDB h) (DeleteCache (hDB h) (cID c)) of
             (db, _, fs2) \<Rightarrow> sweep_io fs2 (h\<lparr>hStore := s, hDB := db\<rparr>) cs))"

definition stage_io :: "(DB \<Rightarrow> Cache list) \<Rightarrow> Handler \<times> faults \<Rightarrow> Handler \<times> faults" where
  "stage_io query hf = (case hf of (h, fs) \<Rightarrow> (case query_rows fs (query (hDB h)) of (rows, fs1) \<Rightarrow> sweep_io fs1 h rows))"

definition gcCache_io :: "faults \<Rightarrow> int \<Rightarrow> Handler \<Rightarrow> Handler \<times> faults" where
  "gcCache_io fs now h =
     (if now - hGcAt h < Hour then (h, fs)
      else stage_io (\<lambda>db. FindDuplicates db (unix (now - keepOld)))
        (stage_io (\<lambda>db. FindExpired db (\<lambda>c. cCreatedAt c < unix (now - keepUsed)))
        (stage_io (\<lambda>db. FindExpired db (\<lambda>c. cUsedAt c < unix (now - keepUnused)))
        (stage_io (\<lambda>db. FindExpired db (\<lambda>c. cUsedAt c < unix (now - keepTemp) \<and> \<not> cComplete c))
          (h\<lparr>hGcAt := now\<rparr>, fs)))))"

datatype io_call = ServingIO faults int Request | CollectIO faults int

fun cache_io :: "(Cache list \<Rightarrow> Cache option) \<Rightarrow> Handler \<Rightarrow> io_call \<Rightarrow> Handler" where
  "cache_io pick h (ServingIO fs now req) = fst (handle_io pick fs now h req)"
| "cache_io pick h (CollectIO fs now) = fst (gcCache_io fs now h)"

section \<open>Without failures\<close>

lemma queryOne_fine [simp]: "queryOne [] row = (Inr row, [])"
  by (simp add: queryOne_def)

lemma exec_fine [simp]: "exec_io [] old new = (new, True, [])"
  by (simp add: exec_io_def)

lemma FindCache_fine: "FindCache_io pick [] db keys version = (Inr (FindCache pick db keys version), [])"
  by (induction keys) (auto split: option.splits)

lemma scanAll_fine: "scanAll [] rows got = ((got @ rows, None), [])"
  by (induction rows arbitrary: got) auto

lemma query_rows_fine [simp]: "query_rows [] rows = (rows, [])"
  by (simp add: query_rows_def scanAll_fine)

lemma sweep_fine: "sweep_io [] h cs = (sweep h cs, [])"
  by (induction cs arbitrary: h) (simp_all add: sweep_def Remove_io_def Remove_def)

lemma copy_fine: "copy_io (replicate (2 * length d) Fine @ fs) d got = ((got @ concat (map snd d), True), fs)"
    "copy_io [] d got = ((got @ concat (map snd d), True), [])"
  by (induction d arbitrary: got) auto

lemma Commit_fine: "Commit_io [] s i sz = (case Commit s i sz of (s', Inl _) \<Rightarrow> (s', Inl (), []) | (s', Inr n) \<Rightarrow> (s', Inr n, []))"
  by (simp add: Commit_io_def assemble_io_def Commit_def copy_fine put_blob_def fun_upd_idem Let_def split: option.splits)

text \<open>
  Without failures, the server that can fail is the server: every request is answered as the
  handler says, with the same state, and a collection ends in the same state.
\<close>

lemma no_faults:
  "handle_io pick [] now h req = (fst (handle pick now h req), snd (handle pick now h req), []) \<and>
   gcCache_io [] now h = (gcCache now h, [])"
proof
  show "handle_io pick [] now h req = (fst (handle pick now h req), snd (handle pick now h req), [])"
  proof (cases req)
    case (CommitUpload i)
    then show ?thesis
      by (auto simp: commit_io_def handle_commit_def Commit_fine split: option.splits sum.splits prod.splits)
  qed (auto simp: find_io_def handle_find_def FindCache_fine reserve_io_def handle_reserve_def upload_io_def handle_upload_def
      Write_io_def get_io_def handle_get_def split: option.splits prod.splits)
  show "gcCache_io [] now h = (gcCache now h, [])"
    by (simp add: gcCache_io_def gcCache_def stage_io_def sweep_fine Let_def)
qed

section \<open>With failures\<close>

text \<open>What is left of the consistency of index and store: the blob of a complete entry has its size or is gone.\<close>

definition fault_row :: "Storage \<Rightarrow> Cache \<Rightarrow> bool" where
  "fault_row s c \<longleftrightarrow> map lower_char (cKey c) = cKey c \<and>
     (cComplete c \<longrightarrow> (case stBlobs s (cID c) of None \<Rightarrow> True | Some b \<Rightarrow> cSize c = int (length b)))"

definition fault_inv :: "Handler \<Rightarrow> bool" where
  "fault_inv h \<longleftrightarrow> distinct (map cID (dbRows (hDB h))) \<and>
     (\<forall>c \<in> set (dbRows (hDB h)). 0 < cID c \<and> cID c < dbNext (hDB h) \<and> fault_row (hStore h) c) \<and> 0 < dbNext (hDB h)"

lemma cache_inv_fault_inv: "cache_inv h \<Longrightarrow> fault_inv h"
  by (auto simp: cache_inv_def fault_inv_def row_ok_def fault_row_def split: option.splits if_splits)

lemma fault_inv_rows:
  assumes "fault_inv h" "map cID rows = map cID (dbRows (hDB h))"
    and "\<And>c. c \<in> set rows \<Longrightarrow> fault_row s c"
  shows "fault_inv (h\<lparr>hStore := s, hDB := (hDB h)\<lparr>dbRows := rows\<rparr>\<rparr>)"
proof -
  have "cID ` set rows = cID ` set (dbRows (hDB h))" using assms(2) by (metis set_map)
  moreover have "0 < i \<and> i < dbNext (hDB h)" if "i \<in> cID ` set (dbRows (hDB h))" for i
    using that assms(1) by (auto simp: fault_inv_def)
  ultimately have "0 < cID c \<and> cID c < dbNext (hDB h)" if "c \<in> set rows" for c using that by blast
  with assms show ?thesis by (simp add: fault_inv_def)
qed

lemma fault_inv_delete: "fault_inv h \<Longrightarrow> fault_inv (h\<lparr>hDB := DeleteCache (hDB h) i\<rparr>)"
  by (auto simp: fault_inv_def DeleteCache_def distinct_map_filter)

lemma fault_inv_touch:
  assumes "fault_inv h"
  shows "fault_inv (h\<lparr>hDB := TouchCache now (hDB h) i\<rparr>)"
proof -
  have "fault_inv (h\<lparr>hStore := hStore h, hDB := (hDB h)\<lparr>dbRows := map (\<lambda>c. if cID c = i then c\<lparr>cUsedAt := now\<rparr> else c) (dbRows (hDB h))\<rparr>\<rparr>)"
    by (rule fault_inv_rows [OF assms]) (use assms in \<open>auto simp: fault_inv_def fault_row_def split: option.splits\<close>)
  then show ?thesis by (simp add: TouchCache_def)
qed

text \<open>A store that differs only in blobs that are gone or belong to an entry that is not complete.\<close>

lemma fault_inv_store:
  assumes "fault_inv h"
    and "\<And>i. stBlobs s i = stBlobs (hStore h) i \<or> stBlobs s i = None \<or>
      (\<exists>c \<in> set (dbRows (hDB h)). cID c = i \<and> \<not> cComplete c)"
  shows "fault_inv (h\<lparr>hStore := s\<rparr>)"
proof -
  have "fault_row s c" if c: "c \<in> set (dbRows (hDB h))" for c
  proof -
    have f: "fault_row (hStore h) c" using assms(1) c by (simp add: fault_inv_def)
    have "d = c" if "d \<in> set (dbRows (hDB h))" "cID d = cID c" for d
      using assms(1) c that by (auto simp: fault_inv_def intro: distinct_cID)
    with assms(2) [of "cID c"] f show ?thesis by (auto simp: fault_row_def split: option.splits)
  qed
  with assms(1) show ?thesis by (simp add: fault_inv_def)
qed

lemma fault_inv_commit:
  assumes inv: "fault_inv h" and c: "c \<in> set (dbRows (hDB h))" "\<not> cComplete c"
    and cm: "Commit_io fs (hStore h) (cID c) (cSize c) = (s, r, fs')"
  shows "fault_inv (h\<lparr>hStore := s\<rparr>) \<and> (\<forall>sz. r = Inr sz \<longrightarrow> fault_inv (h\<lparr>hStore := s, hDB := CompleteCache (hDB h) (cID c) sz\<rparr>) \<and>
    (\<exists>b. stBlobs s (cID c) = Some b \<and> sz = int (length b)))"
proof -
  obtain s1 fs1 where a: "assemble_io fs (hStore h) (cID c) (cSize c) = (s1, r, fs1)" and s1: "stBlobs s = stBlobs s1"
    using cm by (auto simp: Commit_io_def split: prod.splits fault.splits)
  have other: "stBlobs s j = stBlobs (hStore h) j" if "j \<noteq> cID c" for j
    using a that by (auto simp: s1 assemble_io_def put_blob_def split: fault.splits option.splits prod.splits bool.splits if_splits)
  have st: "fault_inv (h\<lparr>hStore := s\<rparr>)"
  proof (rule fault_inv_store [OF inv])
    show "stBlobs s i = stBlobs (hStore h) i \<or> stBlobs s i = None \<or> (\<exists>c \<in> set (dbRows (hDB h)). cID c = i \<and> \<not> cComplete c)" for i
      by (cases "i = cID c") (use other c in auto)
  qed
  have "\<exists>b. stBlobs s (cID c) = Some b \<and> sz = int (length b)" if "r = Inr sz" for sz
    using a that by (auto simp: s1 assemble_io_def put_blob_def split: fault.splits option.splits prod.splits bool.splits if_splits)
  moreover have "fault_inv (h\<lparr>hStore := s, hDB := CompleteCache (hDB h) (cID c) sz\<rparr>)" if "\<exists>b. stBlobs s (cID c) = Some b \<and> sz = int (length b)" for sz
  proof -
    let ?f = "\<lambda>d. if cID d = cID c then d\<lparr>cComplete := True, cSize := sz\<rparr> else d"
    have "fault_row s (?f d)" if "d \<in> set (dbRows (hDB h))" for d
      using st that \<open>\<exists>b. _\<close> by (auto simp: fault_inv_def fault_row_def)
    then have "fault_row s e" if "e \<in> set (map ?f (dbRows (hDB h)))" for e using that unfolding set_map by blast
    then have "fault_inv ((h\<lparr>hStore := s\<rparr>)\<lparr>hStore := s, hDB := (hDB (h\<lparr>hStore := s\<rparr>))\<lparr>dbRows := map ?f (dbRows (hDB h))\<rparr>\<rparr>)"
      by (rule fault_inv_rows [OF st, rotated]) simp_all
    then show ?thesis by (simp add: CompleteCache_def)
  qed
  ultimately show ?thesis using st by blast
qed

lemma exec_cases:
  assumes "exec_io fs old new = (db, ok, fs')"
  obtains "db = new" ok | "db = old" "\<not> ok"
  using assms by (auto simp: exec_io_def split: prod.splits fault.splits)

lemma queryOne_cases: "queryOne fs row = (Inr r, fs') \<Longrightarrow> r = row"
  by (auto simp: queryOne_def split: prod.splits fault.splits)

lemma FindCache_io_row:
  assumes "picks_newest pick" "FindCache_io pick fs db keys version = (Inr (Some c), fs')"
  shows "c \<in> set (dbRows db) \<and> cComplete c \<and> cVersion c = version"
  using assms(2)
proof (induction keys arbitrary: fs)
  case (Cons p keys)
  have pk: "c \<in> set rows" if "pick rows = Some c" for rows
    using assms(1) [unfolded picks_newest_def, rule_format, of rows] that by simp
  from Cons show ?case
    by (auto simp: select_exact_def select_like_def split: prod.splits sum.splits option.splits dest!: queryOne_cases pk [OF sym] pk)
qed simp

lemma fault_inv_find:
  assumes "fault_inv h"
  shows "fault_inv (fst (find_io pick fs h keys version))"
  using assms
  by (auto simp: find_io_def fault_inv_delete elim!: exec_cases split: prod.splits sum.splits option.splits fault.splits)

lemma fault_inv_reserve:
  assumes inv: "fault_inv h"
  shows "fault_inv (fst (reserve_io fs now h req))"
proof -
  have "fault_inv (h\<lparr>hDB := fst (InsertCache t (hDB h) (ToLower key) version sz)\<rparr>)" for t key version sz
  proof -
    have "dbNext (hDB h) \<notin> cID ` set (dbRows (hDB h))" using inv by (force simp: fault_inv_def)
    with inv show ?thesis by (auto simp: fault_inv_def InsertCache_def fault_row_def ToLower_lower)
  qed
  with inv show ?thesis
    by (auto simp: reserve_io_def InsertCache_def elim!: exec_cases split: prod.splits option.splits fault.splits bool.splits)
qed

lemma fault_inv_upload:
  assumes inv: "fault_inv h"
  shows "fault_inv (fst (upload_io fs now h q rng body whole))"
proof -
  have "stBlobs s = stBlobs (hStore h)" if "Write_io fs' (hStore h) i start body whole = (s, ok, fs'')" for fs' i start s ok fs''
    using that by (auto simp: Write_io_def Write_def split: prod.splits fault.splits)
  then have st: "fault_inv (h\<lparr>hStore := s\<rparr>)" if "Write_io fs' (hStore h) i start body whole = (s, ok, fs'')" for fs' i start s ok fs''
    using fault_inv_store [OF inv, of s] that by simp
  then have "fault_inv ((h\<lparr>hStore := s\<rparr>)\<lparr>hDB := TouchCache t (hDB h) j\<rparr>)" if "Write_io fs' (hStore h) i start body whole = (s, ok, fs'')"
    for fs' i start s ok fs'' t j using fault_inv_touch [OF st [OF that], of t j] by simp
  with inv st show ?thesis
    by (auto simp: upload_io_def elim!: exec_cases split: prod.splits sum.splits option.splits bool.splits)
qed

lemma fault_inv_committing:
  assumes inv: "fault_inv h"
  shows "fault_inv (fst (commit_io fs h q))"
proof -
  have c: "c \<in> set (dbRows (hDB h)) \<and> cID c = i" if "queryOne fs (GetCache (hDB h) i) = (Inr (Some c), fs1)" for i c fs1
    using queryOne_cases [OF that] by (metis GetCache_SomeD)
  show ?thesis using inv
    by (auto simp: commit_io_def dest!: c fault_inv_commit [OF inv] elim!: exec_cases split: prod.splits sum.splits option.splits)
qed

lemma fault_inv_sweep: "fault_inv h \<Longrightarrow> fault_inv (fst (sweep_io fs h cs))"
proof (induction cs arbitrary: fs h)
  case (Cons c cs)
  obtain s fs1 where r: "Remove_io fs (hStore h) (cID c) = (s, fs1)" by fastforce
  obtain db ok fs2 where e: "exec_io fs1 (hDB h) (DeleteCache (hDB h) (cID c)) = (db, ok, fs2)" by (cases "exec_io fs1 (hDB h) (DeleteCache (hDB h) (cID c))")
  have "fault_inv (h\<lparr>hStore := s\<rparr>)"
    by (rule fault_inv_store [OF Cons.prems]) (use r in \<open>auto simp: Remove_io_def split: prod.splits if_splits\<close>)
  moreover from fault_inv_delete [OF this, of "cID c"] have "fault_inv (h\<lparr>hStore := s, hDB := DeleteCache (hDB h) (cID c)\<rparr>)" by simp
  ultimately have "fault_inv (h\<lparr>hStore := s, hDB := db\<rparr>)" using e by (auto elim!: exec_cases)
  with Cons.IH r e show ?case by simp
qed simp

lemma fault_inv_gc: "fault_inv h \<Longrightarrow> fault_inv (fst (gcCache_io fs now h))"
proof -
  have stage: "fault_inv (fst (stage_io query (h, fs)))" if "fault_inv h" for query h fs
    using that by (auto simp: stage_io_def fault_inv_sweep split: prod.split)
  then have "fault_inv (fst (stage_io query hf))" if "fault_inv (fst hf)" for query hf using that by (cases hf) simp
  moreover assume "fault_inv h"
  moreover from this have "fault_inv (h\<lparr>hGcAt := now\<rparr>)" by (simp add: fault_inv_def)
  ultimately show ?thesis by (simp add: gcCache_io_def)
qed

lemma fault_inv_call: "fault_inv h \<Longrightarrow> fault_inv (cache_io pick h c)"
proof (cases c)
  case (ServingIO fs now req)
  assume inv: "fault_inv h"
  have "fault_inv (fst (get_io fs now h q))" for q
    using inv by (auto simp: get_io_def fault_inv_touch elim!: exec_cases split: option.splits prod.splits)
  with ServingIO inv show ?thesis
    by (cases req) (simp_all add: fault_inv_find fault_inv_reserve fault_inv_upload fault_inv_committing)
qed (simp add: fault_inv_gc)

interpretation failing: object_invariant "cache_io pick" "\<lambda>_ _. True" fault_inv for pick
  by unfold_locales (rule fault_inv_call)

lemma fault_hit:
  assumes inv: "fault_inv h" and pick: "picks_newest pick" and r: "handle_io pick fs now h req = (h', Hit url key i, fs')"
  shows "\<exists>c b. c \<in> set (dbRows (hDB h')) \<and> cID c = i \<and> cKey c = key \<and> cComplete c \<and>
      Serve (hStore h') i = Some b \<and> cSize c = int (length b)"
proof -
  obtain keys version where req: "req = Find keys version"
    using r by (cases req) (auto simp: reserve_io_def upload_io_def commit_io_def get_io_def
      split: option.splits prod.splits sum.splits fault.splits bool.splits if_splits)
  with r obtain c fs1 where c: "FindCache_io pick fs (hDB h) (map ToLower (Split CHR '','' keys)) version = (Inr (Some c), fs1)"
    "cID c = i" "cKey c = key" "h' = h" "Exist (hStore h) i"
    by (auto simp: find_io_def split: prod.splits sum.splits option.splits fault.splits if_splits)
  from FindCache_io_row [OF pick c(1)] have "c \<in> set (dbRows (hDB h))" "cComplete c" by auto
  moreover from this inv have "fault_row (hStore h) c" by (simp add: fault_inv_def)
  ultimately show ?thesis using c(2-5) by (auto simp: fault_row_def Exist_def Serve_def)
qed

lemma fault_commit:
  assumes inv: "fault_inv h" and r: "commit_io fs h q = (h', Status 200, fs')"
  shows "\<exists>i c b. ParseInt 64 q = Some i \<and> c \<in> set (dbRows (hDB h')) \<and> cID c = i \<and> cComplete c \<and>
      Serve (hStore h') i = Some b \<and> cSize c = int (length b)"
proof -
  obtain i c fs1 s sz fs2 where c: "ParseInt 64 q = Some i" "queryOne fs (GetCache (hDB h) i) = (Inr (Some c), fs1)" "\<not> cComplete c"
    "Commit_io fs1 (hStore h) (cID c) (cSize c) = (s, Inr sz, fs2)" "h' = h\<lparr>hStore := s, hDB := CompleteCache (hDB h) i sz\<rparr>"
    using r by (auto simp: commit_io_def elim!: exec_cases split: option.splits prod.splits sum.splits if_splits)
  have g: "c \<in> set (dbRows (hDB h))" "cID c = i" using queryOne_cases [OF c(2)] by (metis GetCache_SomeD)+
  from fault_inv_commit [OF inv g(1) c(3,4)] obtain b where b: "stBlobs s i = Some b" "sz = int (length b)" using g(2) by auto
  have "c\<lparr>cComplete := True, cSize := sz\<rparr> \<in> set (dbRows (hDB h'))" using g c(5) by (force simp: CompleteCache_def)
  then show ?thesis using b c(1,5) g(2)
    by (intro exI [of _ i] exI [of _ "c\<lparr>cComplete := True, cSize := sz\<rparr>"] exI [of _ b]) (simp add: Serve_def)
qed

definition complete_ids :: "Handler \<Rightarrow> int set" where
  "complete_ids h = cID ` {c \<in> set (dbRows (hDB h)). cComplete c}"

lemma fault_error:
  assumes "handle_io pick fs now h req = (h', Status code, fs')" "400 \<le> code"
  shows "complete_ids h' \<subseteq> complete_ids h"
  using assms
  by (cases req) (auto simp: complete_ids_def find_io_def reserve_io_def InsertCache_def upload_io_def commit_io_def get_io_def
      TouchCache_def DeleteCache_def elim!: exec_cases split: option.splits prod.splits sum.splits fault.splits bool.splits if_splits)

text \<open>
  C21: The server when its database and disk fail: whatever failed in the requests and collections
  before, and whatever fails in the next one, a reported hit is a complete entry whose blob is there with its
  recorded size; a commit that is answered with success has made its entry complete, with such a
  blob; and a request that is answered with an error has made no entry complete.
\<close>

theorem cache_under_faults:
  assumes "picks_newest pick" "h = run_calls (cache_io pick) (empty_cache dir ip port) cs"
    and "handle_io pick fs now h req = (h', resp, fs')"
  shows "(\<forall>url key i. resp = Hit url key i \<longrightarrow>
       (\<exists>c b. c \<in> set (dbRows (hDB h')) \<and> cID c = i \<and> cKey c = key \<and> cComplete c \<and>
          Serve (hStore h') i = Some b \<and> cSize c = int (length b))) \<and>
     (\<forall>q. req = CommitUpload q \<and> resp = Status 200 \<longrightarrow>
       (\<exists>i c b. ParseInt 64 q = Some i \<and> c \<in> set (dbRows (hDB h')) \<and> cID c = i \<and> cComplete c \<and>
          Serve (hStore h') i = Some b \<and> cSize c = int (length b))) \<and>
     (\<forall>code. resp = Status code \<and> 400 \<le> code \<longrightarrow> complete_ids h' \<subseteq> complete_ids h)"
proof -
  have inv: "fault_inv h" unfolding assms(2)
    by (rule failing.run_calls_inv [OF cache_inv_fault_inv [OF cache_inv_start]]) simp
  show ?thesis
  proof (intro conjI allI impI)
    show "\<exists>i c b. ParseInt 64 q = Some i \<and> c \<in> set (dbRows (hDB h')) \<and> cID c = i \<and> cComplete c \<and>
        Serve (hStore h') i = Some b \<and> cSize c = int (length b)" if "req = CommitUpload q \<and> resp = Status 200" for q
      using fault_commit [OF inv, of fs q h' fs'] assms(3) that by simp
  qed (use fault_hit [OF inv assms(1)] fault_error assms(3) in blast)+
qed

text \<open>
  A commit whose last statement fails cannot be repeated: the answer is an error, the chunks are gone,
  and the same request gets an error again, although nothing fails any more.
\<close>

theorem failed_commit_not_repeatable:
  assumes "stTemp (hStore h) i = Some d" "GetCache (hDB h) i = Some c" "\<not> cComplete c" "ParseInt 64 q = Some i"
    and "cSize c < 0 \<or> cSize c = int (length (concat (map snd d)))"
  shows "\<exists>h1. commit_io (replicate (5 + 2 * length d) Fine @ [Broken 0]) h q = (h1, Status 500, []) \<and> commit_io [] h1 q = (h1, Status 500, [])"
proof -
  have c: "cID c = i" using GetCache_SomeD [OF assms(2)] by simp
  let ?s = "hStore h"
  let ?s1 = "?s\<lparr>stTemp := (stTemp ?s)(i := None), stBlobs := (stBlobs ?s)(i \<mapsto> concat (map snd d))\<rparr>"
  have r: "replicate (5 + 2 * length d) Fine = [Fine, Fine, Fine, Fine] @ replicate (2 * length d) Fine @ [Fine]"
    by (simp add: numeral_eq_Suc replicate_append_same)
  have "Commit_io ([Fine, Fine, Fine] @ replicate (2 * length d) Fine @ [Fine, Broken 0]) ?s i (cSize c) =
      (?s1, Inr (int (length (concat (map snd d)))), [Broken 0])"
    using assms(1,5) by (auto simp: Commit_io_def assemble_io_def copy_fine put_blob_def)
  then have "commit_io (replicate (5 + 2 * length d) Fine @ [Broken 0]) h q = (h\<lparr>hStore := ?s1\<rparr>, Status 500, [])"
    using assms c unfolding r by (simp add: commit_io_def queryOne_def exec_io_def)
  moreover have "commit_io [] (h\<lparr>hStore := ?s1\<rparr>) q = (h\<lparr>hStore := ?s1\<rparr>, Status 500, [])"
    using assms c by (simp add: commit_io_def Commit_fine Commit_def)
  ultimately show ?thesis by blast
qed

section \<open>Answers on the wire\<close>

text \<open>
  \<^verbatim>\<open>responseJSON\<close>: the value is absent, an error, or an object given by its fields; the content type is always
  set. A blob is sent as it is.
\<close>

datatype json_field = JText string | JNumber int

datatype payload = NoValue | ErrorValue string | Fields "(string \<times> json_field) list"

record http_answer =
  haCode :: int
  haType :: string
  haBody :: "(string \<times> json_field) list"

definition responseJSON :: "int \<Rightarrow> payload \<Rightarrow> http_answer" where
  "responseJSON code v =
     \<lparr>haCode = code, haType = ''application/json; charset=utf-8'',
      haBody = (case v of NoValue \<Rightarrow> [] | ErrorValue e \<Rightarrow> [(''error'', JText e)] | Fields fs \<Rightarrow> fs)\<rparr>"

text \<open>The answers of the handlers; \<open>errText\<close> is the text of the error behind a status, which the model leaves open.\<close>

definition clean :: http_answer where "clean = responseJSON 200 NoValue"

fun wire :: "(int \<Rightarrow> string) \<Rightarrow> Response \<Rightarrow> http_answer + string" where
  "wire errText (Status code) = Inl (responseJSON code (if code < 400 then NoValue else ErrorValue (errText code)))"
| "wire errText (Hit url key i) =
     Inl (responseJSON 200 (Fields [(''result'', JText ''hit''), (''archiveLocation'', JText url), (''cacheKey'', JText key)]))"
| "wire errText (Reserved i) = Inl (responseJSON 200 (Fields [(''cacheId'', JNumber i)]))"
| "wire errText (Blob b) = Inr b"

section \<open>Witness\<close>

theorem cache_under_faults_witness:
  "\<exists>c (b :: string). c \<in> set (dbRows (hDB (fst (handle_io newest [Fine] 0
       (run_calls (cache_io newest) (empty_cache ''/d'' ''ip'' 80)
         [ServingIO [] 0 (Reserve (Some (''k'', ''v'', 2))), ServingIO [Fine, Fine, Fine, Broken 1] 0 (Upload ''1'' ''bytes 0-1/*'' ''ab'' True),
          ServingIO [] 0 (Upload ''1'' ''bytes 0-1/*'' ''ab'' True)]) (CommitUpload ''1''))))) \<and> cComplete c \<and> cSize c = int (length b)"
proof -
  let ?cs = "[ServingIO [] 0 (Reserve (Some (''k'', ''v'', 2))), ServingIO [Fine, Fine, Fine, Broken 1] 0 (Upload ''1'' ''bytes 0-1/*'' ''ab'' True),
    ServingIO [] 0 (Upload ''1'' ''bytes 0-1/*'' ''ab'' True)]"
  let ?h = "run_calls (cache_io newest) (empty_cache ''/d'' ''ip'' 80) ?cs"
  have "fst (snd (handle_io newest [Fine] 0 ?h (CommitUpload ''1''))) = Status 200" by code_simp
  then obtain h' fs' where r: "handle_io newest [Fine] 0 ?h (CommitUpload ''1'') = (h', Status 200, fs')"
    by (metis prod.collapse)
  from cache_under_faults [OF newest_picks refl r] obtain c b where
    "c \<in> set (dbRows (hDB h'))" "cComplete c" "cSize c = int (length (b :: string))" by auto
  then show ?thesis unfolding r by (intro exI [of _ c] exI [of _ b]) simp
qed

end
