(* ===== verification/Health.thy ===== *)
theory Health
  imports Runner
begin

text \<open>
  The health server of the controller, from \<^verbatim>\<open>src/cmd/controller/main.go\<close>: the routes of
  \<^verbatim>\<open>startHealthServer\<close>, the answers of its handlers over the running controller, and the diagnostics that
  are written when the poller is found stale. The texts of durations and of the stacks are
  arguments; the profiling handlers belong to the standard library.
\<close>

section \<open>Routes\<close>

text \<open>
  \<^verbatim>\<open>http.ServeMux\<close>: a pattern that ends in a slash matches the paths below it, any other pattern
  itself; of several matching patterns the longest wins. Paths are taken to be clean.
\<close>

definition mux_matches :: "string \<Rightarrow> string \<Rightarrow> bool" where
  "mux_matches pattern path =
     (if pattern \<noteq> [] \<and> last pattern = CHR ''/'' then prefix pattern path else pattern = path)"

fun mux_handler :: "(string \<times> 'h) list \<Rightarrow> string \<Rightarrow> (string \<times> 'h) option" where
  "mux_handler [] path = None"
| "mux_handler ((pattern, h) # rest) path =
     (case mux_handler rest path of
        None \<Rightarrow> if mux_matches pattern path then Some (pattern, h) else None
      | Some (p2, h2) \<Rightarrow> if mux_matches pattern path \<and> length p2 < length pattern then Some (pattern, h) else Some (p2, h2))"

datatype health_route = Healthz | Readyz | ActiveJobs | Pprof

definition health_routes :: "(string \<times> health_route) list" where
  "health_routes = [(''/healthz'', Healthz), (''/readyz'', Readyz), (''/metrics/active-jobs'', ActiveJobs), (''/debug/pprof/'', Pprof)]"

section \<open>Answers\<close>

fun wedge_kind :: "health \<Rightarrow> string" where
  "wedge_kind (PollLoopStale _ _) = ''poll loop''"
| "wedge_kind (SuccessfulFetchStale _ _) = ''successful fetch''"
| "wedge_kind Healthy = []"

fun health_text :: "(int \<Rightarrow> string) \<Rightarrow> health \<Rightarrow> string" where
  "health_text dur Healthy = ''ok''"
| "health_text dur (PollLoopStale since threshold) =
     ''poll loop stale: last poll '' @ dur since @ '' ago (threshold '' @ dur threshold @ '')''"
| "health_text dur (SuccessfulFetchStale since threshold) =
     ''successful fetch stale: last successful fetch '' @ dur since @ '' ago (threshold '' @ dur threshold @ '')''"

text \<open>The dump on the error output: the stacks are cut off after one mebibyte.\<close>

definition dumpGoroutinesToStderr :: "(int \<Rightarrow> string) \<Rightarrow> string \<Rightarrow> string \<Rightarrow> int \<Rightarrow> int \<Rightarrow> string" where
  "dumpGoroutinesToStderr dur stacks kind since threshold =
     [NL] @ ''=== '' @ ToUpper kind @ '' WEDGED (last contact '' @ dur since @ '' ago, threshold '' @ dur threshold @ '') ==='' @ [NL] @
     take (2 ^ 20) stacks @ [NL] @ ''=== END GOROUTINE DUMP ==='' @ [NL]"

fun wedge_dump :: "(int \<Rightarrow> string) \<Rightarrow> string \<Rightarrow> health \<Rightarrow> string list" where
  "wedge_dump dur stacks (PollLoopStale since threshold) = [dumpGoroutinesToStderr dur stacks ''poll loop'' since threshold]"
| "wedge_dump dur stacks (SuccessfulFetchStale since threshold) = [dumpGoroutinesToStderr dur stacks ''successful fetch'' since threshold]"
| "wedge_dump dur stacks Healthy = []"

record health_server =
  hsRegistered :: bool
  hsCapacity :: int
  hsPollStaleness :: int
  hsFetchStaleness :: int
  hsDumped :: bool

text \<open>
  One request: code and body, what is written to the error output, and the server after it. The runner goes on while
  the request is served: \<open>r i\<close> is its state at the \<open>i\<close>-th read, and \<open>now\<close> the clock at each reading of it.
\<close>

definition health_request ::
  "(int \<Rightarrow> string) \<Rightarrow> string \<Rightarrow> health_server \<Rightarrow> (nat \<Rightarrow> runner) \<Rightarrow> (nat \<Rightarrow> int) \<Rightarrow> string \<Rightarrow> (nat \<times> string) \<times> string list \<times> health_server" where
  "health_request dur stacks hs r now path =
     (case mux_handler health_routes path of
        None \<Rightarrow> ((404, ''404 page not found'' @ [NL]), [], hs)
      | Some (_, Healthz) \<Rightarrow>
          (case healthzHandler (hsPollStaleness hs) (hsFetchStaleness hs) (hsCapacity hs) (hsDumped hs) (probe_of (\<lambda>i. rnPoller (r i)) now) of
             (h, dumps, dumped) \<Rightarrow>
               ((status_code h, health_text dur h), concat (map (wedge_dump dur stacks) dumps), hs\<lparr>hsDumped := dumped\<rparr>))
      | Some (_, Readyz) \<Rightarrow>
          ((readyzHandler (hsRegistered hs), if hsRegistered hs then ''ok'' else ''not ready''), [], hs)
      | Some (_, ActiveJobs) \<Rightarrow> ((200, metricsHandler (rnActive (r 0)) (hsCapacity hs)), [], hs)
      | Some (_, Pprof) \<Rightarrow> ((200, []), [], hs))"

text \<open>The server \<^verbatim>\<open>run\<close> starts: the runner is registered by then.\<close>

definition startHealthServer :: "Config \<Rightarrow> 'a started_scheme \<Rightarrow> health_server" where
  "startHealthServer cfg st =
     \<lparr>hsRegistered = True, hsCapacity = rcCapacity (cfRunner cfg), hsPollStaleness = stPollStaleness st,
      hsFetchStaleness = stFetchStaleness st, hsDumped = False\<rparr>"

section \<open>What the endpoints say\<close>

lemma health_paths:
  "mux_handler health_routes ''/healthz'' = Some (''/healthz'', Healthz)"
  "mux_handler health_routes ''/readyz'' = Some (''/readyz'', Readyz)"
  "mux_handler health_routes ''/metrics/active-jobs'' = Some (''/metrics/active-jobs'', ActiveJobs)"
  by (simp_all add: health_routes_def mux_matches_def)

lemma active_within_capacity:
  assumes "accounted interp world cfg r" "reach (poll_init c e) (poll_step client) (rnPoller r)"
  shows "rnActive r = int (length (rnEntered r)) \<and> length (rnEntered r) \<le> running (pHandlers (rnPoller r)) \<and>
    running (pHandlers (rnPoller r)) \<le> c"
proof -
  have "mset (rnEntered r) + mset (rnFinished r) \<subseteq># mset (running_tasks (pHandlers (rnPoller r)))"
    using assms(1) by (simp add: accounted_def)
  then have "length (rnEntered r) \<le> length (running_tasks (pHandlers (rnPoller r)))" using size_mset_mono by fastforce
  moreover have "running (pHandlers (rnPoller r)) \<le> c"
    using poll.reach_inv [OF assms(2)] reach_config [OF assms(2)] by (auto simp: poll_inv_def)
  ultimately show ?thesis using assms(1) by (simp add: accounted_def running_length)
qed

text \<open>
  C33: The endpoints of a running controller tell the truth, whatever states it passes through while a request reads
  them: it is ready; the
  number of active jobs is the number of handlers at work, within the capacity; the liveness probe
  fails only if no handler ran, the loop was not waiting and the last poll was older than its
  threshold, or if a slot was free and the last answer of the forge was older than its
  threshold, each at the moment it was read; goroutines are dumped at the first such failure and at no other request.
\<close>

theorem probes_truthful:
  assumes "run_setup w cfg deps s cl = (Inr st, s', cl')" "rcCapacity (cfRunner cfg) \<ge> 1"
    and "\<forall>i. reach (\<lambda>r. r = run_start (stPoller st)) (runner_step interp client world (stHandler st)) (r i)"
    and "hs = (startHealthServer cfg st)\<lparr>hsDumped := d\<rparr>"
  shows "fst (health_request dur stacks hs r now ''/readyz'') = (200, ''ok'') \<and>
    fst (health_request dur stacks hs r now ''/metrics/active-jobs'') =
      (200, metricsHandler (int (length (rnEntered (r 0)))) (rcCapacity (cfRunner cfg))) \<and>
    int (length (rnEntered (r 0))) \<le> rcCapacity (cfRunner cfg) \<and>
    (case health_request dur stacks hs r now ''/healthz'' of
       ((code, text), dump, hs') \<Rightarrow>
         hs' = hs\<lparr>hsDumped := d \<or> code \<noteq> 200\<rparr> \<and> length dump = (if code \<noteq> 200 \<and> \<not> d then 1 else 0) \<and>
         (code \<noteq> 200 \<longrightarrow> code = 503 \<and>
           (running (pHandlers (rnPoller (r 0))) = 0 \<and> pPc (rnPoller (r 1)) \<noteq> PBackoff \<and>
              (\<exists>t. LastPollAt (rnPoller (r 2)) = Some t \<and> now 0 - t > pollStalenessThreshold (rcFetchInterval (cfRunner cfg))) \<or>
            int (running (pHandlers (rnPoller (r 3)))) < rcCapacity (cfRunner cfg) \<and>
              (\<exists>t. LastSuccessfulFetchAt (rnPoller (r 4)) = Some t \<and>
                 now 1 - t > successFetchStalenessThreshold (rcFetchInterval (cfRunner cfg))))))"
proof -
  let ?c = "nat (rcCapacity (cfRunner cfg))" and ?p = "\<lambda>i. rnPoller (r i)"
  note reached = run_reach [OF assms(1) assms(3) [rule_format]]
  have p: "\<forall>i. reach (poll_init ?c (rcEphemeral (cfRunner cfg))) (poll_step client) (?p i)"
    using inner_poller.reach_abs [OF reached] by blast
  note a = active_within_capacity [OF runner.reach_inv [OF reached, of 0] p [rule_format]]
  have st: "stPollStaleness st = pollStalenessThreshold (rcFetchInterval (cfRunner cfg))"
    "stFetchStaleness st = successFetchStalenessThreshold (rcFetchInterval (cfRunner cfg))"
    using assms(1) by (auto simp: run_setup_def split: prod.splits sum.splits option.splits if_splits)
  define h where "h = check_health (hsPollStaleness hs) (hsFetchStaleness hs) (int ?c) (probe_of ?p now)"
  note j = health_alarm_justified [OF p h_def [symmetric]]
  have hs: "hsCapacity hs = int ?c" "hsRegistered hs" "hsPollStaleness hs = stPollStaleness st" "hsFetchStaleness hs = stFetchStaleness st"
    "hsDumped hs = d" using assms(2,4) by (simp_all add: startHealthServer_def)
  have req: "health_request dur stacks hs r now ''/healthz'' =
    ((status_code h, health_text dur h), if h = Healthy \<or> d then [] else wedge_dump dur stacks h, hs\<lparr>hsDumped := d \<or> h \<noteq> Healthy\<rparr>)"
    unfolding health_request_def by (simp add: health_paths healthzHandler_def Let_def hs h_def)
  show ?thesis
  proof (intro conjI)
    show "fst (health_request dur stacks hs r now ''/readyz'') = (200, ''ok'')"
      by (simp add: health_request_def health_paths hs readyzHandler_def)
    show "fst (health_request dur stacks hs r now ''/metrics/active-jobs'') =
      (200, metricsHandler (int (length (rnEntered (r 0)))) (rcCapacity (cfRunner cfg)))"
      using a assms(2) by (simp add: health_request_def health_paths hs)
    show "int (length (rnEntered (r 0))) \<le> rcCapacity (cfRunner cfg)" using a assms(2) by linarith
    show "case health_request dur stacks hs r now ''/healthz'' of ((code, text), dump, hs') \<Rightarrow>
         hs' = hs\<lparr>hsDumped := d \<or> code \<noteq> 200\<rparr> \<and> length dump = (if code \<noteq> 200 \<and> \<not> d then 1 else 0) \<and>
         (code \<noteq> 200 \<longrightarrow> code = 503 \<and>
           (running (pHandlers (?p 0)) = 0 \<and> pPc (?p 1) \<noteq> PBackoff \<and>
              (\<exists>t. LastPollAt (?p 2) = Some t \<and> now 0 - t > pollStalenessThreshold (rcFetchInterval (cfRunner cfg))) \<or>
            int (running (pHandlers (?p 3))) < rcCapacity (cfRunner cfg) \<and>
              (\<exists>t. LastSuccessfulFetchAt (?p 4) = Some t \<and> now 1 - t > successFetchStalenessThreshold (rcFetchInterval (cfRunner cfg)))))"
      unfolding req using j by (cases h) (auto simp: status_code_def hs st)
  qed
qed

section \<open>Witness\<close>

theorem probes_truthful_witness:
  "\<exists>st s' cl'. run_setup example_run_world example_config example_deps example_secrets example_orphans = (Inr st, s', cl') \<and>
     fst (health_request (\<lambda>_. ''1s'') [] (startHealthServer example_config st) (\<lambda>_. run_start (stPoller st)) (\<lambda>_. 0) ''/readyz'') = (200, ''ok'')"
proof -
  obtain st s' cl' where s: "run_setup example_run_world example_config example_deps example_secrets example_orphans = (Inr st, s', cl')"
    using example_started by blast
  have c: "rcCapacity (cfRunner example_config) \<ge> 1" by (simp add: example_config_def Default_def Let_def)
  have r: "\<forall>i :: nat. reach (\<lambda>r. r = run_start (stPoller st)) (runner_step example_interp example_client example_tasks (stHandler st)) (run_start (stPoller st))"
    by (intro allI reach_init) (rule refl)
  have h: "startHealthServer example_config st = (startHealthServer example_config st)\<lparr>hsDumped := False\<rparr>" by (simp add: startHealthServer_def)
  from probes_truthful [OF s c r h, of "\<lambda>_. ''1s''" "[]" "\<lambda>_. 0"] s show ?thesis by blast
qed

end
