(* ===== verification/Spec2Isabelle.thy ===== *)
theory Spec2Isabelle
  imports Labels Commands Reporter_Mask Reporter_Log Reporter_Close Reporter_Ranges Poller_Props
    Expressions_Template Watcher_Props CacheServer_Props CacheMirror_Props TaskHandler_Props Pod Recovery WatchRun CacheFaults Health
begin

text \<open>
  \<^bold>\<open>Verification of drawbar\<close>, a runner that executes the workflow jobs of a forge (Forgejo, Gitea)
  as Kubernetes pods. Paths below are relative to \<^verbatim>\<open>src/\<close>.

  \<^bold>\<open>The program.\<close> The controller (\<^verbatim>\<open>cmd/controller\<close>) loads its configuration, registers with the
  forge, sweeps what an earlier run left in the cluster and polls for tasks. For every task a
  handler reads the workflow, expands actions to steps, prepares a cache volume from a snapshot,
  builds a Kubernetes job and watches it. Inside the pod the entrypoint (\<^verbatim>\<open>cmd/entrypoint\<close>) runs
  the steps of a manifest and appends lifecycle events to a state file; a sidecar copies that file to
  its output. The watcher in the controller reads this stream and the runner's log and forwards
  both to a reporter, which buffers, masks and uploads them until the forge has everything. A
  cache server answers the cache protocol of the actions and serves action archives.

  \<^bold>\<open>Theories and sources.\<close>
  \<^item> \<^verbatim>\<open>Prelude\<close>: Go's strings, splitting, trimming, decimal numbers and replacers, the collections of
    simplification rules. \<^verbatim>\<open>Systems\<close>: reachability and the induction rule for step
    relations. \<^verbatim>\<open>Paths\<close>: Go's \<^verbatim>\<open>path/filepath\<close>. \<^verbatim>\<open>Protocol\<close>, \<^verbatim>\<open>Types\<close>: the messages of the runner protocol and the
    records of \<^verbatim>\<open>pkg/types/step.go\<close>. \<^verbatim>\<open>Cluster\<close>: named Kubernetes objects with labels and their list, create and delete calls.
  \<^item> \<^verbatim>\<open>Labels\<close>: \<^verbatim>\<open>pkg/labels/labels.go\<close> and \<^verbatim>\<open>parseLabels\<close>. \<^verbatim>\<open>K8sLabels\<close>: \<^verbatim>\<open>pkg/k8s/labels.go\<close> and \<^verbatim>\<open>sanitizeK8sName\<close>.
  \<^item> \<^verbatim>\<open>Reporter\<close> and \<^verbatim>\<open>Reporter_Mask\<close>, \<^verbatim>\<open>_Log\<close>, \<^verbatim>\<open>_Close\<close>, \<^verbatim>\<open>_Ranges\<close>: \<^verbatim>\<open>pkg/reporter/reporter.go\<close>; the record
    \<^verbatim>\<open>Reporter\<close> is the struct, one function per method, the forge an argument. \<^verbatim>\<open>Commands\<close>:
    \<^verbatim>\<open>pkg/reporter/commands.go\<close>.
  \<^item> \<^verbatim>\<open>Poller\<close>, \<^verbatim>\<open>Poller_Props\<close>: \<^verbatim>\<open>pkg/server/poller.go\<close>; the poll loop, its concurrent handlers and \<^verbatim>\<open>Shutdown\<close>
    as one interleaving step relation. \<^verbatim>\<open>Register\<close>: \<^verbatim>\<open>pkg/server/register.go\<close> and \<^verbatim>\<open>client.go\<close>.
  \<^item> \<^verbatim>\<open>FileSystem\<close>, \<^verbatim>\<open>Jail\<close>: the calls of package \<^verbatim>\<open>os\<close> over a table of nodes with links and their
    resolution, and the confinement of calls to a directory. \<^verbatim>\<open>Setup\<close>, \<^verbatim>\<open>Setup_Props\<close>: \<^verbatim>\<open>cmd/entrypoint/setup.go\<close>. \<^verbatim>\<open>TarDir\<close>:
    \<^verbatim>\<open>pkg/cache/tar.go\<close> and \<^verbatim>\<open>serveAction\<close>. \<^verbatim>\<open>CacheMirror\<close>, \<^verbatim>\<open>CacheMirror_Props\<close>: \<^verbatim>\<open>cmd/entrypoint/cache_mirror.go\<close>.
  \<^item> \<^verbatim>\<open>EnvFile\<close>, \<^verbatim>\<open>Tail\<close>, \<^verbatim>\<open>Entrypoint\<close>, \<^verbatim>\<open>Entrypoint_Props\<close>: \<^verbatim>\<open>cmd/entrypoint\<close>, what a step does to its world being a
    parameter. \<^verbatim>\<open>Expressions\<close>, \<^verbatim>\<open>Expressions_Template\<close>: \<^verbatim>\<open>pkg/expressions\<close>, the expression interpreter (a third-party
    package) being a parameter.
  \<^item> \<^verbatim>\<open>Watcher\<close>, \<^verbatim>\<open>Watcher_Props\<close>: \<^verbatim>\<open>pkg/k8s/watcher.go\<close>, over the answers the cluster gives to its polls. \<^verbatim>\<open>WatchRun\<close>:
    the same with its goroutines, the readers of log and events interleaving with the daemon of the reporter.
  \<^item> \<^verbatim>\<open>CacheDB\<close>, \<^verbatim>\<open>CacheStorage\<close>, \<^verbatim>\<open>CacheHandler\<close>, \<^verbatim>\<open>CacheProps\<close>: \<^verbatim>\<open>pkg/cache\<close>, request by request. \<^verbatim>\<open>CacheServer\<close>,
    \<^verbatim>\<open>CacheServer_Props\<close>: the same server with its goroutines, requests and collections interleaving between any two SQL
    statements or calls of the file system, with nothing assumed of the clients. \<^verbatim>\<open>CacheFaults\<close>: the server when any single one of these calls fails.
  \<^item> \<^verbatim>\<open>ActionRef\<close>, \<^verbatim>\<open>ActionLoader\<close>: \<^verbatim>\<open>pkg/actions\<close>; git and the YAML reader are parameters.
  \<^item> \<^verbatim>\<open>JobBuilder\<close>: \<^verbatim>\<open>pkg/k8s/builder.go\<close>. \<^verbatim>\<open>TaskSteps\<close>: \<^verbatim>\<open>pkg/workflow/parser.go\<close> and the step
    construction of \<^verbatim>\<open>makeTaskHandler\<close>. \<^verbatim>\<open>TaskEnv\<close>: the helpers of \<^verbatim>\<open>cmd/controller/main.go\<close> for environment, services,
    secrets and cache paths. \<^verbatim>\<open>Snapshots\<close>: \<^verbatim>\<open>pkg/snapshot/snapshot.go\<close>. \<^verbatim>\<open>TaskHandler\<close>, \<^verbatim>\<open>TaskHandler_Props\<close>:
    \<^verbatim>\<open>makeTaskHandler\<close>, \<^verbatim>\<open>reportFailure\<close> and \<^verbatim>\<open>runShutdownRecovery\<close>. The handler's context may be cancelled at any place where the
    handler meets it; a call on a cancelled context fails, so that \<^verbatim>\<open>Close\<close> on it sends nothing. The effects of a handler carry the
    requests of its report and whether \<^verbatim>\<open>Close\<close> succeeded.
  \<^item> \<^verbatim>\<open>Config\<close>: \<^verbatim>\<open>pkg/config/config.go\<close>. \<^verbatim>\<open>Controller\<close>: probes, start-up sweep and small choices of \<^verbatim>\<open>cmd/controller/main.go\<close>.
    \<^verbatim>\<open>Startup\<close>: its command line, \<^verbatim>\<open>main\<close>, and \<^verbatim>\<open>run\<close> up to the poll loop, with \<^verbatim>\<open>pkg/k8s/client.go\<close>.
  \<^item> Compositions. \<^verbatim>\<open>Runner\<close>: poller and task handlers as \<^verbatim>\<open>run\<close> combines them, one step relation that refines
    the poller's; what a task meets is a predicate, and a handler is cut off in its waits only when the poller has cancelled it. \<^verbatim>\<open>Pod\<close>: \<^verbatim>\<open>main\<close> of the entrypoint and \<^verbatim>\<open>manifest.go\<close>, started as the containers of \<^verbatim>\<open>JobBuilder\<close>
    start it. \<^verbatim>\<open>Recovery\<close>: reports of tasks that never became jobs, the sweep after a crash, the cache over a restart.
    \<^verbatim>\<open>Health\<close>: \<^verbatim>\<open>startHealthServer\<close>, its routes and answers over the running controller.

  \<^bold>\<open>What the theorems show.\<close> Log upload: the forge's log is always a prefix of what was logged, nothing
  unacknowledged is dropped, secrets without a mask character in them are masked in the uploads of their reporter, the final flush delivers everything, and log ranges of steps are exact.
  Reports: the final state has a result for every step, and these are the outcomes the
  entrypoint recorded in the events that arrived, through state file, sidecar stream, watcher and reporter and under every
  interleaving of their goroutines; each handler makes one final report, which succeeds exactly when the forge answers, unless the handler was
  cancelled before its job existed. Steps: events
  describe the run in order, the verdict and the gate after a failure are as specified, every
  variable of a step's environment has its source. Poller: capacity, single task of an ephemeral
  runner, bounds of the waits; the endpoints of the health server tell the truth and raise no false alarm. Cache: what was stored is
  found and returned, hits are sound, garbage collection is exact; under every interleaving in which no two commits of one entry overlap, complete entries keep blobs of their recorded
  size and at most one collection runs (overlapping commits can empty a blob, which is shown too), an uninterrupted request does what the sequential handler says, and failures of database and disk never lead to a
  hit or a successful commit without its blob. Files: extraction of an archive never leaves its directory, an action
  arrives in the pod as the cache server has it, replaced as a whole or not at all, and mirroring a cache path keeps all
  files when nothing on its way is a link (nested cache paths lose data, which is shown too). Pods: no
  container but the runner reaches secrets or the cache volume, and relaxed security is confined to BuildKit services without volumes. Cluster objects: volumes and snapshots are created,
  chosen, kept and removed as specified. Text handling: round trips of labels, action references and
  environment files, confinement of paths, validity of label values. The whole controller: every task handed out is waiting, at work or
  reported once, from every state it can be brought to its end whatever the tasks meet, a shutdown ends after a bounded number of steps on every
  schedule, and what a crash leaves is swept at the next start once the pod of the job exists; the containers of a
  job run exactly the manifest that was built. The places where the code does not do what it
  means to are stated as theorems of what it does do.

  \<^bold>\<open>Interfaces.\<close> Contracts between components are locales, each interpreted on the model's own
  definitions: the append-only log of the forge, the state-event sink, the blob store below the cache server, named cluster objects
  below snapshots and controller, the credential stores below registration, the source of actions below
  their expansion, invariants of step relations and of objects, and the refinement of one step relation by another.

  \<^bold>\<open>Loops, fuel and integers.\<close> Loops over data are structural recursion. Loops that wait for the outside
  (polls of the watcher, \<^verbatim>\<open>WaitForSnapshot\<close>, the tail) recurse over the finite list of answers
  observed so far, with \<^verbatim>\<open>None\<close> for a loop that is still waiting. The expansion of actions takes a depth, and one
  more than the number of known actions is proved to be enough, because an action already being expanded is refused. The
  merge of directories takes a depth, and one that exceeds the depth of the directory is proved to be enough; links in
  paths are followed at most forty times, as the kernel does.
  Go integers are \<^verbatim>\<open>int\<close> with the wrap-around written out where it can occur (row numbers, ports, durations).

  \<^bold>\<open>Not modelled.\<close> The router of the cache server (a third-party package; requests
  come as its handlers get them) and the listeners, signal delivery, the exec adapter of the watcher, which nothing calls,
  the version text set at link time, the inside of Kubernetes and HTTP clients, JSON and
  YAML codecs (parameters of the manifest, of workflows and of credentials; the evaluation context is passed as the value it encodes, and the event payload is left out), the byte format of tar archives (a list of entries), file modes, the SQL engine below the cache index (a list of rows with the
  semantics of the statements used), failures of the local file system for reasons outside the modelled table of files (a full disk, a rename or removal that fails by itself in
  \<^verbatim>\<open>setup.go\<close> or \<^verbatim>\<open>cache_mirror.go\<close>, the directories of \<^verbatim>\<open>loader.go\<close>) except in the cache server, errors of closing a file, panics, and diagnostics written to the process's own log.
\<close>

end
